(* ===== verification/SDN_Prelude.thy ===== *)
theory SDN_Prelude
  imports Main "HOL-Library.Word"
begin

text \<open>
  Shared vocabulary of the development: the machine integers of the C and C++ sources, the result
  type of operations that can fault, fixed-size character arrays with \<open>strncpy\<close>, byte
  stores and the byte-order macros, and the generic lemmas the components share.  The collection
  \<open>res_simps\<close> holds the rewrite rules of the result type, \<open>byte_simps\<close> those of the byte
  encodings.
\<close>

unbundle bit_operations_syntax

named_theorems res_simps
named_theorems byte_simps

subsection \<open>Machine integers\<close>

type_synonym u8 = "8 word"
type_synonym u16 = "16 word"
type_synonym u32 = "32 word"
type_synonym u64 = "64 word"

lemma unat_of_nat_small: "n < 2 ^ LENGTH('a) \<Longrightarrow> unat (of_nat n :: 'a::len word) = n"
  by (simp add: unat_of_nat)

lemma unat_pow2: "b < LENGTH('a) \<Longrightarrow> unat (2 ^ b :: 'a::len word) = 2 ^ b"
  using unat_of_nat_small [of "2 ^ b", where ?'a = 'a] by simp

lemma sint_small:
  assumes "unat (w :: u32) < 2 ^ 31"
  shows "sint w = int (unat w)"
proof -
  have "signed_take_bit 31 (int (unat w)) = int (unat w)"
  proof (rule signed_take_bit_int_eq_self)
    show "- (2 ^ 31) \<le> int (unat w)" by (rule order_trans [of _ 0]) simp_all
    show "int (unat w) < 2 ^ 31" using assms of_nat_less_iff [where ?'a = int, of "unat w" "2 ^ 31"] by simp
  qed
  then show ?thesis by (simp add: sint_uint)
qed

lemma sum_list_unat_le:
  fixes f :: "'b \<Rightarrow> 'a::len word"
  shows "sum_list (map (\<lambda>x. unat (f x)) xs) \<le> length xs * (2 ^ LENGTH('a) - 1)"
proof (induction xs)
  case (Cons x xs)
  have "unat (f x) \<le> 2 ^ LENGTH('a) - 1"
    using unsigned_less [where ?'a = nat, of "f x"] by linarith
  with Cons show ?case by simp
qed simp

subsection \<open>Results that may fault\<close>

text \<open>
  A C or C++ operation either returns or leaves the defined behaviour of the language: a null or
  wild dereference, an access outside an array, an operation the standard leaves undefined, an
  exception nobody catches, a call of \<open>exit\<close>, or a loop that never ends.
\<close>

datatype fault = Segfault | OutOfBounds | Undefined | Uncaught | Exited | Diverges

type_synonym 'a res = "fault + 'a"

definition bind_res :: "'a res \<Rightarrow> ('a \<Rightarrow> 'b res) \<Rightarrow> 'b res" where
  "bind_res m f = (case m of Inl e \<Rightarrow> Inl e | Inr x \<Rightarrow> f x)"

lemma bind_res_Inl [simp, res_simps]: "bind_res (Inl e) f = Inl e"
  by (simp add: bind_res_def)

lemma bind_res_Inr [simp, res_simps]: "bind_res (Inr x) f = f x"
  by (simp add: bind_res_def)

lemma bind_res_eq_Inr [res_simps]:
  "bind_res m f = Inr y \<longleftrightarrow> (\<exists>x. m = Inr x \<and> f x = Inr y)"
  by (cases m) auto

lemma bind_res_eq_Inl [res_simps]:
  "bind_res m f = Inl e \<longleftrightarrow> m = Inl e \<or> (\<exists>x. m = Inr x \<and> f x = Inl e)"
  by (cases m) auto

subsection \<open>Character arrays\<close>

text \<open>
  A C character array is a list of its length.  \<open>strncpy\<close> copies up to the terminator of
  the source and pads with terminators; it writes no terminator when the source is too long.
  \<open>c_str\<close> reads an array as a string, up to its first terminator.
\<close>

abbreviation NUL :: char where
  "NUL \<equiv> CHR 0x00"

definition c_str :: "string \<Rightarrow> string" where
  "c_str b = takeWhile (\<lambda>c. c \<noteq> NUL) b"

definition strncpy :: "nat \<Rightarrow> string \<Rightarrow> string" where
  "strncpy n src = (let s = take n (c_str src) in s @ replicate (n - length s) NUL)"

lemma length_strncpy [simp]: "length (strncpy n s) = n"
  by (simp add: strncpy_def Let_def)

lemma NUL_notin_c_str [simp]: "NUL \<notin> set (c_str b)"
  by (auto simp: c_str_def dest: set_takeWhileD)

lemma c_str_id: "NUL \<notin> set s \<Longrightarrow> c_str s = s"
  by (auto simp: c_str_def intro: takeWhile_eq_all_conv [THEN iffD2])

lemma c_str_pad [simp]: "NUL \<notin> set s \<Longrightarrow> c_str (s @ replicate n NUL) = s"
  by (cases n) (auto simp: c_str_def takeWhile_append)

lemma c_str_strncpy: "c_str (strncpy n s) = take n (c_str s)"
proof -
  have "NUL \<notin> set (take n (c_str s))"
    by (meson NUL_notin_c_str in_set_takeD)
  then show ?thesis
    by (simp add: strncpy_def Let_def)
qed

lemma strncpy_strncpy: "m \<le> n \<Longrightarrow> strncpy m (strncpy n s) = strncpy m s"
  by (simp add: strncpy_def [of m] c_str_strncpy min_absorb1)

lemma c_str_strncpy_fits: "length (c_str s) \<le> n \<Longrightarrow> c_str (strncpy n s) = c_str s"
  by (simp add: c_str_strncpy)

subsection \<open>Byte encodings\<close>

text \<open>
  The bytes of an unsigned value, least significant first, as a little-endian host keeps it in
  memory; the big-endian form is the reverse, which is what a store of \<open>htobe16/32/64\<close> leaves.
\<close>

fun le_bytes :: "nat \<Rightarrow> nat \<Rightarrow> u8 list" where
  "le_bytes 0 v = []"
| "le_bytes (Suc n) v = of_nat (v mod 256) # le_bytes n (v div 256)"

fun le_value :: "u8 list \<Rightarrow> nat" where
  "le_value [] = 0"
| "le_value (b # bs) = unat b + 256 * le_value bs"

definition be_bytes :: "nat \<Rightarrow> nat \<Rightarrow> u8 list" where
  "be_bytes n v = rev (le_bytes n v)"

definition be_value :: "u8 list \<Rightarrow> nat" where
  "be_value bs = le_value (rev bs)"

lemma length_le_bytes [simp, byte_simps]: "length (le_bytes n v) = n"
  by (induction n arbitrary: v) auto

lemma length_be_bytes [simp, byte_simps]: "length (be_bytes n v) = n"
  by (simp add: be_bytes_def)

lemma le_value_le_bytes [byte_simps]: "le_value (le_bytes n v) = v mod 256 ^ n"
proof (induction n arbitrary: v)
  case (Suc n)
  have "unat (of_nat (v mod 256) :: u8) = v mod 256"
    by (intro unat_of_nat_small) simp
  with Suc show ?case
    by (simp add: mod_mult2_eq add.commute)
qed simp

lemma le_bytes_le_value [byte_simps]: "le_bytes (length bs) (le_value bs) = bs"
proof (induction bs)
  case (Cons b bs)
  have b: "unat b < 256" using unsigned_less [where ?'a = nat, of b] by simp
  then have "(unat b + 256 * le_value bs) mod 256 = unat b"
    "(unat b + 256 * le_value bs) div 256 = le_value bs"
    by simp_all
  with Cons show ?case by (simp del: of_nat_add)
qed simp

lemma be_value_be_bytes [byte_simps]: "be_value (be_bytes n v) = v mod 256 ^ n"
  by (simp add: be_value_def be_bytes_def le_value_le_bytes)

lemma unat_lt_256: "unat (w :: u16) < 256 ^ 2" "unat (x :: u32) < 256 ^ 4" "unat (y :: u64) < 256 ^ 8"
  using unsigned_less [where ?'a = nat, of w] unsigned_less [where ?'a = nat, of x]
    unsigned_less [where ?'a = nat, of y]
  by simp_all

text \<open>An index of a ring whose size is a power of two.\<close>

lemma unat_mask_add:
  assumes "c = 2 ^ b" "b < 32"
  shows "unat (((x :: u32) + of_nat k) AND (c - 1)) = (unat x + k) mod 2 ^ b"
proof -
  have "(x + of_nat k) AND (c - 1) = take_bit b (x + of_nat k)"
    by (simp add: assms take_bit_eq_mask mask_eq_exp_minus_1)
  then have "unat ((x + of_nat k) AND (c - 1)) = unat (x + of_nat k) mod 2 ^ b"
    by (simp only: unsigned_take_bit_eq) (simp add: take_bit_eq_mod)
  also have "unat (x + of_nat k) = (unat x + k) mod 2 ^ 32"
    by (simp add: unat_word_ariths unsigned_of_nat take_bit_eq_mod mod_simps)
  also have "\<dots> mod 2 ^ b = (unat x + k) mod 2 ^ b"
    by (rule mod_mod_cancel) (use assms(2) in \<open>simp add: le_imp_power_dvd del: numeral_power_eq_of_nat_cancel_iff power_numeral\<close>)
  finally show ?thesis .
qed

end
