(* ===== verification/Shared_Memory.thy ===== *)
theory Shared_Memory
  imports SDN_Prelude
begin

text \<open>
  The shared-memory segment between the modified send path and the reporting client:
  \<open>Amount\<close>, \<open>Cache\<close> and \<open>SHM\<close>, declared in both \<open>sync/common.hpp\<close> and
  \<open>providers/mlx5/qp.c\<close>, with the producer's store (the end of \<open>flow_forecast\<close>) and the
  initialisation of \<open>alloc_shared_memory\<close>.  The array \<open>amount\<close> is a function on indices;
  the accesses carry their own bound checks.  \<open>ring_idx\<close> reads the ring as the list of the slots
  from the tail to the head, and the channel locale states what the two ends of a ring promise
  each other, with the in-order delivery that follows.
\<close>

definition flow_NUM :: nat where
  "flow_NUM = 10000"

definition CACHE_NUM :: nat where
  "CACHE_NUM = 521"

record Amount =
  a_gid :: string
  a_name :: string
  a_ip :: string
  a_tx :: u64
  a_rx :: u64
  a_tm :: u64

record Cache =
  c_qp_num :: u32
  c_path_mtu :: u8
  c_gid :: string

record SHM =
  shm_t :: int
  shm_h :: int
  amount :: "nat \<Rightarrow> Amount"
  cache :: "nat \<Rightarrow> Cache"

definition zero_Amount :: Amount where
  "zero_Amount = \<lparr>a_gid = replicate 16 NUL, a_name = replicate 64 NUL, a_ip = replicate 32 NUL,
     a_tx = 0, a_rx = 0, a_tm = 0\<rparr>"

definition zero_Cache :: Cache where
  "zero_Cache = \<lparr>c_qp_num = 0, c_path_mtu = 0, c_gid = replicate 16 NUL\<rparr>"

text \<open>
  \<open>alloc_shared_memory\<close> zeroes the segment and both indices; a negative \<open>shmid\<close> makes it
  return \<open>-errno\<close> without touching it.
\<close>

definition alloc_shared_memory :: "int \<Rightarrow> int \<Rightarrow> SHM \<Rightarrow> int \<times> SHM" where
  "alloc_shared_memory shmid errno s =
     (if shmid < 0 then (- errno, s)
      else (0, \<lparr>shm_t = 0, shm_h = 0, amount = (\<lambda>_. zero_Amount), cache = (\<lambda>_. zero_Cache)\<rparr>))"

text \<open>
  The store at the end of \<open>flow_forecast\<close>: the record goes to the slot at the head, its
  \<open>ip\<close> field is not written, and the head moves on modulo \<open>FLOW_NUM\<close>.
\<close>

definition put_record ::
    "string \<Rightarrow> string \<Rightarrow> u64 \<Rightarrow> u64 \<Rightarrow> u64 \<Rightarrow> SHM \<Rightarrow> SHM res" where
  "put_record gid dev tx rx tm s =
     (if shm_h s < 0 \<or> int flow_NUM \<le> shm_h s then Inl OutOfBounds
      else
        let i = nat (shm_h s);
            a = (amount s i)\<lparr>a_gid := strncpy 16 gid, a_rx := rx, a_tx := tx,
                  a_name := strncpy 64 dev, a_tm := tm\<rparr>
        in Inr (s\<lparr>amount := (amount s)(i := a), shm_h := (shm_h s + 1) mod int flow_NUM\<rparr>))"

subsection \<open>The ring as a list\<close>

definition ring_idx :: "nat \<Rightarrow> nat \<Rightarrow> nat list" where
  "ring_idx t h = (if t \<le> h then [t..<h] else [t..<flow_NUM] @ [0..<h])"

definition ring_ok :: "SHM \<Rightarrow> bool" where
  "ring_ok s \<longleftrightarrow> 0 \<le> shm_t s \<and> shm_t s < int flow_NUM \<and> 0 \<le> shm_h s \<and> shm_h s < int flow_NUM"

text \<open>One slot stays free: a ring that is full would look empty.\<close>

definition ring_room :: "SHM \<Rightarrow> bool" where
  "ring_room s \<longleftrightarrow> (shm_h s + 1) mod int flow_NUM \<noteq> shm_t s"

lemma flow_NUM_pos [simp]: "0 < flow_NUM"
  by (simp add: flow_NUM_def)

lemma mod_succ_eq:
  "0 \<le> h \<Longrightarrow> h < int n \<Longrightarrow> (h + 1) mod int n = (if h + 1 = int n then 0 else h + 1)"
  by (cases "h + 1 = int n") auto

lemma ring_idx_put:
  assumes "t < flow_NUM" "h < flow_NUM" "Suc h mod flow_NUM \<noteq> t"
  shows "ring_idx t (Suc h mod flow_NUM) = ring_idx t h @ [h]"
proof (cases "Suc h = flow_NUM")
  case True
  then have z: "Suc h mod flow_NUM = 0" and u: "[t..<flow_NUM] = [t..<h] @ [h]" if "t \<le> h"
    using that upt_Suc [of t h] by simp_all
  from True assms have "t \<le> h" "t \<noteq> 0" by auto
  with z u show ?thesis by (simp add: ring_idx_def)
next
  case False
  with assms have "Suc h mod flow_NUM = Suc h" by simp
  with assms show ?thesis
    by (auto simp: ring_idx_def)
qed

lemma ring_idx_empty [simp]: "ring_idx h h = []"
  by (simp add: ring_idx_def)

lemma ring_idx_bound: "t < flow_NUM \<Longrightarrow> h < flow_NUM \<Longrightarrow> i \<in> set (ring_idx t h) \<Longrightarrow> i < flow_NUM"
  by (auto simp: ring_idx_def split: if_splits)

lemma head_notin_ring_idx: "h \<notin> set (ring_idx t h)"
  by (auto simp: ring_idx_def)

lemma length_ring_idx:
  "t < flow_NUM \<Longrightarrow> h < flow_NUM \<Longrightarrow>
   length (ring_idx t h) = (if t \<le> h then h - t else flow_NUM - t + h)"
  by (simp add: ring_idx_def)

definition pending :: "(Amount \<Rightarrow> 'b) \<Rightarrow> SHM \<Rightarrow> 'b list" where
  "pending view s = map (\<lambda>i. view (amount s i)) (ring_idx (nat (shm_t s)) (nat (shm_h s)))"

lemma ring_ok_nat:
  "ring_ok s \<Longrightarrow> nat (shm_t s) < flow_NUM \<and> nat (shm_h s) < flow_NUM"
  by (auto simp: ring_ok_def)

lemma ring_ok_head_succ:
  "ring_ok s \<Longrightarrow> nat ((shm_h s + 1) mod int flow_NUM) = Suc (nat (shm_h s)) mod flow_NUM"
  unfolding ring_ok_def
  by (simp add: nat_mod_distrib nat_add_distrib)

subsection \<open>The contract of a record channel\<close>

text \<open>
  A run of the two ends of a channel: \<open>Inl a\<close> is a store by the producer, \<open>Inr ()\<close> a turn of the
  consumer, which takes everything.  \<open>channel_run\<close> returns what was delivered and the final
  state, \<open>channel_roomy\<close> says that no store found the channel full, and \<open>channel_stored\<close> lists
  the stores.
\<close>

fun channel_run ::
    "('a \<Rightarrow> 's \<Rightarrow> 's) \<Rightarrow> ('s \<Rightarrow> 'b list \<times> 's) \<Rightarrow> ('a + unit) list \<Rightarrow> 's \<Rightarrow> 'b list \<times> 's" where
  "channel_run put drain [] s = ([], s)"
| "channel_run put drain (Inl a # es) s = channel_run put drain es (put a s)"
| "channel_run put drain (Inr u # es) s =
     (fst (drain s) @ fst (channel_run put drain es (snd (drain s))),
      snd (channel_run put drain es (snd (drain s))))"

fun channel_roomy ::
    "('s \<Rightarrow> bool) \<Rightarrow> ('a \<Rightarrow> 's \<Rightarrow> 's) \<Rightarrow> ('s \<Rightarrow> 'b list \<times> 's) \<Rightarrow> ('a + unit) list \<Rightarrow> 's \<Rightarrow> bool" where
  "channel_roomy room put drain [] s = True"
| "channel_roomy room put drain (Inl a # es) s =
     (room s \<and> channel_roomy room put drain es (put a s))"
| "channel_roomy room put drain (Inr u # es) s = channel_roomy room put drain es (snd (drain s))"

fun channel_stored :: "('a \<Rightarrow> 'b) \<Rightarrow> ('a + unit) list \<Rightarrow> 'b list" where
  "channel_stored view [] = []"
| "channel_stored view (Inl a # es) = view a # channel_stored view es"
| "channel_stored view (Inr u # es) = channel_stored view es"

text \<open>
  The laws of the two ends.  In-order delivery follows from them: what was in the channel and what
  was stored since is, in order, what was delivered followed by what the channel still holds.
\<close>

locale record_channel =
  fixes ok :: "'s \<Rightarrow> bool"
    and room :: "'s \<Rightarrow> bool"
    and put :: "'a \<Rightarrow> 's \<Rightarrow> 's"
    and drain :: "'s \<Rightarrow> 'b list \<times> 's"
    and view :: "'a \<Rightarrow> 'b"
    and content :: "'s \<Rightarrow> 'b list"
  assumes content_put: "ok s \<Longrightarrow> room s \<Longrightarrow> content (put a s) = content s @ [view a]"
    and ok_put: "ok s \<Longrightarrow> ok (put a s)"
    and drain_content: "ok s \<Longrightarrow> fst (drain s) = content s"
    and drain_empty: "ok s \<Longrightarrow> content (snd (drain s)) = []"
    and ok_drain: "ok s \<Longrightarrow> ok (snd (drain s))"
begin

lemma ok_run: "ok s \<Longrightarrow> ok (snd (channel_run put drain es s))"
proof (induction es arbitrary: s)
  case (Cons e es)
  then show ?case by (cases e) (auto simp: ok_put ok_drain)
qed simp

lemma in_order_delivery:
  "ok s \<Longrightarrow> channel_roomy room put drain es s \<Longrightarrow>
   fst (channel_run put drain es s) @ content (snd (channel_run put drain es s)) =
   content s @ channel_stored view es"
proof (induction es arbitrary: s)
  case (Cons e es)
  then show ?case
    by (cases e) (auto simp: content_put ok_put ok_drain drain_content drain_empty)
qed simp

end

end
