(* ===== verification/Report_Wire.thy ===== *)
theory Report_Wire
  imports Shared_Memory
begin

text \<open>
  The byte stream between the client and the controller: \<open>sock_read\<close> and \<open>sock_write\<close> of
  \<open>sync/common.hpp\<close>, the layout of an \<open>Amount\<close> on a little-endian host (136 bytes without
  padding), and the cut of a received buffer into whole records (\<open>sync/server.cpp\<close>,
  \<open>main\<close>).  The kernel's side of a socket is a list of events.  A \<open>read\<close> takes at most the
  requested bytes of the next data event and leaves the rest; with no event left it fails, as a
  non-blocking socket does.  A \<open>write\<close> event says how many bytes the kernel takes.
\<close>

subsection \<open>Reading\<close>

datatype sock_ev = Data "u8 list" | Err int | Eof

fun os_read :: "nat \<Rightarrow> sock_ev list \<Rightarrow> int \<times> u8 list \<times> sock_ev list" where
  "os_read len [] = (-1, [], [])"
| "os_read len (Err e # es) = (-1, [], es)"
| "os_read len (Eof # es) = (0, [], Eof # es)"
| "os_read len (Data bs # es) =
     (int (length (take len bs)), take len bs,
      if length bs \<le> len then es else Data (drop len bs) # es)"

lemma os_read_length: "os_read len es = (nr, bs, es') \<Longrightarrow> nr \<noteq> -1 \<Longrightarrow> nr = int (length bs) \<and> length bs \<le> len"
  by (cases "(len, es)" rule: os_read.cases) (auto split: if_splits)

text \<open>
  The loop of \<open>sock_read\<close>: it ends when the buffer is full, on a failed read, or on an end of
  file.  A failed read ends the loop before its body, so the branch of the body that would return
  \<open>-1\<close> is not reached.
\<close>

function sock_read_loop :: "nat \<Rightarrow> sock_ev list \<Rightarrow> int \<Rightarrow> u8 list \<Rightarrow> int \<times> u8 list \<times> sock_ev list" where
  "sock_read_loop len es tot buf =
     (if len = 0 then (tot, buf, es)
      else case os_read len es of (nr, bs, es') \<Rightarrow>
        if nr = -1 then (tot, buf, es')
        else if nr \<le> 0 then (tot, buf, es')
        else sock_read_loop (len - length bs) es' (tot + nr) (buf @ bs))"
  by pat_completeness auto
termination
  apply (relation "measure (\<lambda>(len, _). len)")
   apply simp
  subgoal for len es tot buf nr y bs es'
    using os_read_length [of len es nr bs es'] by (cases bs) auto
  done

declare sock_read_loop.simps [simp del]

definition sock_read :: "sock_ev list \<Rightarrow> nat \<Rightarrow> int \<times> u8 list \<times> sock_ev list" where
  "sock_read es len = sock_read_loop len es 0 []"

subsection \<open>Writing\<close>

datatype write_ev = Took nat | WErr int

definition EINTR :: int where
  "EINTR = 4"

text \<open>
  The result is the return value, the bytes handed to the kernel and the events left; \<open>None\<close> is
  a call that still waits for the kernel.
\<close>

fun sock_write_loop :: "u8 list \<Rightarrow> int \<Rightarrow> u8 list \<Rightarrow> write_ev list \<Rightarrow> (int \<times> u8 list \<times> write_ev list) option" where
  "sock_write_loop [] tot out es = Some (tot, out, es)"
| "sock_write_loop (b # bs) tot out [] = None"
| "sock_write_loop (b # bs) tot out (WErr e # es) =
     (if e = EINTR then sock_write_loop (b # bs) tot out es else Some (-1, out, es))"
| "sock_write_loop (b # bs) tot out (Took k # es) =
     (let n = min k (length (b # bs))
      in if n = 0 then Some (-1, out, es)
         else sock_write_loop (drop n (b # bs)) (tot + int n) (out @ take n (b # bs)) es)"

definition sock_write :: "u8 list \<Rightarrow> write_ev list \<Rightarrow> (int \<times> u8 list \<times> write_ev list) option" where
  "sock_write buf es = sock_write_loop buf 0 [] es"

subsection \<open>The layout of a record\<close>

definition sizeof_Amount :: nat where
  "sizeof_Amount = 136"

definition chars_bytes :: "string \<Rightarrow> u8 list" where
  "chars_bytes s = map of_char s"

definition bytes_chars :: "u8 list \<Rightarrow> string" where
  "bytes_chars bs = map (\<lambda>b. char_of (unat b)) bs"

definition encode_Amount :: "Amount \<Rightarrow> u8 list" where
  "encode_Amount a =
     chars_bytes (a_gid a) @ chars_bytes (a_name a) @ chars_bytes (a_ip a) @
     le_bytes 8 (unat (a_tx a)) @ le_bytes 8 (unat (a_rx a)) @ le_bytes 8 (unat (a_tm a))"

definition decode_Amount :: "u8 list \<Rightarrow> Amount" where
  "decode_Amount bs =
     \<lparr>a_gid = bytes_chars (take 16 bs),
      a_name = bytes_chars (take 64 (drop 16 bs)),
      a_ip = bytes_chars (take 32 (drop 80 bs)),
      a_tx = of_nat (le_value (take 8 (drop 112 bs))),
      a_rx = of_nat (le_value (take 8 (drop 120 bs))),
      a_tm = of_nat (le_value (take 8 (drop 128 bs)))\<rparr>"

definition amount_wf :: "Amount \<Rightarrow> bool" where
  "amount_wf a \<longleftrightarrow> length (a_gid a) = 16 \<and> length (a_name a) = 64 \<and> length (a_ip a) = 32"

text \<open>
  \<open>main\<close> of the server passes \<open>read_tal / sizeof(Amount)\<close> records of the buffer on; bytes after
  the last whole record are dropped with the buffer.
\<close>

fun decode_records :: "nat \<Rightarrow> u8 list \<Rightarrow> Amount list" where
  "decode_records 0 bs = []"
| "decode_records (Suc n) bs =
     decode_Amount (take sizeof_Amount bs) # decode_records n (drop sizeof_Amount bs)"

definition recv_records :: "sock_ev list \<Rightarrow> Amount list \<times> sock_ev list" where
  "recv_records es =
     (case sock_read es (sizeof_Amount * flow_NUM) of (read_tal, buf, es') \<Rightarrow>
        (decode_records (nat read_tal div sizeof_Amount) buf, es'))"

subsection \<open>The stream is conserved\<close>

fun stream_bytes :: "sock_ev list \<Rightarrow> u8 list" where
  "stream_bytes [] = []"
| "stream_bytes (Data bs # es) = bs @ stream_bytes es"
| "stream_bytes (Err e # es) = stream_bytes es"
| "stream_bytes (Eof # es) = stream_bytes es"

lemma os_read_stream: "os_read len es = (nr, bs, es') \<Longrightarrow> stream_bytes es = bs @ stream_bytes es'"
  by (cases "(len, es)" rule: os_read.cases) (auto split: if_splits)

lemma sock_read_loop_spec:
  "sock_read_loop len es tot buf = (r, out, es') \<Longrightarrow>
   \<exists>bs. out = buf @ bs \<and> r = tot + int (length bs) \<and> length bs \<le> len \<and>
     stream_bytes es = bs @ stream_bytes es'"
proof (induction len es tot buf arbitrary: r out es' rule: sock_read_loop.induct)
  case (1 len es tot buf)
  obtain nr bs es1 where o: "os_read len es = (nr, bs, es1)" by (cases "os_read len es")
  note unf = sock_read_loop.simps [of len es tot buf]
  show ?case
  proof (cases "len = 0 \<or> nr \<le> 0")
    case True
    then show ?thesis
    proof (cases "len = 0")
      case False
      with True o 1(2) have "r = tot" "out = buf" "es' = es1"
        by (auto simp: unf split: if_splits)
      moreover have "bs = []"
        using o True False os_read_length [OF o] by (cases "(len, es)" rule: os_read.cases) auto
      ultimately show ?thesis using os_read_stream [OF o] by simp
    next
      case len0: True
      with 1(2) show ?thesis using unf by auto
    qed
  next
    case False
    with o 1(2) have "sock_read_loop (len - length bs) es1 (tot + nr) (buf @ bs) = (r, out, es')"
      by (auto simp: unf)
    with 1(1) [OF _ o [symmetric] refl] False obtain cs where
      "out = buf @ bs @ cs" "r = tot + nr + int (length cs)" "length cs \<le> len - length bs"
      "stream_bytes es1 = cs @ stream_bytes es'"
      by auto
    moreover have "nr = int (length bs)" "length bs \<le> len"
      using os_read_length [OF o] False by auto
    ultimately show ?thesis
      using os_read_stream [OF o] by (intro exI [of _ "bs @ cs"]) auto
  qed
qed

lemma sock_write_loop_spec:
  "sock_write_loop buf tot out es = Some (r, out', es') \<Longrightarrow>
   (r = tot + int (length buf) \<and> out' = out @ buf) \<or>
   (r = -1 \<and> (\<exists>n < length buf. out' = out @ take n buf))"
proof (induction buf tot out es arbitrary: r out' es' rule: sock_write_loop.induct)
  case (4 b bs tot out k es)
  define n where "n = min k (length (b # bs))"
  have n_le: "n \<le> length (b # bs)" by (simp add: n_def)
  show ?case
  proof (cases "n = 0")
    case True
    with 4(2) show ?thesis by (auto simp: n_def)
  next
    case False
    with 4(2) have "sock_write_loop (drop n (b # bs)) (tot + int n) (out @ take n (b # bs)) es =
        Some (r, out', es')"
      by (simp only: sock_write_loop.simps Let_def n_def [symmetric] if_False)
    from 4(1) [OF n_def False this] show ?thesis
    proof (elim disjE conjE exE)
      assume "r = tot + int n + int (length (drop n (b # bs)))"
        "out' = (out @ take n (b # bs)) @ drop n (b # bs)"
      with n_le show ?thesis by simp
    next
      fix m
      assume "r = -1" "m < length (drop n (b # bs))"
        "out' = (out @ take n (b # bs)) @ take m (drop n (b # bs))"
      then show ?thesis
        by (intro disjI2 conjI exI [of _ "n + m"]) (auto simp: take_add simp del: append_take_drop_id)
    qed
  qed
qed (auto split: if_splits)

subsection \<open>Records on the wire\<close>

lemma bytes_chars_bytes [simp, byte_simps]: "bytes_chars (chars_bytes s) = s"
proof -
  have "char_of (unat (of_char c :: u8)) = c" for c
  proof -
    have "(of_char c :: nat) < 256" by simp
    then have "unat (of_nat (of_char c) :: u8) = of_char c" by (intro unat_of_nat_small) simp
    then show ?thesis by (simp add: of_nat_of_char)
  qed
  then show ?thesis by (simp add: bytes_chars_def chars_bytes_def o_def)
qed

lemma length_chars_bytes [simp, byte_simps]: "length (chars_bytes s) = length s"
  by (simp add: chars_bytes_def)

lemma length_encode_Amount: "amount_wf a \<Longrightarrow> length (encode_Amount a) = sizeof_Amount"
  by (simp add: encode_Amount_def amount_wf_def sizeof_Amount_def)

lemma le_value_u64 [simp, byte_simps]: "of_nat (le_value (le_bytes 8 (unat w))) = (w :: u64)"
  using unat_lt_256(3) [of w] by (simp add: le_value_le_bytes)

lemma decode_encode_Amount: "amount_wf a \<Longrightarrow> decode_Amount (encode_Amount a) = a"
  by (simp add: decode_Amount_def encode_Amount_def amount_wf_def)

lemma decode_records_encode:
  "\<forall>a \<in> set as. amount_wf a \<Longrightarrow>
   decode_records (length as) (concat (map encode_Amount as) @ rest) = as"
  by (induction as) (auto simp: length_encode_Amount decode_encode_Amount)

lemma length_encode_list:
  "\<forall>a \<in> set as. amount_wf a \<Longrightarrow> length (concat (map encode_Amount as)) = sizeof_Amount * length as"
  by (induction as) (auto simp: length_encode_Amount)

lemma sock_read_loop_chunks:
  "[] \<notin> set cs \<Longrightarrow> length (concat cs) \<le> len \<Longrightarrow>
   sock_read_loop len (map Data cs) tot buf = (tot + int (length (concat cs)), buf @ concat cs, [])"
proof (induction cs arbitrary: len tot buf)
  case Nil
  then show ?case by (subst sock_read_loop.simps) simp
next
  case (Cons c cs)
  then have c: "c \<noteq> []" "length c \<le> len" by auto
  then have "os_read len (map Data (c # cs)) = (int (length c), c, map Data cs)" by simp
  moreover have "sock_read_loop (len - length c) (map Data cs) (tot + int (length c)) (buf @ c) =
      (tot + int (length c) + int (length (concat cs)), (buf @ c) @ concat cs, [])"
    using Cons.prems c by (intro Cons.IH) auto
  moreover have "len \<noteq> 0" "int (length c) \<noteq> -1" "\<not> int (length c) \<le> 0"
    using c by (cases c; simp)+
  ultimately show ?case
    unfolding sock_read_loop.simps [of len] by (simp del: os_read.simps list.map)
qed

lemma sock_read_chunks:
  "[] \<notin> set cs \<Longrightarrow> length (concat cs) \<le> len \<Longrightarrow>
   sock_read (map Data cs) len = (int (length (concat cs)), concat cs, [])"
  by (simp add: sock_read_def sock_read_loop_chunks)

lemma sock_read_short:
  assumes "bs \<noteq> []" "length bs < len"
  shows "sock_read (Data bs # Err e # es) len = (int (length bs), bs, es)"
  using assms
  by (simp add: sock_read_def sock_read_loop.simps [of len] sock_read_loop.simps [of "len - length bs"])

text \<open>
  C37. What \<open>sock_read\<close> returns is never negative and is the number of bytes it stored, the stored
  bytes are the next bytes of the stream, and no byte is lost or duplicated between calls.  The
  test of the caller for a negative result therefore never fires.
\<close>
theorem sock_read_conserves:
  assumes "sock_read es len = (r, buf, es')"
  shows "r = int (length buf) \<and> length buf \<le> len \<and> stream_bytes es = buf @ stream_bytes es'"
  using sock_read_loop_spec [OF assms [unfolded sock_read_def]] by auto

theorem sock_read_conserves_witness:
  "sock_read [Data [1, 2, 3], Err 11, Data [4]] 10 = (3, [1, 2, 3], [Data [4]]) \<and>
   stream_bytes [Data [1, 2, 3], Err 11, Data [4]] = [1, 2, 3] @ stream_bytes [Data [4]]"
proof -
  have r: "sock_read [Data [1, 2, 3], Err 11, Data [4]] 10 = (3, [1, 2, 3], [Data [4]])"
    by (simp add: sock_read_short)
  with sock_read_conserves [OF r] show ?thesis by simp
qed

text \<open>
  \<open>sock_write\<close> is all or error: through any sequence of partial writes and interruptions it
  either hands the whole buffer to the kernel in order and returns its length, or returns
  \<open>-1\<close> after a proper prefix.
\<close>
theorem sock_write_all_or_error:
  assumes "sock_write buf es = Some (r, out, es')"
  shows "(r = int (length buf) \<and> out = buf) \<or> (r = -1 \<and> (\<exists>n < length buf. out = take n buf))"
  using sock_write_loop_spec [OF assms [unfolded sock_write_def]] by auto

theorem sock_write_all_or_error_witness:
  "sock_write [1, 2, 3] [Took 1, WErr EINTR, Took 5] = Some (3, [1, 2, 3], []) \<and>
   ((3 = int (length [1, 2, 3 :: u8]) \<and> [1, 2, 3] = [1, 2, 3 :: u8]) \<or>
    ((3 :: int) = -1 \<and> (\<exists>n < length [1, 2, 3 :: u8]. [1, 2, 3] = take n [1, 2, 3 :: u8])))"
proof -
  have r: "sock_write [1, 2, 3] [Took 1, WErr EINTR, Took 5] = Some (3, [1, 2, 3], [])"
    by (simp add: sock_write_def)
  with sock_write_all_or_error [OF r] show ?thesis by blast
qed

lemma recv_records_chunks:
  assumes "\<forall>a \<in> set as. amount_wf a" "length as \<le> flow_NUM"
    and "[] \<notin> set cs" "concat cs = concat (map encode_Amount as)"
  shows "recv_records (map Data cs) = (as, [])"
proof -
  have l: "length (concat cs) = sizeof_Amount * length as"
    using assms(1,4) by (simp add: length_encode_list)
  then have "length (concat cs) \<le> sizeof_Amount * flow_NUM"
    using assms(2) by simp
  with assms(3) have "sock_read (map Data cs) (sizeof_Amount * flow_NUM) =
      (int (length (concat cs)), concat cs, [])"
    by (rule sock_read_chunks)
  moreover have "nat (int (length (concat cs))) div sizeof_Amount = length as"
    by (simp add: l sizeof_Amount_def)
  moreover have "decode_records (length as) (concat cs) = as"
    using decode_records_encode [OF assms(1), of "[]"] assms(4) by simp
  ultimately show ?thesis by (simp add: recv_records_def)
qed



text \<open>
  A record that the socket delivers in two reads is lost: the server keeps only whole records
  of one read, drops the started one with its buffer, and takes the rest for the start of the
  next.  The two reads together decode nothing.
\<close>
theorem recv_records_split_lost:
  assumes "amount_wf a" "0 < k" "k < sizeof_Amount"
  shows "\<exists>es'. recv_records [Data (take k (encode_Amount a)), Err e, Data (drop k (encode_Amount a))] =
    ([], es') \<and> recv_records es' = ([], [])"
proof -
  have len: "length (encode_Amount a) = sizeof_Amount" using assms(1) by (rule length_encode_Amount)
  let ?p = "take k (encode_Amount a)" and ?q = "drop k (encode_Amount a)"
  have p: "?p \<noteq> []" "length ?p = k" and q: "?q \<noteq> []" "length ?q = sizeof_Amount - k"
    using len assms(2,3) by auto
  have "recv_records [Data ?p, Err e, Data ?q] = ([], [Data ?q])"
    using p assms(3)
    by (simp add: recv_records_def sock_read_short flow_NUM_def sizeof_Amount_def)
  moreover have "recv_records [Data ?q] = ([], [])"
    using sock_read_chunks [of "[?q]" "sizeof_Amount * flow_NUM"] q assms(2)
    by (simp add: recv_records_def flow_NUM_def sizeof_Amount_def)
  ultimately show ?thesis by blast
qed

theorem recv_records_split_lost_witness:
  "\<exists>es'. recv_records [Data (take 100 (encode_Amount zero_Amount)), Err 11,
      Data (drop 100 (encode_Amount zero_Amount))] = ([], es') \<and> recv_records es' = ([], [])"
  by (rule recv_records_split_lost)
    (simp_all add: amount_wf_def zero_Amount_def sizeof_Amount_def)

end
