(* ===== verification/Client.thy ===== *)
theory Client
  imports Report_Wire
begin

text \<open>
  The reporting client, \<open>sync/client.cpp\<close>: the table from device names to addresses read from
  the output of \<open>show_gids\<close>, and one turn of the reporting loop, which fills the \<open>ip\<close> field of
  the pending records, writes them to the socket in one or two blocks and moves the tail.  The
  channel of the shared memory theory is interpreted on the ring, with the store of the forecast at
  one end and a turn of the client at the other.
\<close>

subsection \<open>The table of device addresses\<close>

definition is_ws :: "char \<Rightarrow> bool" where
  "is_ws c \<longleftrightarrow> c \<in> {CHR '' '', CHR 0x09, CHR 0x0A, CHR 0x0B, CHR 0x0C, CHR 0x0D}"

function tokens :: "string \<Rightarrow> string list" where
  "tokens s =
     (case dropWhile is_ws s of
        [] \<Rightarrow> []
      | c # cs \<Rightarrow> (c # takeWhile (\<lambda>x. \<not> is_ws x) cs) # tokens (dropWhile (\<lambda>x. \<not> is_ws x) cs))"
  by pat_completeness auto
termination
proof (relation "measure length")
  fix s c cs
  assume "dropWhile is_ws s = c # cs"
  then have "length cs < length s"
    using length_dropWhile_le [of is_ws s] by simp
  then show "(dropWhile (\<lambda>x. \<not> is_ws x) cs, s) \<in> measure length"
    using length_dropWhile_le [of "\<lambda>x. \<not> is_ws x" cs] by simp
qed simp

declare tokens.simps [simp del]

lemma tokens_Nil [simp]: "tokens [] = []"
  by (subst tokens.simps) simp

lemma tokens_Cons:
  "tokens (c # cs) =
     (if is_ws c then tokens cs
      else (c # takeWhile (\<lambda>x. \<not> is_ws x) cs) # tokens (dropWhile (\<lambda>x. \<not> is_ws x) cs))"
  by (auto simp: tokens.simps [of "c # cs"] tokens.simps [of cs])

text \<open>
  The lines are the results of the successive \<open>fgets\<close> calls.  At the end of the input
  \<open>fgets\<close> leaves the buffer, and the loop has no other exit, so an output without the closing
  line makes it run forever; \<open>buf\<close> is the buffer at that point.  A record line with fewer than
  five words leaves the address uninitialised.
\<close>

definition gids_end :: "string \<Rightarrow> bool" where
  "gids_end line \<longleftrightarrow> take 12 (c_str line) = ''n_gids_found''"

definition gids_entry :: "string \<Rightarrow> (string \<Rightarrow> string) \<Rightarrow> (string \<Rightarrow> string) res" where
  "gids_entry line m =
     (let ts = tokens (c_str line)
      in if length ts < 5 then Inl Undefined else Inr (m(ts ! 0 := ts ! 4)))"

definition gids_eof :: "string \<Rightarrow> (string \<Rightarrow> string) \<Rightarrow> (string \<Rightarrow> string) res" where
  "gids_eof buf m = (if gids_end buf then Inr m else Inl Diverges)"

fun gids_loop :: "string \<Rightarrow> string list \<Rightarrow> (string \<Rightarrow> string) \<Rightarrow> (string \<Rightarrow> string) res" where
  "gids_loop buf [] m = gids_eof buf m"
| "gids_loop buf [l1] m =
     (if gids_end l1 then Inr m else bind_res (gids_entry l1 m) (gids_eof l1))"
| "gids_loop buf [l1, l2] m =
     (if gids_end l1 then Inr m else bind_res (gids_entry l2 m) (gids_eof l2))"
| "gids_loop buf [l1, l2, l3] m =
     (if gids_end l1 then Inr m else bind_res (gids_entry l3 m) (gids_eof l3))"
| "gids_loop buf (l1 # l2 # l3 # l4 # ls) m =
     (if gids_end l1 then Inr m else bind_res (gids_entry l3 m) (gids_loop l4 ls))"

fun read_gids :: "string list \<Rightarrow> (string \<Rightarrow> string) res" where
  "read_gids [] = gids_loop [] [] (\<lambda>_. [])"
| "read_gids [l] = gids_loop l [] (\<lambda>_. [])"
| "read_gids (l # l' # ls) = gids_loop l' ls (\<lambda>_. [])"

subsection \<open>One turn of the reporting loop\<close>

text \<open>\<open>n2i\<close> is \<open>name_to_ip\<close>, with the empty string for an unknown device.\<close>

definition fill_ip :: "(string \<Rightarrow> string) \<Rightarrow> Amount \<Rightarrow> Amount" where
  "fill_ip n2i a = a\<lparr>a_ip := strncpy 32 (n2i (c_str (a_name a)))\<rparr>"

fun fill_range :: "(string \<Rightarrow> string) \<Rightarrow> nat list \<Rightarrow> (nat \<Rightarrow> Amount) \<Rightarrow> nat \<Rightarrow> Amount" where
  "fill_range n2i [] am = am"
| "fill_range n2i (i # is) am = fill_range n2i is (am(i := fill_ip n2i (am i)))"

definition send_range ::
    "(string \<Rightarrow> string) \<Rightarrow> nat \<Rightarrow> nat \<Rightarrow> SHM \<Rightarrow> Amount list \<times> SHM" where
  "send_range n2i lo hi s =
     (let am = fill_range n2i [lo..<hi] (amount s) in (map am [lo..<hi], s\<lparr>amount := am\<rparr>))"

text \<open>
  \<open>r1\<close> and \<open>r2\<close> are what the first and the second call of \<open>sock_write\<close> return; the result is
  the new value of \<open>ret\<close>, the blocks handed to \<open>sock_write\<close> and the segment.
\<close>

definition client_turn ::
    "(string \<Rightarrow> string) \<Rightarrow> int \<Rightarrow> int \<Rightarrow> int \<Rightarrow> SHM \<Rightarrow> int \<times> Amount list list \<times> SHM" where
  "client_turn n2i r1 r2 ret s =
     (if shm_t s < shm_h s then
        let (blk, s1) = send_range n2i (nat (shm_t s)) (nat (shm_h s)) s
        in (r1, [blk], s1\<lparr>shm_t := shm_h s1\<rparr>)
      else if shm_t s > shm_h s then
        let (blk, s1) = send_range n2i (nat (shm_t s)) flow_NUM s;
            s2 = s1\<lparr>shm_t := 0\<rparr>
        in if shm_t s2 < shm_h s2 then
             let (blk2, s3) = send_range n2i (nat (shm_t s2)) (nat (shm_h s2)) s2
             in (r2, [blk, blk2], s3\<lparr>shm_t := shm_h s3\<rparr>)
           else (r1, [blk], s2)
      else (ret, [], s))"

text \<open>The end of the program: the loop ends only when \<open>ret\<close> is zero.\<close>

definition client_continues :: "int \<Rightarrow> bool" where
  "client_continues ret \<longleftrightarrow> ret \<noteq> 0"

subsection \<open>The ring as a channel\<close>

type_synonym report = "string \<times> string \<times> u64 \<times> u64 \<times> u64"

definition shm_put :: "report \<Rightarrow> SHM \<Rightarrow> SHM" where
  "shm_put r s =
     (case r of (gid, dev, tx, rx, tm) \<Rightarrow>
        case put_record gid dev tx rx tm s of Inl _ \<Rightarrow> s | Inr s' \<Rightarrow> s')"

definition shm_drain :: "(string \<Rightarrow> string) \<Rightarrow> SHM \<Rightarrow> Amount list \<times> SHM" where
  "shm_drain n2i s = (case client_turn n2i 1 1 1 s of (_, blks, s') \<Rightarrow> (concat blks, s'))"

definition sent_form :: "(string \<Rightarrow> string) \<Rightarrow> report \<Rightarrow> Amount" where
  "sent_form n2i r =
     (case r of (gid, dev, tx, rx, tm) \<Rightarrow>
        \<lparr>a_gid = strncpy 16 gid, a_name = strncpy 64 dev,
         a_ip = strncpy 32 (n2i (take 64 (c_str dev))), a_tx = tx, a_rx = rx, a_tm = tm\<rparr>)"

lemma fill_ip_idem [simp]: "fill_ip n2i (fill_ip n2i a) = fill_ip n2i a"
  by (simp add: fill_ip_def)

lemma fill_range_apply:
  "fill_range n2i is am i = (if i \<in> set is then fill_ip n2i (am i) else am i)"
  by (induction "is" arbitrary: am) auto

lemma send_range_eq:
  "send_range n2i lo hi s =
     (map (\<lambda>i. fill_ip n2i (amount s i)) [lo..<hi],
      s\<lparr>amount := fill_range n2i [lo..<hi] (amount s)\<rparr>)"
  by (auto simp: send_range_def Let_def fill_range_apply)

lemma drain_pending:
  assumes "ring_ok s"
  shows "fst (shm_drain n2i s) = pending (fill_ip n2i) s"
proof -
  consider "shm_t s < shm_h s" | "shm_t s = shm_h s" | "shm_h s < shm_t s" "0 < shm_h s"
    | "shm_h s < shm_t s" "shm_h s = 0"
    using assms by (force simp: ring_ok_def)
  then show ?thesis
  proof cases
    case 3
    with assms have "nat (shm_h s) < nat (shm_t s)" by (simp add: ring_ok_def)
    moreover from this have "map (\<lambda>i. fill_ip n2i (fill_range n2i [nat (shm_t s)..<flow_NUM] (amount s) i))
        [0..<nat (shm_h s)] = map (\<lambda>i. fill_ip n2i (amount s i)) [0..<nat (shm_h s)]"
      by (simp add: fill_range_apply)
    ultimately show ?thesis
      using 3 by (simp add: shm_drain_def client_turn_def send_range_eq pending_def ring_idx_def)
  qed (use assms in \<open>simp_all add: shm_drain_def client_turn_def send_range_eq pending_def
      ring_idx_def ring_ok_def\<close>)
qed

lemma drain_indices:
  "ring_ok s \<Longrightarrow> shm_t (snd (shm_drain n2i s)) = shm_h s \<and> shm_h (snd (shm_drain n2i s)) = shm_h s"
  by (auto simp: shm_drain_def client_turn_def send_range_eq ring_ok_def Let_def)

lemma put_pending:
  assumes "ring_ok s" "ring_room s"
  shows "pending (fill_ip n2i) (shm_put r s) = pending (fill_ip n2i) s @ [sent_form n2i r]"
proof -
  obtain gid dev tx rx tm where r: "r = (gid, dev, tx, rx, tm)" by (cases r)
  let ?t = "nat (shm_t s)" and ?h = "nat (shm_h s)"
  have h: "0 \<le> shm_h s" "shm_h s < int flow_NUM" using assms(1) by (auto simp: ring_ok_def)
  have lt: "?t < flow_NUM" "?h < flow_NUM" using ring_ok_nat [OF assms(1)] by auto
  have "Suc ?h mod flow_NUM \<noteq> ?t"
    using assms ring_ok_head_succ [OF assms(1)]
    by (metis eq_nat_nat_iff flow_NUM_pos of_nat_0_less_iff pos_mod_sign ring_ok_def ring_room_def)
  then have idx: "ring_idx ?t (Suc ?h mod flow_NUM) = ring_idx ?t ?h @ [?h]"
    using lt by (intro ring_idx_put)
  have put: "shm_put r s = s\<lparr>amount := (amount s)(?h := (amount s ?h)\<lparr>a_gid := strncpy 16 gid,
      a_rx := rx, a_tx := tx, a_name := strncpy 64 dev, a_tm := tm\<rparr>),
      shm_h := (shm_h s + 1) mod int flow_NUM\<rparr>"
    using h by (simp add: r shm_put_def put_record_def Let_def)
  have "i \<noteq> ?h" if "i \<in> set (ring_idx ?t ?h)" for i
    using that head_notin_ring_idx by metis
  then show ?thesis
    unfolding put pending_def
    by (simp add: ring_ok_head_succ [OF assms(1)] idx r sent_form_def fill_ip_def c_str_strncpy)
qed

lemma put_ring_ok: "ring_ok s \<Longrightarrow> ring_ok (shm_put r s)"
  by (cases r) (auto simp: shm_put_def put_record_def ring_ok_def Let_def)

interpretation shm_channel: record_channel
  ring_ok ring_room shm_put "shm_drain n2i" "sent_form n2i" "pending (fill_ip n2i)"
  for n2i
proof unfold_locales
  fix s :: SHM and a :: report
  assume ok: "ring_ok s"
  show "ring_ok (shm_put a s)" using ok by (rule put_ring_ok)
  show "fst (shm_drain n2i s) = pending (fill_ip n2i) s" using ok by (rule drain_pending)
  show "pending (fill_ip n2i) (snd (shm_drain n2i s)) = []"
    using drain_indices [OF ok, of n2i] by (simp add: pending_def)
  show "ring_ok (snd (shm_drain n2i s))"
    using drain_indices [OF ok, of n2i] ok by (simp add: ring_ok_def)
  show "pending (fill_ip n2i) (shm_put a s) = pending (fill_ip n2i) s @ [sent_form n2i a]"
    if "ring_room s"
    using ok that by (rule put_pending)
qed

subsection \<open>Properties of the client\<close>


definition ex_ring :: SHM where
  "ex_ring = \<lparr>shm_t = 9999, shm_h = 9999, amount = (\<lambda>_. zero_Amount), cache = (\<lambda>_. zero_Cache)\<rparr>"

definition ex_events :: "(report + unit) list" where
  "ex_events = [Inl (''10.0.0.2'', ''mlx5_0'', 9000, 66, 1), Inl (''10.0.0.3'', ''mlx5_0'', 8000, 66, 2),
     Inr (), Inl (''10.0.0.2'', ''mlx5_0'', 7000, 66, 3)]"


lemma shm_put_head:
  "ring_ok s \<Longrightarrow> shm_h (shm_put r s) = (shm_h s + 1) mod int flow_NUM \<and> shm_t (shm_put r s) = shm_t s"
  by (cases r) (auto simp: shm_put_def put_record_def ring_ok_def Let_def)

lemma fold_put_head:
  "ring_ok s \<Longrightarrow> ring_ok (fold shm_put rs s) \<and> shm_t (fold shm_put rs s) = shm_t s \<and>
     shm_h (fold shm_put rs s) = (shm_h s + int (length rs)) mod int flow_NUM"
proof (induction rs arbitrary: s)
  case (Cons r rs)
  from Cons.IH [OF put_ring_ok [OF Cons.prems], of r] shm_put_head [OF Cons.prems, of r]
  show ?case by (simp add: mod_add_left_eq mod_add_right_eq ac_simps)
qed (simp add: ring_ok_def)

text \<open>
  The producer does not look at the tail: 10000 stores without a turn of the client bring the
  head back to the tail, and the client then finds nothing to send, whatever was in the ring.
\<close>
theorem full_ring_looks_empty:
  assumes "ring_ok s" "shm_h s = shm_t s" "length rs = flow_NUM"
  shows "pending view (fold shm_put rs s) = [] \<and>
    snd (snd (client_turn n2i r1 r2 ret (fold shm_put rs s))) = fold shm_put rs s"
proof -
  have "shm_h (fold shm_put rs s) = shm_t (fold shm_put rs s)"
    using fold_put_head [OF assms(1), of rs] assms by (simp add: ring_ok_def)
  then show ?thesis by (simp add: pending_def client_turn_def)
qed

theorem full_ring_looks_empty_witness:
  "pending a_tx (fold shm_put (replicate flow_NUM (''10.0.0.2'', ''mlx5_0'', 9000, 66, 1)) ex_ring) = []"
proof (rule full_ring_looks_empty [THEN conjunct1])
  show "ring_ok ex_ring" by (simp add: ring_ok_def ex_ring_def flow_NUM_def)
  show "shm_h ex_ring = shm_t ex_ring" by (simp add: ex_ring_def)
  show "length (replicate flow_NUM (''10.0.0.2'', ''mlx5_0'', 9000, 66, 1)) = flow_NUM"
    by (rule length_replicate)
qed

lemma encode_Amount_nonempty: "concat (map encode_Amount as) = [] \<longleftrightarrow> as = []"
proof -
  have "length (encode_Amount a) \<noteq> 0" for a
    unfolding encode_Amount_def length_append length_le_bytes by simp
  then have "encode_Amount a \<noteq> []" for a
    by (metis list.size(3))
  then show ?thesis by (cases as) auto
qed

lemma sock_write_nonzero: "sock_write bs es = Some (r, out, es') \<Longrightarrow> bs \<noteq> [] \<Longrightarrow> r \<noteq> 0"
  unfolding sock_write_def by (drule sock_write_loop_spec) auto

lemma client_turn_blocks:
  assumes "ring_ok s" "client_turn n2i r1 r2 ret s = (ret', blks, s')"
  shows "[] \<notin> set blks \<and>
    (blks = [] \<and> ret' = ret \<or> length blks = 1 \<and> ret' = r1 \<or> length blks = 2 \<and> ret' = r2)"
proof -
  have t: "nat (shm_t s) < flow_NUM" using ring_ok_nat [OF assms(1)] by simp
  consider "shm_t s < shm_h s" | "shm_t s = shm_h s" | "shm_h s < shm_t s" "0 < shm_h s"
    | "shm_h s < shm_t s" "shm_h s = 0"
    using assms(1) by (force simp: ring_ok_def)
  then show ?thesis
  proof cases
    case 1
    with assms have "blks = [map (\<lambda>i. fill_ip n2i (amount s i)) [nat (shm_t s)..<nat (shm_h s)]]" "ret' = r1"
      by (simp_all add: client_turn_def send_range_eq)
    with 1 assms(1) show ?thesis by (simp add: ring_ok_def nat_le_iff)
  next
    case 2
    with assms show ?thesis by (simp add: client_turn_def)
  next
    case 3
    let ?am = "fill_range n2i [nat (shm_t s)..<flow_NUM] (amount s)"
    from 3 assms(2) have "blks = [map (\<lambda>i. fill_ip n2i (amount s i)) [nat (shm_t s)..<flow_NUM],
        map (\<lambda>i. fill_ip n2i (?am i)) [0..<nat (shm_h s)]]" "ret' = r2"
      by (simp_all add: client_turn_def send_range_eq)
    with 3 t show ?thesis by simp
  next
    case 4
    with assms have "blks = [map (\<lambda>i. fill_ip n2i (amount s i)) [nat (shm_t s)..<flow_NUM]]" "ret' = r1"
      by (simp_all add: client_turn_def send_range_eq)
    with t show ?thesis by simp
  qed
qed

text \<open>
  On an intact ring the loop of the client never ends: each call of \<open>sock_write\<close> in a turn
  gets a block of at least one record, so its result is not zero, not even when the connection to
  the controller is gone and every write fails.
\<close>
theorem client_never_leaves_loop:
  assumes "ring_ok s" "client_turn n2i r1 r2 ret s = (ret', blks, s')" "client_continues ret"
    and "blks \<noteq> [] \<longrightarrow> sock_write (concat (map encode_Amount (blks ! 0))) es1 = Some (r1, o1, e1)"
    and "1 < length blks \<longrightarrow> sock_write (concat (map encode_Amount (blks ! 1))) es2 = Some (r2, o2, e2)"
  shows "client_continues ret'"
proof -
  note b = client_turn_blocks [OF assms(1,2)]
  have ne: "blks ! i \<noteq> []" if "i < length blks" for i
    using b that by (metis nth_mem)
  have "r1 \<noteq> 0" if "0 < length blks"
    using assms(4) ne [OF that] that sock_write_nonzero encode_Amount_nonempty by blast
  moreover have "r2 \<noteq> 0" if "1 < length blks"
    using assms(5) ne [OF that] that sock_write_nonzero encode_Amount_nonempty by blast
  ultimately show ?thesis
    using b assms(3) unfolding client_continues_def
    by (metis One_nat_def less_numeral_extra(1) one_less_numeral_iff semiring_norm(76))
qed

theorem client_never_leaves_loop_witness:
  "\<exists>blks s'. client_turn (\<lambda>_. []) (-1) 0 1 (ex_ring\<lparr>shm_t := 9998\<rparr>) = (-1, blks, s') \<and>
     client_continues (-1)"
proof -
  let ?s = "ex_ring\<lparr>shm_t := 9998\<rparr>"
  obtain blks s' where t: "client_turn (\<lambda>_. []) (-1) 0 1 ?s = (-1, blks, s')" "length blks = 1"
    by (simp add: client_turn_def send_range_eq ex_ring_def)
  have ok: "ring_ok ?s" by (simp add: ring_ok_def ex_ring_def flow_NUM_def)
  then have "concat (map encode_Amount (blks ! 0)) \<noteq> []"
    using client_turn_blocks [OF ok t(1)] t(2) by (metis One_nat_def encode_Amount_nonempty lessI nth_mem)
  then have "sock_write (concat (map encode_Amount (blks ! 0))) [WErr 32] =
      Some (-1, [], [])"
    by (cases "concat (map encode_Amount (blks ! 0))") (simp_all add: sock_write_def EINTR_def)
  then have "client_continues (-1)"
    using client_never_leaves_loop [OF ok t(1), of "[WErr 32]" "[]" "[]" "[]" "[]" "[]"] t(2)
    by (simp add: client_continues_def)
  with t(1) show ?thesis by blast
qed

text \<open>
  The output of \<open>show_gids\<close>: two header lines, four lines per port whose third line carries the
  device name as its first word and the address as its fifth, and a closing line.
\<close>

type_synonym gid_block = "string \<times> string \<times> string \<times> string"

definition block_lines :: "gid_block \<Rightarrow> string list" where
  "block_lines b = (case b of (l1, l2, l3, l4) \<Rightarrow> [l1, l2, l3, l4])"

definition block_ok :: "gid_block \<Rightarrow> bool" where
  "block_ok b = (case b of (l1, l2, l3, l4) \<Rightarrow> \<not> gids_end l1 \<and> 5 \<le> length (tokens (c_str l3)))"

definition block_entry :: "gid_block \<Rightarrow> string \<times> string" where
  "block_entry b = (case b of (l1, l2, l3, l4) \<Rightarrow> (tokens (c_str l3) ! 0, tokens (c_str l3) ! 4))"

lemma gids_loop_blocks:
  "\<forall>b \<in> set bs. block_ok b \<Longrightarrow> gids_end fin \<Longrightarrow>
   gids_loop buf (concat (map block_lines bs) @ [fin]) m =
     Inr (fold (\<lambda>b m. m(fst (block_entry b) := snd (block_entry b))) bs m)"
  by (induction bs arbitrary: buf m)
    (auto simp: block_lines_def block_ok_def block_entry_def gids_entry_def Let_def)

lemma fold_upd_lookup:
  "fold (\<lambda>b m. m(f b := g b)) bs m k = (case find (\<lambda>b. f b = k) (rev bs) of None \<Rightarrow> m k | Some b \<Rightarrow> g b)"
proof (induction bs rule: rev_induct)
  case (snoc b bs)
  then show ?case by simp
qed simp

text \<open>
  From a complete output of \<open>show_gids\<close> the client builds the table of device addresses: a
  device maps to the address of its last entry and an unknown device to the empty string.
\<close>
theorem read_gids_table:
  assumes "\<forall>b \<in> set bs. block_ok b" "gids_end fin"
  shows "\<exists>m. read_gids (h1 # h2 # concat (map block_lines bs) @ [fin]) = Inr m \<and>
    (\<forall>k. m k = (case find (\<lambda>b. fst (block_entry b) = k) (rev bs) of
                  None \<Rightarrow> [] | Some b \<Rightarrow> snd (block_entry b)))"
  using assms by (auto simp: gids_loop_blocks fold_upd_lookup)

theorem read_gids_table_witness:
  "\<exists>m. read_gids [''DEV'', ''---'', ''a'', ''b'', ''mlx5_0 1 3 x 10.0.0.1 v2 eth0'', ''c'', ''n_gids_found=4''] = Inr m \<and>
     m ''mlx5_0'' = ''10.0.0.1'' \<and> m ''mlx5_9'' = []"
proof -
  let ?b = "(''a'', ''b'', ''mlx5_0 1 3 x 10.0.0.1 v2 eth0'', ''c'')"
  have t: "tokens (c_str ''mlx5_0 1 3 x 10.0.0.1 v2 eth0'') =
      [''mlx5_0'', ''1'', ''3'', ''x'', ''10.0.0.1'', ''v2'', ''eth0'']"
    by (simp add: c_str_def tokens_Cons is_ws_def)
  have "\<forall>b \<in> set [?b]. block_ok b" "gids_end ''n_gids_found=4''"
    by (simp_all add: block_ok_def gids_end_def t, simp_all add: c_str_def)
  from read_gids_table [OF this, of "''DEV''" "''---''"] obtain m where
    m: "read_gids (''DEV'' # ''---'' # concat (map block_lines [?b]) @ [''n_gids_found=4'']) = Inr m"
    "\<forall>k. m k = (case find (\<lambda>b. fst (block_entry b) = k) (rev [?b]) of
       None \<Rightarrow> [] | Some b \<Rightarrow> snd (block_entry b))"
    by blast
  have e: "block_entry ?b = (''mlx5_0'', ''10.0.0.1'')"
    by (simp add: block_entry_def t)
  show ?thesis
    using m(1) m(2) [rule_format, of "''mlx5_0''"] m(2) [rule_format, of "''mlx5_9''"]
    unfolding block_lines_def by (simp add: e)
qed

text \<open>
  Without the closing line the client never gets past the table: the end of the input is not
  tested, and the loop rereads its last buffer forever unless it faults on a short line.
\<close>
theorem read_gids_needs_closing_line:
  assumes "\<forall>l \<in> set ls. \<not> gids_end l"
  shows "read_gids ls \<in> {Inl Diverges, Inl Undefined}"
proof -
  have loop: "gids_loop buf ls m \<in> {Inl Diverges, Inl Undefined}"
    if "\<not> gids_end buf" "\<forall>l \<in> set ls. \<not> gids_end l" for buf ls m
    using that
    by (induction buf ls m rule: gids_loop.induct)
      (auto simp: gids_eof_def gids_entry_def Let_def)
  have "\<not> gids_end []" by (simp add: gids_end_def c_str_def)
  with assms loop show ?thesis
    by (cases ls rule: read_gids.cases) (auto simp: gids_eof_def)
qed

theorem read_gids_needs_closing_line_witness:
  "read_gids [''DEV'', ''---''] \<in> {Inl Diverges, Inl Undefined}"
  by (rule read_gids_needs_closing_line) (simp add: gids_end_def c_str_def)

end
