(* ===== verification/Ring_Race.thy ===== *)
theory Ring_Race
  imports Shared_Memory
begin

text \<open>
  The same ring without the lock: the calls that would take \<open>shm->lock\<close> are commented out at
  both ends, so every access to \<open>h\<close>, \<open>t\<close> and the slots interleaves.  A producer is the store
  sequence of \<open>flow_forecast\<close>, one step per access, with the read and the write of each update of
  \<open>h\<close> apart; the client is the loop of \<open>client.cpp\<close>, one step per test, fill, write and
  assignment, each reading \<open>h\<close> anew as the source does.  \<open>obs\<close> is the memory access of the last
  step.  The first group of lemmas is the invariant for a single producer; the second builds
  the runs in which the missing lock shows.
\<close>

datatype prod_pc = PIdle | PStore nat | PIncR | PIncW int | PModR | PModW int

datatype client_pc =
    CTest1 | CTest2 | CTest3 | CFill int | CSend | CSet | CFillHi int | CSendHi | CZero | CLoop | CDone

text \<open>A write of the client starts at record \<open>i\<close> and has a length in records.\<close>

datatype obs = Quiet | Store int | Fill int | Send int int

record race =
  r_h :: int
  r_t :: int
  r_ret :: int
  r_prod :: "nat \<Rightarrow> prod_pc"
  r_client :: client_pc
  r_obs :: obs

text \<open>
  One step of producer \<open>i\<close>: the five stores of a record (gid, rx, tx, name, tm), each through
  \<open>shm->amount[shm->h]\<close>, then \<open>shm->h++\<close> and \<open>shm->h %= FLOW_NUM\<close>.
\<close>

definition prod_step :: "nat \<Rightarrow> race \<Rightarrow> race" where
  "prod_step i s =
     (case r_prod s i of
        PIdle \<Rightarrow> s\<lparr>r_prod := (r_prod s)(i := PStore 0), r_obs := Quiet\<rparr>
      | PStore k \<Rightarrow> s\<lparr>r_prod := (r_prod s)(i := if k < 4 then PStore (Suc k) else PIncR),
                     r_obs := Store (r_h s)\<rparr>
      | PIncR \<Rightarrow> s\<lparr>r_prod := (r_prod s)(i := PIncW (r_h s)), r_obs := Quiet\<rparr>
      | PIncW r \<Rightarrow> s\<lparr>r_h := r + 1, r_prod := (r_prod s)(i := PModR), r_obs := Quiet\<rparr>
      | PModR \<Rightarrow> s\<lparr>r_prod := (r_prod s)(i := PModW (r_h s)), r_obs := Quiet\<rparr>
      | PModW r \<Rightarrow> s\<lparr>r_h := r mod int flow_NUM, r_prod := (r_prod s)(i := PIdle), r_obs := Quiet\<rparr>)"

text \<open>
  One step of the client; \<open>w\<close> is the result of a write that was asked for a positive or negative
  number of records, a write of no records returns zero.
\<close>

definition client_step :: "int \<Rightarrow> race \<Rightarrow> race" where
  "client_step w s =
     (case r_client s of
        CTest1 \<Rightarrow> s\<lparr>r_client := (if r_t s < r_h s then CFill (r_t s) else CTest2), r_obs := Quiet\<rparr>
      | CTest2 \<Rightarrow> s\<lparr>r_client := (if r_t s > r_h s then CFillHi (r_t s) else CLoop), r_obs := Quiet\<rparr>
      | CFill i \<Rightarrow> if i < r_h s then s\<lparr>r_client := CFill (i + 1), r_obs := Fill i\<rparr>
                  else s\<lparr>r_client := CSend, r_obs := Quiet\<rparr>
      | CSend \<Rightarrow> s\<lparr>r_ret := (if r_h s - r_t s = 0 then 0 else w), r_client := CSet,
                   r_obs := Send (r_t s) (r_h s - r_t s)\<rparr>
      | CSet \<Rightarrow> s\<lparr>r_t := r_h s, r_client := CLoop, r_obs := Quiet\<rparr>
      | CFillHi i \<Rightarrow> if i < int flow_NUM then s\<lparr>r_client := CFillHi (i + 1), r_obs := Fill i\<rparr>
                    else s\<lparr>r_client := CSendHi, r_obs := Quiet\<rparr>
      | CSendHi \<Rightarrow> s\<lparr>r_ret := (if int flow_NUM - r_t s = 0 then 0 else w), r_client := CZero,
                     r_obs := Send (r_t s) (int flow_NUM - r_t s)\<rparr>
      | CZero \<Rightarrow> s\<lparr>r_t := 0, r_client := CTest3, r_obs := Quiet\<rparr>
      | CTest3 \<Rightarrow> s\<lparr>r_client := (if r_t s < r_h s then CFill (r_t s) else CLoop), r_obs := Quiet\<rparr>
      | CLoop \<Rightarrow> s\<lparr>r_client := (if r_ret s = 0 then CDone else CTest1), r_obs := Quiet\<rparr>
      | CDone \<Rightarrow> s)"

definition race_init :: race where
  "race_init = \<lparr>r_h = 0, r_t = 0, r_ret = 1, r_prod = (\<lambda>_. PIdle), r_client = CTest1, r_obs = Quiet\<rparr>"

text \<open>The states reachable with \<open>n\<close> producers, under any schedule.\<close>

inductive race_reach :: "nat \<Rightarrow> race \<Rightarrow> bool" for n where
  start: "race_reach n race_init"
| prod: "race_reach n s \<Longrightarrow> i < n \<Longrightarrow> race_reach n (prod_step i s)"
| client: "race_reach n s \<Longrightarrow> w \<noteq> 0 \<Longrightarrow> race_reach n (client_step w s)"

subsection \<open>One producer\<close>

text \<open>A store or a fill is of a slot of the array; a write starts and ends in it, whatever the sign of its length.\<close>

definition obs_in_range :: "obs \<Rightarrow> bool" where
  "obs_in_range ob =
     (case ob of
        Quiet \<Rightarrow> True
      | Store i \<Rightarrow> 0 \<le> i \<and> i < int flow_NUM
      | Fill i \<Rightarrow> 0 \<le> i \<and> i < int flow_NUM
      | Send i n \<Rightarrow> 0 \<le> i \<and> i \<le> int flow_NUM \<and> 0 \<le> i + n \<and> i + n \<le> int flow_NUM)"

definition head_ok :: "prod_pc \<Rightarrow> int \<Rightarrow> bool" where
  "head_ok p h =
     (case p of
        PIncW r \<Rightarrow> r = h \<and> 0 \<le> h \<and> h < int flow_NUM
      | PModR \<Rightarrow> 0 \<le> h \<and> h \<le> int flow_NUM
      | PModW r \<Rightarrow> r = h \<and> 0 \<le> h \<and> h \<le> int flow_NUM
      | _ \<Rightarrow> 0 \<le> h \<and> h < int flow_NUM)"

definition race_inv :: "race \<Rightarrow> bool" where
  "race_inv s \<longleftrightarrow>
     head_ok (r_prod s 0) (r_h s) \<and> 0 \<le> r_t s \<and> r_t s \<le> int flow_NUM \<and> obs_in_range (r_obs s) \<and>
     (case r_client s of CFill i \<Rightarrow> 0 \<le> i | CFillHi i \<Rightarrow> 0 \<le> i | _ \<Rightarrow> True)"

lemma head_ok_range: "head_ok p h \<Longrightarrow> 0 \<le> h \<and> h \<le> int flow_NUM"
  by (cases p) (auto simp: head_ok_def)

lemma prod_step_inv: "race_inv s \<Longrightarrow> race_inv (prod_step 0 s)"
  by (cases "r_prod s 0")
    (auto simp: race_inv_def prod_step_def head_ok_def obs_in_range_def)

lemma client_step_inv:
  assumes "race_inv s"
  shows "race_inv (client_step w s)"
proof -
  have "0 \<le> r_h s" "r_h s \<le> int flow_NUM"
    using assms head_ok_range by (auto simp: race_inv_def)
  with assms show ?thesis
    by (cases "r_client s") (auto simp: race_inv_def client_step_def obs_in_range_def)
qed

lemma race_reach_inv: "race_reach 1 s \<Longrightarrow> race_inv s"
proof (induction rule: race_reach.induct)
  case start
  show ?case by (simp add: race_inv_def race_init_def head_ok_def obs_in_range_def)
next
  case (prod s i)
  then show ?case using prod_step_inv by simp
next
  case (client s w)
  then show ?case by (simp add: client_step_inv)
qed

subsection \<open>Building runs\<close>

lemma prod_stores:
  assumes "race_reach n s" "i < n" "r_prod s i = PIdle"
  shows "race_reach n (s\<lparr>r_prod := (r_prod s)(i := PIncR), r_obs := Store (r_h s)\<rparr>)"
proof -
  have "race_reach n ((prod_step i ^^ k) s)" for k
    using assms(1,2) by (induction k) (auto intro: race_reach.prod)
  from this [of 6] assms(3) show ?thesis
    by (simp add: prod_step_def numeral_eq_Suc)
qed

lemma prod_inc:
  assumes "race_reach n s" "i < n" "r_prod s i = PIncR"
  shows "race_reach n (s\<lparr>r_h := r_h s + 1, r_prod := (r_prod s)(i := PModR), r_obs := Quiet\<rparr>)"
  using race_reach.prod [OF race_reach.prod [OF assms(1,2)] assms(2)] assms(3)
  by (simp add: prod_step_def)

lemma prod_mod:
  assumes "race_reach n s" "i < n" "r_prod s i = PModR"
  shows "race_reach n (s\<lparr>r_h := r_h s mod int flow_NUM, r_prod := (r_prod s)(i := PIdle), r_obs := Quiet\<rparr>)"
  using race_reach.prod [OF race_reach.prod [OF assms(1,2)] assms(2)] assms(3)
  by (simp add: prod_step_def)

lemma prod_round:
  assumes "race_reach n s" "i < n" "r_prod s i = PIdle"
  shows "race_reach n (s\<lparr>r_h := (r_h s + 1) mod int flow_NUM, r_obs := Quiet\<rparr>)"
  using prod_mod [OF prod_inc [OF prod_stores [OF assms] assms(2)] assms(2)] assms(3)
  by (simp add: fun_upd_idem)

lemma prod_rounds:
  assumes "race_reach n s" "i < n" "r_prod s i = PIdle" "0 \<le> r_h s"
    and "r_h s + int k < int flow_NUM" "r_obs s = Quiet"
  shows "race_reach n (s\<lparr>r_h := r_h s + int k, r_obs := Quiet\<rparr>)"
  using assms(5)
proof (induction k)
  case 0
  have "s\<lparr>r_h := r_h s + int 0, r_obs := Quiet\<rparr> = s" using assms(6) by (cases s) simp
  with assms(1) show ?case by simp
next
  case (Suc k)
  then have "race_reach n (s\<lparr>r_h := r_h s + int k, r_obs := Quiet\<rparr>)" by simp
  from prod_round [OF this assms(2)] assms(3,4) Suc.prems show ?case
    by (simp add: add.commute add.left_commute)
qed

abbreviation idle_state :: "int \<Rightarrow> int \<Rightarrow> client_pc \<Rightarrow> race" where
  "idle_state h t c \<equiv>
     \<lparr>r_h = h, r_t = t, r_ret = 1, r_prod = (\<lambda>_. PIdle), r_client = c, r_obs = Quiet\<rparr>"

lemma client_steps:
  assumes "race_reach n s"
  shows "race_reach n ((client_step 1 ^^ k) s)"
  using assms by (induction k) (auto intro: race_reach.client)

lemma reach_head:
  assumes "0 < n" "h < flow_NUM"
  shows "race_reach n (idle_state (int h) 0 CTest1)"
  using prod_rounds [OF race_reach.start assms(1), of h] assms(2) by (simp add: race_init_def)

text \<open>One record reported, then a nearly full ring, with the client past its test.\<close>

lemma reach_tail1:
  assumes "0 < n"
  shows "race_reach n (idle_state 9999 1 (CFill 1))"
proof -
  have "race_reach n (idle_state 1 1 CTest1)"
    using client_steps [OF reach_head [OF assms, of 1], of 6]
    by (simp add: flow_NUM_def numeral_eq_Suc client_step_def)
  from prod_rounds [OF this assms, of 9998] have "race_reach n (idle_state 9999 1 CTest1)"
    by (simp add: flow_NUM_def)
  from race_reach.client [OF this, of 1] show ?thesis
    by (simp add: client_step_def)
qed

subsection \<open>Properties of the unlocked ring\<close>

text \<open>
  Even with one producer the client can pass a negative length to \<open>sock_write\<close>: it finds
  records pending, the head wraps around before the length is computed from \<open>shm->h\<close> again, and
  the product with the record size becomes a huge unsigned count.
\<close>
lemma race_negative_length:
  "\<exists>s i len. race_reach 1 s \<and> r_obs s = Send i len \<and> len < 0"
proof -
  have "race_reach 1 (idle_state 0 1 (CFill 1))"
    using prod_round [OF reach_tail1, of 1 0] by (simp add: flow_NUM_def)
  from client_steps [OF this, of 2] have
    "race_reach 1 ((idle_state 0 1 CSet)\<lparr>r_obs := Send 1 (-1)\<rparr>)"
    by (simp add: client_step_def numeral_eq_Suc)
  then show ?thesis by (intro exI conjI) auto
qed



text \<open>
  The same race ends the client: when the head wraps to the tail between the test and the
  write, the write has no bytes, returns zero, and the loop takes that for its end.
\<close>
theorem race_client_leaves:
  "\<exists>s. race_reach 1 s \<and> r_client s = CDone"
proof -
  have "race_reach 1 (idle_state 9999 0 CTest1)"
    using reach_head [of 1 9999] by (simp add: flow_NUM_def)
  from race_reach.client [OF this, of 1] have "race_reach 1 (idle_state 9999 0 (CFill 0))"
    by (simp add: client_step_def)
  from prod_round [OF this, of 0] have "race_reach 1 (idle_state 0 0 (CFill 0))"
    by (simp add: flow_NUM_def)
  from client_steps [OF this, of 4] show ?thesis
    by (intro exI conjI) (assumption, simp add: client_step_def numeral_eq_Suc)
qed

text \<open>
  C40. A record can be skipped: one that is stored after the client computed the length of its write
  and before the client moves the tail is counted as sent.  Here slot 0 is written, a producer
  then completes slot 1, and the tail moves to 2.
\<close>
theorem race_skips_record:
  "\<exists>s. race_reach 1 s \<and> r_obs s = Send 0 1 \<and> r_h s = 1 \<and>
     (let s' = client_step 1 ((prod_step 0 ^^ 10) s) in r_t s' = 2 \<and> r_h s' = 2)"
proof -
  let ?s = "(idle_state 1 0 CSet)\<lparr>r_obs := Send 0 1\<rparr>"
  have "race_reach 1 ?s"
    using client_steps [OF reach_head [of 1 1], of 4]
    by (simp add: flow_NUM_def client_step_def numeral_eq_Suc)
  moreover have "let s' = client_step 1 ((prod_step 0 ^^ 10) ?s) in r_t s' = 2 \<and> r_h s' = 2"
    by (simp add: client_step_def prod_step_def flow_NUM_def numeral_eq_Suc)
  ultimately show ?thesis by (intro exI [of _ ?s]) simp
qed

text \<open>
  Two unlocked producers store outside the array: one increments the head to 10000 and is
  overtaken before it takes the remainder; the other stores its record at index 10000, which is
  the memory of the cache.
\<close>
theorem race_two_producers_out_of_range:
  "\<exists>s. race_reach 2 s \<and> r_obs s = Store (int flow_NUM)"
proof -
  have s0: "race_reach 2 (idle_state 9999 0 CTest1)"
    using reach_head [of 2 9999] by (simp add: flow_NUM_def)
  from prod_inc [OF prod_stores [OF s0, of 0], of 0] have
    "race_reach 2 ((idle_state 10000 0 CTest1)\<lparr>r_prod := (\<lambda>_. PIdle)(0 := PModR)\<rparr>)"
    by simp
  from prod_stores [OF this, of 1] show ?thesis
    by (intro exI conjI) (assumption | simp add: flow_NUM_def)+
qed

end
