(* ===== verification/Double.thy ===== *)
theory Double
  imports SDN_Prelude "HOL-Library.Log_Nat"
begin

text \<open>
  The arithmetic of \<open>double\<close>: a value is a rational number, and every operation and every conversion
  of an integer rounds its exact result to the nearest number with a 53-bit significand, ties to
  even, no unit in the last place below \<open>2 ^ -1074\<close>.  Infinities are left out; the bounds
  proved about the rates keep every value far below them.  The locale states the laws of a rounding
  that the proofs use: it is monotone and exact on small integers times a power of two.
\<close>

subsection \<open>Rounding\<close>

definition round_half_even :: "rat \<Rightarrow> int" where
  "round_half_even x =
     (let n = \<lfloor>x\<rfloor>; f = x - of_int n
      in if f < 1 / 2 then n else if 1 / 2 < f then n + 1 else if even n then n else n + 1)"

text \<open>The exponent of a positive number: \<open>2 powi expo q \<le> q < 2 powi (expo q + 1)\<close>.\<close>

definition expo :: "rat \<Rightarrow> int" where
  "expo q =
     (let (n, d) = quotient_of q; k = bitlen n - bitlen d
      in if 2 powi k \<le> q then k else k - 1)"

definition ulp :: "rat \<Rightarrow> rat" where
  "ulp q = 2 powi (max (expo \<bar>q\<bar>) (- 1022) - 52)"

definition rnd :: "rat \<Rightarrow> rat" where
  "rnd q = (if q = 0 then 0 else of_int (round_half_even (q / ulp q)) * ulp q)"

definition fadd :: "rat \<Rightarrow> rat \<Rightarrow> rat" where "fadd x y = rnd (x + y)"
definition fsub :: "rat \<Rightarrow> rat \<Rightarrow> rat" where "fsub x y = rnd (x - y)"
definition fmul :: "rat \<Rightarrow> rat \<Rightarrow> rat" where "fmul x y = rnd (x * y)"
definition fdiv :: "rat \<Rightarrow> rat \<Rightarrow> rat" where "fdiv x y = rnd (x / y)"
definition fint :: "int \<Rightarrow> rat" where "fint k = rnd (of_int k)"

text \<open>The conversion of a \<open>double\<close> to an integer drops the fraction.\<close>

definition trunc :: "rat \<Rightarrow> int" where
  "trunc q = (if 0 \<le> q then \<lfloor>q\<rfloor> else - \<lfloor>- q\<rfloor>)"

subsection \<open>The laws of a rounding\<close>

locale fp_format =
  fixes fl :: "rat \<Rightarrow> rat"
  assumes fl_mono: "x \<le> y \<Longrightarrow> fl x \<le> fl y"
    and fl_exact: "\<bar>k\<bar> \<le> 2 ^ 53 \<Longrightarrow> fl (of_int k * 2 ^ e) = of_int k * 2 ^ e"
begin

lemma fl_int: "\<bar>k\<bar> \<le> 2 ^ 53 \<Longrightarrow> fl (of_int k) = of_int k"
  using fl_exact [of k 0] by simp

lemma fl_0: "fl 0 = 0"
  using fl_int [of 0] by simp

lemma fl_nonneg: "0 \<le> x \<Longrightarrow> 0 \<le> fl x"
  using fl_mono [of 0 x] by (simp add: fl_0)

lemma fl_le_exact: "x \<le> of_int k * 2 ^ e \<Longrightarrow> \<bar>k\<bar> \<le> 2 ^ 53 \<Longrightarrow> fl x \<le> of_int k * 2 ^ e"
  using fl_mono fl_exact by metis

lemma fl_less_int:
  assumes "\<bar>u\<bar> \<le> 2 ^ 53"
  shows "fl x < fl (of_int u) \<Longrightarrow> x < of_int u"
  using fl_mono [of "of_int u" x] by (meson not_less)

text \<open>
  A weighted mean of two values below a bound stays below it, whatever the rounding of the
  single operations.
\<close>

lemma mean_bounded:
  assumes a: "0 \<le> a" and b: "0 \<le> b" and ab: "a + b \<le> 2 ^ 53" "0 < a + b"
    and x: "0 \<le> x" "x \<le> 2 ^ e" and y: "0 \<le> y" "y \<le> 2 ^ e"
  shows "0 \<le> fl (fl (fl (fl (of_int a) * x) + fl (fl (of_int b) * y)) / of_int (a + b)) \<and>
    fl (fl (fl (fl (of_int a) * x) + fl (fl (of_int b) * y)) / of_int (a + b)) \<le> 2 ^ e"
proof -
  have ia: "fl (of_int a) = of_int a" "fl (of_int b) = of_int b" using assms by (auto intro: fl_int)
  have ax: "0 \<le> fl (of_int a * x)" "fl (of_int a * x) \<le> of_int a * 2 ^ e"
    using a b ab x by (auto intro!: fl_nonneg fl_le_exact mult_left_mono)
  have bx: "0 \<le> fl (of_int b * y)" "fl (of_int b * y) \<le> of_int b * 2 ^ e"
    using a b ab y by (auto intro!: fl_nonneg fl_le_exact mult_left_mono)
  let ?s = "fl (fl (of_int a * x) + fl (of_int b * y))"
  have "fl (of_int a * x) + fl (of_int b * y) \<le> of_int (a + b) * 2 ^ e"
    using ax bx by (simp add: algebra_simps)
  from fl_le_exact [OF this] a b ab(1) have s: "?s \<le> of_int (a + b) * 2 ^ e" by simp
  have s0: "0 \<le> ?s" by (rule fl_nonneg, rule add_nonneg_nonneg [OF ax(1) bx(1)])
  have pos: "(0::rat) < of_int (a + b)" using ab by simp
  have "?s / of_int (a + b) \<le> of_int 1 * 2 ^ e"
    using s pos by (simp add: pos_divide_le_eq mult.commute del: of_int_add)
  from fl_le_exact [OF this] have "fl (?s / of_int (a + b)) \<le> 2 ^ e" by simp
  moreover have "0 \<le> fl (?s / of_int (a + b))"
    by (rule fl_nonneg, rule divide_nonneg_pos [OF s0 pos])
  ultimately show ?thesis by (simp add: ia)
qed

end

subsection \<open>Double precision satisfies them\<close>

lemma rhe_floor: "\<lfloor>x\<rfloor> \<le> round_half_even x" "round_half_even x \<le> \<lfloor>x\<rfloor> + 1"
  by (simp_all add: round_half_even_def Let_def)

lemma rhe_of_int: "round_half_even (of_int k) = k"
  by (simp add: round_half_even_def)

lemma rhe_mono:
  assumes "x \<le> y"
  shows "round_half_even x \<le> round_half_even y"
proof (cases "\<lfloor>x\<rfloor> = \<lfloor>y\<rfloor>")
  case True
  have "x - of_int \<lfloor>y\<rfloor> \<le> y - of_int \<lfloor>y\<rfloor>" using assms by simp
  with True show ?thesis unfolding round_half_even_def Let_def by auto
next
  case False
  with floor_mono [OF assms] have "\<lfloor>x\<rfloor> + 1 \<le> \<lfloor>y\<rfloor>" by simp
  with rhe_floor(2) [of x] rhe_floor(1) [of y] show ?thesis by linarith
qed

lemma rhe_minus: "round_half_even (- x) = - round_half_even x"
proof (cases "x = of_int \<lfloor>x\<rfloor>")
  case True
  then have "- x = of_int (- \<lfloor>x\<rfloor>)" by simp
  with True show ?thesis by (metis rhe_of_int)
next
  case False
  define n where "n = \<lfloor>x\<rfloor>"
  have "of_int n < x" "x < of_int n + 1"
    using False floor_correct [of x] unfolding n_def by linarith+
  then have f: "\<lfloor>- x\<rfloor> = - n - 1" by (simp add: floor_eq_iff)
  define g where "g = x - of_int n"
  have m: "- x - of_int (- n - 1) = 1 - g" by (simp add: g_def)
  have x: "round_half_even x =
      (if g < 1 / 2 then n else if 1 / 2 < g then n + 1 else if even n then n else n + 1)"
    unfolding round_half_even_def Let_def n_def [symmetric] g_def ..
  have y: "round_half_even (- x) =
      (if 1 - g < 1 / 2 then - n - 1 else if 1 / 2 < 1 - g then - n
       else if even n then - n else - n - 1)"
    unfolding round_half_even_def Let_def f m by simp
  consider "g < 1 / 2" | "1 / 2 < g" | "g = 1 / 2" by linarith
  then show ?thesis by cases (simp_all add: x y)
qed

lemma expo_bounds:
  assumes "0 < q"
  shows "2 powi expo q \<le> q" "q < 2 powi (expo q + 1)"
proof -
  obtain n d where nd: "quotient_of q = (n, d)" by (cases "quotient_of q")
  have d: "0 < d" using nd by (rule quotient_of_denom_pos)
  have q: "q = of_int n / of_int d" using nd by (rule quotient_of_div)
  have n: "0 < n"
  proof (rule ccontr)
    assume "\<not> 0 < n"
    then have "of_int n / of_int d \<le> (0::rat)" using d by (intro divide_nonpos_pos) simp_all
    with assms q show False by linarith
  qed
  define k where "k = bitlen n - bitlen d"
  have bn: "2 powi (bitlen n - 1) \<le> (of_int n :: rat)" "(of_int n :: rat) < 2 powi bitlen n"
    if "0 < n" for n
  proof -
    define m where "m = nat (bitlen n - 1)"
    have "bitlen n \<noteq> 0" "0 \<le> bitlen n"
      using that by (simp_all add: bitlen_eq_zero_iff bitlen_nonneg)
    then have m: "bitlen n = int (Suc m)" by (simp add: m_def)
    have "nat (bitlen n - 1) = m" "nat (bitlen n) = Suc m" by (simp_all add: m)
    with bitlen_bounds [OF that] have mn: "2 ^ m \<le> n" "n < 2 ^ Suc m" by simp_all
    have "of_int (2 ^ m) \<le> (of_int n :: rat)" "(of_int n :: rat) < of_int (2 ^ Suc m)"
      using mn by (simp_all only: of_int_le_iff of_int_less_iff)
    then have "(2 ^ m :: rat) \<le> of_int n" "(of_int n :: rat) < 2 ^ Suc m"
      by simp_all
    then show "2 powi (bitlen n - 1) \<le> (of_int n :: rat)"
      by (simp add: m)
    have "(2::rat) powi bitlen n = 2 ^ Suc m" unfolding m power_int_of_nat ..
    with \<open>of_int n < 2 ^ Suc m\<close> show "(of_int n :: rat) < 2 powi bitlen n" by (simp only:)
  qed
  have dp: "(0::rat) < of_int d" using d by simp
  have "q < 2 powi (k + 1)"
  proof -
    have "(2::rat) powi (k + 1) * 2 powi (bitlen d - 1) = 2 powi bitlen n"
      by (simp add: k_def flip: power_int_add)
    then have "(of_int n :: rat) < 2 powi (k + 1) * 2 powi (bitlen d - 1)"
      using bn(2) [OF n] by simp
    also have "\<dots> \<le> 2 powi (k + 1) * (of_int d :: rat)"
      using bn(1) [OF d] by (intro mult_left_mono) auto
    finally show ?thesis using dp by (simp add: q pos_divide_less_eq)
  qed
  moreover have "2 powi (k - 1) \<le> q"
  proof -
    have "2 powi (k - 1) * (of_int d :: rat) \<le> 2 powi (k - 1) * 2 powi bitlen d"
      using bn(2) [OF d] by (intro mult_left_mono) auto
    also have "(2::rat) powi (k - 1) * 2 powi bitlen d = 2 powi (bitlen n - 1)"
      by (simp add: k_def flip: power_int_add)
    also have "\<dots> \<le> of_int n" by (rule bn(1) [OF n])
    finally show ?thesis using dp by (simp add: q pos_le_divide_eq)
  qed
  ultimately show "2 powi expo q \<le> q" "q < 2 powi (expo q + 1)"
    by (auto simp: expo_def nd Let_def k_def [symmetric])
qed

lemma expo_mono:
  assumes "0 < x" "x \<le> y"
  shows "expo x \<le> expo y"
proof (rule ccontr)
  assume "\<not> expo x \<le> expo y"
  then have "(2::rat) powi (expo y + 1) \<le> 2 powi expo x" by (intro power_int_increasing) auto
  with expo_bounds(1) [OF assms(1)] expo_bounds(2) [of y] assms show False by simp
qed

lemma ulp_pos: "0 < ulp q"
  by (simp add: ulp_def)

lemma ulp_minus: "ulp (- q) = ulp q"
  by (simp add: ulp_def)

lemma rnd_minus: "rnd (- q) = - rnd q"
  by (simp add: rnd_def ulp_minus rhe_minus)

text \<open>A multiple of the unit in the last place is kept, and so is every bound that is one.\<close>

lemma rhe_le_of_int: "x \<le> of_int k \<Longrightarrow> round_half_even x \<le> k"
  using rhe_mono [of x "of_int k"] by (simp add: rhe_of_int)

lemma rhe_ge_of_int: "of_int k \<le> x \<Longrightarrow> k \<le> round_half_even x"
  using rhe_mono [of "of_int k" x] by (simp add: rhe_of_int)

lemma rnd_le:
  assumes "0 < q" "q \<le> of_int k * ulp q"
  shows "rnd q \<le> of_int k * ulp q"
proof -
  have "q / ulp q \<le> of_int k" using assms ulp_pos [of q] by (simp add: pos_divide_le_eq)
  from rhe_le_of_int [OF this] ulp_pos [of q] assms(1) show ?thesis by (simp add: rnd_def)
qed

lemma rnd_ge:
  assumes "0 < q" "of_int k * ulp q \<le> q"
  shows "of_int k * ulp q \<le> rnd q"
proof -
  have "of_int k \<le> q / ulp q" using assms ulp_pos [of q] by (simp add: pos_le_divide_eq)
  from rhe_ge_of_int [OF this] ulp_pos [of q] assms(1) show ?thesis by (simp add: rnd_def)
qed

lemma rnd_mono_pos:
  assumes "0 < x" "x \<le> y"
  shows "rnd x \<le> rnd y"
proof (cases "ulp x = ulp y")
  case True
  have "x / ulp y \<le> y / ulp y" using assms ulp_pos [of y] by (simp add: divide_right_mono)
  from rhe_mono [OF this] ulp_pos [of y] assms True show ?thesis
    by (simp add: rnd_def mult_right_mono)
next
  case False
  define ex ey where "ex = max (expo x) (- 1022)" and "ey = max (expo y) (- 1022)"
  have le: "expo x \<le> expo y" using assms by (rule expo_mono)
  have ux: "ulp x = 2 powi (ex - 52)" and uy: "ulp y = 2 powi (ey - 52)"
    using assms by (simp_all add: ulp_def ex_def ey_def)
  have "ex \<noteq> ey" using False by (auto simp: ux uy)
  moreover have "ex \<le> ey" using le by (simp add: ex_def ey_def)
  ultimately have lt: "ex + 1 \<le> ey" by simp
  then have ey: "ey = expo y" by (simp add: ex_def ey_def max_def split: if_splits)
  have px: "(2::rat) powi (ex + 1) = of_int (2 ^ 53) * ulp x"
    and py: "(2::rat) powi ey = of_int (2 ^ 52) * ulp y"
    unfolding ux uy by (simp_all add: power_int_add power_int_diff)
  have "x \<le> 2 powi (ex + 1)"
  proof -
    have "(2::rat) powi (expo x + 1) \<le> 2 powi (ex + 1)"
      unfolding ex_def by (intro power_int_increasing) auto
    with expo_bounds(2) [OF assms(1)] show ?thesis by simp
  qed
  with assms(1) have "rnd x \<le> 2 powi (ex + 1)" unfolding px by (rule rnd_le)
  also have "\<dots> \<le> 2 powi ey" using lt by (intro power_int_increasing) auto
  also have "2 powi ey \<le> rnd y"
    using expo_bounds(1) [of y] assms unfolding ey [symmetric] py by (intro rnd_ge) auto
  finally show ?thesis .
qed

lemma rnd_nonneg_pos: "0 < x \<Longrightarrow> 0 \<le> rnd x"
  using rnd_ge [of x 0] by simp

lemma rnd_mono: "x \<le> y \<Longrightarrow> rnd x \<le> rnd y"
proof -
  assume le: "x \<le> y"
  consider "0 < x" | "x \<le> 0" "0 \<le> y" | "y < 0" by linarith
  then show ?thesis
  proof cases
    case 1
    from this le show ?thesis by (rule rnd_mono_pos)
  next
    case 2
    have "rnd x \<le> 0" using rnd_nonneg_pos [of "- x"] 2(1) by (cases "x = 0") (auto simp: rnd_minus rnd_def [of 0])
    moreover have "0 \<le> rnd y" using rnd_nonneg_pos [of y] 2(2) by (cases "y = 0") (auto simp: rnd_def [of 0])
    ultimately show ?thesis by simp
  next
    case 3
    with le rnd_mono_pos [of "- y" "- x"] show ?thesis by (simp add: rnd_minus)
  qed
qed

lemma rnd_multiple:
  assumes "q = of_int k * ulp q"
  shows "rnd q = q"
proof (cases "q = 0")
  case False
  have "q / ulp q = of_int k" using assms ulp_pos [of q] by (simp add: nonzero_divide_eq_eq)
  then have "rnd q = of_int k * ulp q" using False by (simp add: rnd_def rhe_of_int)
  with assms show ?thesis by simp
qed (simp add: rnd_def)

lemma rnd_exact_pos:
  assumes "0 < k" "k \<le> 2 ^ 53"
  shows "rnd (of_int k * 2 ^ e) = of_int k * 2 ^ e"
proof -
  define q where "q = (of_int k * 2 ^ e :: rat)"
  have q: "0 < q" using assms by (simp add: q_def)
  show ?thesis
  proof (cases "k = 2 ^ 53")
    case True
    then have "q = 2 powi int (e + 53)"
      unfolding q_def power_int_of_nat power_add True by (simp only: of_int_power of_int_numeral mult.commute)
    moreover have "expo q = int (e + 53)"
    proof (rule antisym)
      show "expo q \<le> int (e + 53)"
      proof (rule ccontr)
        assume "\<not> expo q \<le> int (e + 53)"
        then have "(2::rat) powi (int (e + 53) + 1) \<le> 2 powi expo q" by (intro power_int_increasing) auto
        with expo_bounds(1) [OF q] have "(2::rat) powi (int (e + 53) + 1) \<le> 2 powi int (e + 53)"
          using \<open>q = 2 powi int (e + 53)\<close> by simp
        then show False by (simp add: power_int_add)
      qed
      show "int (e + 53) \<le> expo q"
      proof (rule ccontr)
        assume "\<not> int (e + 53) \<le> expo q"
        then have "(2::rat) powi (expo q + 1) \<le> 2 powi int (e + 53)" by (intro power_int_increasing) auto
        with expo_bounds(2) [OF q] show False using \<open>q = 2 powi int (e + 53)\<close> by simp
      qed
    qed
    ultimately have "q = of_int (2 ^ 52) * ulp q"
      using q by (simp add: ulp_def power_int_add)
    then show ?thesis unfolding q_def [symmetric] by (rule rnd_multiple)
  next
    case False
    then have "of_int k < (2 ^ 53 :: rat)"
      using assms by (metis of_int_less_iff of_int_numeral of_int_power order_less_le)
    then have "q < 2 powi int (e + 53)"
      unfolding q_def power_int_of_nat power_add by (simp add: mult.commute)
    then have "expo q < int (e + 53)"
    proof (rule contrapos_pp)
      assume "\<not> expo q < int (e + 53)"
      then have "(2::rat) powi int (e + 53) \<le> 2 powi expo q" by (intro power_int_increasing) auto
      with expo_bounds(1) [OF q] show "\<not> q < 2 powi int (e + 53)" by simp
    qed
    then have small: "max (expo q) (- 1022) - 52 \<le> int e" by simp
    define m where "m = nat (int e - (max (expo q) (- 1022) - 52))"
    have "(2::rat) ^ e = 2 ^ m * ulp q"
    proof -
      have "(2::rat) ^ e = 2 powi (int m + (max (expo q) (- 1022) - 52))"
        using small by (simp add: m_def power_int_def)
      also have "\<dots> = 2 ^ m * ulp q" using q by (simp add: ulp_def power_int_add)
      finally show ?thesis .
    qed
    then have "q = of_int (k * 2 ^ m) * ulp q" by (simp add: q_def)
    then show ?thesis unfolding q_def [symmetric] by (rule rnd_multiple)
  qed
qed

lemma rnd_exact: "\<bar>k\<bar> \<le> 2 ^ 53 \<Longrightarrow> rnd (of_int k * 2 ^ e) = of_int k * 2 ^ e"
proof -
  assume k: "\<bar>k\<bar> \<le> 2 ^ 53"
  consider "0 < k" | "k = 0" | "k < 0" by linarith
  then show ?thesis
  proof cases
    case 1
    with k show ?thesis by (intro rnd_exact_pos) auto
  next
    case 3
    with k rnd_exact_pos [of "- k" e] show ?thesis by (simp add: rnd_minus)
  qed (simp add: rnd_def)
qed

interpretation binary64: fp_format rnd
  by unfold_locales (simp_all add: rnd_mono rnd_exact)

end
