(* ===== verification/Std_Map.thy ===== *)
theory Std_Map
  imports SDN_Prelude "HOL-Library.List_Lexorder" "HOL-Library.Char_ord"
begin

text \<open>
  \<open>std::map\<close> as the controller uses it: an association list sorted by key, so that iteration is
  in key order; strings are ordered as \<open>std::string\<close> orders them.  \<open>map_get\<close> is the value
  \<open>operator[]\<close> yields, with the default of the value type for a missing key, and \<open>map_put\<close> is an
  assignment through it.  The locale states the laws of such a map, from which the laws of the
  two-level maps \<open>m[a][b]\<close> of the controller follow once.
\<close>

type_synonym ('k, 'v) smap = "('k \<times> 'v) list"

fun map_put :: "'k::linorder \<Rightarrow> 'v \<Rightarrow> ('k, 'v) smap \<Rightarrow> ('k, 'v) smap" where
  "map_put k v [] = [(k, v)]"
| "map_put k v ((k', v') # m) =
     (if k < k' then (k, v) # (k', v') # m
      else if k = k' then (k, v) # m
      else (k', v') # map_put k v m)"

definition map_get :: "'v \<Rightarrow> 'k \<Rightarrow> ('k, 'v) smap \<Rightarrow> 'v" where
  "map_get d k m = (case map_of m k of None \<Rightarrow> d | Some v \<Rightarrow> v)"

definition map_ok :: "('k::linorder, 'v) smap \<Rightarrow> bool" where
  "map_ok m \<longleftrightarrow> sorted_wrt (<) (map fst m)"

type_synonym ('k, 'v) smap2 = "('k, ('k, 'v) smap) smap"

definition get2 :: "'v \<Rightarrow> 'k \<Rightarrow> 'k \<Rightarrow> ('k, 'v) smap2 \<Rightarrow> 'v" where
  "get2 d a b m = map_get d b (map_get [] a m)"

definition put2 :: "'k::linorder \<Rightarrow> 'k \<Rightarrow> 'v \<Rightarrow> ('k, 'v) smap2 \<Rightarrow> ('k, 'v) smap2" where
  "put2 a b v m = map_put a (map_put b v (map_get [] a m)) m"

definition map2_ok :: "('k::linorder, 'v) smap2 \<Rightarrow> bool" where
  "map2_ok m \<longleftrightarrow> map_ok m \<and> (\<forall>(k, i) \<in> set m. map_ok i)"

text \<open>The pairs in the order of a nested iteration.\<close>

definition entries2 :: "('k, 'v) smap2 \<Rightarrow> ('k \<times> 'k \<times> 'v) list" where
  "entries2 m = concat (map (\<lambda>(a, i). map (\<lambda>(b, v). (a, b, v)) i) m)"

subsection \<open>The laws of a default map\<close>

locale default_map =
  fixes ok :: "'m \<Rightarrow> bool"
    and get :: "'v \<Rightarrow> 'k \<Rightarrow> 'm \<Rightarrow> 'v"
    and put :: "'k \<Rightarrow> 'v \<Rightarrow> 'm \<Rightarrow> 'm"
    and keys :: "'m \<Rightarrow> 'k set"
  assumes get_put: "ok m \<Longrightarrow> get d k (put k' v m) = (if k = k' then v else get d k m)"
    and ok_put: "ok m \<Longrightarrow> ok (put k v m)"
    and keys_put: "ok m \<Longrightarrow> keys (put k v m) = insert k (keys m)"
    and get_missing: "ok m \<Longrightarrow> k \<notin> keys m \<Longrightarrow> get d k m = d"
begin

lemma get_put_same: "ok m \<Longrightarrow> get d k (put k v m) = v"
  by (simp add: get_put)

lemma get_put_other: "ok m \<Longrightarrow> k \<noteq> k' \<Longrightarrow> get d k (put k' v m) = get d k m"
  by (simp add: get_put)

lemma get_fold_put:
  "ok m \<Longrightarrow> get d k (fold (\<lambda>(k, v). put k v) kvs m) =
     (case map_of (rev kvs) k of None \<Rightarrow> get d k m | Some v \<Rightarrow> v)"
proof (induction kvs arbitrary: m)
  case (Cons kv kvs)
  obtain k' v' where kv: "kv = (k', v')" by (cases kv)
  from Cons ok_put show ?case
    by (auto simp: kv get_put map_add_def split: option.splits)
qed simp

end

lemma map_of_map_put: "map_of (map_put k v m) k' = (if k' = k then Some v else map_of m k')"
  by (induction k v m rule: map_put.induct) auto

lemma fst_set_map_put: "fst ` set (map_put k v m) = insert k (fst ` set m)"
  by (induction k v m rule: map_put.induct) auto

lemma map_ok_put: "map_ok m \<Longrightarrow> map_ok (map_put k v m)"
proof (induction k v m rule: map_put.induct)
  case (2 k v k' v' m)
  then have "\<forall>x \<in> fst ` set (map_put k v m). k' < x" if "k' < k"
    using that by (auto simp: fst_set_map_put map_ok_def)
  with 2 show ?case by (auto simp: map_ok_def)
qed (simp add: map_ok_def)

lemma map_get_put: "map_get d k (map_put k' v m) = (if k = k' then v else map_get d k m)"
  by (simp add: map_get_def map_of_map_put)

lemma map_get_missing: "k \<notin> fst ` set m \<Longrightarrow> map_get d k m = d"
  by (simp add: map_get_def map_of_eq_None_iff [THEN iffD2])

interpretation std_map: default_map map_ok map_get map_put "\<lambda>m. fst ` set m"
  by unfold_locales (simp_all add: map_get_put map_ok_put fst_set_map_put map_get_missing)

subsection \<open>Two-level maps\<close>

lemma map_ok_Nil [simp]: "map_ok []"
  by (simp add: map_ok_def)

lemma map2_ok_Nil [simp]: "map2_ok []"
  by (simp add: map2_ok_def)

lemma map_get_Nil [simp]: "map_get d k [] = d"
  by (simp add: map_get_def)

lemma map2_ok_inner: "map2_ok m \<Longrightarrow> map_ok (map_get [] a m)"
  by (auto simp: map2_ok_def map_get_def split: option.splits dest: map_of_SomeD)

lemma set_map_put: "map_ok m \<Longrightarrow> set (map_put k v m) = insert (k, v) {kv \<in> set m. fst kv \<noteq> k}"
proof (induction k v m rule: map_put.induct)
  case (2 k v k' v' m)
  have later: "\<forall>kv \<in> set m. k' < fst kv" and m: "map_ok m"
    using 2(2) by (auto simp: map_ok_def)
  consider "k < k'" | "k = k'" | "k' < k" by fastforce
  then show ?case
  proof cases
    case 1
    with later have "\<forall>kv \<in> set m. fst kv \<noteq> k" by (auto dest!: bspec)
    with 1 show ?thesis by auto
  next
    case 2
    with later show ?thesis by auto
  next
    case 3
    with 2(1) m show ?thesis by auto
  qed
qed simp

lemma map2_ok_put2: "map2_ok m \<Longrightarrow> map2_ok (put2 a b v m)"
  using map2_ok_inner [of m a] set_map_put [of m a]
  by (auto simp: put2_def map2_ok_def map_ok_put)

lemma get2_put2:
  "map2_ok m \<Longrightarrow> get2 d a b (put2 a' b' v m) = (if a = a' \<and> b = b' then v else get2 d a b m)"
  using map2_ok_inner [of m a']
  by (auto simp: get2_def put2_def std_map.get_put map2_ok_def)

lemma entries2_get2:
  assumes "map2_ok m" "(a, b, v) \<in> set (entries2 m)"
  shows "get2 d a b m = v"
proof -
  from assms(2) obtain i where i: "(a, i) \<in> set m" "(b, v) \<in> set i"
    by (auto simp: entries2_def)
  have di: "distinct (map fst m')" if "map_ok m'" for m' :: "('a, 'c) smap"
    using that by (auto simp: map_ok_def strict_sorted_iff)
  have "map_ok i" "map_ok m" using assms(1) i(1) by (auto simp: map2_ok_def)
  then show ?thesis
    using i di [of m] di [of i] by (simp add: get2_def map_get_def map_of_is_SomeI)
qed

lemma get2_entries2:
  assumes "get2 d a b m = v" "v \<noteq> d"
  shows "(a, b, v) \<in> set (entries2 m)"
  using assms
  by (auto simp: get2_def map_get_def entries2_def split: option.splits dest!: map_of_SomeD intro!: rev_bexI)

end
