(* ===== verification/Topology.thy ===== *)
theory Topology
  imports Std_Map
begin

text \<open>
  The static view of the network the controller keeps, \<open>sync/server.cpp\<close>: the switches, the links
  between them, the servers attached to each switch and the names of the switch ports.  The
  answers of the fabric manager are parameters: a status and the decoded JSON.  The maps
  \<open>links\<close> and \<open>server_ip_to_switch_name\<close> are only ever read through \<open>operator[]\<close>, so they
  are functions with the default value for a missing key; \<open>switch_server_list\<close> is iterated and is
  a sorted map.
\<close>

record device =
  deviceName :: string
  deviceIp :: string

record json_link =
  deviceName1 :: string
  deviceName2 :: string
  jl_port1 :: string
  jl_port2 :: string

type_synonym flow = "string \<times> string"

record Link =
  port1 :: string
  port2 :: string
  flows :: "flow list"
  link_rate :: int

record server =
  srv_ip :: string
  srv_port :: string
  srv_bw :: int

record port_label =
  pl_value :: string
  pl_label :: string

record interface =
  if_value :: string
  if_children :: "port_label list"

type_synonym link_map = "string \<Rightarrow> string \<Rightarrow> Link list"

record topo =
  nodes :: "device list"
  linklist :: "json_link list"

subsection \<open>The topology\<close>

text \<open>\<open>get_topo\<close>: any status but OK (200) ends the program.\<close>

definition get_topo :: "nat \<times> topo \<Rightarrow> topo res" where
  "get_topo resp = (if fst resp = 200 then Inr (snd resp) else Inl Exited)"

definition n_switch :: "device list \<Rightarrow> nat" where
  "n_switch ns = length ns"

definition new_Link :: "string \<Rightarrow> string \<Rightarrow> Link" where
  "new_Link p1 p2 = \<lparr>port1 = p1, port2 = p2, flows = [], link_rate = 0\<rparr>"

definition push_link :: "string \<Rightarrow> string \<Rightarrow> Link \<Rightarrow> link_map \<Rightarrow> link_map" where
  "push_link a b l lm = lm(a := (lm a)(b := lm a b @ [l]))"

text \<open>The reset of every pair of known switches, then the two directions of every link.\<close>

definition reset_links :: "device list \<Rightarrow> link_map \<Rightarrow> link_map" where
  "reset_links ns lm = (\<lambda>a b. if a \<in> deviceName ` set ns \<and> b \<in> deviceName ` set ns then [] else lm a b)"

definition add_json_link :: "json_link \<Rightarrow> link_map \<Rightarrow> link_map" where
  "add_json_link l lm =
     push_link (deviceName2 l) (deviceName1 l) (new_Link (jl_port2 l) (jl_port1 l))
       (push_link (deviceName1 l) (deviceName2 l) (new_Link (jl_port1 l) (jl_port2 l)) lm)"

definition get_links :: "topo \<Rightarrow> link_map \<Rightarrow> link_map" where
  "get_links tp lm = fold add_json_link (linklist tp) (reset_links (nodes tp) lm)"

subsection \<open>Switch names, indices and addresses\<close>

fun index_of :: "(device \<Rightarrow> bool) \<Rightarrow> device list \<Rightarrow> nat \<Rightarrow> nat" where
  "index_of p [] i = 0"
| "index_of p (d # ds) i = (if p d then i else index_of p ds (Suc i))"

definition switch_name_to_idx :: "device list \<Rightarrow> string \<Rightarrow> nat" where
  "switch_name_to_idx ns name = index_of (\<lambda>d. deviceName d = name) ns 0"

definition switch_ip_to_idx :: "device list \<Rightarrow> string \<Rightarrow> nat" where
  "switch_ip_to_idx ns ip = index_of (\<lambda>d. deviceIp d = ip) ns 0"

text \<open>An index outside the JSON array throws.\<close>

definition node_at :: "device list \<Rightarrow> nat \<Rightarrow> device res" where
  "node_at ns i = (if i < length ns then Inr (ns ! i) else Inl Uncaught)"

definition switch_name_to_ip :: "device list \<Rightarrow> string \<Rightarrow> string res" where
  "switch_name_to_ip ns name = map_sum id deviceIp (node_at ns (switch_name_to_idx ns name))"

text \<open>As in the source, the address is looked up among the names.\<close>

definition switch_ip_to_name :: "device list \<Rightarrow> string \<Rightarrow> string res" where
  "switch_ip_to_name ns ip = map_sum id deviceName (node_at ns (switch_name_to_idx ns ip))"

definition switch_idx_to_name :: "device list \<Rightarrow> nat \<Rightarrow> string res" where
  "switch_idx_to_name ns i = map_sum id deviceName (node_at ns i)"

definition switch_idx_to_ip :: "device list \<Rightarrow> nat \<Rightarrow> string res" where
  "switch_idx_to_ip ns i = map_sum id deviceIp (node_at ns i)"

subsection \<open>The servers\<close>

type_synonym server_map = "(string, server list) smap"

record server_tables =
  switch_server_list :: server_map
  server_ip_to_switch_name :: "string \<Rightarrow> string"

fun scan_digits :: "string \<Rightarrow> int \<Rightarrow> int option" where
  "scan_digits [] acc = Some acc"
| "scan_digits (c # cs) acc =
     (let d = int (of_char c) - 48
      in if 0 \<le> d \<and> d \<le> 9 then scan_digits cs (acc * 10 + d) else None)"

definition scan_int :: "string \<Rightarrow> int option" where
  "scan_int s =
     (case s of
        [] \<Rightarrow> None
      | c # cs \<Rightarrow>
          if c = CHR ''-'' then (if cs = [] then None else map_option uminus (scan_digits cs 0))
          else scan_digits (c # cs) 0)"

text \<open>
  \<open>get_server_list\<close> over the words of \<open>server_list.txt\<close>.  A word of 32 or more characters
  overruns its buffer; a missing or non-numeric count leaves a variable unset.
\<close>

fun scan_servers ::
    "string \<Rightarrow> nat \<Rightarrow> string list \<Rightarrow> server_tables \<Rightarrow> (string list \<times> server_tables) res" where
  "scan_servers sw 0 ws t = Inr (ws, t)"
| "scan_servers sw (Suc n) (ip # port # bw # ws) t =
     (if 32 \<le> length ip \<or> 32 \<le> length port then Inl Undefined
      else case scan_int bw of
             None \<Rightarrow> Inl Undefined
           | Some b \<Rightarrow>
               scan_servers sw n ws
                 (t\<lparr>switch_server_list :=
                      map_put sw
                        (map_get [] sw (switch_server_list t) @
                           [\<lparr>srv_ip = ip, srv_port = port, srv_bw = b\<rparr>])
                        (switch_server_list t),
                    server_ip_to_switch_name := (server_ip_to_switch_name t)(ip := sw)\<rparr>))"
| "scan_servers sw (Suc n) ws t = Inl Undefined"

lemma scan_servers_shorter:
  "scan_servers sw n ws t = Inr (ws', t') \<Longrightarrow> length ws' \<le> length ws"
  by (induction sw n ws t rule: scan_servers.induct) (auto split: if_splits option.splits)

function get_server_list :: "string list \<Rightarrow> server_tables \<Rightarrow> server_tables res" where
  "get_server_list [] t = Inr t"
| "get_server_list (sw # ws) t =
     (if 32 \<le> length sw then Inl Undefined
      else
        let t1 = t\<lparr>switch_server_list := map_put sw [] (switch_server_list t)\<rparr>
        in case ws of
             [] \<Rightarrow> Inl Undefined
           | cnt # ws1 \<Rightarrow>
               (case scan_int cnt of
                  None \<Rightarrow> Inl Undefined
                | Some n \<Rightarrow>
                    (case scan_servers sw (nat n) ws1 t1 of
                       Inl e \<Rightarrow> Inl e
                     | Inr (ws2, t2) \<Rightarrow> get_server_list ws2 t2)))"
  by pat_completeness auto
termination
  by (relation "measure (\<lambda>(ws, _). length ws)") (auto dest!: scan_servers_shorter)

fun find_server :: "string \<Rightarrow> server list \<Rightarrow> server option" where
  "find_server ip [] = None"
| "find_server ip (s # ss) = (if ip = srv_ip s then Some s else find_server ip ss)"

fun find_server_map :: "string \<Rightarrow> server_map \<Rightarrow> server option" where
  "find_server_map ip [] = None"
| "find_server_map ip ((sw, ss) # m) =
     (case find_server ip ss of Some s \<Rightarrow> Some s | None \<Rightarrow> find_server_map ip m)"

text \<open>\<open>server_ip_to_if\<close> runs off its end, without a return value, for an unknown server.\<close>

definition server_ip_to_if :: "server_tables \<Rightarrow> string \<Rightarrow> string res" where
  "server_ip_to_if t ip =
     (case find_server_map ip (switch_server_list t) of
        None \<Rightarrow> Inl Undefined | Some s \<Rightarrow> Inr (srv_port s))"

definition check_ip :: "server_tables \<Rightarrow> string \<Rightarrow> bool" where
  "check_ip t ip \<longleftrightarrow> find_server_map ip (switch_server_list t) \<noteq> None"

subsection \<open>The ports\<close>

definition get_interfaces :: "nat \<times> interface list \<Rightarrow> interface list res" where
  "get_interfaces resp = (if fst resp = 200 then Inr (snd resp) else Inl Exited)"

fun find_port :: "(port_label \<Rightarrow> bool) \<Rightarrow> string \<Rightarrow> interface list \<Rightarrow> port_label option" where
  "find_port p ip [] = None"
| "find_port p ip (i # is) =
     (if ip = if_value i
      then (case find p (if_children i) of Some l \<Rightarrow> Some l | None \<Rightarrow> find_port p ip is)
      else find_port p ip is)"

definition idx_to_ifname :: "interface list \<Rightarrow> string \<Rightarrow> string \<Rightarrow> string res" where
  "idx_to_ifname ifs ip idx =
     (case find_port (\<lambda>l. idx = pl_value l) ip ifs of
        None \<Rightarrow> Inl Undefined | Some l \<Rightarrow> Inr (pl_label l))"

definition ifname_to_idx :: "interface list \<Rightarrow> string \<Rightarrow> string \<Rightarrow> string res" where
  "ifname_to_idx ifs ip name =
     (case find_port (\<lambda>l. name = pl_label l) ip ifs of
        None \<Rightarrow> Inl Undefined | Some l \<Rightarrow> Inr (pl_value l))"

subsection \<open>Links\<close>

definition link_ports :: "link_map \<Rightarrow> string \<Rightarrow> string \<Rightarrow> (string \<times> string) list" where
  "link_ports lm a b = map (\<lambda>l. (port1 l, port2 l)) (lm a b)"

definition json_ports :: "string \<Rightarrow> string \<Rightarrow> json_link \<Rightarrow> (string \<times> string) list" where
  "json_ports a b l =
     (if deviceName1 l = a \<and> deviceName2 l = b then [(jl_port1 l, jl_port2 l)] else []) @
     (if deviceName2 l = a \<and> deviceName1 l = b then [(jl_port2 l, jl_port1 l)] else [])"

lemma push_link_ports:
  "link_ports (push_link x y k lm) a b =
     link_ports lm a b @ (if x = a \<and> y = b then [(port1 k, port2 k)] else [])"
  by (simp add: link_ports_def push_link_def)

definition idle :: "string \<Rightarrow> string \<Rightarrow> link_map \<Rightarrow> bool" where
  "idle a b lm \<longleftrightarrow> (\<forall>l \<in> set (lm a b). flows l = [])"

lemma push_link_idle: "idle a b lm \<Longrightarrow> flows k = [] \<Longrightarrow> idle a b (push_link x y k lm)"
  by (simp add: push_link_def idle_def)

lemma add_json_link_ports:
  "link_ports (add_json_link l lm) a b = link_ports lm a b @ json_ports a b l"
  unfolding json_ports_def add_json_link_def push_link_ports new_Link_def append_assoc Link.simps
  by (rule refl)

lemma add_json_link_idle: "idle a b lm \<Longrightarrow> idle a b (add_json_link l lm)"
  by (simp add: add_json_link_def push_link_idle new_Link_def)

lemma fold_json_link_ports:
  "link_ports (fold add_json_link ls lm) a b = link_ports lm a b @ concat (map (json_ports a b) ls)"
  by (induction ls arbitrary: lm) (simp_all add: add_json_link_ports)

lemma fold_json_link_idle: "idle a b lm \<Longrightarrow> idle a b (fold add_json_link ls lm)"
  by (induction ls arbitrary: lm) (simp_all add: add_json_link_idle)

lemma json_ports_swap: "a \<noteq> b \<Longrightarrow> json_ports b a l = map prod.swap (json_ports a b l)"
  by (auto simp: json_ports_def)

definition known_switch :: "topo \<Rightarrow> string \<Rightarrow> bool" where
  "known_switch tp a \<longleftrightarrow> a \<in> deviceName ` set (nodes tp)"

text \<open>
  C29. \<open>get_links\<close> builds exactly the reported topology: between two switches it holds, in the order
  of the report, one link per reported link in either direction with its two ports, no link
  carries a flow, and the links from \<open>b\<close> to \<open>a\<close> are those from \<open>a\<close> to \<open>b\<close> with their
  ports exchanged.
\<close>
theorem get_links_exact:
  assumes "known_switch tp a" "known_switch tp b" "a \<noteq> b"
  shows "link_ports (get_links tp lm) a b = concat (map (json_ports a b) (linklist tp)) \<and>
    link_ports (get_links tp lm) b a = map prod.swap (link_ports (get_links tp lm) a b) \<and>
    idle a b (get_links tp lm)"
proof -
  have r: "reset_links (nodes tp) lm a b = []" "reset_links (nodes tp) lm b a = []"
    using assms by (auto simp: reset_links_def known_switch_def)
  have ab: "link_ports (get_links tp lm) a b = concat (map (json_ports a b) (linklist tp))"
    using r by (simp add: get_links_def fold_json_link_ports link_ports_def [of "reset_links _ _"])
  have "link_ports (get_links tp lm) b a = concat (map (json_ports b a) (linklist tp))"
    using r by (simp add: get_links_def fold_json_link_ports link_ports_def [of "reset_links _ _"])
  then have "link_ports (get_links tp lm) b a = map prod.swap (link_ports (get_links tp lm) a b)"
    unfolding ab map_concat map_map o_def json_ports_swap [OF assms(3)] .
  moreover have "idle a b (get_links tp lm)"
    using r by (simp add: get_links_def fold_json_link_idle idle_def [of a b "reset_links _ _"])
  ultimately show ?thesis using ab by blast
qed

definition ex_topo :: topo where
  "ex_topo = \<lparr>nodes = [\<lparr>deviceName = ''A'', deviceIp = ''1.1''\<rparr>, \<lparr>deviceName = ''B'', deviceIp = ''1.2''\<rparr>],
     linklist = [\<lparr>deviceName1 = ''A'', deviceName2 = ''B'', jl_port1 = ''p1'', jl_port2 = ''q1''\<rparr>,
       \<lparr>deviceName1 = ''B'', deviceName2 = ''A'', jl_port1 = ''q2'', jl_port2 = ''p2''\<rparr>]\<rparr>"

theorem get_links_exact_witness:
  "link_ports (get_links ex_topo (\<lambda>_ _. [])) ''A'' ''B'' = [(''p1'', ''q1''), (''p2'', ''q2'')] \<and>
   link_ports (get_links ex_topo (\<lambda>_ _. [])) ''B'' ''A'' = [(''q1'', ''p1''), (''q2'', ''p2'')]"
proof -
  have "known_switch ex_topo ''A''" "known_switch ex_topo ''B''" "''A'' \<noteq> ''B''"
    by (simp_all add: known_switch_def ex_topo_def)
  from get_links_exact [OF this, of "\<lambda>_ _. []"] show ?thesis
    by (simp add: ex_topo_def json_ports_def)
qed

subsection \<open>Indices\<close>

lemma index_of_nth:
  assumes "i < length ns" "p (ns ! i)" "\<forall>j < i. \<not> p (ns ! j)"
  shows "index_of p ns k = k + i"
  using assms
proof (induction ns arbitrary: i k)
  case (Cons d ds)
  show ?case
  proof (cases i)
    case 0
    with Cons.prems show ?thesis by simp
  next
    case (Suc j)
    with Cons.prems(3) have "\<not> p ((d # ds) ! 0)" by blast
    then have "\<not> p d" by simp
    moreover have "index_of p ds (Suc k) = Suc k + j"
    proof (rule Cons.IH)
      show "j < length ds" "p (ds ! j)" using Cons.prems(1,2) Suc by simp_all
      show "\<forall>m < j. \<not> p (ds ! m)"
      proof (intro allI impI)
        fix m assume "m < j"
        with Cons.prems(3) Suc have "\<not> p ((d # ds) ! Suc m)" by blast
        then show "\<not> p (ds ! m)" by simp
      qed
    qed
    ultimately show ?thesis using Suc by simp
  qed
qed simp

lemma index_of_none: "\<forall>d \<in> set ns. \<not> p d \<Longrightarrow> index_of p ns k = 0"
  by (induction ns arbitrary: k) auto

lemma name_to_idx_nth:
  assumes "distinct (map deviceName ns)" "i < length ns"
  shows "switch_name_to_idx ns (deviceName (ns ! i)) = i"
proof -
  have "\<forall>j < i. deviceName (ns ! j) \<noteq> deviceName (ns ! i)"
  proof (intro allI impI)
    fix j assume "j < i"
    with assms have "map deviceName ns ! j \<noteq> map deviceName ns ! i"
      by (subst nth_eq_iff_index_eq) simp_all
    with assms(2) \<open>j < i\<close> show "deviceName (ns ! j) \<noteq> deviceName (ns ! i)" by simp
  qed
  then show ?thesis
    using assms(2) index_of_nth [of i ns "\<lambda>d. deviceName d = deviceName (ns ! i)" 0]
    by (simp add: switch_name_to_idx_def)
qed

text \<open>
  With distinct switch names, names and indices are inverse to each other.
\<close>
theorem switch_name_idx_roundtrip:
  assumes "distinct (map deviceName ns)" "i < n_switch ns"
  shows "\<exists>name. switch_idx_to_name ns i = Inr name \<and> switch_name_to_idx ns name = i \<and>
    switch_name_to_ip ns name = switch_idx_to_ip ns i"
  using assms name_to_idx_nth [of ns i]
  by (simp add: switch_idx_to_name_def switch_name_to_ip_def switch_idx_to_ip_def node_at_def
      n_switch_def)

theorem switch_name_idx_roundtrip_witness:
  "switch_idx_to_name (nodes ex_topo) 1 = Inr ''B'' \<and> switch_name_to_idx (nodes ex_topo) ''B'' = 1"
proof -
  have "distinct (map deviceName (nodes ex_topo))" "1 < n_switch (nodes ex_topo)"
    by (simp_all add: ex_topo_def n_switch_def)
  from switch_name_idx_roundtrip [OF this] show ?thesis
    by (auto simp: switch_idx_to_name_def node_at_def ex_topo_def)
qed

text \<open>
  \<open>switch_ip_to_name\<close> does not translate addresses: it searches the names, so for an address
  that is no switch name it returns the name of the first switch, whichever switch has the
  address.
\<close>
theorem switch_ip_to_name_ignores_ip:
  assumes "ns \<noteq> []" "ip \<notin> deviceName ` set ns"
  shows "switch_ip_to_name ns ip = Inr (deviceName (ns ! 0))"
proof -
  have "switch_name_to_idx ns ip = 0"
    unfolding switch_name_to_idx_def using assms(2) by (intro index_of_none) auto
  with assms(1) show ?thesis by (simp add: switch_ip_to_name_def node_at_def)
qed

theorem switch_ip_to_name_ignores_ip_witness:
  "deviceIp (nodes ex_topo ! 1) = ''1.2'' \<and> switch_ip_to_name (nodes ex_topo) ''1.2'' = Inr ''A''"
  using switch_ip_to_name_ignores_ip [of "nodes ex_topo" "''1.2''"] by (simp add: ex_topo_def)

subsection \<open>Ports\<close>

definition ports_of :: "string \<Rightarrow> interface list \<Rightarrow> port_label list" where
  "ports_of ip ifs = concat (map if_children (filter (\<lambda>i. if_value i = ip) ifs))"

lemma find_port_eq: "find_port p ip ifs = find p (ports_of ip ifs)"
proof (induction ifs)
  case (Cons i ifs)
  have app: "find p (xs @ ys) = (case find p xs of Some l \<Rightarrow> Some l | None \<Rightarrow> find p ys)" for xs ys
    by (induction xs) auto
  from Cons show ?case by (auto simp: ports_of_def app split: option.split)
qed (simp add: ports_of_def)

lemma find_unique:
  assumes "distinct (map f xs)" "x \<in> set xs"
  shows "find (\<lambda>y. f x = f y) xs = Some x"
  using assms
proof (induction xs)
  case (Cons a xs)
  then show ?case by (auto simp: image_iff)
qed simp

text \<open>
  Port indices and port names of a switch translate back and forth when they are distinct.
\<close>
theorem ifname_idx_roundtrip:
  assumes "distinct (map pl_value (ports_of ip ifs))" "distinct (map pl_label (ports_of ip ifs))"
    and "l \<in> set (ports_of ip ifs)"
  shows "idx_to_ifname ifs ip (pl_value l) = Inr (pl_label l) \<and>
    ifname_to_idx ifs ip (pl_label l) = Inr (pl_value l)"
  using find_unique [OF assms(1,3)] find_unique [OF assms(2,3)]
  by (simp add: idx_to_ifname_def ifname_to_idx_def find_port_eq)

theorem ifname_idx_roundtrip_witness:
  "let ifs = [\<lparr>if_value = ''1.1'', if_children = [\<lparr>pl_value = ''7'', pl_label = ''eth7''\<rparr>]\<rparr>]
   in idx_to_ifname ifs ''1.1'' ''7'' = Inr ''eth7'' \<and> ifname_to_idx ifs ''1.1'' ''eth7'' = Inr ''7''"
proof -
  let ?l = "\<lparr>pl_value = ''7'', pl_label = ''eth7''\<rparr>"
  let ?ifs = "[\<lparr>if_value = ''1.1'', if_children = [?l]\<rparr>]"
  have "ports_of ''1.1'' ?ifs = [?l]" by (simp add: ports_of_def)
  then show ?thesis
    using ifname_idx_roundtrip [of "''1.1''" ?ifs ?l] by simp
qed

subsection \<open>The server list\<close>

text \<open>
  The text of \<open>server_list.txt\<close>, word by word: a block per switch with the number of its servers
  and, per server, its address, port index and bandwidth.
\<close>

type_synonym server_line = "string \<times> string \<times> string"
type_synonym server_block = "string \<times> string \<times> server_line list"

definition line_words :: "server_line \<Rightarrow> string list" where
  "line_words = (\<lambda>(ip, port, bw). [ip, port, bw])"

definition line_server :: "server_line \<Rightarrow> server" where
  "line_server = (\<lambda>(ip, port, bw). \<lparr>srv_ip = ip, srv_port = port, srv_bw = the (scan_int bw)\<rparr>)"

definition line_ok :: "server_line \<Rightarrow> bool" where
  "line_ok = (\<lambda>(ip, port, bw). length ip < 32 \<and> length port < 32 \<and> scan_int bw \<noteq> None)"

definition sw_block_words :: "server_block \<Rightarrow> string list" where
  "sw_block_words = (\<lambda>(sw, cnt, ls). sw # cnt # concat (map line_words ls))"

definition sw_block_ok :: "server_block \<Rightarrow> bool" where
  "sw_block_ok = (\<lambda>(sw, cnt, ls). length sw < 32 \<and> scan_int cnt = Some (int (length ls)) \<and> list_all line_ok ls)"

definition sw_block_lines :: "server_block \<Rightarrow> server_line list" where
  "sw_block_lines = (\<lambda>(sw, cnt, ls). ls)"

lemma sw_block_lines_simp [simp]: "sw_block_lines (sw, cnt, ls) = ls"
  by (simp add: sw_block_lines_def)

lemma sw_block_lines_memI: "(sw, cnt, ls) \<in> set bs \<Longrightarrow> l \<in> set ls \<Longrightarrow> l \<in> set (concat (map sw_block_lines bs))"
  by (auto intro!: rev_bexI)

definition no_servers :: server_tables where
  "no_servers = \<lparr>switch_server_list = [], server_ip_to_switch_name = (\<lambda>_. [])\<rparr>"

definition add_server :: "string \<Rightarrow> server_line \<Rightarrow> server_tables \<Rightarrow> server_tables" where
  "add_server sw l t =
     t\<lparr>switch_server_list :=
         map_put sw (map_get [] sw (switch_server_list t) @ [line_server l]) (switch_server_list t),
       server_ip_to_switch_name := (server_ip_to_switch_name t)(fst l := sw)\<rparr>"

definition load_sw_block :: "server_block \<Rightarrow> server_tables \<Rightarrow> server_tables" where
  "load_sw_block = (\<lambda>(sw, cnt, ls) t.
     fold (add_server sw) ls (t\<lparr>switch_server_list := map_put sw [] (switch_server_list t)\<rparr>))"

lemma scan_servers_words:
  "list_all line_ok ls \<Longrightarrow>
     scan_servers sw (length ls) (concat (map line_words ls) @ ws) t = Inr (ws, fold (add_server sw) ls t)"
proof (induction ls arbitrary: t)
  case (Cons l ls)
  obtain ip port bw where l: "l = (ip, port, bw)" by (cases l)
  with Cons show ?case
    by (auto simp: line_ok_def line_words_def add_server_def line_server_def)
qed simp

lemma get_server_list_words:
  "list_all sw_block_ok bs \<Longrightarrow> get_server_list (concat (map sw_block_words bs)) t = Inr (fold load_sw_block bs t)"
proof (induction bs arbitrary: t)
  case (Cons b bs)
  obtain sw cnt ls where b: "b = (sw, cnt, ls)" by (cases b)
  with Cons.prems have ok: "list_all line_ok ls" "length sw < 32" "scan_int cnt = Some (int (length ls))"
    and bs: "list_all sw_block_ok bs" by (simp_all add: sw_block_ok_def)
  show ?case
    using ok Cons.IH [OF bs] scan_servers_words [OF ok(1)]
    by (simp add: b sw_block_words_def load_sw_block_def Let_def del: scan_servers.simps)
qed simp

lemma fold_add_server:
  "map_ok (switch_server_list t) \<Longrightarrow> t' = fold (add_server sw) ls t \<Longrightarrow>
   map_ok (switch_server_list t') \<and>
   (switch_server_list t' = switch_server_list t \<and> ls = [] \<or>
    set (switch_server_list t') =
      insert (sw, map_get [] sw (switch_server_list t) @ map line_server ls)
        {e \<in> set (switch_server_list t). fst e \<noteq> sw}) \<and>
   (\<forall>ip. server_ip_to_switch_name t' ip =
     (if ip \<in> fst ` set ls then sw else server_ip_to_switch_name t ip))"
proof (induction ls arbitrary: t)
  case (Cons l ls)
  let ?u = "add_server sw l t"
  have "map_ok (switch_server_list ?u)" by (simp add: add_server_def map_ok_put Cons.prems(1))
  from Cons.IH [OF this] Cons.prems show ?case
    by (auto simp: add_server_def map_get_put set_map_put)
qed simp

lemma load_sw_block_tables:
  assumes "map_ok (switch_server_list t)"
  shows "map_ok (switch_server_list (load_sw_block (sw, cnt, ls) t))"
    and "set (switch_server_list (load_sw_block (sw, cnt, ls) t)) =
      insert (sw, map line_server ls) {e \<in> set (switch_server_list t). fst e \<noteq> sw}"
    and "server_ip_to_switch_name (load_sw_block (sw, cnt, ls) t) ip =
      (if ip \<in> fst ` set ls then sw else server_ip_to_switch_name t ip)"
proof -
  let ?u = "t\<lparr>switch_server_list := map_put sw [] (switch_server_list t)\<rparr>"
  have "map_ok (switch_server_list ?u)" by (simp add: map_ok_put assms)
  from fold_add_server [OF this refl, of sw ls]
  show "map_ok (switch_server_list (load_sw_block (sw, cnt, ls) t))"
    "set (switch_server_list (load_sw_block (sw, cnt, ls) t)) =
      insert (sw, map line_server ls) {e \<in> set (switch_server_list t). fst e \<noteq> sw}"
    "server_ip_to_switch_name (load_sw_block (sw, cnt, ls) t) ip =
      (if ip \<in> fst ` set ls then sw else server_ip_to_switch_name t ip)"
    by (auto simp: load_sw_block_def set_map_put assms map_get_put)
qed

lemma find_SomeD: "find p xs = Some x \<Longrightarrow> x \<in> set xs \<and> p x"
  by (induction xs) (auto split: if_splits)

lemma find_server_map_eq: "find_server_map ip m = find (\<lambda>s. ip = srv_ip s) (concat (map snd m))"
proof -
  have app: "find p (xs @ ys) = (case find p xs of Some l \<Rightarrow> Some l | None \<Rightarrow> find p ys)"
    for p :: "server \<Rightarrow> bool" and xs ys by (induction xs) auto
  have "find_server ip ss = find (\<lambda>s. ip = srv_ip s) ss" for ss by (induction ss) auto
  then show ?thesis
    by (induction ip m rule: find_server_map.induct) (auto simp: app split: option.split)
qed

lemma find_server_map_unique:
  assumes "e \<in> set m" "s \<in> set (snd e)"
    and "\<And>e' s'. e' \<in> set m \<Longrightarrow> s' \<in> set (snd e') \<Longrightarrow> srv_ip s' = srv_ip s \<Longrightarrow> s' = s"
  shows "find_server_map (srv_ip s) m = Some s"
proof -
  let ?all = "concat (map snd m)"
  have "s \<in> set ?all" using assms(1,2) by auto
  then have "find (\<lambda>x. srv_ip s = srv_ip x) ?all \<noteq> None" by (auto simp: find_None_iff)
  then obtain s' where s': "find (\<lambda>x. srv_ip s = srv_ip x) ?all = Some s'" by blast
  from find_SomeD [OF this] have "s' \<in> set ?all" "srv_ip s' = srv_ip s" by auto
  with assms(3) have "s' = s" by fastforce
  with s' show ?thesis by (simp add: find_server_map_eq)
qed

definition sw_block_entry :: "server_block \<Rightarrow> string \<times> server list" where
  "sw_block_entry b = (fst b, map line_server (sw_block_lines b))"

lemma fold_load_sw_block:
  assumes "distinct (map fst bs)" "distinct (map fst (concat (map sw_block_lines bs)))"
  shows "map_ok (switch_server_list (fold load_sw_block bs no_servers)) \<and>
    set (switch_server_list (fold load_sw_block bs no_servers)) =
      sw_block_entry ` set bs \<and>
    (\<forall>(sw, cnt, ls) \<in> set bs. \<forall>l \<in> set ls.
      server_ip_to_switch_name (fold load_sw_block bs no_servers) (fst l) = sw)"
  using assms
proof (induction bs rule: rev_induct)
  case Nil
  then show ?case by (simp add: no_servers_def)
next
  case (snoc b bs)
  obtain sw cnt ls where b: "b = (sw, cnt, ls)" by (cases b)
  let ?t = "fold load_sw_block bs no_servers"
  have ih: "map_ok (switch_server_list ?t)"
    "set (switch_server_list ?t) = sw_block_entry ` set bs"
    "\<forall>(sw, cnt, ls) \<in> set bs. \<forall>l \<in> set ls. server_ip_to_switch_name ?t (fst l) = sw"
    using snoc by auto
  have fresh: "\<forall>b \<in> set bs. fst b \<noteq> sw" using snoc.prems(1) b by auto
  have other: "fst l \<notin> fst ` set ls" if "(sw', c', ls') \<in> set bs" "l \<in> set ls'" for sw' c' ls' l
  proof -
    have "set (map fst (concat (map sw_block_lines bs))) \<inter> set (map fst ls) = {}"
      using snoc.prems(2) by (simp add: b)
    moreover have "l \<in> set (concat (map sw_block_lines bs))"
      using that by (rule sw_block_lines_memI)
    ultimately show ?thesis by auto
  qed
  note lb = load_sw_block_tables [OF ih(1), of sw cnt ls]
  have "server_ip_to_switch_name (load_sw_block b ?t) (fst l) = sw'"
    if m: "(sw', cnt', ls') \<in> set (bs @ [b])" "l \<in> set ls'" for sw' cnt' ls' l
  proof (cases "(sw', cnt', ls') \<in> set bs")
    case True
    with other [OF True m(2)] ih(3) m(2) show ?thesis by (auto simp: b lb(3))
  next
    case False
    with m show ?thesis by (auto simp: b lb(3))
  qed
  then have "\<forall>(sw', cnt', ls') \<in> set (bs @ [b]). \<forall>l \<in> set ls'.
      server_ip_to_switch_name (load_sw_block b ?t) (fst l) = sw'" by blast
  moreover have "set (switch_server_list (load_sw_block b ?t)) =
      sw_block_entry ` set (bs @ [b])"
  proof -
    have "{e \<in> sw_block_entry ` set bs. fst e \<noteq> sw} = sw_block_entry ` set bs"
      using fresh by (auto simp: sw_block_entry_def)
    then show ?thesis by (simp add: b lb(2) ih(2) sw_block_entry_def [of "(sw, cnt, ls)"])
  qed
  ultimately show ?case using lb(1) by (simp add: b)
qed

text \<open>
  C30. A server list in its documented form, with distinct switch names and server addresses, loads
  without a fault, and afterwards every listed server is found: its address is known, it is attached
  to the switch of its block and its port index is the listed one.  No other address is known.
\<close>
theorem server_list_loaded:
  assumes "list_all sw_block_ok bs" "distinct (map fst bs)"
    and "distinct (map fst (concat (map sw_block_lines bs)))"
  shows "\<exists>t. get_server_list (concat (map sw_block_words bs)) no_servers = Inr t \<and>
    (\<forall>(sw, cnt, ls) \<in> set bs. \<forall>(ip, port, bw) \<in> set ls.
       server_ip_to_switch_name t ip = sw \<and> server_ip_to_if t ip = Inr port) \<and>
    (\<forall>ip. check_ip t ip \<longleftrightarrow> ip \<in> fst ` set (concat (map sw_block_lines bs)))"
proof (intro exI conjI)
  let ?t = "fold load_sw_block bs no_servers" and ?all = "concat (map sw_block_lines bs)"
  show "get_server_list (concat (map sw_block_words bs)) no_servers = Inr ?t"
    by (rule get_server_list_words [OF assms(1)])
  note fl = fold_load_sw_block [OF assms(2,3)]
  have mem: "(\<exists>e \<in> set (switch_server_list ?t). s \<in> set (snd e)) \<longleftrightarrow> s \<in> line_server ` set ?all" for s
  proof -
    have "set (switch_server_list ?t) = sw_block_entry ` set bs" using fl by blast
    then show ?thesis by (simp add: sw_block_entry_def image_UN)
  qed
  have inj: "l = l'" if "l \<in> set ?all" "l' \<in> set ?all" "fst l = fst l'" for l l'
    using assms(3) that by (auto simp: distinct_map dest: inj_onD)
  have ip: "srv_ip (line_server l) = fst l" for l by (simp add: line_server_def split: prod.split)
  have found: "find_server_map (fst l) (switch_server_list ?t) = Some (line_server l)" if "l \<in> set ?all" for l
  proof -
    from that mem obtain e where s: "e \<in> set (switch_server_list ?t)" "line_server l \<in> set (snd e)"
      by blast
    have "s' = line_server l"
      if s': "e' \<in> set (switch_server_list ?t)" "s' \<in> set (snd e')" "srv_ip s' = srv_ip (line_server l)"
      for e' s'
    proof -
      from s' mem obtain l' where "l' \<in> set ?all" "s' = line_server l'" by blast
      with inj [OF \<open>l \<in> set ?all\<close>, of l'] s'(3) show ?thesis by (simp add: ip)
    qed
    from find_server_map_unique [OF s this] show ?thesis by (simp add: ip)
  qed
  show "\<forall>(sw, cnt, ls) \<in> set bs. \<forall>(ip, port, bw) \<in> set ls.
      server_ip_to_switch_name ?t ip = sw \<and> server_ip_to_if ?t ip = Inr port"
  proof (clarify, intro conjI)
    fix sw cnt ls ip port bw
    assume m: "(sw, cnt, ls) \<in> set bs" "(ip, port, bw) \<in> set ls"
    show "server_ip_to_switch_name ?t ip = sw" using fl m by fastforce
    from m have "(ip, port, bw) \<in> set ?all" by (rule sw_block_lines_memI)
    from found [OF this] show "server_ip_to_if ?t ip = Inr port"
      by (simp add: server_ip_to_if_def line_server_def)
  qed
  show "\<forall>ip. check_ip ?t ip \<longleftrightarrow> ip \<in> fst ` set ?all"
  proof
    fix ip
    show "check_ip ?t ip \<longleftrightarrow> ip \<in> fst ` set ?all"
    proof (cases "ip \<in> fst ` set ?all")
      case True
      then obtain l where "l \<in> set ?all" "ip = fst l" by blast
      with found [of l] True show ?thesis by (simp add: check_ip_def)
    next
      case False
      have "ip \<noteq> srv_ip s" if "e \<in> set (switch_server_list ?t)" "s \<in> set (snd e)" for e s
      proof -
        from that mem obtain l where l: "l \<in> set ?all" "s = line_server l" by blast
        then have "fst l \<in> fst ` set ?all" by (intro imageI)
        with False show ?thesis by (auto simp only: l(2) ip)
      qed
      then have "find_server_map ip (switch_server_list ?t) = None"
        unfolding find_server_map_eq find_None_iff by auto
      with False show ?thesis by (simp add: check_ip_def)
    qed
  qed
qed

theorem server_list_loaded_witness:
  "\<exists>t. get_server_list [''S1'', ''1'', ''10.0.0.1'', ''3'', ''100'', ''S2'', ''1'', ''10.0.0.2'', ''5'', ''40''] no_servers = Inr t \<and>
     server_ip_to_switch_name t ''10.0.0.1'' = ''S1'' \<and> server_ip_to_if t ''10.0.0.2'' = Inr ''5'' \<and>
     \<not> check_ip t ''10.0.0.3''"
proof -
  let ?bs = "[(''S1'', ''1'', [(''10.0.0.1'', ''3'', ''100'')]), (''S2'', ''1'', [(''10.0.0.2'', ''5'', ''40'')])]"
  have "list_all sw_block_ok ?bs" "distinct (map fst ?bs)" "distinct (map fst (concat (map sw_block_lines ?bs)))"
    by code_simp+
  from server_list_loaded [OF this] obtain t where
    t: "get_server_list (concat (map sw_block_words ?bs)) no_servers = Inr t"
    and here: "\<forall>(sw, cnt, ls) \<in> set ?bs. \<forall>(ip, port, bw) \<in> set ls.
       server_ip_to_switch_name t ip = sw \<and> server_ip_to_if t ip = Inr port"
    and all: "\<forall>ip. check_ip t ip \<longleftrightarrow> ip \<in> fst ` set (concat (map sw_block_lines ?bs))"
    by (elim exE conjE)
  have "\<not> check_ip t ''10.0.0.3''" unfolding all [rule_format] by simp
  with t here show ?thesis
    by (intro exI [of _ t]) (simp add: sw_block_words_def line_words_def)
qed

end
