(* ===== verification/Rates.thy ===== *)
theory Rates
  imports Double Shared_Memory Topology
begin

text \<open>
  The transmission rates the controller estimates from the reports, \<open>sync/server.cpp\<close>:
  \<open>add_send_rec\<close>, \<open>get_txRate\<close> and \<open>get_interface_rate\<close>.  The wall clock is a parameter that
  yields the reading of each call.  \<open>time_last_flow\<close> and \<open>time_rate_update\<close> are only read through
  \<open>operator[]\<close> and are functions; \<open>txRates\<close> is iterated and is a sorted map, read with
  the default 0 of a missing entry.
\<close>

definition win_s :: int where
  "win_s = 1000000000"

record rates =
  time_last_flow :: "string \<Rightarrow> string \<Rightarrow> u64"
  time_rate_update :: "string \<Rightarrow> string \<Rightarrow> int"
  txRates :: "(string, rat) smap2"

definition upd2 :: "'a \<Rightarrow> 'b \<Rightarrow> 'c \<Rightarrow> ('a \<Rightarrow> 'b \<Rightarrow> 'c) \<Rightarrow> 'a \<Rightarrow> 'b \<Rightarrow> 'c" where
  "upd2 a b v m = m(a := (m a)(b := v))"

text \<open>A character array without a terminator makes the conversion to \<open>std::string\<close> read past it.\<close>

definition std_string :: "string \<Rightarrow> string res" where
  "std_string b = (if NUL \<in> set b then Inr (c_str b) else Inl Undefined)"

subsection \<open>One report\<close>

definition flow_dt :: "u64 \<Rightarrow> string \<Rightarrow> string \<Rightarrow> rates \<Rightarrow> int" where
  "flow_dt tm a b st = sint (tm - time_last_flow st a b)"

definition tx_speed :: "u64 \<Rightarrow> int \<Rightarrow> rat" where
  "tx_speed tx dt = fint (int (unat (tx * 8 * 1000000000 div word_of_int dt)))"

definition rx_speed :: "u64 \<Rightarrow> int \<Rightarrow> rat" where
  "rx_speed rx dt = fdiv (fint (int (unat (rx * 8 * 1000000000)))) (fint dt)"

definition ewma :: "int \<Rightarrow> rat \<Rightarrow> rat \<Rightarrow> rat" where
  "ewma dt rate speed =
     fdiv (fadd (fmul (fint (win_s - dt)) rate) (fmul (fint dt) speed)) (fint win_s)"

definition update_rate :: "string \<Rightarrow> string \<Rightarrow> u64 \<Rightarrow> rat \<Rightarrow> int \<Rightarrow> rates \<Rightarrow> rates" where
  "update_rate a b tm speed now st =
     (let dt0 = now - time_rate_update st a b;
          dt = (if win_s < dt0 then win_s else dt0)
      in st\<lparr>time_last_flow := upd2 a b tm (time_last_flow st),
            time_rate_update := upd2 a b now (time_rate_update st),
            txRates := put2 a b (ewma dt (get2 0 a b (txRates st)) speed) (txRates st)\<rparr>)"

text \<open>\<open>None\<close> is the \<open>continue\<close> of the loop.\<close>

definition tx_part :: "Amount \<Rightarrow> string \<Rightarrow> string \<Rightarrow> int \<Rightarrow> rates \<Rightarrow> rates option" where
  "tx_part r sip dip now st =
     (if 4096 < a_tx r
      then let dt = flow_dt (a_tm r) sip dip st
           in if dt \<le> 0 then None
              else Some (update_rate sip dip (a_tm r) (tx_speed (a_tx r) dt) now st)
      else Some st)"

definition rx_part :: "Amount \<Rightarrow> string \<Rightarrow> string \<Rightarrow> int \<Rightarrow> rates \<Rightarrow> rates option" where
  "rx_part r sip dip now st =
     (if 4096 < a_rx r
      then let dt = flow_dt (a_tm r) dip sip st
           in if dt \<le> 0 then None
              else Some (update_rate dip sip (a_tm r) (rx_speed (a_rx r) dt) now st)
      else Some st)"

definition rec_update :: "Amount \<Rightarrow> string \<Rightarrow> string \<Rightarrow> int \<times> int \<Rightarrow> rates \<Rightarrow> rates" where
  "rec_update r sip dip now st =
     (case tx_part r sip dip (fst now) st of
        None \<Rightarrow> st
      | Some st1 \<Rightarrow> (case rx_part r sip dip (snd now) st1 of None \<Rightarrow> st1 | Some st2 \<Rightarrow> st2))"

text \<open>
  The loop over a batch: an empty destination ends it, an unknown destination is skipped.  The
  clock gives the two readings of each record.
\<close>

fun add_send_rec ::
    "server_tables \<Rightarrow> (nat \<Rightarrow> int \<times> int) \<Rightarrow> nat \<Rightarrow> Amount list \<Rightarrow> rates \<Rightarrow> rates res" where
  "add_send_rec tb clk j [] st = Inr st"
| "add_send_rec tb clk j (r # rs) st =
     bind_res (std_string (a_ip r)) (\<lambda>sip.
     bind_res (std_string (a_gid r)) (\<lambda>dip.
       if dip = [] then Inr st
       else if \<not> check_ip tb dip then add_send_rec tb clk (Suc j) rs st
       else add_send_rec tb clk (Suc j) rs (rec_update r sip dip (clk j) st)))"

subsection \<open>Reading the rates\<close>

text \<open>
  \<open>get_txRate\<close>: the time since the last update is computed in \<open>double\<close>; the weight is an
  integer division.
\<close>

definition get_txRate :: "int \<Rightarrow> int \<Rightarrow> string \<Rightarrow> string \<Rightarrow> rates \<Rightarrow> rat" where
  "get_txRate sec nsec sip dip st =
     (let dt0 = trunc (fsub (fadd (fmul (fint sec) (fint 1000000000)) (fint nsec))
                 (fint (time_rate_update st sip dip)));
          dt = (if dt0 < win_s then dt0 else win_s);
          w = sgn (win_s - dt) * (\<bar>win_s - dt\<bar> div win_s)
      in fmul (fint w) (get2 0 sip dip (txRates st)))"

fun sum_flows :: "flow list \<Rightarrow> string \<Rightarrow> string \<Rightarrow> rates \<Rightarrow> rat \<Rightarrow> rat" where
  "sum_flows [] sip dip st acc = acc"
| "sum_flows ((a, b) # fs) sip dip st acc =
     (if sip = a \<and> dip = b then sum_flows fs sip dip st acc
      else sum_flows fs sip dip st (fadd acc (get2 0 a b (txRates st))))"

definition get_interface_rate ::
    "device list \<Rightarrow> link_map \<Rightarrow> rates \<Rightarrow> nat \<Rightarrow> nat \<Rightarrow> nat \<Rightarrow> string \<Rightarrow> string \<Rightarrow> rat res" where
  "get_interface_rate ns lm st idx1 idx2 idx sip dip =
     bind_res (switch_idx_to_name ns idx1) (\<lambda>dev1.
     bind_res (switch_idx_to_name ns idx2) (\<lambda>dev2.
       if idx < length (lm dev1 dev2) then Inr (sum_flows (flows (lm dev1 dev2 ! idx)) sip dip st 0)
       else Inl Undefined))"

subsection \<open>The rates stay in range\<close>

definition rates_ok :: "int \<Rightarrow> rates \<Rightarrow> bool" where
  "rates_ok t st \<longleftrightarrow> map2_ok (txRates st) \<and>
     (\<forall>a b. 0 \<le> get2 0 a b (txRates st) \<and> get2 0 a b (txRates st) \<le> 2 ^ 64 \<and>
        time_rate_update st a b \<le> t)"

lemma u64_le: "unat (w :: u64) \<le> 2 ^ 64"
  using unsigned_less [where ?'a = nat, of w] by simp

lemma fint_u64: "0 \<le> fint (int (unat (w :: u64)))" "fint (int (unat w)) \<le> 2 ^ 64"
proof -
  have "(of_int (int (unat w)) :: rat) \<le> of_int (int (2 ^ 64))"
    using u64_le [of w] by (simp only: of_int_le_iff of_nat_le_iff)
  then have "(of_int (int (unat w)) :: rat) \<le> of_int 1 * 2 ^ 64" by simp
  from binary64.fl_le_exact [OF this] show "fint (int (unat w)) \<le> 2 ^ 64"
    by (simp add: fint_def)
  show "0 \<le> fint (int (unat w))" unfolding fint_def
    by (rule binary64.fl_nonneg) (simp only: of_int_0_le_iff of_nat_0_le_iff)
qed

lemma tx_speed_range: "0 \<le> tx_speed tx dt" "tx_speed tx dt \<le> 2 ^ 64"
  by (simp_all only: tx_speed_def fint_u64)

lemma rx_speed_range:
  assumes "0 < dt"
  shows "0 \<le> rx_speed rx dt" "rx_speed rx dt \<le> 2 ^ 64"
proof -
  let ?n = "fint (int (unat (rx * 8 * 1000000000)))"
  have d: "1 \<le> fint dt"
    using binary64.fl_mono [of 1 "of_int dt"] binary64.fl_int [of 1] assms by (simp add: fint_def)
  have n: "0 \<le> ?n" "?n \<le> 2 ^ 64" by (rule fint_u64)+
  have "?n / fint dt \<le> 2 ^ 64 / 1" using n d by (intro frac_le) simp_all
  then have "?n / fint dt \<le> of_int 1 * 2 ^ 64" by simp
  from binary64.fl_le_exact [OF this] show "rx_speed rx dt \<le> 2 ^ 64"
    by (simp add: rx_speed_def fdiv_def)
  have "0 \<le> ?n / fint dt" using n d by (intro divide_nonneg_pos) simp_all
  then show "0 \<le> rx_speed rx dt"
    unfolding rx_speed_def fdiv_def by (rule binary64.fl_nonneg)
qed

lemma ewma_range:
  assumes "0 \<le> dt" "dt \<le> win_s" "0 \<le> r" "r \<le> 2 ^ 64" "0 \<le> s" "s \<le> 2 ^ 64"
  shows "0 \<le> ewma dt r s \<and> ewma dt r s \<le> 2 ^ 64"
proof -
  have w: "rnd (of_int win_s) = of_int win_s"
    by (rule binary64.fl_int) (simp add: win_s_def)
  show ?thesis
    using binary64.mean_bounded [of "win_s - dt" dt r 64 s] assms
    unfolding ewma_def fdiv_def fadd_def fmul_def fint_def w by (simp add: win_s_def)
qed

lemma update_rate_ok:
  assumes ok: "rates_ok t st" and t: "t \<le> now" and s: "0 \<le> speed" "speed \<le> 2 ^ 64"
  shows "rates_ok now (update_rate a b tm speed now st)"
proof -
  have m: "map2_ok (txRates st)" and r: "\<And>x y. 0 \<le> get2 0 x y (txRates st)"
    "\<And>x y. get2 0 x y (txRates st) \<le> 2 ^ 64" and u: "\<And>x y. time_rate_update st x y \<le> now"
    using ok t unfolding rates_ok_def by (auto intro: order_trans)
  define dt where "dt = (if win_s < now - time_rate_update st a b then win_s else now - time_rate_update st a b)"
  have "0 \<le> dt" "dt \<le> win_s" using u [of a b] by (auto simp: dt_def win_s_def)
  from ewma_range [OF this r(1,2) s, of a b]
  have e: "0 \<le> ewma dt (get2 0 a b (txRates st)) speed" "ewma dt (get2 0 a b (txRates st)) speed \<le> 2 ^ 64"
    by auto
  show ?thesis
    unfolding rates_ok_def update_rate_def Let_def dt_def [symmetric]
    using m r u e by (simp add: map2_ok_put2 get2_put2 upd2_def)
qed

lemma rates_ok_later: "rates_ok t st \<Longrightarrow> t \<le> t' \<Longrightarrow> rates_ok t' st"
  unfolding rates_ok_def by (meson order_trans)

lemma tx_part_ok:
  "rates_ok t st \<Longrightarrow> t \<le> now \<Longrightarrow> tx_part r sip dip now st = Some st' \<Longrightarrow> rates_ok now st'"
  by (auto simp: tx_part_def Let_def rates_ok_later intro!: update_rate_ok tx_speed_range split: if_splits)

lemma rx_part_ok:
  "rates_ok t st \<Longrightarrow> t \<le> now \<Longrightarrow> rx_part r sip dip now st = Some st' \<Longrightarrow> rates_ok now st'"
  by (auto simp: rx_part_def Let_def rates_ok_later intro!: update_rate_ok rx_speed_range split: if_splits)

lemma rec_update_ok:
  assumes "rates_ok t st" "t \<le> fst now" "fst now \<le> snd now"
  shows "rates_ok (snd now) (rec_update r sip dip now st)"
proof (cases "tx_part r sip dip (fst now) st")
  case None
  with assms show ?thesis by (simp add: rec_update_def rates_ok_later)
next
  case (Some st1)
  have "rates_ok (fst now) st1" using tx_part_ok [OF assms(1,2) Some] .
  with assms(3) Some rx_part_ok [of "fst now" st1 "snd now" r sip dip] show ?thesis
    by (auto simp: rec_update_def rates_ok_later split: option.split)
qed

definition terminated :: "Amount \<Rightarrow> bool" where
  "terminated r \<longleftrightarrow> NUL \<in> set (a_ip r) \<and> NUL \<in> set (a_gid r)"

text \<open>Clock readings from position \<open>j\<close> on that never go back, the first one not before \<open>t\<close>.\<close>

definition clock_ok :: "(nat \<Rightarrow> int \<times> int) \<Rightarrow> nat \<Rightarrow> int \<Rightarrow> bool" where
  "clock_ok clk j t \<longleftrightarrow> t \<le> fst (clk j) \<and> (\<forall>i \<ge> j. fst (clk i) \<le> snd (clk i) \<and> snd (clk i) \<le> fst (clk (Suc i)))"

lemma clock_ok_Suc: "clock_ok clk j t \<Longrightarrow> clock_ok clk (Suc j) (snd (clk j))"
  by (simp add: clock_ok_def)

lemma clock_ok_mono: "clock_ok clk j t \<Longrightarrow> clock_ok clk (Suc j) t"
  using order_trans by (fastforce simp: clock_ok_def)

lemma add_send_rec_ok:
  "rates_ok t st \<Longrightarrow> clock_ok clk j t \<Longrightarrow> list_all terminated rs \<Longrightarrow>
     \<exists>st'. add_send_rec tb clk j rs st = Inr st' \<and> rates_ok (fst (clk (j + length rs))) st'"
proof (induction rs arbitrary: j t st)
  case Nil
  then show ?case by (auto simp: clock_ok_def intro: rates_ok_later)
next
  case (Cons r rs)
  have clk: "t \<le> fst (clk j)" "fst (clk j) \<le> snd (clk j)" using Cons.prems(2) by (auto simp: clock_ok_def)
  have late: "fst (clk j) \<le> fst (clk (j + n))" for n
  proof (induction n)
    case (Suc n)
    have "fst (clk (j + n)) \<le> fst (clk (Suc (j + n)))"
      using Cons.prems(2) unfolding clock_ok_def by (meson le_add1 order_trans)
    with Suc show ?case by simp
  qed simp
  have ts: "NUL \<in> set (a_ip r)" "NUL \<in> set (a_gid r)" "list_all terminated rs"
    using Cons.prems(3) by (simp_all add: terminated_def [of r])
  define sip dip where "sip = c_str (a_ip r)" and "dip = c_str (a_gid r)"
  have s: "std_string (a_ip r) = Inr sip" "std_string (a_gid r) = Inr dip"
    using ts by (simp_all add: std_string_def sip_def dip_def)
  consider "dip = []" | "dip \<noteq> []" "\<not> check_ip tb dip" | "dip \<noteq> []" "check_ip tb dip" by blast
  then show ?case
  proof cases
    case 1
    with s clk(1) late [of "length (r # rs)"] rates_ok_later [OF Cons.prems(1)] show ?thesis by simp
  next
    case 2
    from Cons.IH [OF Cons.prems(1) clock_ok_mono [OF Cons.prems(2)] ts(3)] 2 s show ?thesis by simp
  next
    case 3
    from Cons.IH [OF rec_update_ok [OF Cons.prems(1) clk] clock_ok_Suc [OF Cons.prems(2)] ts(3)] 3 s
    show ?thesis by simp
  qed
qed

text \<open>
  C23. A batch of reports whose strings are terminated is processed without a fault, and as long as
  the clock does not go back every estimated rate stays between 0 and \<open>2 ^ 64\<close> bit/s, whatever the
  reports contain and however the single floating-point operations round.
\<close>
theorem add_send_rec_rates_bounded:
  assumes "rates_ok t st" "clock_ok clk 0 t" "list_all terminated rs"
  shows "\<exists>st'. add_send_rec tb clk 0 rs st = Inr st' \<and> rates_ok (fst (clk (length rs))) st'"
  using add_send_rec_ok [OF assms] by simp

definition ex_rates :: rates where
  "ex_rates = \<lparr>time_last_flow = (\<lambda>_ _. 0), time_rate_update = (\<lambda>_ _. 0), txRates = []\<rparr>"

definition ex_rec :: Amount where
  "ex_rec = zero_Amount\<lparr>a_gid := ''10.0.0.2'' @ replicate 8 NUL, a_ip := ''10.0.0.1'' @ replicate 24 NUL,
     a_tx := 8000, a_rx := 66, a_tm := 1000000\<rparr>"

definition ex_tables :: server_tables where
  "ex_tables = \<lparr>switch_server_list = [(''S'', [\<lparr>srv_ip = ''10.0.0.2'', srv_port = ''1'', srv_bw = 100\<rparr>])],
     server_ip_to_switch_name = (\<lambda>_. ''S'')\<rparr>"

theorem add_send_rec_rates_bounded_witness:
  "\<exists>st'. add_send_rec ex_tables (\<lambda>j. (int j, int j)) 0 [ex_rec] ex_rates = Inr st' \<and> rates_ok 1 st'"
proof -
  have "rates_ok 0 ex_rates" by (simp add: rates_ok_def ex_rates_def get2_def)
  moreover have "clock_ok (\<lambda>j. (int j, int j)) 0 0" by (simp add: clock_ok_def)
  moreover have "list_all terminated [ex_rec]" by (simp add: terminated_def ex_rec_def)
  ultimately show ?thesis using add_send_rec_rates_bounded [of 0 ex_rates "\<lambda>j. (int j, int j)" "[ex_rec]"] by simp
qed

subsection \<open>The speed of a report\<close>

lemma word_div_nat: "unat (x div y :: u64) = unat x div unat y"
  by (simp add: unat_div)

text \<open>
  As long as \<open>tx * 8 * 1000000000\<close> fits into 64 bits, the speed of a report is the bits sent
  over the nanoseconds since the previous report, in bit/s, rounded down and then to \<open>double\<close>.
\<close>
theorem tx_speed_exact:
  assumes "unat tx * 8000000000 < 2 ^ 64" "0 < dt" "dt < 2 ^ 63"
  shows "tx_speed tx dt = rnd (of_int (int (unat tx) * 8 * 1000000000 div dt))"
proof -
  have p: "unat (tx * 8 * 1000000000) = unat tx * 8000000000"
  proof -
    have e: "tx * 8 * 1000000000 = word_of_nat (unat tx * 8000000000)" by simp
    show ?thesis unfolding e using assms(1) by (intro unat_of_nat_small) simp
  qed
  have d: "unat (word_of_int dt :: u64) = nat dt"
    using assms(2,3) by (simp add: unat_eq_nat_uint uint_word_of_int take_bit_int_eq_self)
  have "int (unat (tx * 8 * 1000000000 div word_of_int dt)) = int (unat tx) * 8 * 1000000000 div dt"
    using assms(2) unfolding word_div_nat p d by (simp add: zdiv_int mult.commute)
  then show ?thesis by (simp only: tx_speed_def fint_def)
qed

theorem tx_speed_exact_witness: "tx_speed 8000 1000000 = rnd 64000000"
  using tx_speed_exact [of 8000 1000000] by simp

text \<open>
  Beyond that the product wraps: 2305843010 bytes announced for one second, more than
  18 Gbit/s, count as 6 bit/s.
\<close>
theorem tx_speed_wraps: "tx_speed 2305843010 1000000000 = 6"
proof -
  have "(2305843010 * 8 * 1000000000 div word_of_int 1000000000 :: u64) = 6" by simp
  then have "tx_speed 2305843010 1000000000 = fint (int (unat (6 :: u64)))"
    unfolding tx_speed_def by (simp only:)
  also have "\<dots> = 6" using binary64.fl_int [of 6] by (simp add: fint_def)
  finally show ?thesis .
qed

text \<open>
  A report that is not newer than the last one of its flow leaves every estimate as it was,
  its receive part included.
\<close>
theorem stale_report_ignored:
  assumes "4096 < a_tx r" "sint (a_tm r - time_last_flow st sip dip) \<le> 0"
  shows "rec_update r sip dip now st = st"
  using assms by (simp add: rec_update_def tx_part_def flow_dt_def)

theorem stale_report_ignored_witness:
  "rec_update ex_rec ''10.0.0.1'' ''10.0.0.2'' (0, 0) (ex_rates\<lparr>time_last_flow := \<lambda>_ _. 2000000\<rparr>) =
     ex_rates\<lparr>time_last_flow := \<lambda>_ _. 2000000\<rparr>"
  by (rule stale_report_ignored) (simp_all add: ex_rec_def)

text \<open>
  The estimate \<open>get_txRate\<close> returns is 0 as soon as a nanosecond has passed since the last
  update, since its weight is the quotient of two integers.
\<close>
theorem get_txRate_zero:
  assumes "1 \<le> fsub (fadd (fmul (fint sec) (fint 1000000000)) (fint nsec)) (fint (time_rate_update st sip dip))"
  shows "get_txRate sec nsec sip dip st = 0"
proof -
  define dt0 where "dt0 = trunc (fsub (fadd (fmul (fint sec) (fint 1000000000)) (fint nsec)) (fint (time_rate_update st sip dip)))"
  define dt where "dt = (if dt0 < win_s then dt0 else win_s)"
  have "1 \<le> dt0" using assms by (simp add: dt0_def trunc_def le_floor_iff)
  then have "1 \<le> dt" "dt \<le> win_s" by (auto simp: dt_def win_s_def)
  then have "\<bar>win_s - dt\<bar> div win_s = 0" by (simp add: win_s_def)
  then have "sgn (win_s - dt) * (\<bar>win_s - dt\<bar> div win_s) = 0" by simp
  then show ?thesis
    unfolding get_txRate_def Let_def dt0_def [symmetric] dt_def [symmetric]
    by (simp only: fint_def fmul_def binary64.fl_0 of_int_0 mult_zero_left)
qed

theorem get_txRate_zero_witness:
  "get_txRate 1 0 ''a'' ''b'' (ex_rates\<lparr>txRates := put2 ''a'' ''b'' 7 []\<rparr>) = 0"
proof (rule get_txRate_zero)
  have "rnd 1000000000 = 1000000000" using binary64.fl_int [of 1000000000] by simp
  moreover have "rnd 1 = 1" using binary64.fl_int [of 1] by simp
  ultimately show "1 \<le> fsub (fadd (fmul (fint 1) (fint 1000000000)) (fint 0))
      (fint (time_rate_update (ex_rates\<lparr>txRates := put2 ''a'' ''b'' 7 []\<rparr>) ''a'' ''b''))"
    by (simp add: fsub_def fadd_def fmul_def fint_def ex_rates_def binary64.fl_0)
qed

subsection \<open>The load of a link\<close>

lemma sum_flows_skips:
  "sum_flows fs sip dip st acc = sum_flows (filter (\<lambda>f. f \<noteq> (sip, dip)) fs) sip dip st acc"
  by (induction fs sip dip st acc rule: sum_flows.induct) auto

lemma sum_flows_nonneg: "rates_ok t st \<Longrightarrow> 0 \<le> acc \<Longrightarrow> 0 \<le> sum_flows fs sip dip st acc"
proof (induction fs sip dip st acc rule: sum_flows.induct)
  case (2 a b fs sip dip st acc)
  have "0 \<le> get2 0 a b (txRates st)" using 2(3) by (simp add: rates_ok_def)
  with 2(4) have "0 \<le> fadd acc (get2 0 a b (txRates st))"
    unfolding fadd_def by (intro binary64.fl_nonneg add_nonneg_nonneg)
  with 2 show ?case by simp
qed simp

end
