(* ===== verification/Route_Search.thy ===== *)
theory Route_Search
  imports Rates
begin

text \<open>
  The search of \<open>get_route\<close> in \<open>sync/server.cpp\<close>.  The visited set grows from the source by the
  least loaded link that leaves it, and the predecessor table gives the path back.  The number of
  parallel links and the load of a link are arguments of the search; \<open>get_route\<close> passes the
  link table and \<open>get_interface_rate\<close>.  Fuel bounds the two loops; \<open>Diverges\<close> is its end.
  The lemmas show that \<open>n_switch\<close> rounds are enough when the destination can be reached, that the
  path found has the least possible maximal load, and that the loop never ends when the destination
  cannot be reached.
\<close>

definition rate_limit :: int where
  "rate_limit = 4000000000000"

type_synonym link_id = "nat \<times> nat \<times> nat"

definition candidates :: "nat \<Rightarrow> (nat \<Rightarrow> nat \<Rightarrow> nat) \<Rightarrow> bool list \<Rightarrow> link_id list" where
  "candidates n deg visit =
     concat (map (\<lambda>i. if visit ! i
       then concat (map (\<lambda>j. if visit ! j then [] else map (\<lambda>k. (i, j, k)) [0..<deg i j]) [0..<n])
       else []) [0..<n])"

fun scan_links ::
    "(nat \<Rightarrow> nat \<Rightarrow> nat \<Rightarrow> rat res) \<Rightarrow> link_id list \<Rightarrow> link_id \<times> int \<Rightarrow> (link_id \<times> int) res" where
  "scan_links wt [] best = Inr best"
| "scan_links wt ((i, j, k) # cs) best =
     bind_res (wt i j k) (\<lambda>rate.
       if rate < fint (snd best) then scan_links wt cs ((i, j, k), trunc rate)
       else scan_links wt cs best)"

text \<open>One round of \<open>while (true)\<close> per unit of fuel.\<close>

fun route_search ::
    "nat \<Rightarrow> (nat \<Rightarrow> nat \<Rightarrow> nat) \<Rightarrow> (nat \<Rightarrow> nat \<Rightarrow> nat \<Rightarrow> rat res) \<Rightarrow> nat \<Rightarrow> nat \<Rightarrow>
     bool list \<Rightarrow> (nat \<times> nat) list \<Rightarrow> (nat \<times> nat) list res" where
  "route_search n deg wt d 0 visit pre = Inl Diverges"
| "route_search n deg wt d (Suc fuel) visit pre =
     bind_res (scan_links wt (candidates n deg visit) ((0, 0, 0), rate_limit)) (\<lambda>((s', d', i'), u').
       let pre' = pre[d' := (s', i')]
       in if d' = d then Inr pre'
          else route_search n deg wt d fuel (visit[d' := True]) pre')"

text \<open>The walk back from the destination, and the reversal of what it collected.\<close>

fun backtrack ::
    "(nat \<Rightarrow> nat \<Rightarrow> nat \<Rightarrow> 'h res) \<Rightarrow> nat \<Rightarrow> (nat \<times> nat) list \<Rightarrow> nat \<Rightarrow> nat \<Rightarrow> nat \<Rightarrow> 'h list \<Rightarrow> 'h list res" where
  "backtrack hop s pre 0 sw idx acc = (if sw = s then Inr (rev acc) else Inl Diverges)"
| "backtrack hop s pre (Suc fuel) sw idx acc =
     (if sw = s then Inr (rev acc)
      else bind_res (hop (fst (pre ! sw)) sw idx) (\<lambda>h.
        let sw' = fst (pre ! sw) in backtrack hop s pre fuel sw' (snd (pre ! sw')) (acc @ [h])))"

subsection \<open>Paths and their load\<close>

fun walk :: "nat \<Rightarrow> (nat \<Rightarrow> nat \<Rightarrow> nat) \<Rightarrow> nat \<Rightarrow> link_id list \<Rightarrow> nat \<Rightarrow> bool" where
  "walk n deg s [] d \<longleftrightarrow> s = d"
| "walk n deg s ((i, j, k) # es) d \<longleftrightarrow> i = s \<and> j < n \<and> k < deg i j \<and> walk n deg j es d"

definition load :: "(nat \<Rightarrow> nat \<Rightarrow> nat \<Rightarrow> rat res) \<Rightarrow> link_id \<Rightarrow> int" where
  "load wt e = (case e of (i, j, k) \<Rightarrow> (case wt i j k of Inr r \<Rightarrow> \<lfloor>r\<rfloor> | Inl _ \<Rightarrow> 0))"

definition load_upto :: "(nat \<Rightarrow> nat \<Rightarrow> nat \<Rightarrow> rat res) \<Rightarrow> link_id list \<Rightarrow> int \<Rightarrow> bool" where
  "load_upto wt es u \<longleftrightarrow> (\<forall>e \<in> set es. load wt e \<le> u)"

definition weights_ok :: "nat \<Rightarrow> (nat \<Rightarrow> nat \<Rightarrow> nat) \<Rightarrow> (nat \<Rightarrow> nat \<Rightarrow> nat \<Rightarrow> rat res) \<Rightarrow> bool" where
  "weights_ok n deg wt \<longleftrightarrow>
     (\<forall>i < n. \<forall>j < n. \<forall>k < deg i j. \<exists>r. wt i j k = Inr r \<and> 0 \<le> r)"

lemma walk_append: "walk n deg s (es @ es') d \<longleftrightarrow> (\<exists>m. walk n deg s es m \<and> walk n deg m es' d)"
  by (induction n deg s es d rule: walk.induct) auto

lemma walk_links:
  "walk n deg s es d \<Longrightarrow> s < n \<Longrightarrow> (i, j, k) \<in> set es \<Longrightarrow> i < n \<and> j < n \<and> k < deg i j"
  by (induction n deg s es d rule: walk.induct) auto

lemma walk_crosses:
  "walk n deg s es d \<Longrightarrow> P s \<Longrightarrow> \<not> P d \<Longrightarrow> \<exists>(i, j, k) \<in> set es. P i \<and> \<not> P j"
proof (induction n deg s es d rule: walk.induct)
  case (2 n deg s i j k es d)
  show ?case
  proof (cases "P j")
    case True
    with 2 show ?thesis by auto
  next
    case False
    with 2 show ?thesis by auto
  qed
qed auto

subsection \<open>The least loaded link\<close>

lemma set_candidates:
  "(i, j, k) \<in> set (candidates n deg visit) \<longleftrightarrow>
     i < n \<and> j < n \<and> visit ! i \<and> \<not> visit ! j \<and> k < deg i j"
proof
  assume r: "i < n \<and> j < n \<and> visit ! i \<and> \<not> visit ! j \<and> k < deg i j"
  then have "(i, j, k) \<in> set (map (\<lambda>k. (i, j, k)) [0..<deg i j])" by auto
  with r show "(i, j, k) \<in> set (candidates n deg visit)"
    unfolding candidates_def set_concat set_map set_upt by fastforce
qed (auto simp: candidates_def split: if_splits)

lemma less_fint:
  assumes "0 \<le> u" "u \<le> rate_limit"
  shows "r < fint u \<longleftrightarrow> \<lfloor>r\<rfloor> < u"
proof -
  have "fint u = of_int u"
    unfolding fint_def using assms by (intro binary64.fl_int) (simp add: rate_limit_def)
  then show ?thesis by (simp add: floor_less_iff)
qed

lemma scan_links_min:
  assumes "\<forall>(i, j, k) \<in> set cs. \<exists>r. wt i j k = Inr r \<and> 0 \<le> r" "0 \<le> u" "u \<le> rate_limit"
  shows "\<exists>e' u'. scan_links wt cs (e, u) = Inr (e', u') \<and> (\<forall>c \<in> set cs. u' \<le> load wt c) \<and> u' \<le> u \<and>
    (e' = e \<and> u' = u \<or> e' \<in> set cs \<and> load wt e' = u' \<and> u' < u)"
  using assms
proof (induction cs arbitrary: e u)
  case (Cons c cs)
  obtain i j k where c: "c = (i, j, k)" by (cases c)
  obtain r where r: "wt i j k = Inr r" "0 \<le> r" using Cons.prems(1) by (auto simp: c)
  have lc: "load wt c = \<lfloor>r\<rfloor>" by (simp add: load_def c r)
  have cs: "\<forall>(i, j, k) \<in> set cs. \<exists>r. wt i j k = Inr r \<and> 0 \<le> r" using Cons.prems(1) by simp
  show ?case
  proof (cases "r < fint u")
    case True
    then have lt: "\<lfloor>r\<rfloor> < u" using less_fint [OF Cons.prems(2,3)] by simp
    have t: "trunc r = \<lfloor>r\<rfloor>" "0 \<le> \<lfloor>r\<rfloor>" using r(2) by (simp_all add: trunc_def)
    have "\<lfloor>r\<rfloor> \<le> rate_limit" using lt Cons.prems(3) by simp
    from Cons.IH [OF cs t(2) this, of c] lt lc True r show ?thesis
      by (auto simp: c t intro: order_trans)
  next
    case False
    then have "u \<le> \<lfloor>r\<rfloor>" using less_fint [OF Cons.prems(2,3), of r] by simp
    with Cons.IH [OF cs Cons.prems(2,3), of e] lc False r show ?thesis
      by (auto simp: c)
  qed
qed simp

subsection \<open>The invariant of the search\<close>

definition tree_path :: "nat \<Rightarrow> (nat \<Rightarrow> nat \<Rightarrow> nat) \<Rightarrow> nat \<Rightarrow> bool list \<Rightarrow> (nat \<times> nat) list \<Rightarrow> link_id list \<Rightarrow> nat \<Rightarrow> bool" where
  "tree_path n deg s visit pre es v \<longleftrightarrow> walk n deg s es v \<and> length es < card {x. x < n \<and> visit ! x} \<and>
     (\<forall>(i, j, k) \<in> set es. pre ! j = (i, k) \<and> visit ! j \<and> j \<noteq> s)"

definition search_inv ::
    "nat \<Rightarrow> (nat \<Rightarrow> nat \<Rightarrow> nat) \<Rightarrow> (nat \<Rightarrow> nat \<Rightarrow> nat \<Rightarrow> rat res) \<Rightarrow> nat \<Rightarrow> bool list \<Rightarrow> (nat \<times> nat) list \<Rightarrow> bool" where
  "search_inv n deg wt s visit pre \<longleftrightarrow>
     length visit = n \<and> length pre = n \<and> s < n \<and> visit ! s \<and>
     (\<forall>v < n. visit ! v \<longrightarrow> (\<exists>es. tree_path n deg s visit pre es v)) \<and>
     (\<forall>v < n. \<not> visit ! v \<longrightarrow> (\<forall>es u. walk n deg s es v \<and> load_upto wt es u \<longrightarrow>
        (\<forall>j < n. visit ! j \<and> j \<noteq> s \<longrightarrow> load wt (fst (pre ! j), j, snd (pre ! j)) \<le> u)))"

lemma card_visit:
  assumes "j < n" "\<not> visit ! j" "length visit = n"
  shows "card {x. x < n \<and> visit[j := True] ! x} = Suc (card {x. x < n \<and> visit ! x})"
proof -
  have "{x. x < n \<and> visit[j := True] ! x} = insert j {x. x < n \<and> visit ! x}"
    using assms by (auto simp: nth_list_update)
  with assms(2) show ?thesis by simp
qed

lemma search_step:
  assumes inv: "search_inv n deg wt s visit pre"
    and c: "(i, j, k) \<in> set (candidates n deg visit)"
    and least: "\<forall>c \<in> set (candidates n deg visit). load wt (i, j, k) \<le> load wt c"
  shows "search_inv n deg wt s (visit[j := True]) (pre[j := (i, k)])"
proof -
  have ijk: "i < n" "j < n" "visit ! i" "\<not> visit ! j" "k < deg i j"
    using c by (auto simp: set_candidates)
  have len: "length visit = n" "length pre = n" "s < n" "visit ! s" using inv by (auto simp: search_inv_def)
  have js: "j \<noteq> s" using ijk len by auto
  note card = card_visit [OF ijk(2,4) len(1)]
  have tree: "\<exists>es. tree_path n deg s (visit[j := True]) (pre[j := (i, k)]) es v"
    if v: "v < n" "visit[j := True] ! v" for v
  proof (cases "v = j")
    case False
    with v ijk len have "visit ! v" by simp
    with inv v obtain es where es: "tree_path n deg s visit pre es v" unfolding search_inv_def by blast
    then have "tree_path n deg s (visit[j := True]) (pre[j := (i, k)]) es v"
      using ijk len unfolding tree_path_def card by (auto simp: nth_list_update)
    then show ?thesis ..
  next
    case True
    from inv ijk obtain es where es: "tree_path n deg s visit pre es i" unfolding search_inv_def by blast
    then have "tree_path n deg s (visit[j := True]) (pre[j := (i, k)]) (es @ [(i, j, k)]) v"
      using ijk len js True unfolding tree_path_def card by (auto simp: nth_list_update walk_append)
    then show ?thesis ..
  qed
  have cut: "load wt (fst (pre[j := (i, k)] ! x), x, snd (pre[j := (i, k)] ! x)) \<le> u"
    if v: "v < n" "\<not> visit[j := True] ! v" and es: "walk n deg s es v" "load_upto wt es u"
      and x: "x < n" "visit[j := True] ! x" "x \<noteq> s" for v es u x
  proof -
    have nv: "\<not> visit ! v" using v ijk len by (auto simp: nth_list_update split: if_splits)
    show ?thesis
    proof (cases "x = j")
      case True
      from walk_crosses [OF es(1), of "\<lambda>x. visit ! x"] len nv
      obtain a b m where e: "(a, b, m) \<in> set es" "visit ! a" "\<not> visit ! b" by auto
      with walk_links [OF es(1) len(3) e(1)] have "(a, b, m) \<in> set (candidates n deg visit)"
        by (simp add: set_candidates)
      with least e(1) es(2) have "load wt (i, j, k) \<le> u" unfolding load_upto_def by (meson order_trans)
      with True ijk len show ?thesis by simp
    next
      case False
      with inv v(1) nv es x len show ?thesis unfolding search_inv_def by auto
    qed
  qed
  have "length (visit[j := True]) = n" "length (pre[j := (i, k)]) = n" "visit[j := True] ! s"
    using len js by simp_all
  with len(3) show ?thesis
    unfolding search_inv_def using tree cut by (intro conjI allI impI) (assumption | (elim conjE; blast))+
qed

lemma search_start:
  assumes "s < n"
  shows "search_inv n deg wt s ((replicate n False)[s := True]) ((replicate n (0, 0))[s := (s, 0)])"
proof -
  have "{x. x < n \<and> (replicate n False)[s := True] ! x} = {s}"
    using assms by (auto simp: nth_list_update split: if_splits)
  then show ?thesis
    using assms by (auto simp: search_inv_def tree_path_def nth_list_update split: if_splits intro!: exI [of _ "[]"])
qed

subsection \<open>The search finds a path of least load\<close>

definition least_loaded :: "nat \<Rightarrow> (nat \<Rightarrow> nat \<Rightarrow> nat) \<Rightarrow> (nat \<Rightarrow> nat \<Rightarrow> nat \<Rightarrow> rat res) \<Rightarrow> nat \<Rightarrow> link_id list \<Rightarrow> nat \<Rightarrow> bool" where
  "least_loaded n deg wt s es d \<longleftrightarrow> walk n deg s es d \<and>
     (\<forall>es' u. walk n deg s es' d \<and> load_upto wt es' u \<longrightarrow> load_upto wt es u)"

definition usable :: "nat \<Rightarrow> (nat \<Rightarrow> nat \<Rightarrow> nat) \<Rightarrow> (nat \<Rightarrow> nat \<Rightarrow> nat \<Rightarrow> rat res) \<Rightarrow> nat \<Rightarrow> link_id list \<Rightarrow> nat \<Rightarrow> bool" where
  "usable n deg wt s es d \<longleftrightarrow> walk n deg s es d \<and> (\<forall>e \<in> set es. load wt e < rate_limit)"

lemma scan_candidates:
  assumes "weights_ok n deg wt"
  shows "\<exists>e u. scan_links wt (candidates n deg visit) ((0, 0, 0), rate_limit) = Inr (e, u) \<and>
    (\<forall>c \<in> set (candidates n deg visit). u \<le> load wt c) \<and>
    (e = (0, 0, 0) \<and> u = rate_limit \<or> e \<in> set (candidates n deg visit) \<and> load wt e = u \<and> u < rate_limit)"
proof -
  have "\<forall>(i, j, k) \<in> set (candidates n deg visit). \<exists>r. wt i j k = Inr r \<and> 0 \<le> r"
    using assms by (auto simp: set_candidates weights_ok_def)
  from scan_links_min [OF this, of rate_limit "(0, 0, 0)"] show ?thesis by (auto simp: rate_limit_def)
qed

lemma tree_path_least:
  assumes inv: "search_inv n deg wt s visit pre" and d: "d < n" "\<not> visit ! d"
    and inv': "search_inv n deg wt s (visit[d := True]) (pre[d := (i, k)])"
    and new: "\<And>es u. walk n deg s es d \<Longrightarrow> load_upto wt es u \<Longrightarrow> load wt (i, d, k) \<le> u"
  shows "\<exists>es. tree_path n deg s (visit[d := True]) (pre[d := (i, k)]) es d \<and> least_loaded n deg wt s es d"
proof -
  have len: "length visit = n" "length pre = n" "s < n" using inv by (auto simp: search_inv_def)
  from inv' d len obtain es where es: "tree_path n deg s (visit[d := True]) (pre[d := (i, k)]) es d"
    unfolding search_inv_def by auto
  have "load_upto wt es u" if o: "walk n deg s es' d" "load_upto wt es' u" for es' u
    unfolding load_upto_def
  proof
    fix e assume e: "e \<in> set es"
    obtain a b m where abm: "e = (a, b, m)" by (cases e)
    have t: "pre[d := (i, k)] ! b = (a, m)" "visit[d := True] ! b" "b \<noteq> s" "b < n" "walk n deg s es d"
      using es e walk_links [of n deg s es d a b m] len by (auto simp: tree_path_def abm)
    show "load wt e \<le> u"
    proof (cases "b = d")
      case True
      with t new [OF o] d len show ?thesis by (simp add: abm)
    next
      case False
      with t have pb: "pre ! b = (a, m)" "visit ! b" using len d by simp_all
      have "\<forall>x < n. visit ! x \<and> x \<noteq> s \<longrightarrow> load wt (fst (pre ! x), x, snd (pre ! x)) \<le> u"
        using inv d o unfolding search_inv_def by blast
      with pb t have "load wt (fst (pre ! b), b, snd (pre ! b)) \<le> u" by blast
      with pb show ?thesis by (simp add: abm)
    qed
  qed
  with es show ?thesis unfolding least_loaded_def tree_path_def by blast
qed

lemma route_search_least:
  assumes w: "weights_ok n deg wt" and ok: "usable n deg wt s p d" and d: "d < n"
  shows "search_inv n deg wt s visit pre \<Longrightarrow> \<not> visit ! d \<Longrightarrow>
     n \<le> fuel + card {x. x < n \<and> visit ! x} \<Longrightarrow>
     \<exists>pre' visit' es. route_search n deg wt d fuel visit pre = Inr pre' \<and> length visit' = n \<and>
       tree_path n deg s visit' pre' es d \<and> least_loaded n deg wt s es d"
proof (induction fuel arbitrary: visit pre)
  case 0
  have "{x. x < n \<and> visit ! x} \<subseteq> {0..<n} - {d}" using 0(2) by auto
  then have "card {x. x < n \<and> visit ! x} \<le> card ({0..<n} - {d})" by (intro card_mono) auto
  with 0(3) d show ?case by simp
next
  case (Suc fuel)
  have inv: "search_inv n deg wt s visit pre" by (rule Suc.prems(1))
  then have len: "length visit = n" "length pre = n" "s < n" "visit ! s" by (auto simp: search_inv_def)
  let ?cs = "candidates n deg visit"
  have crossing: "\<exists>c \<in> set ?cs. c \<in> set es" if "walk n deg s es d" for es
    using walk_crosses [OF that, of "\<lambda>x. visit ! x"] walk_links [OF that len(3)] len Suc.prems(2)
    by (fastforce simp: set_candidates)
  obtain e u where scan: "scan_links wt ?cs ((0, 0, 0), rate_limit) = Inr (e, u)"
    and least: "\<forall>c \<in> set ?cs. u \<le> load wt c"
    and e: "e = (0, 0, 0) \<and> u = rate_limit \<or> e \<in> set ?cs \<and> load wt e = u \<and> u < rate_limit"
    using scan_candidates [OF w] by blast
  from ok crossing least have "u < rate_limit" unfolding usable_def by (meson le_less_trans)
  with e have e: "e \<in> set ?cs" "load wt e = u" by auto
  obtain i j k where ijk: "e = (i, j, k)" by (cases e)
  have j: "j < n" "\<not> visit ! j" using e(1) by (auto simp: ijk set_candidates)
  have inv': "search_inv n deg wt s (visit[j := True]) (pre[j := (i, k)])"
    using inv e(1) least e(2) unfolding ijk by (intro search_step) auto
  show ?case
  proof (cases "j = d")
    case True
    have "load wt (i, d, k) \<le> u'" if "walk n deg s es d" "load_upto wt es u'" for es u'
      using crossing [OF that(1)] that(2) least e(2) unfolding ijk True load_upto_def by (meson order_trans)
    from tree_path_least [OF inv d Suc.prems(2) inv' [unfolded True] this] scan len True show ?thesis
      by (auto simp: ijk intro!: exI [of _ "visit[d := True]"])
  next
    case False
    have "\<not> visit[j := True] ! d" using False Suc.prems(2) len j by simp
    moreover have "n \<le> fuel + card {x. x < n \<and> visit[j := True] ! x}"
      using Suc.prems(3) by (simp add: card_visit [OF j len(1)])
    ultimately show ?thesis using Suc.IH [OF inv'] scan False by (simp add: ijk)
  qed
qed

subsection \<open>The walk back\<close>

lemma backtrack_tree:
  assumes "\<forall>(i, j, k) \<in> set es. pre ! j = (i, k) \<and> j \<noteq> s \<and> hop i j k = Inr (h (i, j, k))"
    and "walk n deg s es v" "length es \<le> fuel"
  shows "backtrack hop s pre fuel v (snd (pre ! v)) acc = Inr (map h es @ rev acc)"
  using assms
proof (induction es arbitrary: v fuel acc rule: rev_induct)
  case Nil
  then show ?case by (cases fuel) auto
next
  case (snoc e es)
  obtain i j k where e: "e = (i, j, k)" by (cases e)
  have w: "walk n deg s es i" "j = v" using snoc.prems(2) by (auto simp: walk_append e)
  have p: "pre ! v = (i, k)" "v \<noteq> s" "hop i v k = Inr (h (i, v, k))" using snoc.prems(1) w by (auto simp: e)
  obtain f where f: "fuel = Suc f" "length es \<le> f" using snoc.prems(3) by (cases fuel) auto
  from snoc.IH [of i f "acc @ [h (i, v, k)]"] snoc.prems(1) w f p show ?case
    by (simp add: e Let_def)
qed

text \<open>
  C7. The search of \<open>get_route\<close> ends and is optimal: if some path from the source to another
  switch has no link loaded to \<open>rate_limit\<close> (4 Tbit/s), then \<open>n_switch\<close> rounds find the destination,
  the walk back ends within \<open>n_switch\<close> steps, and the links it collects form a path whose load, the
  rate of its most loaded link in whole bit/s, is the least any path has.
\<close>
theorem route_search_optimal:
  assumes "weights_ok n deg wt" "s < n" "d < n" "s \<noteq> d" "usable n deg wt s p d"
  shows "\<exists>pre es. route_search n deg wt d n ((replicate n False)[s := True]) ((replicate n (0, 0))[s := (s, 0)]) = Inr pre \<and>
    backtrack (\<lambda>i j k. Inr (i, j, k)) s pre n d (snd (pre ! d)) [] = Inr es \<and>
    least_loaded n deg wt s es d"
proof -
  let ?v = "(replicate n False)[s := True]"
  have "\<not> ?v ! d" using assms by simp
  from route_search_least [OF assms(1,5,3) search_start [OF assms(2)] this, of n]
  obtain pre visit' es where r: "route_search n deg wt d n ?v ((replicate n (0, 0))[s := (s, 0)]) = Inr pre"
    and t: "tree_path n deg s visit' pre es d" and l: "least_loaded n deg wt s es d" by auto
  have "{x. x < n \<and> visit' ! x} \<subseteq> {0..<n}" by auto
  from card_mono [OF _ this] have "card {x. x < n \<and> visit' ! x} \<le> n" by simp
  with t have "length es \<le> n" by (simp add: tree_path_def)
  moreover have "\<forall>(i, j, k) \<in> set es. pre ! j = (i, k) \<and> j \<noteq> s \<and> Inr (i, j, k) = Inr (id (i, j, k))"
    and "walk n deg s es d" using t by (auto simp: tree_path_def)
  ultimately have "backtrack (\<lambda>i j k. Inr (i, j, k)) s pre n d (snd (pre ! d)) [] = Inr (map id es @ rev [])"
    by (intro backtrack_tree)
  with r l show ?thesis by auto
qed

text \<open>A square: the direct link from 0 to 3 is loaded, the way around it is not.\<close>

definition ex_deg :: "nat \<Rightarrow> nat \<Rightarrow> nat" where
  "ex_deg i j = (if (i, j) \<in> {(0, 1), (1, 3), (0, 3)} then 1 else 0)"

definition ex_wt :: "nat \<Rightarrow> nat \<Rightarrow> nat \<Rightarrow> rat res" where
  "ex_wt i j k = Inr (if (i, j) = (0, 3) then 900 else 100)"

theorem route_search_optimal_witness:
  "\<exists>pre es. route_search 4 ex_deg ex_wt 3 4 ((replicate 4 False)[0 := True]) ((replicate 4 (0, 0))[0 := (0, 0)]) = Inr pre \<and>
    backtrack (\<lambda>i j k. Inr (i, j, k)) 0 pre 4 3 (snd (pre ! 3)) [] = Inr es \<and> load_upto ex_wt es 100"
proof -
  have w: "weights_ok 4 ex_deg ex_wt" by (simp add: weights_ok_def ex_wt_def)
  have p: "usable 4 ex_deg ex_wt 0 [(0, 1, 0), (1, 3, 0)] 3"
    by (simp add: usable_def ex_deg_def load_def ex_wt_def rate_limit_def)
  have "0 < (4::nat)" "3 < (4::nat)" "0 \<noteq> (3::nat)" by simp_all
  from route_search_optimal [OF w this p] obtain pre es where
    r: "route_search 4 ex_deg ex_wt 3 4 ((replicate 4 False)[0 := True]) ((replicate 4 (0, 0))[0 := (0, 0)]) = Inr pre"
    "backtrack (\<lambda>i j k. Inr (i, j, k)) 0 pre 4 3 (snd (pre ! 3)) [] = Inr es"
    and l: "least_loaded 4 ex_deg ex_wt 0 es 3"
    by (elim exE conjE)
  have "load_upto ex_wt [(0, 1, 0), (1, 3, 0)] 100" by (simp add: load_upto_def load_def ex_wt_def)
  with p l have "load_upto ex_wt es 100" unfolding least_loaded_def usable_def by blast
  with r show ?thesis by blast
qed

subsection \<open>An unreachable destination\<close>

definition closed_under ::
    "nat \<Rightarrow> (nat \<Rightarrow> nat \<Rightarrow> nat) \<Rightarrow> (nat \<Rightarrow> nat \<Rightarrow> nat \<Rightarrow> rat res) \<Rightarrow> nat set \<Rightarrow> bool" where
  "closed_under n deg wt R \<longleftrightarrow>
     (\<forall>i \<in> R. \<forall>j < n. \<forall>k < deg i j. load wt (i, j, k) < rate_limit \<longrightarrow> j \<in> R)"

lemma route_search_stuck:
  assumes w: "weights_ok n deg wt" and R: "closed_under n deg wt R" "0 \<in> R" "d \<notin> R"
  shows "{x. x < n \<and> visit ! x} \<subseteq> R \<Longrightarrow> length visit = n \<Longrightarrow>
    route_search n deg wt d fuel visit pre = Inl Diverges"
proof (induction fuel arbitrary: visit pre)
  case (Suc fuel)
  let ?cs = "candidates n deg visit"
  obtain e u where scan: "scan_links wt ?cs ((0, 0, 0), rate_limit) = Inr (e, u)"
    and e: "e = (0, 0, 0) \<and> u = rate_limit \<or> e \<in> set ?cs \<and> load wt e = u \<and> u < rate_limit"
    using scan_candidates [OF w] by blast
  obtain i j k where ijk: "e = (i, j, k)" by (cases e)
  have j: "j \<in> R"
    using e
  proof
    assume "e \<in> set ?cs \<and> load wt e = u \<and> u < rate_limit"
    then have "i < n" "visit ! i" "j < n" "k < deg i j" "load wt (i, j, k) < rate_limit"
      by (auto simp: ijk set_candidates)
    with Suc.prems(1) R(1) show ?thesis unfolding closed_under_def by blast
  qed (use R in \<open>simp add: ijk\<close>)
  then have "j \<noteq> d" using R(3) by auto
  moreover have "{x. x < n \<and> visit[j := True] ! x} \<subseteq> R"
  proof
    fix x assume "x \<in> {x. x < n \<and> visit[j := True] ! x}"
    with Suc.prems j show "x \<in> R" by (cases "x = j") auto
  qed
  ultimately show ?case
    using Suc.IH [of "visit[j := True]"] Suc.prems(2) scan by (simp add: ijk)
qed simp



end
