(* ===== verification/Route_Table.thy ===== *)
theory Route_Table
  imports Route_Search
begin

text \<open>
  The routes of the controller, \<open>sync/server.cpp\<close>: the route of a pair of servers, its entries in
  the link table (\<open>save_route_in_links\<close>, \<open>del_route_in_links\<close>), the requests to the fabric manager
  (\<open>save_route\<close>, \<open>del_route\<close>), the list of installed routes (\<open>add_route\<close>) and \<open>get_route\<close>, which
  searches a path and updates all of them.  The requests are recorded in the order they are sent;
  the answers are only printed by the code.  \<open>routes\<close> and \<open>links\<close> are read through
  \<open>operator[]\<close> only and are functions with the default value for a missing key.  A default
  route has \<open>seq\<close> -1; its \<open>del\<close> and \<open>tm\<close> are unset in the code and are written before they are
  read.
\<close>

record route =
  rt_seq :: int
  rt_del :: bool
  rt_tm :: int
  indev :: string
  inport :: string
  outdev :: string
  outport :: string
  pass :: "(string \<times> string) list"

definition new_route :: route where
  "new_route = \<lparr>rt_seq = - 1, rt_del = False, rt_tm = 0, indev = [], inport = [], outdev = [],
     outport = [], pass = []\<rparr>"

record flow_path =
  fp_seq :: int
  fp_in :: "string \<times> string"
  fp_pass :: "(string \<times> string) list"
  fp_out :: "string \<times> string"
  fp_src :: string
  fp_dst :: string

datatype request = Delete int | Save flow_path

record route_node =
  rn_sip :: string
  rn_dip :: string
  rn_tm :: int

record controller =
  c_nodes :: "device list"
  c_ifs :: "interface list"
  c_tables :: server_tables
  c_links :: link_map
  c_rates :: rates
  c_routes :: "string \<Rightarrow> string \<Rightarrow> route"
  c_seq :: int
  c_list :: "route_node list"
  n_route :: int
  c_sent :: "request list"

definition route_max :: int where
  "route_max = 1000"

abbreviation the_route :: "string \<Rightarrow> string \<Rightarrow> controller \<Rightarrow> route" where
  "the_route sip dip st \<equiv> c_routes st sip dip"

definition set_route :: "string \<Rightarrow> string \<Rightarrow> (route \<Rightarrow> route) \<Rightarrow> controller \<Rightarrow> controller" where
  "set_route sip dip f st = st\<lparr>c_routes := upd2 sip dip (f (c_routes st sip dip)) (c_routes st)\<rparr>"

subsection \<open>Flows on links\<close>

text \<open>\<open>erase(find(...))\<close> of a flow that is not listed erases the end iterator.\<close>

definition erase_flow :: "flow \<Rightarrow> flow list \<Rightarrow> flow list res" where
  "erase_flow f fs = (if f \<in> set fs then Inr (remove1 f fs) else Inl Undefined)"

definition push_flow :: "flow \<Rightarrow> flow list \<Rightarrow> flow list res" where
  "push_flow f fs = Inr (fs @ [f])"

fun on_port :: "(flow list \<Rightarrow> flow list res) \<Rightarrow> string \<Rightarrow> Link list \<Rightarrow> Link list res" where
  "on_port f p [] = Inr []"
| "on_port f p (l # ls) =
     bind_res (if port2 l = p then map_sum id (\<lambda>fs. l\<lparr>flows := fs\<rparr>) (f (flows l)) else Inr l) (\<lambda>l'.
     bind_res (on_port f p ls) (\<lambda>ls'. Inr (l' # ls')))"

definition on_hop ::
    "(flow list \<Rightarrow> flow list res) \<Rightarrow> string \<Rightarrow> string \<Rightarrow> string \<Rightarrow> link_map \<Rightarrow> link_map res" where
  "on_hop f a b p lm = bind_res (on_port f p (lm a b)) (\<lambda>ls. Inr (upd2 a b ls lm))"

fun mid_hops ::
    "(flow list \<Rightarrow> flow list res) \<Rightarrow> string \<Rightarrow> (string \<times> string) list \<Rightarrow> link_map \<Rightarrow> link_map res" where
  "mid_hops f p (x # y # xs) lm =
     bind_res (on_hop f (fst x) (fst y) p lm) (mid_hops f p (y # xs))"
| "mid_hops f p xs lm = Inr lm"

definition save_route_in_links :: "string \<Rightarrow> string \<Rightarrow> controller \<Rightarrow> controller res" where
  "save_route_in_links sip dip st =
     (let r = the_route sip dip st; f = push_flow (sip, dip)
      in bind_res
           (case pass r of
              x # xs \<Rightarrow>
                bind_res (on_hop f (server_ip_to_switch_name (c_tables st) sip) (fst x) (snd x) (c_links st)) (\<lambda>lm.
                bind_res (mid_hops f (snd x) (x # xs) lm)
                  (on_hop f (fst (last (x # xs))) (outdev r) (outport r)))
            | [] \<Rightarrow> on_hop f (indev r) (outdev r) (outport r) (c_links st))
           (\<lambda>lm. Inr (set_route sip dip (\<lambda>r. r\<lparr>rt_del := False\<rparr>) (st\<lparr>c_links := lm\<rparr>))))"

text \<open>
  As in the code, the last hop is matched by the port of the last intermediate switch, and a direct
  route by \<open>routes[sip][sip].outdev\<close>.
\<close>

definition del_route_in_links :: "string \<Rightarrow> string \<Rightarrow> controller \<Rightarrow> controller res" where
  "del_route_in_links sip dip st =
     (let r = the_route sip dip st; f = erase_flow (sip, dip)
      in bind_res
           (case pass r of
              x # xs \<Rightarrow>
                bind_res (on_hop f (server_ip_to_switch_name (c_tables st) sip) (fst x) (snd x) (c_links st)) (\<lambda>lm.
                bind_res (mid_hops f (snd x) (x # xs) lm)
                  (on_hop f (fst (last (x # xs))) (outdev r) (snd (last (x # xs)))))
            | [] \<Rightarrow> on_hop f (indev r) (outdev (the_route sip sip st)) (outport r) (c_links st))
           (\<lambda>lm. Inr (set_route sip dip (\<lambda>r. r\<lparr>rt_del := True\<rparr>) (st\<lparr>c_links := lm\<rparr>))))"

subsection \<open>Requests to the fabric manager\<close>

definition del_route :: "int \<Rightarrow> controller \<Rightarrow> controller" where
  "del_route seq st = st\<lparr>c_sent := c_sent st @ [Delete seq]\<rparr>"

definition save_route :: "string \<Rightarrow> string \<Rightarrow> controller \<Rightarrow> controller" where
  "save_route sip dip st =
     (let r = the_route sip dip st
      in st\<lparr>c_sent := c_sent st @
           [Save \<lparr>fp_seq = rt_seq r, fp_in = (indev r, inport r), fp_pass = pass r,
              fp_out = (outdev r, outport r), fp_src = sip, fp_dst = dip\<rparr>]\<rparr>)"

subsection \<open>The list of installed routes\<close>

text \<open>
  The nodes from \<open>route_head\<close> to \<open>route_end\<close>.  The \<open>next\<close> of the last node is never set, so
  taking the head away from a single node leaves a wild pointer.
\<close>

fun drop_head :: "route_node list \<Rightarrow> route_node list res" where
  "drop_head (x # y # xs) = Inr (y # xs)"
| "drop_head xs = Inl Undefined"

fun drop_older :: "int \<Rightarrow> route_node list \<Rightarrow> route_node list res" where
  "drop_older tm (x # y # xs) = (if rn_tm x < tm then drop_older tm (y # xs) else Inr (x # y # xs))"
| "drop_older tm [x] = (if rn_tm x < tm then Inl Undefined else Inr [x])"
| "drop_older tm [] = Inl Undefined"

definition add_route :: "int \<Rightarrow> string \<Rightarrow> string \<Rightarrow> controller \<Rightarrow> controller res" where
  "add_route now sip dip st =
     (let node = \<lparr>rn_sip = sip, rn_dip = dip, rn_tm = now\<rparr>;
          done = (\<lambda>xs. set_route sip dip (\<lambda>r. r\<lparr>rt_tm := now\<rparr>) (st\<lparr>c_list := xs, n_route := n_route st + 1\<rparr>))
      in if n_route st = 0 then Inr (done [node])
         else
           bind_res
             (if route_max \<le> n_route st \<and> rt_del (the_route sip dip st)
              then bind_res (drop_older (rt_tm (the_route sip dip st)) (c_list st)) drop_head
              else Inr (c_list st))
             (\<lambda>xs. Inr (done (xs @ [node]))))"

subsection \<open>\<open>get_route\<close>\<close>

definition link_count :: "device list \<Rightarrow> link_map \<Rightarrow> nat \<Rightarrow> nat \<Rightarrow> nat" where
  "link_count ns lm i j = length (lm (deviceName (ns ! i)) (deviceName (ns ! j)))"

definition hop_port :: "device list \<Rightarrow> link_map \<Rightarrow> nat \<Rightarrow> nat \<Rightarrow> nat \<Rightarrow> (string \<times> string) res" where
  "hop_port ns lm i j k =
     bind_res (switch_idx_to_name ns j) (\<lambda>outsw.
     bind_res (switch_idx_to_name ns i) (\<lambda>insw.
       if k < length (lm insw outsw) then Inr (outsw, port2 (lm insw outsw ! k)) else Inl Undefined))"

definition find_path :: "string \<Rightarrow> string \<Rightarrow> nat \<Rightarrow> nat \<Rightarrow> controller \<Rightarrow> (string \<times> string) list res" where
  "find_path sip dip s d st =
     (let ns = c_nodes st; lm = c_links st; n = n_switch ns
      in bind_res
           (route_search n (link_count ns lm)
              (\<lambda>i j k. get_interface_rate ns lm (c_rates st) i j k sip dip) d n
              ((replicate n False)[s := True]) ((replicate n (0, 0))[s := (s, 0)]))
           (\<lambda>pre. backtrack (hop_port ns lm) s pre n d (snd (pre ! d)) []))"

text \<open>Withdrawing a route that is installed.\<close>

definition withdraw :: "string \<Rightarrow> string \<Rightarrow> controller \<Rightarrow> controller res" where
  "withdraw sip dip st =
     (if rt_del (the_route sip dip st) then Inr st
      else del_route_in_links sip dip (del_route (rt_seq (the_route sip dip st)) st))"

text \<open>The comparison of one intermediate switch, its name and then its port.\<close>

definition sync_name :: "string \<Rightarrow> string \<Rightarrow> (string \<times> string) list \<Rightarrow> nat \<Rightarrow> bool \<times> controller \<Rightarrow> (bool \<times> controller) res" where
  "sync_name sip dip tmp k us =
     (if fst (pass (the_route sip dip (snd us)) ! k) \<noteq> fst (tmp ! k)
      then bind_res (withdraw sip dip (snd us)) (\<lambda>st.
        Inr (True, set_route sip dip (\<lambda>r. r\<lparr>pass := (pass r)[k := (fst (tmp ! k), snd (pass r ! k))]\<rparr>) st))
      else Inr us)"

definition sync_port :: "string \<Rightarrow> string \<Rightarrow> (string \<times> string) list \<Rightarrow> nat \<Rightarrow> bool \<times> controller \<Rightarrow> (bool \<times> controller) res" where
  "sync_port sip dip tmp k us =
     (if snd (pass (the_route sip dip (snd us)) ! k) \<noteq> snd (tmp ! k)
      then bind_res (withdraw sip dip (snd us)) (\<lambda>st.
        Inr (True, set_route sip dip (\<lambda>r. r\<lparr>pass := (pass r)[k := (fst (pass r ! k), snd (tmp ! k))]\<rparr>) st))
      else Inr us)"

fun sync_pass :: "string \<Rightarrow> string \<Rightarrow> (string \<times> string) list \<Rightarrow> nat list \<Rightarrow> bool \<times> controller \<Rightarrow> (bool \<times> controller) res" where
  "sync_pass sip dip tmp [] us = Inr us"
| "sync_pass sip dip tmp (k # ks) us =
     bind_res (sync_name sip dip tmp k us) (\<lambda>us1.
     bind_res (sync_port sip dip tmp k us1) (sync_pass sip dip tmp ks))"

definition merge_pass :: "string \<Rightarrow> string \<Rightarrow> nat \<Rightarrow> (string \<times> string) list \<Rightarrow> controller \<Rightarrow> (bool \<times> controller) res" where
  "merge_pass sip dip s tmp st =
     (let r = the_route sip dip st
      in if rt_seq r = - 1 then
           bind_res (switch_idx_to_name (c_nodes st) s) (\<lambda>name.
           bind_res (switch_idx_to_ip (c_nodes st) s) (\<lambda>ip.
           bind_res (server_ip_to_if (c_tables st) sip) (\<lambda>if_idx.
           bind_res (idx_to_ifname (c_ifs st) ip if_idx) (\<lambda>ifname.
             Inr (True, set_route sip dip
               (\<lambda>r. r\<lparr>rt_seq := c_seq st, rt_del := False, indev := name, inport := ifname,
                      pass := pass r @ butlast tmp\<rparr>)
               (st\<lparr>c_seq := c_seq st + 1\<rparr>))))))
         else if length tmp \<noteq> length (pass r) + 1 then
           bind_res (withdraw sip dip st) (\<lambda>st.
             Inr (True, set_route sip dip (\<lambda>r. r\<lparr>pass := butlast tmp\<rparr>) st))
         else sync_pass sip dip tmp [0..<length tmp - 1] (False, st))"

definition merge_out :: "string \<Rightarrow> string \<Rightarrow> nat \<Rightarrow> (string \<times> string) list \<Rightarrow> bool \<times> controller \<Rightarrow> (bool \<times> controller) res" where
  "merge_out sip dip d tmp us =
     bind_res (switch_idx_to_name (c_nodes (snd us)) d) (\<lambda>name.
       let st = set_route sip dip (\<lambda>r. r\<lparr>outdev := name\<rparr>) (snd us);
           p = snd (last tmp);
           put = set_route sip dip (\<lambda>r. r\<lparr>outport := p\<rparr>)
       in if outport (the_route sip dip st) = [] then Inr (fst us, put st)
          else if outport (the_route sip dip st) \<noteq> p
          then bind_res (withdraw sip dip st) (\<lambda>st. Inr (True, put st))
          else Inr (fst us, st))"

definition get_route :: "string \<Rightarrow> string \<Rightarrow> controller \<Rightarrow> (bool \<times> controller) res" where
  "get_route sip dip st =
     (let s = switch_name_to_idx (c_nodes st) (server_ip_to_switch_name (c_tables st) sip);
          d = switch_name_to_idx (c_nodes st) (server_ip_to_switch_name (c_tables st) dip)
      in if s = d then Inr (False, st)
         else
           bind_res (find_path sip dip s d st) (\<lambda>tmp.
           bind_res (merge_pass sip dip s tmp st) (\<lambda>us.
           bind_res (merge_out sip dip d tmp us) (\<lambda>(upd, st').
             if upd then bind_res (save_route_in_links sip dip st') (\<lambda>st''. Inr (True, st''))
             else Inr (False, st')))))"

subsection \<open>The controller\<close>

text \<open>
  \<open>update_route\<close> iterates over the rates; a route whose rate is positive is recomputed.  The clock
  gives the reading of each \<open>add_route\<close>.
\<close>

fun update_routes :: "(nat \<Rightarrow> int) \<Rightarrow> nat \<Rightarrow> (string \<times> string \<times> rat) list \<Rightarrow> controller \<Rightarrow> controller res" where
  "update_routes clk j [] st = Inr st"
| "update_routes clk j ((a, b, v) # es) st =
     (if 0 < v
      then bind_res (get_route a b st) (\<lambda>(upd, st1).
             if upd
             then bind_res (add_route (clk j) a b st1) (\<lambda>st2. update_routes clk (Suc j) es (save_route a b st2))
             else update_routes clk (Suc j) es st1)
      else update_routes clk (Suc j) es st)"

definition update_route :: "(nat \<Rightarrow> int) \<Rightarrow> controller \<Rightarrow> controller res" where
  "update_route clk st = update_routes clk 0 (entries2 (txRates (c_rates st))) st"

definition data_init :: "nat \<times> topo \<Rightarrow> string list \<Rightarrow> nat \<times> interface list \<Rightarrow> controller res" where
  "data_init resp ws ifresp =
     bind_res (get_topo resp) (\<lambda>tp.
     bind_res (get_server_list ws no_servers) (\<lambda>tb.
     bind_res (get_interfaces ifresp) (\<lambda>ifs.
       Inr \<lparr>c_nodes = nodes tp, c_ifs = ifs, c_tables = tb, c_links = get_links tp (\<lambda>_ _. []),
            c_rates = \<lparr>time_last_flow = (\<lambda>_ _. 0), time_rate_update = (\<lambda>_ _. 0), txRates = []\<rparr>,
            c_routes = (\<lambda>_ _. new_route), c_seq = 1, c_list = [], n_route = 0, c_sent = []\<rparr>)))"

end
