(* ===== verification/Controller.thy ===== *)
theory Controller
  imports Route_Table Report_Wire
begin

text \<open>
  The main loop of the controller, \<open>sync/server.cpp\<close>, and the properties of \<open>get_route\<close> and
  \<open>update_route\<close>: a new route follows a least loaded path and is entered in the link table, asking again changes nothing,
  sequence numbers are never shared, the list of installed routes only grows, and withdrawing a
  direct route leaves its flow on the link.
\<close>

text \<open>
  One turn of \<open>do ... while (true)\<close>: routes are recomputed when a second has passed, then every
  connection is read once and its whole records are processed.
\<close>

fun serve_clients ::
    "(nat \<Rightarrow> nat \<Rightarrow> int \<times> int) \<Rightarrow> nat \<Rightarrow> sock_ev list list \<Rightarrow> controller \<Rightarrow> (sock_ev list list \<times> controller) res" where
  "serve_clients clk i [] st = Inr ([], st)"
| "serve_clients clk i (es # ess) st =
     (case recv_records es of (rs, es') \<Rightarrow>
        bind_res (add_send_rec (c_tables st) (clk i) 0 rs (c_rates st)) (\<lambda>rt.
        bind_res (serve_clients clk (Suc i) ess (st\<lparr>c_rates := rt\<rparr>)) (\<lambda>(ess', st').
          Inr (es' # ess', st'))))"

definition server_turn ::
    "int \<Rightarrow> (nat \<Rightarrow> int) \<Rightarrow> (nat \<Rightarrow> nat \<Rightarrow> int \<times> int) \<Rightarrow> int \<times> sock_ev list list \<times> controller \<Rightarrow>
     (int \<times> sock_ev list list \<times> controller) res" where
  "server_turn now rclk clk s =
     (case s of (start, ess, st) \<Rightarrow>
        bind_res (if start + 1000000000 < now then map_sum id (Pair now) (update_route rclk st) else Inr (start, st))
          (\<lambda>(start', st').
        bind_res (serve_clients clk 0 ess st') (\<lambda>(ess', st'').
          Inr (start', ess', st''))))"

subsection \<open>The parts of the state an operation keeps\<close>

lemma upd2_apply: "upd2 a b v m x y = (if x = a \<and> y = b then v else m x y)"
  by (simp add: upd2_def)

lemma upd2_id: "upd2 a b (m a b) m = m"
  by (simp add: upd2_def)

lemma set_route_simps [simp]:
  "c_routes (set_route a b f st) x y = (if x = a \<and> y = b then f (c_routes st a b) else c_routes st x y)"
  "c_seq (set_route a b f st) = c_seq st"
  "c_links (set_route a b f st) = c_links st"
  "c_nodes (set_route a b f st) = c_nodes st"
  "c_tables (set_route a b f st) = c_tables st"
  "c_rates (set_route a b f st) = c_rates st"
  "c_list (set_route a b f st) = c_list st"
  "n_route (set_route a b f st) = n_route st"
  by (simp_all add: set_route_def upd2_apply)

lemma del_route_simps [simp]:
  "c_routes (del_route n st) = c_routes st" "c_seq (del_route n st) = c_seq st"
  "c_nodes (del_route n st) = c_nodes st"
  by (simp_all add: del_route_def)

text \<open>The sequence numbers of all pairs and the next free one.\<close>

definition same_seq :: "controller \<Rightarrow> controller \<Rightarrow> bool" where
  "same_seq st st' \<longleftrightarrow> c_seq st' = c_seq st \<and> (\<forall>a b. rt_seq (c_routes st' a b) = rt_seq (c_routes st a b))"

lemma same_seq_refl [simp]: "same_seq st st"
  by (simp add: same_seq_def)

lemma same_seq_trans: "same_seq st st' \<Longrightarrow> same_seq st' st'' \<Longrightarrow> same_seq st st''"
  by (simp add: same_seq_def)

lemma same_seq_set_route: "same_seq st st' \<Longrightarrow> (\<And>r. rt_seq (f r) = rt_seq r) \<Longrightarrow> same_seq st (set_route a b f st')"
  by (simp add: same_seq_def)

lemma save_in_links_same_seq: "save_route_in_links a b st = Inr st' \<Longrightarrow> same_seq st st'"
  by (auto simp: save_route_in_links_def Let_def bind_res_eq_Inr same_seq_def)

lemma del_in_links_same_seq: "del_route_in_links a b st = Inr st' \<Longrightarrow> same_seq st st'"
  by (auto simp: del_route_in_links_def Let_def bind_res_eq_Inr same_seq_def)

lemma withdraw_same_seq: "withdraw a b st = Inr st' \<Longrightarrow> same_seq st st'"
  by (auto simp: withdraw_def same_seq_def dest!: del_in_links_same_seq split: if_splits)

lemma sync_name_same_seq: "sync_name a b tmp k us = Inr us' \<Longrightarrow> same_seq (snd us) (snd us')"
  by (auto simp: sync_name_def bind_res_eq_Inr dest!: withdraw_same_seq intro!: same_seq_set_route split: if_splits)

lemma sync_port_same_seq: "sync_port a b tmp k us = Inr us' \<Longrightarrow> same_seq (snd us) (snd us')"
  by (auto simp: sync_port_def bind_res_eq_Inr dest!: withdraw_same_seq intro!: same_seq_set_route split: if_splits)

lemma sync_pass_same_seq: "sync_pass a b tmp ks us = Inr us' \<Longrightarrow> same_seq (snd us) (snd us')"
proof (induction ks arbitrary: us)
  case (Cons k ks)
  from Cons.prems obtain us1 us2 where
    "sync_name a b tmp k us = Inr us1" "sync_port a b tmp k us1 = Inr us2" "sync_pass a b tmp ks us2 = Inr us'"
    by (auto simp: bind_res_eq_Inr)
  then show ?case
    by (intro same_seq_trans [OF sync_name_same_seq same_seq_trans [OF sync_port_same_seq Cons.IH]])
qed simp

lemma merge_out_same_seq: "merge_out a b d tmp us = Inr us' \<Longrightarrow> same_seq (snd us) (snd us')"
  by (auto simp: merge_out_def bind_res_eq_Inr Let_def same_seq_def dest!: withdraw_same_seq split: if_splits)

subsection \<open>Sequence numbers\<close>

definition seq_ok :: "controller \<Rightarrow> bool" where
  "seq_ok st \<longleftrightarrow> 1 \<le> c_seq st \<and>
     (\<forall>a b. rt_seq (c_routes st a b) = - 1 \<or> 1 \<le> rt_seq (c_routes st a b) \<and> rt_seq (c_routes st a b) < c_seq st) \<and>
     (\<forall>a b a' b'. rt_seq (c_routes st a b) \<noteq> - 1 \<and> rt_seq (c_routes st a b) = rt_seq (c_routes st a' b') \<longrightarrow>
        a = a' \<and> b = b')"

lemma same_seq_ok: "same_seq st st' \<Longrightarrow> seq_ok st \<Longrightarrow> seq_ok st'"
  unfolding same_seq_def seq_ok_def by simp

lemma seq_ok_fresh:
  assumes ok: "seq_ok st" and nxt: "c_seq st' = c_seq st + 1"
    and seqs: "\<And>x y. rt_seq (c_routes st' x y) = (if x = a \<and> y = b then c_seq st else rt_seq (c_routes st x y))"
  shows "seq_ok st'"
proof -
  have one: "1 \<le> c_seq st" and range: "\<And>x y. rt_seq (c_routes st x y) = - 1 \<or>
      1 \<le> rt_seq (c_routes st x y) \<and> rt_seq (c_routes st x y) < c_seq st"
    and inj: "\<And>x y x' y'. rt_seq (c_routes st x y) \<noteq> - 1 \<Longrightarrow>
      rt_seq (c_routes st x y) = rt_seq (c_routes st x' y') \<Longrightarrow> x = x' \<and> y = y'"
    using ok unfolding seq_ok_def by blast+
  have lt: "rt_seq (c_routes st x y) < c_seq st" for x y using range [of x y] one by linarith
  have "rt_seq (c_routes st' x y) = - 1 \<or> 1 \<le> rt_seq (c_routes st' x y) \<and> rt_seq (c_routes st' x y) < c_seq st'" for x y
    using range [of x y] one by (simp add: seqs nxt) linarith
  moreover have "x = x' \<and> y = y'"
    if "rt_seq (c_routes st' x y) \<noteq> - 1" "rt_seq (c_routes st' x y) = rt_seq (c_routes st' x' y')" for x y x' y'
    using that inj [of x y x' y'] lt [of x y] lt [of x' y'] by (auto simp: seqs split: if_splits)
  ultimately show ?thesis unfolding seq_ok_def using one nxt by (intro conjI allI impI) (simp, assumption, blast+)
qed

lemma merge_pass_seq_ok:
  assumes "merge_pass a b s tmp st = Inr us" "seq_ok st"
  shows "seq_ok (snd us)"
proof -
  let ?r = "the_route a b st"
  consider (new) "rt_seq ?r = - 1" | (size) "rt_seq ?r \<noteq> - 1" "length tmp \<noteq> length (pass ?r) + 1"
    | (sync) "rt_seq ?r \<noteq> - 1" "length tmp = length (pass ?r) + 1" by blast
  then show ?thesis
  proof cases
    case new
    with assms(1) have seqs: "c_seq (snd us) = c_seq st + 1"
      "\<And>x y. rt_seq (c_routes (snd us) x y) = (if x = a \<and> y = b then c_seq st else rt_seq (c_routes st x y))"
      by (auto simp: merge_pass_def Let_def bind_res_eq_Inr)
    from seq_ok_fresh [OF assms(2) this] show ?thesis .
  next
    case size
    with assms(1) have "same_seq st (snd us)"
      by (auto simp: merge_pass_def Let_def bind_res_eq_Inr dest!: withdraw_same_seq intro!: same_seq_set_route)
    with assms(2) show ?thesis by (rule same_seq_ok [rotated])
  next
    case sync
    with assms(1) have "same_seq st (snd us)"
      using sync_pass_same_seq [of a b tmp "[0..<length tmp - 1]" "(False, st)" us] by (simp add: merge_pass_def Let_def)
    with assms(2) show ?thesis by (rule same_seq_ok [rotated])
  qed
qed

lemma get_route_seq_ok:
  assumes "get_route a b st = Inr (u, st')" "seq_ok st"
  shows "seq_ok st'"
proof -
  let ?s = "switch_name_to_idx (c_nodes st) (server_ip_to_switch_name (c_tables st) a)"
  let ?d = "switch_name_to_idx (c_nodes st) (server_ip_to_switch_name (c_tables st) b)"
  show ?thesis
  proof (cases "?s = ?d")
    case True
    with assms show ?thesis by (simp add: get_route_def)
  next
    case False
    with assms(1) obtain tmp us u1 st1 where m: "merge_pass a b ?s tmp st = Inr us"
      and o: "merge_out a b ?d tmp us = Inr (u1, st1)"
      and f: "same_seq st1 st'"
      by (auto simp: get_route_def Let_def bind_res_eq_Inr dest: save_in_links_same_seq split: if_splits)
    have "same_seq (snd us) st1" using merge_out_same_seq [OF o] by simp
    with f merge_pass_seq_ok [OF m assms(2)] show ?thesis by (meson same_seq_ok)
  qed
qed

lemma add_route_same_seq: "add_route now a b st = Inr st' \<Longrightarrow> same_seq st st'"
  by (auto simp: add_route_def Let_def bind_res_eq_Inr same_seq_def split: if_splits)

lemma update_routes_seq_ok: "update_routes clk j es st = Inr st' \<Longrightarrow> seq_ok st \<Longrightarrow> seq_ok st'"
proof (induction es arbitrary: j st)
  case (Cons e es)
  obtain a b v where e: "e = (a, b, v)" by (cases e)
  show ?case
  proof (cases "0 < v")
    case True
    with Cons.prems(1) obtain u st1 where g: "get_route a b st = Inr (u, st1)"
      and rest: "(if u then bind_res (add_route (clk j) a b st1) (\<lambda>st2. update_routes clk (Suc j) es (save_route a b st2))
        else update_routes clk (Suc j) es st1) = Inr st'"
      by (auto simp: e bind_res_eq_Inr)
    have ok1: "seq_ok st1" using g Cons.prems(2) by (rule get_route_seq_ok)
    show ?thesis
    proof (cases u)
      case True
      with rest obtain st2 where a: "add_route (clk j) a b st1 = Inr st2"
        and r: "update_routes clk (Suc j) es (save_route a b st2) = Inr st'"
        by (auto simp: bind_res_eq_Inr)
      have "seq_ok st2" using same_seq_ok [OF add_route_same_seq [OF a] ok1] .
      then have "seq_ok (save_route a b st2)" by (simp add: save_route_def Let_def seq_ok_def)
      with Cons.IH [OF r] show ?thesis .
    next
      case False
      with Cons.IH [of "Suc j" st1] rest ok1 show ?thesis by simp
    qed
  next
    case False
    with Cons show ?thesis by (simp add: e)
  qed
qed simp

subsection \<open>Paths of the controller's graph\<close>

definition link_rates :: "controller \<Rightarrow> string \<Rightarrow> string \<Rightarrow> nat \<Rightarrow> nat \<Rightarrow> nat \<Rightarrow> rat res" where
  "link_rates st sip dip i j k = get_interface_rate (c_nodes st) (c_links st) (c_rates st) i j k sip dip"

definition link_counts :: "controller \<Rightarrow> nat \<Rightarrow> nat \<Rightarrow> nat" where
  "link_counts st i j = link_count (c_nodes st) (c_links st) i j"

definition hop_of :: "controller \<Rightarrow> link_id \<Rightarrow> string \<times> string" where
  "hop_of st e = (case e of (i, j, k) \<Rightarrow>
     (deviceName (c_nodes st ! j), port2 (c_links st (deviceName (c_nodes st ! i)) (deviceName (c_nodes st ! j)) ! k)))"

definition switch_of :: "controller \<Rightarrow> string \<Rightarrow> nat" where
  "switch_of st ip = switch_name_to_idx (c_nodes st) (server_ip_to_switch_name (c_tables st) ip)"

lemma switch_idx_to_name_Inr: "i < length ns \<Longrightarrow> switch_idx_to_name ns i = Inr (deviceName (ns ! i))"
  by (simp add: switch_idx_to_name_def node_at_def)

lemma link_rates_ok:
  "rates_ok t (c_rates st) \<Longrightarrow> weights_ok (n_switch (c_nodes st)) (link_counts st) (link_rates st sip dip)"
  by (auto simp: weights_ok_def link_rates_def link_counts_def get_interface_rate_def link_count_def
      n_switch_def switch_idx_to_name_Inr intro: sum_flows_nonneg)

lemma index_of_bound: "index_of p ns k < k + length ns \<or> index_of p ns k = 0"
  by (induction ns arbitrary: k) (auto simp: add.commute, metis add_Suc_right add_Suc less_Suc_eq not_less_eq)

lemma switch_of_less: "switch_of st a \<noteq> switch_of st b \<Longrightarrow> switch_of st x < n_switch (c_nodes st)"
  using index_of_bound [of _ "c_nodes st" 0]
  by (cases "c_nodes st = []") (fastforce simp: switch_of_def switch_name_to_idx_def n_switch_def)+

lemma find_path_least:
  assumes "rates_ok t (c_rates st)" "s < n_switch (c_nodes st)" "d < n_switch (c_nodes st)" "s \<noteq> d"
    and "usable (n_switch (c_nodes st)) (link_counts st) (link_rates st sip dip) s p d"
  shows "\<exists>es. find_path sip dip s d st = Inr (map (hop_of st) es) \<and>
    least_loaded (n_switch (c_nodes st)) (link_counts st) (link_rates st sip dip) s es d"
proof -
  let ?n = "n_switch (c_nodes st)" and ?v = "(replicate (n_switch (c_nodes st)) False)[s := True]"
  have "\<not> ?v ! d" using assms by simp
  from route_search_least [OF link_rates_ok [OF assms(1)] assms(5,3) search_start [OF assms(2)] this, of ?n]
  obtain pre visit' es where
    r: "route_search ?n (link_counts st) (link_rates st sip dip) d ?n ?v ((replicate ?n (0, 0))[s := (s, 0)]) = Inr pre"
    and t: "tree_path ?n (link_counts st) s visit' pre es d"
    and l: "least_loaded ?n (link_counts st) (link_rates st sip dip) s es d" by auto
  have "{x. x < ?n \<and> visit' ! x} \<subseteq> {0..<?n}" by auto
  from card_mono [OF _ this] t have len: "length es \<le> ?n" by (simp add: tree_path_def)
  have w: "walk ?n (link_counts st) s es d" using t by (simp add: tree_path_def)
  have "pre ! j = (i, k) \<and> j \<noteq> s \<and> hop_port (c_nodes st) (c_links st) i j k = Inr (hop_of st (i, j, k))"
    if "(i, j, k) \<in> set es" for i j k
    using t walk_links [OF w assms(2) that] that
    by (auto simp: tree_path_def hop_port_def hop_of_def link_counts_def link_count_def n_switch_def
        switch_idx_to_name_Inr)
  then have "backtrack (hop_port (c_nodes st) (c_links st)) s pre ?n d (snd (pre ! d)) [] =
      Inr (map (hop_of st) es @ rev [])"
    using w len by (intro backtrack_tree) auto
  with r l show ?thesis
    by (auto simp: find_path_def Let_def link_rates_def [abs_def] link_counts_def [abs_def])
qed

subsection \<open>A new route\<close>

text \<open>The table after a flow has been added to the links from one switch to another with a port, once for every mark.\<close>

definition listed :: "flow \<Rightarrow> (string \<times> string \<times> string) list \<Rightarrow> link_map \<Rightarrow> link_map" where
  "listed f ms lm = (\<lambda>x y. map (\<lambda>l. l\<lparr>flows := flows l @ replicate (count_list ms (x, y, port2 l)) f\<rparr>) (lm x y))"

lemma listed_append: "listed f ms' (listed f ms lm) = listed f (ms @ ms') lm"
  by (simp add: listed_def fun_eq_iff replicate_add)

lemma listed_Nil: "listed f [] lm = lm"
  by (simp add: listed_def fun_eq_iff)

lemma on_port_push:
  "on_port (push_flow f) p ls = Inr (map (\<lambda>l. if port2 l = p then l\<lparr>flows := flows l @ [f]\<rparr> else l) ls)"
  by (induction ls) (auto simp: push_flow_def)

lemma on_hop_push: "on_hop (push_flow f) a b p lm = Inr (listed f [(a, b, p)] lm)"
  by (auto simp: on_hop_def on_port_push listed_def upd2_apply fun_eq_iff)

fun mid_marks :: "string \<Rightarrow> (string \<times> string) list \<Rightarrow> (string \<times> string \<times> string) list" where
  "mid_marks p (x # y # xs) = (fst x, fst y, p) # mid_marks p (y # xs)"
| "mid_marks p xs = []"

lemma mid_hops_push: "mid_hops (push_flow f) p xs lm = Inr (listed f (mid_marks p xs) lm)"
  by (induction "push_flow f" p xs lm rule: mid_hops.induct) (simp_all add: on_hop_push listed_append listed_Nil)

definition route_marks :: "string \<Rightarrow> route \<Rightarrow> (string \<times> string \<times> string) list" where
  "route_marks sw r =
     (case pass r of
        [] \<Rightarrow> [(indev r, outdev r, outport r)]
      | x # xs \<Rightarrow> (sw, fst x, snd x) # mid_marks (snd x) (x # xs) @ [(fst (last (x # xs)), outdev r, outport r)])"

lemma save_route_in_links_listed:
  "save_route_in_links sip dip st = Inr (set_route sip dip (\<lambda>r. r\<lparr>rt_del := False\<rparr>)
     (st\<lparr>c_links := listed (sip, dip) (route_marks (server_ip_to_switch_name (c_tables st) sip) (the_route sip dip st)) (c_links st)\<rparr>))"
  by (simp add: save_route_in_links_def route_marks_def Let_def on_hop_push mid_hops_push listed_append split: list.split)

text \<open>
  The links of a path with the hops \<open>hs\<close> from the switch \<open>sw\<close> that \<open>save_route_in_links\<close> looks for: each hop but the last is
  matched by the port of the first one.
\<close>

definition flow_links :: "string \<Rightarrow> (string \<times> string) list \<Rightarrow> (string \<times> string \<times> string) list" where
  "flow_links sw hs =
     map (\<lambda>i. ((sw # map fst hs) ! i, fst (hs ! i), snd (hs ! (if i = length hs - 1 then i else 0)))) [0..<length hs]"

lemma mid_marks_nth: "length (mid_marks p xs) = length xs - 1"
    "i < length xs - 1 \<Longrightarrow> mid_marks p xs ! i = (fst (xs ! i), fst (xs ! Suc i), p)"
  by (induction p xs arbitrary: i rule: mid_marks.induct) (auto simp: nth_Cons split: nat.split)

lemma route_marks_links:
  assumes "indev r = sw"
  shows "route_marks sw r = flow_links sw (pass r @ [(outdev r, outport r)])"
proof (cases "pass r")
  case Nil
  with assms show ?thesis by (simp add: route_marks_def flow_links_def)
next
  case (Cons x xs)
  let ?hs = "x # xs @ [(outdev r, outport r)]" and ?m = "mid_marks (snd x) (x # xs)"
  have l: "length ?m = length xs" by (simp add: mid_marks_nth)
  have pt: "((sw, fst x, snd x) # ?m @ [(fst (last (x # xs)), outdev r, outport r)]) ! i =
      ((sw # map fst ?hs) ! i, fst (?hs ! i), snd (?hs ! (if i = length ?hs - 1 then i else 0)))" if "i < length xs + 2" for i
  proof -
    have i: "i < length xs + 2" by (rule that)
    consider "i = 0" | k where "i = Suc k" "k < length xs" | "i = Suc (length xs)" using i by (cases i; cases "i - 1 < length xs") auto
    then show ?thesis
    proof cases
      case 2
      with mid_marks_nth(2) [of k "x # xs" "snd x"] show ?thesis by (simp add: nth_append l nth_Cons split: nat.split)
    next
      case 3
      have "?hs ! length xs = last (x # xs)" using nth_append [of "x # xs" "[(outdev r, outport r)]" "length xs"] by (simp add: last_conv_nth)
      with 3 show ?thesis using nth_append_length [of ?m] nth_map [of "length xs" ?hs fst] by (simp add: l del: list.map)
    qed simp
  qed
  have "map (\<lambda>i. ((sw # map fst ?hs) ! i, fst (?hs ! i), snd (?hs ! (if i = length ?hs - 1 then i else 0)))) [0..<length ?hs] =
      (sw, fst x, snd x) # ?m @ [(fst (last (x # xs)), outdev r, outport r)]"
  proof (rule map_upt_eqI)
    fix i assume "i < length ((sw, fst x, snd x) # ?m @ [(fst (last (x # xs)), outdev r, outport r)])"
    then have "i < length xs + 2" by (simp add: l)
    from pt [OF this] show "((sw, fst x, snd x) # ?m @ [(fst (last (x # xs)), outdev r, outport r)]) ! i =
        ((sw # map fst ?hs) ! (0 + i), fst (?hs ! (0 + i)), snd (?hs ! (if 0 + i = length ?hs - 1 then 0 + i else 0)))"
      by (simp only: add_0)
  qed (simp add: l)
  then show ?thesis unfolding route_marks_def flow_links_def Cons list.case append_Cons by (rule sym)
qed

lemma walk_last: "walk n deg s es d \<Longrightarrow> s \<noteq> d \<Longrightarrow> \<exists>es' i k. es = es' @ [(i, d, k)]"
  by (cases es rule: rev_cases) (auto simp: walk_append)

lemma get_route_fresh:
  assumes "find_path sip dip (switch_of st sip) (switch_of st dip) st = Inr (map (hop_of st) es)"
    and "walk (n_switch (c_nodes st)) (link_counts st) (switch_of st sip) es (switch_of st dip)"
    and "switch_of st sip \<noteq> switch_of st dip" "the_route sip dip st = new_route"
    and "server_ip_to_if (c_tables st) sip = Inr i"
    and "idx_to_ifname (c_ifs st) (deviceIp (c_nodes st ! switch_of st sip)) i = Inr ifname"
    and "deviceName (c_nodes st ! switch_of st sip) = server_ip_to_switch_name (c_tables st) sip"
  shows "\<exists>st'. get_route sip dip st = Inr (True, st') \<and>
    pass (the_route sip dip st') @ [(outdev (the_route sip dip st'), outport (the_route sip dip st'))] = map (hop_of st) es \<and>
    indev (the_route sip dip st') = deviceName (c_nodes st ! switch_of st sip) \<and>
    inport (the_route sip dip st') = ifname \<and> rt_seq (the_route sip dip st') = c_seq st \<and> n_route st' = n_route st \<and>
    c_links st' = listed (sip, dip) (flow_links (server_ip_to_switch_name (c_tables st) sip) (map (hop_of st) es)) (c_links st)"
proof -
  let ?s = "switch_of st sip" and ?d = "switch_of st dip" and ?tmp = "map (hop_of st) es" and ?sw = "server_ip_to_switch_name (c_tables st) sip"
  have sd: "?s < length (c_nodes st)" "?d < length (c_nodes st)"
    using switch_of_less [OF assms(3)] by (simp_all add: n_switch_def)
  obtain es' a k where es: "es = es' @ [(a, ?d, k)]" using walk_last [OF assms(2,3)] by blast
  then have lt: "last ?tmp = (deviceName (c_nodes st ! ?d), snd (last ?tmp))" "?tmp \<noteq> []"
    by (simp_all add: hop_of_def)
  have ip: "switch_idx_to_ip (c_nodes st) ?s = Inr (deviceIp (c_nodes st ! ?s))"
    using sd by (simp add: switch_idx_to_ip_def node_at_def)
  define st1 where "st1 = set_route sip dip
      (\<lambda>r. r\<lparr>rt_seq := c_seq st, rt_del := False, indev := deviceName (c_nodes st ! ?s), inport := ifname,
             pass := pass r @ butlast ?tmp\<rparr>) (st\<lparr>c_seq := c_seq st + 1\<rparr>)"
  define st2 where "st2 = set_route sip dip (\<lambda>r. r\<lparr>outport := snd (last ?tmp)\<rparr>)
      (set_route sip dip (\<lambda>r. r\<lparr>outdev := deviceName (c_nodes st ! ?d)\<rparr>) st1)"
  have 1: "merge_pass sip dip ?s ?tmp st = Inr (True, st1)"
    using assms(4-6) sd ip by (simp add: merge_pass_def Let_def new_route_def switch_idx_to_name_Inr st1_def)
  have 2: "merge_out sip dip ?d ?tmp (True, st1) = Inr (True, st2)"
    using assms(4) sd by (simp add: merge_out_def Let_def switch_idx_to_name_Inr st2_def st1_def new_route_def)
  have r: "pass (the_route sip dip st2) @ [(outdev (the_route sip dip st2), outport (the_route sip dip st2))] = ?tmp" "indev (the_route sip dip st2) = ?sw"
    using assms(4,7) append_butlast_last_id [OF lt(2)] lt(1) by (simp_all add: st2_def st1_def new_route_def)
  have f: "c_tables st2 = c_tables st" "c_links st2 = c_links st" by (simp_all add: st2_def st1_def)
  have "get_route sip dip st = Inr (True, set_route sip dip (\<lambda>r. r\<lparr>rt_del := False\<rparr>)
      (st2\<lparr>c_links := listed (sip, dip) (flow_links ?sw ?tmp) (c_links st)\<rparr>))"
    using assms(1,3) 1 2 save_route_in_links_listed [of sip dip st2] route_marks_links [OF r(2)]
    by (simp add: get_route_def Let_def switch_of_def f r(1))
  with r show ?thesis using assms(4,7) by (simp add: st2_def st1_def new_route_def)
qed


definition ex_ctl :: controller where
  "ex_ctl = \<lparr>c_nodes = nodes ex_topo,
     c_ifs = [\<lparr>if_value = ''1.1'', if_children = [\<lparr>pl_value = ''9'', pl_label = ''eth9''\<rparr>]\<rparr>],
     c_tables = \<lparr>switch_server_list = [(''A'', [\<lparr>srv_ip = ''h1'', srv_port = ''9'', srv_bw = 100\<rparr>])],
       server_ip_to_switch_name = (\<lambda>ip. if ip = ''h1'' then ''A'' else ''B'')\<rparr>,
     c_links = get_links ex_topo (\<lambda>_ _. []),
     c_rates = \<lparr>time_last_flow = (\<lambda>_ _. 0), time_rate_update = (\<lambda>_ _. 0), txRates = [(''h1'', [(''h2'', 5)])]\<rparr>,
     c_routes = (\<lambda>_ _. new_route), c_seq = 1, c_list = [], n_route = 0, c_sent = []\<rparr>"

lemma ex_ctl_switches: "switch_of ex_ctl ''h1'' = 0" "switch_of ex_ctl ''h2'' = 1" "n_switch (c_nodes ex_ctl) = 2"
  by (simp_all add: switch_of_def ex_ctl_def ex_topo_def switch_name_to_idx_def n_switch_def)

lemma ex_ctl_rates_ok: "rates_ok 0 (c_rates ex_ctl)"
  by (simp add: rates_ok_def ex_ctl_def map2_ok_def map_ok_def get2_def map_get_def split: option.split)

lemma ex_ctl_links:
  "c_links ex_ctl ''A'' ''B'' = [new_Link ''p1'' ''q1'', new_Link ''p2'' ''q2'']"
  by (simp add: ex_ctl_def get_links_def ex_topo_def add_json_link_def push_link_def reset_links_def)

lemma ex_ctl_usable: "usable 2 (link_counts ex_ctl) (link_rates ex_ctl ''h1'' ''h2'') 0 [(0, 1, 0)] 1"
proof -
  have n: "c_nodes ex_ctl = [\<lparr>deviceName = ''A'', deviceIp = ''1.1''\<rparr>, \<lparr>deviceName = ''B'', deviceIp = ''1.2''\<rparr>]"
    by (simp add: ex_ctl_def ex_topo_def)
  show ?thesis
    by (simp add: usable_def link_counts_def link_count_def load_def link_rates_def get_interface_rate_def
        switch_idx_to_name_def node_at_def n ex_ctl_links new_Link_def rate_limit_def)
qed

lemma ex_ctl_entry:
  "server_ip_to_if (c_tables ex_ctl) ''h1'' = Inr ''9''"
  "idx_to_ifname (c_ifs ex_ctl) (deviceIp (c_nodes ex_ctl ! 0)) ''9'' = Inr ''eth9''"
  "the_route a b ex_ctl = new_route" "deviceName (c_nodes ex_ctl ! 0) = server_ip_to_switch_name (c_tables ex_ctl) ''h1''"
  by (simp_all add: server_ip_to_if_def idx_to_ifname_def ex_ctl_def ex_topo_def)

lemmas ex_ctl_facts = ex_ctl_rates_ok ex_ctl_switches ex_ctl_usable ex_ctl_entry

lemma ex_ctl_get_route: "\<exists>st1. get_route ''h1'' ''h2'' ex_ctl = Inr (True, st1) \<and> n_route st1 = 0"
proof -
  have "0 < n_switch (c_nodes ex_ctl)" "1 < n_switch (c_nodes ex_ctl)" "(0::nat) \<noteq> 1"
    by (simp_all add: ex_ctl_switches)
  from find_path_least [OF ex_ctl_rates_ok this ex_ctl_usable [folded ex_ctl_switches(3)]]
  obtain es where es: "find_path ''h1'' ''h2'' 0 1 ex_ctl = Inr (map (hop_of ex_ctl) es)"
    "walk (n_switch (c_nodes ex_ctl)) (link_counts ex_ctl) 0 es 1" by (auto simp: least_loaded_def)
  from get_route_fresh [where sip = "''h1''" and dip = "''h2''" and st = ex_ctl and es = es and i = "''9''" and ifname = "''eth9''"] es
  show ?thesis by (auto simp: ex_ctl_switches ex_ctl_entry ex_ctl_def [THEN arg_cong, of n_route])
qed


subsection \<open>Asking again\<close>

text \<open>What the search for a pair depends on: the flow of the pair itself is left out of the load of a link.\<close>

definition same_link :: "flow \<Rightarrow> Link \<Rightarrow> Link \<Rightarrow> bool" where
  "same_link f l l' \<longleftrightarrow> port2 l' = port2 l \<and> filter (\<lambda>g. g \<noteq> f) (flows l') = filter (\<lambda>g. g \<noteq> f) (flows l)"

definition same_links :: "flow \<Rightarrow> link_map \<Rightarrow> link_map \<Rightarrow> bool" where
  "same_links f lm lm' \<longleftrightarrow> (\<forall>x y. list_all2 (same_link f) (lm x y) (lm' x y))"

definition same_graph :: "flow \<Rightarrow> controller \<Rightarrow> controller \<Rightarrow> bool" where
  "same_graph f st st' \<longleftrightarrow> c_nodes st' = c_nodes st \<and> c_tables st' = c_tables st \<and> c_rates st' = c_rates st \<and>
     same_links f (c_links st) (c_links st')"

lemma same_link_refl [simp]: "same_link f l l"
  by (simp add: same_link_def)

lemma same_link_trans: "same_link f l l' \<Longrightarrow> same_link f l' l'' \<Longrightarrow> same_link f l l''"
  by (simp add: same_link_def)

lemma same_links_refl [simp]: "same_links f lm lm"
  by (simp add: same_links_def list_all2_refl)

lemma same_links_trans:
  assumes "same_links f lm lm'" "same_links f lm' lm''"
  shows "same_links f lm lm''"
  unfolding same_links_def
proof (intro allI)
  fix x y
  have "list_all2 (same_link f) (lm x y) (lm' x y)" "list_all2 (same_link f) (lm' x y) (lm'' x y)"
    using assms unfolding same_links_def by blast+
  then show "list_all2 (same_link f) (lm x y) (lm'' x y)"
    by (simp add: list_all2_conv_all_nth same_link_def)
qed

lemma same_graph_refl [simp]: "same_graph f st st"
  by (simp add: same_graph_def)

lemma same_graph_trans: "same_graph f st st' \<Longrightarrow> same_graph f st' st'' \<Longrightarrow> same_graph f st st''"
  by (auto simp: same_graph_def intro: same_links_trans)

lemma same_graph_set_route [simp]: "same_graph f st (set_route a b g st') = same_graph f st st'"
  by (simp add: same_graph_def)

lemma same_graph_find_path:
  assumes "same_graph (sip, dip) st st'"
  shows "find_path sip dip s d st' = find_path sip dip s d st"
proof -
  have e: "c_nodes st' = c_nodes st" "c_rates st' = c_rates st" using assms by (simp_all add: same_graph_def)
  have l: "list_all2 (same_link (sip, dip)) (c_links st x y) (c_links st' x y)" for x y using assms by (simp add: same_graph_def same_links_def)
  have len: "length (c_links st' x y) = length (c_links st x y)" for x y using list_all2_lengthD [OF l] by simp
  have k: "port2 (c_links st' x y ! k) = port2 (c_links st x y ! k)"
      "sum_flows (flows (c_links st' x y ! k)) sip dip r 0 = sum_flows (flows (c_links st x y ! k)) sip dip r 0"
    if "k < length (c_links st x y)" for x y k r
    using list_all2_nthD [OF l that] sum_flows_skips [of "flows (c_links st' x y ! k)"] sum_flows_skips [of "flows (c_links st x y ! k)"]
    by (simp_all add: same_link_def)
  have "link_count (c_nodes st) (c_links st') = link_count (c_nodes st) (c_links st)" by (simp add: link_count_def len fun_eq_iff)
  moreover have "get_interface_rate (c_nodes st) (c_links st') (c_rates st) i j k sip dip = get_interface_rate (c_nodes st) (c_links st) (c_rates st) i j k sip dip" for i j k
    unfolding get_interface_rate_def len using k(2) by (auto intro!: arg_cong [where f = "bind_res _"] simp: fun_eq_iff)
  moreover have "hop_port (c_nodes st) (c_links st') = hop_port (c_nodes st) (c_links st)"
    unfolding hop_port_def [abs_def] len using k(1) by (auto intro!: ext arg_cong [where f = "bind_res _"])
  ultimately show ?thesis unfolding find_path_def e Let_def by (simp only:)
qed

text \<open>Adding or erasing the flow of the pair keeps the graph of the pair.\<close>

definition keeps_others :: "flow \<Rightarrow> (flow list \<Rightarrow> flow list res) \<Rightarrow> bool" where
  "keeps_others f g \<longleftrightarrow> (\<forall>fs fs'. g fs = Inr fs' \<longrightarrow> filter (\<lambda>h. h \<noteq> f) fs' = filter (\<lambda>h. h \<noteq> f) fs)"

lemma keeps_others_flow: "keeps_others f (push_flow f)" "keeps_others f (erase_flow f)"
proof -
  have "filter (\<lambda>h. h \<noteq> f) (remove1 f fs) = filter (\<lambda>h. h \<noteq> f) fs" for fs by (induction fs) auto
  then show "keeps_others f (push_flow f)" "keeps_others f (erase_flow f)" by (auto simp: keeps_others_def push_flow_def erase_flow_def)
qed

lemma on_port_same:
  assumes "keeps_others f g"
  shows "on_port g p ls = Inr ls' \<Longrightarrow> list_all2 (same_link f) ls ls'"
proof (induction ls arbitrary: ls')
  case (Cons l ls)
  from Cons.prems obtain l' ls1 where l: "(if port2 l = p then map_sum id (\<lambda>fs. l\<lparr>flows := fs\<rparr>) (g (flows l)) else Inr l) = Inr l'"
    "on_port g p ls = Inr ls1" "ls' = l' # ls1" by (auto simp: bind_res_eq_Inr)
  have "same_link f l l'" using l(1) assms by (cases "g (flows l)") (auto simp: same_link_def keeps_others_def split: if_splits)
  with l Cons.IH show ?case by simp
qed simp

lemma on_hop_same:
  assumes "keeps_others f g" "on_hop g a b p lm = Inr lm'"
  shows "same_links f lm lm'"
  using assms(2) on_port_same [OF assms(1)] by (auto simp: on_hop_def bind_res_eq_Inr same_links_def upd2_apply list_all2_refl)

lemma mid_hops_same: "keeps_others f g \<Longrightarrow> mid_hops g p xs lm = Inr lm' \<Longrightarrow> same_links f lm lm'"
proof (induction g p xs lm rule: mid_hops.induct)
  case (1 g p x y xs lm)
  from 1(3) obtain lm1 where h: "on_hop g (fst x) (fst y) p lm = Inr lm1" "mid_hops g p (y # xs) lm1 = Inr lm'"
    by (auto simp: bind_res_eq_Inr)
  from same_links_trans [OF on_hop_same [OF 1(2) h(1)] 1(1) [OF 1(2) h(2)]] show ?case .
qed auto

lemma hops_same:
  assumes g: "keeps_others f g"
    and h: "bind_res (on_hop g a b p lm) (\<lambda>lm1. bind_res (mid_hops g q xs lm1) (on_hop g c d r)) = Inr lm'"
  shows "same_links f lm lm'"
proof -
  from h obtain lm1 lm2 where "on_hop g a b p lm = Inr lm1" "mid_hops g q xs lm1 = Inr lm2" "on_hop g c d r lm2 = Inr lm'"
    by (auto simp: bind_res_eq_Inr)
  then show ?thesis by (intro same_links_trans [OF on_hop_same [OF g] same_links_trans [OF mid_hops_same [OF g] on_hop_same [OF g]]])
qed

lemma same_graph_links: "same_links f (c_links st) lm \<Longrightarrow> same_graph f st (set_route a b g (st\<lparr>c_links := lm\<rparr>))"
  by (simp add: same_graph_def)

lemma save_route_in_links_same_graph:
  assumes "save_route_in_links a b st = Inr st'"
  shows "same_graph (a, b) st st'"
proof -
  let ?r = "the_route a b st" and ?g = "push_flow (a, b)"
  obtain lm where lm: "(case pass ?r of
        x # xs \<Rightarrow> bind_res (on_hop ?g (server_ip_to_switch_name (c_tables st) a) (fst x) (snd x) (c_links st)) (\<lambda>lm.
          bind_res (mid_hops ?g (snd x) (x # xs) lm) (on_hop ?g (fst (last (x # xs))) (outdev ?r) (outport ?r)))
      | [] \<Rightarrow> on_hop ?g (indev ?r) (outdev ?r) (outport ?r) (c_links st)) = Inr lm"
    "st' = set_route a b (\<lambda>r. r\<lparr>rt_del := False\<rparr>) (st\<lparr>c_links := lm\<rparr>)"
    using assms unfolding save_route_in_links_def Let_def bind_res_eq_Inr by blast
  have "same_links (a, b) (c_links st) lm"
    using lm(1) by (cases "pass ?r") (auto simp only: list.case intro: hops_same [OF keeps_others_flow(1)] on_hop_same [OF keeps_others_flow(1)])
  then show ?thesis unfolding lm(2) by (rule same_graph_links)
qed

lemma del_route_in_links_same_graph:
  assumes "del_route_in_links a b st = Inr st'"
  shows "same_graph (a, b) st st'"
proof -
  let ?r = "the_route a b st" and ?g = "erase_flow (a, b)"
  obtain lm where lm: "(case pass ?r of
        x # xs \<Rightarrow> bind_res (on_hop ?g (server_ip_to_switch_name (c_tables st) a) (fst x) (snd x) (c_links st)) (\<lambda>lm.
          bind_res (mid_hops ?g (snd x) (x # xs) lm) (on_hop ?g (fst (last (x # xs))) (outdev ?r) (snd (last (x # xs)))))
      | [] \<Rightarrow> on_hop ?g (indev ?r) (outdev (the_route a a st)) (outport ?r) (c_links st)) = Inr lm"
    "st' = set_route a b (\<lambda>r. r\<lparr>rt_del := True\<rparr>) (st\<lparr>c_links := lm\<rparr>)"
    using assms unfolding del_route_in_links_def Let_def bind_res_eq_Inr by blast
  have "same_links (a, b) (c_links st) lm"
    using lm(1) by (cases "pass ?r") (auto simp only: list.case intro: hops_same [OF keeps_others_flow(2)] on_hop_same [OF keeps_others_flow(2)])
  then show ?thesis unfolding lm(2) by (rule same_graph_links)
qed

lemma in_links_route:
  "del_route_in_links a b st = Inr st' \<Longrightarrow> the_route a b st' = (the_route a b st)\<lparr>rt_del := True\<rparr>"
  "save_route_in_links a b st = Inr st' \<Longrightarrow> the_route a b st' = (the_route a b st)\<lparr>rt_del := False\<rparr>"
  by (auto simp: del_route_in_links_def save_route_in_links_def Let_def bind_res_eq_Inr)

lemma withdraw_keeps:
  assumes "withdraw a b st = Inr st'"
  shows "same_graph (a, b) st st'" "pass (the_route a b st') = pass (the_route a b st)"
    "outdev (the_route a b st') = outdev (the_route a b st)"
proof -
  have "same_graph (a, b) st (del_route n st)" for n by (simp add: del_route_def same_graph_def)
  with assms have "same_graph (a, b) st st' \<and> pass (the_route a b st') = pass (the_route a b st) \<and>
      outdev (the_route a b st') = outdev (the_route a b st)"
    by (auto simp: withdraw_def split: if_splits dest: del_route_in_links_same_graph in_links_route(1) intro: same_graph_trans)
  then show "same_graph (a, b) st st'" "pass (the_route a b st') = pass (the_route a b st)"
    "outdev (the_route a b st') = outdev (the_route a b st)" by blast+
qed

lemma sync_step_keeps:
  assumes "sync_name a b tmp k us = Inr us1" "sync_port a b tmp k us1 = Inr us2"
  shows "same_graph (a, b) (snd us) (snd us2)" "pass (the_route a b (snd us2)) = (pass (the_route a b (snd us)))[k := tmp ! k]"
proof -
  have n: "same_graph (a, b) (snd us) (snd us1)"
    "pass (the_route a b (snd us1)) = (pass (the_route a b (snd us)))[k := (fst (tmp ! k), snd (pass (the_route a b (snd us)) ! k))]"
    using assms(1) by (auto simp: sync_name_def bind_res_eq_Inr withdraw_keeps split: if_splits) (metis list_update_id prod.collapse)
  have p: "same_graph (a, b) (snd us1) (snd us2)"
    "pass (the_route a b (snd us2)) = (pass (the_route a b (snd us1)))[k := (fst (pass (the_route a b (snd us1)) ! k), snd (tmp ! k))]"
    using assms(2) by (auto simp: sync_port_def bind_res_eq_Inr withdraw_keeps split: if_splits) (metis list_update_id prod.collapse)
  from n(1) p(1) show "same_graph (a, b) (snd us) (snd us2)" by (rule same_graph_trans)
  show "pass (the_route a b (snd us2)) = (pass (the_route a b (snd us)))[k := tmp ! k]"
    unfolding p(2) n(2) by (cases "k < length (pass (the_route a b (snd us)))") (simp_all add: list_update_beyond)
qed

lemma sync_pass_keeps:
  "sync_pass a b tmp ks us = Inr us' \<Longrightarrow> same_graph (a, b) (snd us) (snd us') \<and>
     pass (the_route a b (snd us')) = fold (\<lambda>k xs. xs[k := tmp ! k]) ks (pass (the_route a b (snd us)))"
proof (induction ks arbitrary: us)
  case (Cons k ks)
  from Cons.prems obtain us1 us2 where
    u: "sync_name a b tmp k us = Inr us1" "sync_port a b tmp k us1 = Inr us2" "sync_pass a b tmp ks us2 = Inr us'"
    by (auto simp: bind_res_eq_Inr)
  from Cons.IH [OF u(3)] sync_step_keeps [OF u(1,2)] show ?case by (auto intro: same_graph_trans)
qed simp

lemma fold_update_all: "fold (\<lambda>k xs. xs[k := ys ! k]) [0..<n] xs = take n ys @ drop n xs" if "n \<le> length xs" "n \<le> length ys"
  using that by (induction n) (auto simp: take_Suc_conv_app_nth list_update_append Cons_nth_drop_Suc [symmetric])

lemma merge_pass_keeps:
  assumes "merge_pass a b s tmp st = Inr us" "seq_ok st" "tmp \<noteq> []"
    and "rt_seq (the_route a b st) = - 1 \<longrightarrow> pass (the_route a b st) = []"
  shows "same_graph (a, b) st (snd us)" "pass (the_route a b (snd us)) = butlast tmp" "rt_seq (the_route a b (snd us)) \<noteq> - 1"
proof -
  let ?r = "the_route a b st"
  have c: "1 \<le> c_seq st" using assms(2) by (simp add: seq_ok_def)
  consider (new) "rt_seq ?r = - 1" | (size) "rt_seq ?r \<noteq> - 1" "length tmp \<noteq> length (pass ?r) + 1"
    | (sync) "rt_seq ?r \<noteq> - 1" "length tmp = length (pass ?r) + 1" by blast
  then have "same_graph (a, b) st (snd us) \<and> pass (the_route a b (snd us)) = butlast tmp \<and> rt_seq (the_route a b (snd us)) \<noteq> - 1"
  proof cases
    case new
    have "same_graph (a, b) st (st\<lparr>c_seq := n\<rparr>)" for n by (simp add: same_graph_def)
    with new assms(1,4) c show ?thesis by (auto simp: merge_pass_def Let_def bind_res_eq_Inr)
  next
    case size
    with assms(1) obtain st1 where w: "withdraw a b st = Inr st1" "us = (True, set_route a b (\<lambda>r. r\<lparr>pass := butlast tmp\<rparr>) st1)"
      by (auto simp: merge_pass_def Let_def bind_res_eq_Inr)
    with withdraw_keeps [OF w(1)] withdraw_same_seq [OF w(1)] size show ?thesis by (simp add: same_seq_def)
  next
    case sync
    with assms(1) have y: "sync_pass a b tmp [0..<length tmp - 1] (False, st) = Inr us" by (simp add: merge_pass_def Let_def)
    have "fold (\<lambda>k xs. xs[k := tmp ! k]) [0..<length tmp - 1] (pass ?r) = butlast tmp"
      using sync by (simp add: fold_update_all butlast_conv_take)
    with sync_pass_keeps [OF y] sync_pass_same_seq [OF y] sync show ?thesis by (simp add: same_seq_def)
  qed
  then show "same_graph (a, b) st (snd us)" "pass (the_route a b (snd us)) = butlast tmp" "rt_seq (the_route a b (snd us)) \<noteq> - 1" by blast+
qed

lemma merge_out_keeps:
  assumes "merge_out a b d tmp us = Inr us'"
  shows "same_graph (a, b) (snd us) (snd us') \<and> pass (the_route a b (snd us')) = pass (the_route a b (snd us)) \<and>
    switch_idx_to_name (c_nodes (snd us)) d = Inr (outdev (the_route a b (snd us'))) \<and>
    outport (the_route a b (snd us')) = snd (last tmp)"
proof -
  from assms obtain name where n: "switch_idx_to_name (c_nodes (snd us)) d = Inr name" by (auto simp: merge_out_def bind_res_eq_Inr)
  let ?st = "set_route a b (\<lambda>r. r\<lparr>outdev := name\<rparr>) (snd us)"
  have g: "same_graph (a, b) (snd us) ?st" by simp
  show ?thesis
  proof (cases "outport (the_route a b ?st) = [] \<or> outport (the_route a b ?st) = snd (last tmp)")
    case True
    with assms n show ?thesis by (auto simp: merge_out_def Let_def split: if_splits)
  next
    case False
    with assms n obtain st1 where w: "withdraw a b ?st = Inr st1"
      "us' = (True, set_route a b (\<lambda>r. r\<lparr>outport := snd (last tmp)\<rparr>) st1)"
      by (auto simp: merge_out_def Let_def bind_res_eq_Inr)
    with withdraw_keeps [OF w(1)] n same_graph_trans [OF g] show ?thesis by simp
  qed
qed

lemma find_path_nonempty: "find_path a b s d st = Inr tmp \<Longrightarrow> s \<noteq> d \<Longrightarrow> tmp \<noteq> []"
proof -
  have b: "backtrack hop s pre fuel v k acc = Inr t \<Longrightarrow> v \<noteq> s \<or> acc \<noteq> [] \<Longrightarrow> t \<noteq> []" for hop pre fuel v k acc t
    by (induction hop s pre fuel v k acc rule: backtrack.induct) (auto simp: bind_res_eq_Inr Let_def split: if_splits)
  show "find_path a b s d st = Inr tmp \<Longrightarrow> s \<noteq> d \<Longrightarrow> tmp \<noteq> []"
    unfolding find_path_def Let_def bind_res_eq_Inr using b by blast
qed

text \<open>What the code compares when it asks whether an installed route is still the one that is found.\<close>

definition installed :: "string \<Rightarrow> string \<Rightarrow> (string \<times> string) list \<Rightarrow> controller \<Rightarrow> bool" where
  "installed sip dip tmp st \<longleftrightarrow> tmp \<noteq> [] \<and> rt_seq (the_route sip dip st) \<noteq> - 1 \<and>
     pass (the_route sip dip st) = butlast tmp \<and> outport (the_route sip dip st) = snd (last tmp) \<and>
     switch_idx_to_name (c_nodes st) (switch_of st dip) = Inr (outdev (the_route sip dip st))"

lemma set_route_id: "f (the_route a b st) = the_route a b st \<Longrightarrow> set_route a b f st = st"
  by (simp add: set_route_def upd2_id)

lemma installed_unchanged:
  assumes i: "installed sip dip tmp st" and f: "find_path sip dip (switch_of st sip) (switch_of st dip) st = Inr tmp"
  shows "get_route sip dip st = Inr (False, st)"
proof (cases "switch_of st sip = switch_of st dip")
  case False
  let ?r = "the_route sip dip st"
  have "sync_pass sip dip tmp ks (False, st) = Inr (False, st)" if "\<forall>k \<in> set ks. k < length (pass ?r)" for ks
    using that i by (induction ks) (simp_all add: sync_name_def sync_port_def nth_butlast installed_def)
  moreover have "length tmp = length (pass ?r) + 1" "rt_seq ?r \<noteq> - 1" using i by (cases tmp; simp add: installed_def)+
  ultimately have m: "merge_pass sip dip (switch_of st sip) tmp st = Inr (False, st)"
    by (simp add: merge_pass_def Let_def)
  have "set_route sip dip (\<lambda>r. r\<lparr>outdev := outdev ?r\<rparr>) st = st" "set_route sip dip (\<lambda>r. r\<lparr>outport := outport ?r\<rparr>) st = st"
    by (rule set_route_id, simp)+
  then have "merge_out sip dip (switch_of st dip) tmp (False, st) = Inr (False, st)"
    using i by (auto simp: merge_out_def Let_def installed_def)
  with m False f show ?thesis by (simp add: get_route_def Let_def switch_of_def)
qed (simp add: get_route_def switch_of_def)

lemma get_route_result:
  assumes "get_route sip dip st = Inr (u, st1)" "switch_of st sip \<noteq> switch_of st dip" "seq_ok st"
    and "rt_seq (the_route sip dip st) = - 1 \<longrightarrow> pass (the_route sip dip st) = []"
  obtains tmp where "find_path sip dip (switch_of st sip) (switch_of st dip) st = Inr tmp"
    "same_graph (sip, dip) st st1" "installed sip dip tmp st1"
proof -
  from assms(1,2) obtain tmp us us' where p: "find_path sip dip (switch_of st sip) (switch_of st dip) st = Inr tmp"
    and m: "merge_pass sip dip (switch_of st sip) tmp st = Inr us" and o': "merge_out sip dip (switch_of st dip) tmp us = Inr us'"
    and e: "st1 = snd us' \<or> save_route_in_links sip dip (snd us') = Inr st1"
    by (fastforce simp: get_route_def Let_def bind_res_eq_Inr switch_of_def split: if_splits prod.splits)
  note mp = merge_pass_keeps [OF m assms(3) find_path_nonempty [OF p assms(2)] assms(4)]
  note mo = merge_out_keeps [OF o']
  have g: "same_graph (sip, dip) st (snd us')" using mp(1) mo same_graph_trans by blast
  have r: "rt_seq (the_route sip dip (snd us')) \<noteq> - 1" using mp(3) merge_out_same_seq [OF o'] by (simp add: same_seq_def)
  have i: "installed sip dip tmp (snd us')"
    using find_path_nonempty [OF p assms(2)] mp mo r g by (simp add: installed_def switch_of_def same_graph_def)
  from e have "same_graph (sip, dip) st st1 \<and> installed sip dip tmp st1"
  proof
    assume s: "save_route_in_links sip dip (snd us') = Inr st1"
    from save_route_in_links_same_graph [OF s] in_links_route(2) [OF s] i g show ?thesis
      by (auto simp: installed_def switch_of_def same_graph_def intro: same_links_trans)
  qed (simp add: g i)
  with p that show thesis by blast
qed

text \<open>
  C33. Asking twice changes nothing: whatever \<open>get_route\<close> has done for a pair, whether it installed a
  first route, replaced the path of an installed one or left it, a second call with the same rates finds the
  same path, because the flow of the pair itself is left out of the load of the links, recognises the route
  as installed, reports no update, sends nothing to the fabric manager and leaves the whole controller state
  as it is.
\<close>
theorem get_route_stable:
  assumes "get_route sip dip st = Inr (u, st1)" "seq_ok st"
    and "rt_seq (the_route sip dip st) = - 1 \<longrightarrow> pass (the_route sip dip st) = []"
  shows "get_route sip dip st1 = Inr (False, st1)"
proof (cases "switch_of st sip = switch_of st dip")
  case False
  from get_route_result [OF assms(1) False assms(2,3)] obtain tmp where
    t: "find_path sip dip (switch_of st sip) (switch_of st dip) st = Inr tmp"
    "same_graph (sip, dip) st st1" "installed sip dip tmp st1" .
  have "switch_of st1 ip = switch_of st ip" for ip using t(2) by (simp add: switch_of_def same_graph_def)
  with t same_graph_find_path [OF t(2)] show ?thesis by (intro installed_unchanged) simp_all
next
  case True
  with assms(1) show ?thesis by (auto simp: get_route_def switch_of_def)
qed

theorem get_route_stable_witness:
  "\<exists>st1. get_route ''h1'' ''h2'' ex_ctl = Inr (True, st1) \<and> get_route ''h1'' ''h2'' st1 = Inr (False, st1)"
proof -
  obtain st1 where g: "get_route ''h1'' ''h2'' ex_ctl = Inr (True, st1)" using ex_ctl_get_route by blast
  have "seq_ok ex_ctl" by (simp add: seq_ok_def ex_ctl_def new_route_def)
  from get_route_stable [OF g this] g show ?thesis by (simp add: ex_ctl_def new_route_def)
qed

subsection \<open>Numbers and the list of routes\<close>

text \<open>
  C32. Sequence numbers identify routes: no update gives two pairs of servers the same number, so
  that deleting one at the fabric manager never deletes another's.
\<close>
theorem update_route_seq_unique:
  assumes "seq_ok st" "update_route clk st = Inr st'"
  shows "seq_ok st'"
  using update_routes_seq_ok [OF assms(2) [unfolded update_route_def] assms(1)] .

theorem update_route_seq_unique_witness:
  "\<exists>st'. update_route (\<lambda>_. 7) ex_ctl = Inr st' \<and> seq_ok st'"
proof -
  obtain st1 where g: "get_route ''h1'' ''h2'' ex_ctl = Inr (True, st1)" and z: "n_route st1 = 0"
    using ex_ctl_get_route by blast
  have "entries2 (txRates (c_rates ex_ctl)) = [(''h1'', ''h2'', 5)]" by (simp add: entries2_def ex_ctl_def)
  with g z obtain st' where u: "update_route (\<lambda>_. 7) ex_ctl = Inr st'"
    by (auto simp: update_route_def add_route_def Let_def)
  have "seq_ok ex_ctl" by (simp add: seq_ok_def ex_ctl_def new_route_def)
  from update_route_seq_unique [OF this u] u show ?thesis by blast
qed

lemma save_route_in_links_installed: "save_route_in_links sip dip st = Inr st' \<Longrightarrow> \<not> rt_del (the_route sip dip st')"
  by (auto simp: save_route_in_links_def Let_def bind_res_eq_Inr)

lemma get_route_installed: "get_route sip dip st = Inr (True, st') \<Longrightarrow> \<not> rt_del (the_route sip dip st')"
  by (auto simp: get_route_def Let_def bind_res_eq_Inr dest: save_route_in_links_installed split: if_splits)

text \<open>
  The bound \<open>route_max\<close> is never enforced: \<open>update_route\<close> calls \<open>add_route\<close> only after
  \<open>get_route\<close> has marked the route as installed, so that the branch that removes the oldest route is not
  taken and the list grows by one with every update, however long it is.
\<close>
theorem route_list_only_grows:
  assumes "get_route sip dip st = Inr (True, st1)"
  shows "\<exists>st2. add_route now sip dip st1 = Inr st2 \<and> n_route st2 = n_route st1 + 1 \<and>
    (n_route st1 \<noteq> 0 \<longrightarrow> c_list st2 = c_list st1 @ [\<lparr>rn_sip = sip, rn_dip = dip, rn_tm = now\<rparr>])"
  using get_route_installed [OF assms] by (simp add: add_route_def Let_def)

theorem route_list_only_grows_witness:
  "\<exists>st1 st2. get_route ''h1'' ''h2'' ex_ctl = Inr (True, st1) \<and> add_route 7 ''h1'' ''h2'' st1 = Inr st2 \<and>
     n_route st2 = n_route st1 + 1"
proof -
  obtain st1 where g: "get_route ''h1'' ''h2'' ex_ctl = Inr (True, st1)"
    using ex_ctl_get_route by blast
  from route_list_only_grows [OF g, of 7] g show ?thesis by blast
qed

subsection \<open>Withdrawing a direct route\<close>

text \<open>
  C38. Withdrawing a route without intermediate switches removes nothing from the link table: the code
  looks for the link to \<open>routes[sip][sip].outdev\<close>, which is no switch, so the flow stays listed on its
  link and is listed once more with the next route.
\<close>
theorem direct_route_flow_stays:
  assumes "pass (the_route sip dip st) = []"
    and "c_links st (indev (the_route sip dip st)) (outdev (the_route sip sip st)) = []"
  shows "\<exists>st'. del_route_in_links sip dip st = Inr st' \<and> c_links st' = c_links st \<and> rt_del (the_route sip dip st')"
proof -
  have "upd2 a b [] lm = lm" if "lm a b = []" for a b and lm :: link_map
    using upd2_id [of a b lm] that by simp
  with assms show ?thesis by (simp add: del_route_in_links_def Let_def on_hop_def)
qed

definition ex_installed :: controller where
  "ex_installed = ex_ctl\<lparr>c_routes := (\<lambda>_ _. new_route\<lparr>rt_seq := 1, indev := ''A'', inport := ''eth9'',
     outdev := ''B'', outport := ''q1''\<rparr>)\<rparr>"

definition ex_direct :: controller where
  "ex_direct = ex_installed\<lparr>
     c_routes := (\<lambda>a b. if b = ''h2'' then the_route a b ex_installed else new_route),
     c_links := (\<lambda>a b. if a = ''A'' \<and> b = ''B'' then [new_Link ''p1'' ''q1''\<lparr>flows := [(''h1'', ''h2'')]\<rparr>] else [])\<rparr>"

theorem direct_route_flow_stays_witness:
  "\<exists>st'. del_route_in_links ''h1'' ''h2'' ex_direct = Inr st' \<and> c_links st' = c_links ex_direct"
  using direct_route_flow_stays [where sip = "''h1''" and dip = "''h2''" and st = ex_direct]
  by (auto simp: ex_direct_def ex_installed_def new_route_def)

end
