(* ===== verification/Wqe_Memory.thy ===== *)
theory Wqe_Memory
  imports SDN_Prelude
begin

text \<open>
  The buffer of a work queue as bytes addressed by their offset from its start.  A store of a list of
  bytes replaces the addresses it covers; the byte-order stores of the descriptor fields are stores
  of \<open>be_bytes\<close>.  The lemmas are those of a memory: what a load returns after a store, that disjoint
  stores commute, and the frame predicate \<open>keeps_outside\<close>, which the descriptor writers preserve.
  Copies that wrap at the end of the queue are here too, with the read that undoes them.
\<close>

type_synonym mem = "nat \<Rightarrow> u8"

definition store :: "nat \<Rightarrow> u8 list \<Rightarrow> mem \<Rightarrow> mem" where
  "store p bs m = (\<lambda>a. if p \<le> a \<and> a < p + length bs then bs ! (a - p) else m a)"

definition load_bytes :: "nat \<Rightarrow> nat \<Rightarrow> mem \<Rightarrow> u8 list" where
  "load_bytes p n m = map (\<lambda>i. m (p + i)) [0..<n]"

definition st8 :: "nat \<Rightarrow> u8 \<Rightarrow> mem \<Rightarrow> mem" where
  "st8 p v = store p [v]"

definition st_be16 :: "nat \<Rightarrow> u16 \<Rightarrow> mem \<Rightarrow> mem" where
  "st_be16 p v = store p (be_bytes 2 (unat v))"

definition st_be32 :: "nat \<Rightarrow> u32 \<Rightarrow> mem \<Rightarrow> mem" where
  "st_be32 p v = store p (be_bytes 4 (unat v))"

definition st_be64 :: "nat \<Rightarrow> u64 \<Rightarrow> mem \<Rightarrow> mem" where
  "st_be64 p v = store p (be_bytes 8 (unat v))"

text \<open>A 32-bit store in the byte order of the host, which is little-endian.\<close>

definition st_le32 :: "nat \<Rightarrow> u32 \<Rightarrow> mem \<Rightarrow> mem" where
  "st_le32 p v = store p (le_bytes 4 (unat v))"

definition memset0 :: "nat \<Rightarrow> nat \<Rightarrow> mem \<Rightarrow> mem" where
  "memset0 p n = store p (replicate n 0)"

definition ld_be16 :: "nat \<Rightarrow> mem \<Rightarrow> u16" where
  "ld_be16 p m = of_nat (be_value (load_bytes p 2 m))"

definition ld_be32 :: "nat \<Rightarrow> mem \<Rightarrow> u32" where
  "ld_be32 p m = of_nat (be_value (load_bytes p 4 m))"

definition ld_be64 :: "nat \<Rightarrow> mem \<Rightarrow> u64" where
  "ld_be64 p m = of_nat (be_value (load_bytes p 8 m))"

definition align :: "nat \<Rightarrow> nat \<Rightarrow> nat" where
  "align x a = (x + a - 1) div a * a"

text \<open>A copy to \<open>p\<close> that continues at the start of the queue when it would pass its end.\<close>

definition copy_wrap :: "nat \<Rightarrow> nat \<Rightarrow> u8 list \<Rightarrow> mem \<Rightarrow> nat \<times> mem" where
  "copy_wrap qend p bs m =
     (if qend < p + length bs
      then let c = qend - p
           in (length bs - c, store 0 (drop c bs) (store p (take c bs) m))
      else (p + length bs, store p bs m))"

text \<open>The bytes the device reads from \<open>p\<close> on, wrapping at the end of the queue.\<close>

definition load_wrap :: "nat \<Rightarrow> nat \<Rightarrow> nat \<Rightarrow> mem \<Rightarrow> u8 list" where
  "load_wrap qend p n m = map (\<lambda>i. m (if p + i < qend then p + i else p + i - qend)) [0..<n]"

subsection \<open>Loads and stores\<close>

lemma length_load_bytes [simp]: "length (load_bytes p n m) = n"
  by (simp add: load_bytes_def)

lemma store_other: "a < p \<or> p + length bs \<le> a \<Longrightarrow> store p bs m a = m a"
  by (auto simp: store_def)

lemma store_in: "i < length bs \<Longrightarrow> store p bs m (p + i) = bs ! i"
  by (simp add: store_def)

lemma store_Nil [simp]: "store p [] m = m"
  by (rule ext) (auto simp: store_def)

lemma load_store_same: "length bs = n \<Longrightarrow> load_bytes p n (store p bs m) = bs"
  by (auto simp: load_bytes_def store_in intro!: nth_equalityI)

lemma load_store_other:
  "p + n \<le> q \<or> q + length bs \<le> p \<Longrightarrow> load_bytes p n (store q bs m) = load_bytes p n m"
  by (auto simp: load_bytes_def store_other)

lemma store_commute:
  assumes "p + length a \<le> q \<or> q + length b \<le> p"
  shows "store p a (store q b m) = store q b (store p a m)"
  using assms by (intro ext) (auto simp: store_def)

lemma store_overwrite: "length a = length b \<Longrightarrow> store p a (store p b m) = store p a m"
  by (intro ext) (simp add: store_def)

lemmas st_defs = st8_def st_be16_def st_be32_def st_be64_def st_le32_def memset0_def

lemma ld_st_be16 [byte_simps]: "ld_be16 p (st_be16 p v m) = v"
proof -
  have "unat v mod 256 ^ 2 = unat v" using unat_lt_256(1) [of v] by simp
  then show ?thesis by (simp only: ld_be16_def st_be16_def load_store_same length_be_bytes be_value_be_bytes) simp
qed

lemma ld_st_be32 [byte_simps]: "ld_be32 p (st_be32 p v m) = v"
proof -
  have "unat v mod 256 ^ 4 = unat v" using unat_lt_256(2) [of v] by simp
  then show ?thesis by (simp only: ld_be32_def st_be32_def load_store_same length_be_bytes be_value_be_bytes) simp
qed

lemma ld_st_be64 [byte_simps]: "ld_be64 p (st_be64 p v m) = v"
proof -
  have "unat v mod 256 ^ 8 = unat v" using unat_lt_256(3) [of v] by simp
  then show ?thesis by (simp only: ld_be64_def st_be64_def load_store_same length_be_bytes be_value_be_bytes) simp
qed

text \<open>A load skips a store it does not overlap; the store is in the form every writer has.\<close>

lemma ld_be32_store: "p + 4 \<le> q \<or> q + length bs \<le> p \<Longrightarrow> ld_be32 p (store q bs m) = ld_be32 p m"
  by (simp add: ld_be32_def load_store_other)

lemma ld_be64_store: "p + 8 \<le> q \<or> q + length bs \<le> p \<Longrightarrow> ld_be64 p (store q bs m) = ld_be64 p m"
  by (simp add: ld_be64_def load_store_other)

subsection \<open>Frames\<close>

definition keeps_outside :: "nat \<Rightarrow> nat \<Rightarrow> mem \<Rightarrow> mem \<Rightarrow> bool" where
  "keeps_outside lo hi m m' \<longleftrightarrow> (\<forall>a. a < lo \<or> hi \<le> a \<longrightarrow> m' a = m a)"

lemma keeps_outside_refl [simp]: "keeps_outside lo hi m m"
  by (simp add: keeps_outside_def)

lemma keeps_outside_trans:
  "keeps_outside lo hi m m' \<Longrightarrow> keeps_outside lo hi m' m'' \<Longrightarrow> keeps_outside lo hi m m''"
  by (simp add: keeps_outside_def)

lemma keeps_outside_store:
  "keeps_outside lo hi m m' \<Longrightarrow> lo \<le> p \<Longrightarrow> p + length bs \<le> hi \<Longrightarrow> keeps_outside lo hi m (store p bs m')"
  by (auto simp: keeps_outside_def store_def)

lemma keeps_outside_mono:
  "keeps_outside lo hi m m' \<Longrightarrow> lo' \<le> lo \<Longrightarrow> hi \<le> hi' \<Longrightarrow> keeps_outside lo' hi' m m'"
  by (auto simp: keeps_outside_def)

lemma ld_be32_keeps:
  "keeps_outside lo hi m m' \<Longrightarrow> p + 4 \<le> lo \<or> hi \<le> p \<Longrightarrow> ld_be32 p m' = ld_be32 p m"
proof -
  assume k: "keeps_outside lo hi m m'" "p + 4 \<le> lo \<or> hi \<le> p"
  then have "load_bytes p 4 m' = load_bytes p 4 m"
    by (auto simp: keeps_outside_def load_bytes_def)
  then show ?thesis by (simp add: ld_be32_def)
qed

subsection \<open>Copies that wrap\<close>

lemma copy_wrap_keeps:
  assumes "p \<le> qend" "length bs \<le> qend"
  shows "keeps_outside 0 qend m (snd (copy_wrap qend p bs m))"
  using assms by (auto simp: copy_wrap_def Let_def intro!: keeps_outside_store)

lemma copy_wrap_end:
  assumes "p \<le> qend" "length bs \<le> qend"
  shows "fst (copy_wrap qend p bs m) \<le> qend"
  using assms by (auto simp: copy_wrap_def Let_def)

lemma load_copy_wrap:
  assumes "p \<le> qend" "length bs \<le> qend"
  shows "load_wrap qend p (length bs) (snd (copy_wrap qend p bs m)) = bs"
proof (rule nth_equalityI)
  fix i assume "i < length (load_wrap qend p (length bs) (snd (copy_wrap qend p bs m)))"
  then have i: "i < length bs" by (simp add: load_wrap_def)
  show "load_wrap qend p (length bs) (snd (copy_wrap qend p bs m)) ! i = bs ! i"
  proof (cases "qend < p + length bs")
    case False
    with i show ?thesis by (simp add: load_wrap_def copy_wrap_def store_def)
  next
    case True
    with i assms show ?thesis
      by (cases "p + i < qend") (auto simp: load_wrap_def copy_wrap_def Let_def store_def)
  qed
qed (simp add: load_wrap_def)

end
