(* ===== verification/Verbs_Types.thy ===== *)
theory Verbs_Types
  imports SDN_Prelude
begin

text \<open>
  The work-request types of \<open>libibverbs/verbs.h\<close> that the send path and the traffic
  forecast read: queue-pair types, opcodes, path MTUs, send flags, scatter/gather entries and the
  send work request itself.  A C union whose member is chosen by the opcode is flattened into one
  field per member; \<open>imm_data\<close> and \<open>invalidate_rkey\<close> share their four bytes, so they
  are one field.  The linked list of work requests is a HOL list, and a null \<open>sg_list\<close> is
  \<open>None\<close>.
\<close>

datatype ibv_qp_type =
    IBV_QPT_RC | IBV_QPT_UC | IBV_QPT_UD | IBV_QPT_RAW_PACKET
  | IBV_QPT_XRC_SEND | IBV_QPT_XRC_RECV | IBV_QPT_DRIVER

text \<open>The last constructor is a value outside the enumeration, which the code tests for.\<close>

datatype ibv_wr_opcode =
    IBV_WR_RDMA_WRITE | IBV_WR_RDMA_WRITE_WITH_IMM | IBV_WR_SEND | IBV_WR_SEND_WITH_IMM
  | IBV_WR_RDMA_READ | IBV_WR_ATOMIC_CMP_AND_SWP | IBV_WR_ATOMIC_FETCH_AND_ADD
  | IBV_WR_LOCAL_INV | IBV_WR_BIND_MW | IBV_WR_SEND_WITH_INV | IBV_WR_TSO | IBV_WR_DRIVER1
  | IBV_WR_OTHER int

datatype ibv_mw_type = IBV_MW_TYPE_1 | IBV_MW_TYPE_2

abbreviation (input) IBV_MTU_256 :: u8 where "IBV_MTU_256 \<equiv> 1"
abbreviation (input) IBV_MTU_512 :: u8 where "IBV_MTU_512 \<equiv> 2"
abbreviation (input) IBV_MTU_1024 :: u8 where "IBV_MTU_1024 \<equiv> 3"
abbreviation (input) IBV_MTU_2048 :: u8 where "IBV_MTU_2048 \<equiv> 4"
abbreviation (input) IBV_MTU_4096 :: u8 where "IBV_MTU_4096 \<equiv> 5"

abbreviation (input) IBV_SEND_FENCE :: u32 where "IBV_SEND_FENCE \<equiv> 1"
abbreviation (input) IBV_SEND_SIGNALED :: u32 where "IBV_SEND_SIGNALED \<equiv> 2"
abbreviation (input) IBV_SEND_SOLICITED :: u32 where "IBV_SEND_SOLICITED \<equiv> 4"
abbreviation (input) IBV_SEND_INLINE :: u32 where "IBV_SEND_INLINE \<equiv> 8"
abbreviation (input) IBV_SEND_IP_CSUM :: u32 where "IBV_SEND_IP_CSUM \<equiv> 16"

abbreviation (input) IBV_ACCESS_LOCAL_WRITE :: u32 where "IBV_ACCESS_LOCAL_WRITE \<equiv> 1"
abbreviation (input) IBV_ACCESS_REMOTE_WRITE :: u32 where "IBV_ACCESS_REMOTE_WRITE \<equiv> 2"
abbreviation (input) IBV_ACCESS_REMOTE_READ :: u32 where "IBV_ACCESS_REMOTE_READ \<equiv> 4"
abbreviation (input) IBV_ACCESS_REMOTE_ATOMIC :: u32 where "IBV_ACCESS_REMOTE_ATOMIC \<equiv> 8"
abbreviation (input) IBV_ACCESS_ZERO_BASED :: u32 where "IBV_ACCESS_ZERO_BASED \<equiv> 32"

definition has_flag :: "u32 \<Rightarrow> u32 \<Rightarrow> bool" where
  "has_flag flags f \<longleftrightarrow> flags AND f \<noteq> 0"

record ibv_sge =
  sge_addr :: u64
  sge_length :: u32
  sge_lkey :: u32

record ibv_mw_bind_info =
  bi_mr_lkey :: u32
  bi_addr :: u64
  bi_length :: u64
  bi_access :: u32

record ibv_send_wr =
  wr_id :: u64
  sg_list :: "ibv_sge list option"
  num_sge :: int
  opcode :: ibv_wr_opcode
  send_flags :: u32
  imm_data :: u32
  rdma_remote_addr :: u64
  rdma_rkey :: u32
  atomic_remote_addr :: u64
  atomic_compare_add :: u64
  atomic_swap :: u64
  atomic_rkey :: u32
  ud_av :: "u8 list"
  ud_remote_qpn :: u32
  ud_remote_qkey :: u32
  xrc_remote_srqn :: u32
  bind_mw_rkey :: u32
  bind_mw_type :: ibv_mw_type
  bind_rkey :: u32
  bind_info :: ibv_mw_bind_info
  tso_hdr :: u64
  tso_hdr_sz :: u16
  tso_mss :: u16

text \<open>What the data path reads of a queue pair: its number, its type and the name of its device.\<close>

record ibv_qp =
  qp_num :: u32
  qp_type :: ibv_qp_type
  dev_name :: string

text \<open>A work request with every field zero; the examples of the other theories update it.\<close>

definition zero_wr :: ibv_send_wr where
  "zero_wr = \<lparr>wr_id = 0, sg_list = None, num_sge = 0, opcode = IBV_WR_RDMA_WRITE, send_flags = 0,
     imm_data = 0, rdma_remote_addr = 0, rdma_rkey = 0, atomic_remote_addr = 0,
     atomic_compare_add = 0, atomic_swap = 0, atomic_rkey = 0, ud_av = [], ud_remote_qpn = 0,
     ud_remote_qkey = 0, xrc_remote_srqn = 0, bind_mw_rkey = 0, bind_mw_type = IBV_MW_TYPE_1,
     bind_rkey = 0,
     bind_info = \<lparr>bi_mr_lkey = 0, bi_addr = 0, bi_length = 0, bi_access = 0\<rparr>,
     tso_hdr = 0, tso_hdr_sz = 0, tso_mss = 0\<rparr>"

end
