(* ===== verification/Mlx5_Queue.thy ===== *)
theory Mlx5_Queue
  imports Wqe_Memory Verbs_Types
begin

text \<open>
  The work queues of \<open>providers/mlx5\<close>: \<open>struct mlx5_wq\<close>, \<open>mlx5_bf\<close> and the parts of \<open>mlx5_qp\<close> and
  of its context that the data path reads or writes, the overflow test, the doorbell and the
  segment writers of \<open>qp.c\<close>.  A pointer into the send queue is its offset from \<open>sq_start\<close>;
  \<open>qend\<close> is the offset of the end.  Memory of the application is a function from addresses to bytes.
  The writes to the device register are a list of events, in their order.
\<close>

subsection \<open>Constants\<close>

abbreviation (input) EINVAL :: nat where "EINVAL \<equiv> 22"
abbreviation (input) ENOMEM :: nat where "ENOMEM \<equiv> 12"
abbreviation (input) ENOENT :: nat where "ENOENT \<equiv> 2"
abbreviation (input) EOPNOTSUPP :: nat where "EOPNOTSUPP \<equiv> 95"

abbreviation (input) MLX5_OPCODE_NOP :: u32 where "MLX5_OPCODE_NOP \<equiv> 0"
abbreviation (input) MLX5_OPCODE_SEND_INVAL :: u32 where "MLX5_OPCODE_SEND_INVAL \<equiv> 0x01"
abbreviation (input) MLX5_OPCODE_RDMA_WRITE :: u32 where "MLX5_OPCODE_RDMA_WRITE \<equiv> 0x08"
abbreviation (input) MLX5_OPCODE_RDMA_WRITE_IMM :: u32 where "MLX5_OPCODE_RDMA_WRITE_IMM \<equiv> 0x09"
abbreviation (input) MLX5_OPCODE_SEND :: u32 where "MLX5_OPCODE_SEND \<equiv> 0x0a"
abbreviation (input) MLX5_OPCODE_SEND_IMM :: u32 where "MLX5_OPCODE_SEND_IMM \<equiv> 0x0b"
abbreviation (input) MLX5_OPCODE_TSO :: u32 where "MLX5_OPCODE_TSO \<equiv> 0x0e"
abbreviation (input) MLX5_OPCODE_RDMA_READ :: u32 where "MLX5_OPCODE_RDMA_READ \<equiv> 0x10"
abbreviation (input) MLX5_OPCODE_ATOMIC_CS :: u32 where "MLX5_OPCODE_ATOMIC_CS \<equiv> 0x11"
abbreviation (input) MLX5_OPCODE_ATOMIC_FA :: u32 where "MLX5_OPCODE_ATOMIC_FA \<equiv> 0x12"
abbreviation (input) MLX5_OPCODE_SET_PSV :: u32 where "MLX5_OPCODE_SET_PSV \<equiv> 0x20"
abbreviation (input) MLX5_OPCODE_UMR :: u32 where "MLX5_OPCODE_UMR \<equiv> 0x25"
abbreviation (input) MLX5_OPCODE_TAG_MATCHING :: u32 where "MLX5_OPCODE_TAG_MATCHING \<equiv> 0x28"
abbreviation (input) MLX5_OPCODE_MMO :: u32 where "MLX5_OPCODE_MMO \<equiv> 0x2f"

abbreviation (input) MLX5_WQE_CTRL_CQ_UPDATE :: u8 where "MLX5_WQE_CTRL_CQ_UPDATE \<equiv> 8"
abbreviation (input) MLX5_WQE_CTRL_SOLICITED :: u8 where "MLX5_WQE_CTRL_SOLICITED \<equiv> 2"
abbreviation (input) MLX5_WQE_CTRL_FENCE :: u8 where "MLX5_WQE_CTRL_FENCE \<equiv> 128"
abbreviation (input) MLX5_WQE_CTRL_INITIATOR_SMALL_FENCE :: u8 where "MLX5_WQE_CTRL_INITIATOR_SMALL_FENCE \<equiv> 32"

abbreviation (input) MLX5_INVALID_LKEY :: u32 where "MLX5_INVALID_LKEY \<equiv> 0x100"
abbreviation (input) MLX5_EXTENDED_UD_AV :: u32 where "MLX5_EXTENDED_UD_AV \<equiv> 0x80000000"
abbreviation (input) MLX5_INLINE_SEG :: u32 where "MLX5_INLINE_SEG \<equiv> 0x80000000"
abbreviation (input) MLX5_ETH_WQE_L3_CSUM :: u8 where "MLX5_ETH_WQE_L3_CSUM \<equiv> 64"
abbreviation (input) MLX5_ETH_WQE_L4_CSUM :: u8 where "MLX5_ETH_WQE_L4_CSUM \<equiv> 128"
abbreviation (input) MLX5_CSUM_SUPPORT_RAW_OVER_ETH :: u32 where "MLX5_CSUM_SUPPORT_RAW_OVER_ETH \<equiv> 1"
abbreviation (input) MLX5_CSUM_SUPPORT_UNDERLAY_UD :: u32 where "MLX5_CSUM_SUPPORT_UNDERLAY_UD \<equiv> 2"
abbreviation (input) MLX5_QP_FLAGS_USE_UNDERLAY :: u32 where "MLX5_QP_FLAGS_USE_UNDERLAY \<equiv> 1"

abbreviation (input) IBV_WC_SEND :: u32 where "IBV_WC_SEND \<equiv> 0"
abbreviation (input) IBV_WC_RDMA_WRITE :: u32 where "IBV_WC_RDMA_WRITE \<equiv> 1"
abbreviation (input) IBV_WC_RDMA_READ :: u32 where "IBV_WC_RDMA_READ \<equiv> 2"
abbreviation (input) IBV_WC_COMP_SWAP :: u32 where "IBV_WC_COMP_SWAP \<equiv> 3"
abbreviation (input) IBV_WC_FETCH_ADD :: u32 where "IBV_WC_FETCH_ADD \<equiv> 4"
abbreviation (input) IBV_WC_BIND_MW :: u32 where "IBV_WC_BIND_MW \<equiv> 5"
abbreviation (input) IBV_WC_LOCAL_INV :: u32 where "IBV_WC_LOCAL_INV \<equiv> 6"
abbreviation (input) IBV_WC_TSO :: u32 where "IBV_WC_TSO \<equiv> 7"
abbreviation (input) IBV_WC_DRIVER1 :: u32 where "IBV_WC_DRIVER1 \<equiv> 135"
abbreviation (input) IBV_WC_DRIVER2 :: u32 where "IBV_WC_DRIVER2 \<equiv> 136"
abbreviation (input) IBV_WC_DRIVER3 :: u32 where "IBV_WC_DRIVER3 \<equiv> 137"

text \<open>\<open>mlx5_ib_opcode\<close>; an opcode outside the table is \<open>None\<close>.\<close>

fun mlx5_ib_opcode :: "ibv_wr_opcode \<Rightarrow> u32 option" where
  "mlx5_ib_opcode IBV_WR_SEND = Some MLX5_OPCODE_SEND"
| "mlx5_ib_opcode IBV_WR_SEND_WITH_INV = Some MLX5_OPCODE_SEND_INVAL"
| "mlx5_ib_opcode IBV_WR_SEND_WITH_IMM = Some MLX5_OPCODE_SEND_IMM"
| "mlx5_ib_opcode IBV_WR_RDMA_WRITE = Some MLX5_OPCODE_RDMA_WRITE"
| "mlx5_ib_opcode IBV_WR_RDMA_WRITE_WITH_IMM = Some MLX5_OPCODE_RDMA_WRITE_IMM"
| "mlx5_ib_opcode IBV_WR_RDMA_READ = Some MLX5_OPCODE_RDMA_READ"
| "mlx5_ib_opcode IBV_WR_ATOMIC_CMP_AND_SWP = Some MLX5_OPCODE_ATOMIC_CS"
| "mlx5_ib_opcode IBV_WR_ATOMIC_FETCH_AND_ADD = Some MLX5_OPCODE_ATOMIC_FA"
| "mlx5_ib_opcode IBV_WR_BIND_MW = Some MLX5_OPCODE_UMR"
| "mlx5_ib_opcode IBV_WR_LOCAL_INV = Some MLX5_OPCODE_UMR"
| "mlx5_ib_opcode IBV_WR_TSO = Some MLX5_OPCODE_TSO"
| "mlx5_ib_opcode IBV_WR_DRIVER1 = Some MLX5_OPCODE_UMR"
| "mlx5_ib_opcode (IBV_WR_OTHER n) = None"

subsection \<open>Queues\<close>

record mlx5_wq =
  wrid :: "nat \<Rightarrow> u64"
  wqe_head :: "nat \<Rightarrow> u32"
  wqe_cnt :: u32
  max_post :: u32
  wq_head :: u32
  wq_tail :: u32
  cur_post :: u32
  max_gs :: int
  wqe_shift :: nat
  wq_offset :: nat
  qend :: nat
  wr_data :: "nat \<Rightarrow> u32"

record mlx5_bf =
  bf_offset :: u32
  bf_buf_size :: u32
  bf_uuarn :: u32

text \<open>A copy of whole descriptors to the register page, or a single 8-byte doorbell.\<close>

datatype mmio = BfCopy u32 "u8 list" | Doorbell u32 "u8 list"

record mlx5_qp =
  ibqp :: ibv_qp
  qp_state_rtr :: bool
  sq :: mlx5_wq
  sq_mem :: mem
  rq :: mlx5_wq
  rq_mem :: mem
  bf :: mlx5_bf
  db_snd :: u32
  db_rcv :: u32
  mmio_log :: "mmio list"
  fm_cache :: u8
  sq_signal_bits :: u8
  wq_sig :: bool
  atomics_enabled :: bool
  max_inline_data :: int
  max_tso :: u32
  max_tso_header :: u16
  qp_cap_cache :: u32
  qp_flags :: u32
  eth_min_inline_size :: nat
  shut_up_bf :: bool
  prefer_bf :: bool
  inl_wqe :: bool
  cur_setters_cnt :: nat
  fm_cache_rb :: u8
  qp_err :: nat
  nreq :: nat
  cur_size :: nat
  cur_post_rb :: u32
  cur_eth :: "nat option"
  cur_data :: nat
  cur_ctrl :: nat
  ex_wr_id :: u64
  ex_wr_flags :: u32

type_synonym user_mem = "u64 \<Rightarrow> u8"

definition user_bytes :: "user_mem \<Rightarrow> u64 \<Rightarrow> nat \<Rightarrow> u8 list" where
  "user_bytes um a n = map (\<lambda>i. um (a + of_nat i)) [0..<n]"

text \<open>A signed value converted to \<open>size_t\<close>.\<close>

definition as_size_t :: "int \<Rightarrow> nat" where
  "as_size_t i = unat (word_of_int i :: u64)"

lemma as_size_t_nonneg: "0 \<le> i \<Longrightarrow> i < 2 ^ 64 \<Longrightarrow> as_size_t i = nat i"
  by (simp add: as_size_t_def unat_eq_nat_uint uint_word_of_int take_bit_eq_mod)

definition mlx5_get_send_wqe :: "nat \<Rightarrow> nat" where
  "mlx5_get_send_wqe n = n * 64"

definition sq_idx :: "mlx5_qp \<Rightarrow> nat" where
  "sq_idx qp = unat (cur_post (sq qp) AND (wqe_cnt (sq qp) - 1))"

definition mlx5_init_qp_indices :: "mlx5_qp \<Rightarrow> mlx5_qp" where
  "mlx5_init_qp_indices qp =
     qp\<lparr>sq := (sq qp)\<lparr>wq_head := 0, wq_tail := 0, cur_post := 0\<rparr>,
        rq := (rq qp)\<lparr>wq_head := 0, wq_tail := 0\<rparr>\<rparr>"

text \<open>
  The second reading of the tail is taken under the lock of the completion queue; without a
  completion in between it is the first.
\<close>

definition mlx5_wq_overflow :: "mlx5_wq \<Rightarrow> nat \<Rightarrow> bool" where
  "mlx5_wq_overflow wq n =
     (let cur = wq_head wq - wq_tail wq
      in if cur + of_nat n < max_post wq then False else max_post wq \<le> cur + of_nat n)"

subsection \<open>Segment writers\<close>

definition set_raddr_seg :: "nat \<Rightarrow> u64 \<Rightarrow> u32 \<Rightarrow> mem \<Rightarrow> mem" where
  "set_raddr_seg rseg remote_addr rkey m =
     st_be32 (rseg + 12) 0 (st_be32 (rseg + 8) rkey (st_be64 rseg remote_addr m))"

definition set_atomic_seg :: "nat \<Rightarrow> ibv_wr_opcode \<Rightarrow> u64 \<Rightarrow> u64 \<Rightarrow> mem \<Rightarrow> mem" where
  "set_atomic_seg aseg op swap compare_add m =
     (if op = IBV_WR_ATOMIC_CMP_AND_SWP
      then st_be64 (aseg + 8) compare_add (st_be64 aseg swap m)
      else st_be64 aseg compare_add m)"

text \<open>The address vector is the 48 bytes of \<open>struct mlx5_wqe_av\<close>.\<close>

definition set_datagram_seg :: "nat \<Rightarrow> u8 list \<Rightarrow> u32 \<Rightarrow> u32 \<Rightarrow> mem \<Rightarrow> mem" where
  "set_datagram_seg dseg av remote_qpn remote_qkey m =
     st_be32 dseg remote_qkey
       (st_be32 (dseg + 8) (remote_qpn OR MLX5_EXTENDED_UD_AV) (store dseg (take 48 av) m))"

definition set_data_ptr_seg :: "nat \<Rightarrow> ibv_sge \<Rightarrow> int \<Rightarrow> mem \<Rightarrow> mem" where
  "set_data_ptr_seg dseg sg offset m =
     st_be64 (dseg + 8) (sge_addr sg + of_int offset)
       (st_be32 (dseg + 4) (sge_lkey sg) (st_be32 dseg (sge_length sg - of_int offset) m))"

definition set_data_ptr_seg_atomic :: "nat \<Rightarrow> ibv_sge \<Rightarrow> mem \<Rightarrow> mem" where
  "set_data_ptr_seg_atomic dseg sg m =
     st_be64 (dseg + 8) (sge_addr sg) (st_be32 (dseg + 4) (sge_lkey sg) (st_be32 dseg 8 m))"

definition set_data_ptr_seg_end :: "nat \<Rightarrow> mem \<Rightarrow> mem" where
  "set_data_ptr_seg_end dseg m =
     st_be64 (dseg + 8) 0 (st_be32 (dseg + 4) MLX5_INVALID_LKEY (st_be32 dseg 0 m))"

text \<open>The bytes of \<open>imm\<close> as they stand in memory.\<close>

definition send_ieth :: "ibv_send_wr \<Rightarrow> u8 list" where
  "send_ieth wr =
     (case opcode wr of
        IBV_WR_SEND_WITH_IMM \<Rightarrow> le_bytes 4 (unat (imm_data wr))
      | IBV_WR_RDMA_WRITE_WITH_IMM \<Rightarrow> le_bytes 4 (unat (imm_data wr))
      | IBV_WR_SEND_WITH_INV \<Rightarrow> be_bytes 4 (unat (imm_data wr))
      | _ \<Rightarrow> be_bytes 4 0)"

definition calc_sig :: "u8 list \<Rightarrow> u8" where
  "calc_sig bs = NOT (fold (\<lambda>b r. r XOR b) bs 0)"

text \<open>The signature covers the descriptor as consecutive bytes from its control segment.\<close>

definition wqe_sig :: "nat \<Rightarrow> mem \<Rightarrow> u8" where
  "wqe_sig ctrl m = calc_sig (load_bytes ctrl (unat (ld_be32 (ctrl + 4) m AND 0x3f) * 16) m)"

subsection \<open>Binding a memory window\<close>

definition get_klm_octo :: "nat \<Rightarrow> u16" where
  "get_klm_octo nentries = of_nat (align nentries 8 div 2)"

definition set_umr_data_seg :: "ibv_mw_bind_info \<Rightarrow> nat \<Rightarrow> mem \<Rightarrow> mem" where
  "set_umr_data_seg bi seg m =
     memset0 (seg + 16) 48
       (st_be64 (seg + 8) (bi_addr bi)
         (st_be32 (seg + 4) (bi_mr_lkey bi) (st_be32 seg (ucast (bi_length bi)) m)))"

definition umr_access_flags :: "u32 \<Rightarrow> u8" where
  "umr_access_flags acc =
     (if has_flag acc IBV_ACCESS_LOCAL_WRITE then 8 else 0) OR
     (if has_flag acc IBV_ACCESS_REMOTE_WRITE then 32 else 0) OR
     (if has_flag acc IBV_ACCESS_REMOTE_READ then 16 else 0) OR
     (if has_flag acc IBV_ACCESS_REMOTE_ATOMIC then 64 else 0)"

definition set_umr_mkey_seg :: "ibv_mw_type \<Rightarrow> u32 \<Rightarrow> ibv_mw_bind_info \<Rightarrow> u32 \<Rightarrow> nat \<Rightarrow> mem \<Rightarrow> mem" where
  "set_umr_mkey_seg type rkey bi qpn seg m =
     (let m1 = st_be32 (seg + 4)
            ((rkey AND 0xff) OR
             (if type = IBV_MW_TYPE_1 \<or> bi_length bi = 0 then 0xffffff00 else push_bit 8 qpn)) m
      in if bi_length bi \<noteq> 0
         then st_be64 (seg + 24) (bi_length bi)
                (st_be64 (seg + 16) (if has_flag (bi_access bi) IBV_ACCESS_ZERO_BASED then 0 else bi_addr bi)
                  (st8 (seg + 2) (umr_access_flags (bi_access bi)) (st8 seg 0 m1)))
         else st8 seg 64 m1)"

definition umr_mkey_mask :: "ibv_mw_type \<Rightarrow> bool \<Rightarrow> u64" where
  "umr_mkey_mask type bound =
     0x20002000 OR (if type = IBV_MW_TYPE_2 then 0x4000 else 0) OR (if bound then 0x3c0041 else 0)"

definition umr_ctrl_flags :: "ibv_mw_type \<Rightarrow> bool \<Rightarrow> u8" where
  "umr_ctrl_flags type bound =
     0x90 OR (if type = IBV_MW_TYPE_2 then (if bound then 0x20 else 0x08) else 0)"

definition set_umr_control_seg :: "ibv_mw_type \<Rightarrow> ibv_mw_bind_info \<Rightarrow> nat \<Rightarrow> mem \<Rightarrow> mem" where
  "set_umr_control_seg type bi seg m =
     (let bound = (bi_length bi \<noteq> 0)
      in st_be16 (seg + 4) (get_klm_octo (if bound then 1 else 0))
           (memset0 (seg + 16) 32
             (memset0 (seg + 1) 3
               (st_be16 (seg + 6) 0
                 (st_be64 (seg + 8) (umr_mkey_mask type bound)
                   (st8 seg (umr_ctrl_flags type bound) m))))))"

definition wrap_end :: "mlx5_qp \<Rightarrow> nat \<Rightarrow> nat" where
  "wrap_end qp seg = (if seg = qend (sq qp) then mlx5_get_send_wqe 0 else seg)"

text \<open>
  The copy of application data into the queue, wrapping at its end; the result holds the position
  after the data.  From beyond the end the number of bytes up to the end is negative, and
  \<open>memcpy\<close> takes it as a huge size.
\<close>

definition memcpy_to_wqe_and_update :: "nat \<Rightarrow> nat \<Rightarrow> u8 list \<Rightarrow> mem \<Rightarrow> (nat \<times> mem) res" where
  "memcpy_to_wqe_and_update qe dest bs m =
     (if qe < dest then Inl Segfault else Inr (copy_wrap qe dest bs m))"

text \<open>The result is an error number (0 for success), the next segment and the size in 16-byte units.\<close>

definition set_bind_wr ::
    "mlx5_qp \<Rightarrow> ibv_mw_type \<Rightarrow> u32 \<Rightarrow> ibv_mw_bind_info \<Rightarrow> u32 \<Rightarrow> nat \<times> nat \<times> mem \<Rightarrow> nat \<times> nat \<times> nat \<times> mem" where
  "set_bind_wr qp type rkey bi qpn s =
     (case s of (seg, sz, m) \<Rightarrow>
        if 2 ^ 31 < bi_length bi then (EOPNOTSUPP, seg, sz, m)
        else
          let m1 = set_umr_control_seg type bi seg m;
              seg1 = wrap_end qp (seg + 48);
              m2 = set_umr_mkey_seg type rkey bi qpn seg1 m1;
              seg2 = seg1 + 64
          in if bi_length bi = 0 then (0, seg2, sz + 3 + 4, m2)
             else
               let seg3 = wrap_end qp seg2
               in (0, seg3 + 64, sz + 3 + 4 + 4, set_umr_data_seg bi seg3 m2))"

subsection \<open>The doorbell\<close>

fun mlx5_bf_copy :: "nat \<Rightarrow> nat \<Rightarrow> nat \<Rightarrow> mem \<Rightarrow> u8 list" where
  "mlx5_bf_copy qe 0 src m = []"
| "mlx5_bf_copy qe (Suc n) src m =
     load_bytes src 64 m @ mlx5_bf_copy qe n (if src + 64 = qe then 0 else src + 64) m"

definition post_send_db :: "nat \<Rightarrow> bool \<Rightarrow> nat \<Rightarrow> nat \<Rightarrow> mlx5_qp \<Rightarrow> mlx5_qp" where
  "post_send_db n inl sz ctrl qp =
     (if n = 0 then qp
      else
        let reg = bf_offset (bf qp);
            ev = (if \<not> shut_up_bf qp \<and> n = 1 \<and> bf_uuarn (bf qp) \<noteq> 0 \<and> (inl \<or> prefer_bf qp) \<and>
                     1 < sz \<and> sz \<le> unat (bf_buf_size (bf qp) div 16)
                  then BfCopy reg (mlx5_bf_copy (qend (sq qp)) (align (sz * 16) 64 div 64) ctrl (sq_mem qp))
                  else Doorbell reg (load_bytes ctrl 8 (sq_mem qp)))
        in qp\<lparr>sq := (sq qp)\<lparr>wq_head := wq_head (sq qp) + of_nat n\<rparr>,
              db_snd := cur_post (sq qp) AND 0xffff,
              mmio_log := mmio_log qp @ [ev],
              bf := (bf qp)\<lparr>bf_offset := bf_offset (bf qp) XOR bf_buf_size (bf qp)\<rparr>\<rparr>)"


text \<open>A small queue pair, for examples: four descriptor blocks, room for three requests.\<close>

definition demo_wq :: mlx5_wq where
  "demo_wq = \<lparr>wrid = (\<lambda>_. 0), wqe_head = (\<lambda>_. 0), wqe_cnt = 4, max_post = 3, wq_head = 0, wq_tail = 0,
     cur_post = 3, max_gs = 3, wqe_shift = 6, wq_offset = 0, qend = 256, wr_data = (\<lambda>_. 0)\<rparr>"

definition demo_qp :: "ibv_qp_type \<Rightarrow> mlx5_qp" where
  "demo_qp t = \<lparr>ibqp = \<lparr>qp_num = 77, qp_type = t, dev_name = ''mlx5_0''\<rparr>, qp_state_rtr = True,
     sq = demo_wq, sq_mem = (\<lambda>_. 0), rq = demo_wq, rq_mem = (\<lambda>_. 0),
     bf = \<lparr>bf_offset = 0, bf_buf_size = 256, bf_uuarn = 0\<rparr>, db_snd = 0, db_rcv = 0, mmio_log = [],
     fm_cache = 0, sq_signal_bits = 0, wq_sig = False, atomics_enabled = True, max_inline_data = 100,
     max_tso = 4096, max_tso_header = 128, qp_cap_cache = 0, qp_flags = 0, eth_min_inline_size = 18,
     shut_up_bf = False, prefer_bf = True, inl_wqe = False, cur_setters_cnt = 0, fm_cache_rb = 0, qp_err = 0,
     nreq = 0, cur_size = 0, cur_post_rb = 0, cur_eth = None, cur_data = 0, cur_ctrl = 0, ex_wr_id = 0,
     ex_wr_flags = 0\<rparr>"

end
