(* ===== verification/Flow_Forecast.thy ===== *)
theory Flow_Forecast
  imports Shared_Memory Verbs_Types
begin

text \<open>
  The traffic forecast added to the send path: \<open>flow_forecast\<close> of \<open>providers/mlx5/qp.c\<close>.
  The function walks the posted work requests, finds the peer and the path MTU of the queue pair in
  the cache of the shared segment or asks the device, predicts the bytes the requests put on the
  wire in both directions, and stores one record in the ring.  The attributes the kernel reports
  for a queue pair at the time of the call (\<open>ibv_query_qp\<close>, whose failure the code does not look at), the text of an IPv6 address (\<open>inet_ntop\<close>) and the clock
  are parameters.  The first group of lemmas shows when the cache is transparent, when it is stale, and that the
  predicted amounts are the per-packet costs; the last group gives the branches of the whole
  function.
\<close>

record qp_attr =
  path_mtu :: u8
  dgid :: "u8 list"

subsection \<open>The payload of a work request\<close>

text \<open>
  The loop over \<open>num_sge\<close> entries: the pointer test only guards the first entry of a null list,
  because the pointer is incremented whatever its value.
\<close>

definition sge_len :: "ibv_sge list option \<Rightarrow> nat \<Rightarrow> nat res" where
  "sge_len sgl i =
     (case sgl of
        None \<Rightarrow> if i = 0 then Inr 0 else Inl Segfault
      | Some xs \<Rightarrow> if i < length xs then Inr (unat (sge_length (xs ! i))) else Inl OutOfBounds)"

fun sum_sge :: "ibv_sge list option \<Rightarrow> nat \<Rightarrow> nat \<Rightarrow> nat \<Rightarrow> nat res" where
  "sum_sge sgl i 0 acc = Inr acc"
| "sum_sge sgl i (Suc n) acc =
     bind_res (sge_len sgl i) (\<lambda>l. sum_sge sgl (Suc i) n (acc + l))"

definition wr_length :: "ibv_send_wr \<Rightarrow> nat res" where
  "wr_length w = sum_sge (sg_list w) 0 (nat (num_sge w)) 0"

fun flow_size :: "ibv_send_wr list \<Rightarrow> nat \<Rightarrow> nat res" where
  "flow_size [] acc = Inr acc"
| "flow_size (w # ws) acc = bind_res (wr_length w) (\<lambda>l. flow_size ws (acc + l))"

subsection \<open>The peer and the path MTU\<close>

definition after_last :: "char \<Rightarrow> string \<Rightarrow> string option" where
  "after_last c s = (if c \<in> set s then Some (rev (takeWhile (\<lambda>x. x \<noteq> c) (rev s))) else None)"

text \<open>
  \<open>inet_ntop\<close> writes into \<open>dgid\<close>, 30 zeroed bytes, only if the text and its terminator fit;
  its result is not tested.  Without a colon \<open>strrchr\<close> returns null, and the copy reads address 1.
\<close>

definition peer_gid :: "(u8 list \<Rightarrow> string) \<Rightarrow> u8 list \<Rightarrow> string res" where
  "peer_gid ntop g =
     (let text = (if length (ntop g) + 1 \<le> 30 then ntop g else [])
      in case after_last (CHR '':'') text of
           None \<Rightarrow> Inl Segfault
         | Some s \<Rightarrow> Inr (strncpy 16 s))"

definition cache_key :: "u32 \<Rightarrow> nat" where
  "cache_key n = unat n mod CACHE_NUM"

definition qp_path ::
    "(ibv_qp \<Rightarrow> qp_attr) \<Rightarrow> (u8 list \<Rightarrow> string) \<Rightarrow> ibv_qp \<Rightarrow> SHM \<Rightarrow> (u8 \<times> string \<times> SHM) res" where
  "qp_path query ntop qp s =
     (let n = qp_num qp; k = cache_key n; e = cache s k
      in if c_qp_num e = n then Inr (c_path_mtu e, strncpy 16 (c_gid e), s)
         else
           let a = query qp
           in bind_res (peer_gid ntop (dgid a)) (\<lambda>gid.
                Inr (path_mtu a, gid,
                  s\<lparr>cache := (cache s)(k :=
                      \<lparr>c_qp_num = n, c_path_mtu = path_mtu a, c_gid = strncpy 16 gid\<rparr>)\<rparr>)))"

definition mtu_bytes :: "u8 \<Rightarrow> nat" where
  "mtu_bytes p =
     (if p = IBV_MTU_512 then 512 else if p = IBV_MTU_1024 then 1024
      else if p = IBV_MTU_2048 then 2048 else if p = IBV_MTU_4096 then 4096 else 256)"

subsection \<open>The predicted amounts\<close>

definition packet_header :: nat where
  "packet_header = 62"

definition wr_amounts :: "nat \<Rightarrow> ibv_wr_opcode \<Rightarrow> nat \<Rightarrow> u64 \<times> u64" where
  "wr_amounts mtu opc len =
     (let L = of_nat len :: u64;
          num_packet = (L + of_nat mtu - 1) div of_nat mtu;
          amt = L + num_packet * of_nat packet_header
      in if opc = IBV_WR_RDMA_READ then (78, amt + 4 + (if len > mtu then 4 else 0))
         else
           let r = (if len > mtu then 66 * 2 else 66)
           in if opc = IBV_WR_SEND_WITH_IMM then (amt + 4, r)
              else if opc = IBV_WR_RDMA_WRITE then (amt + 16, r)
              else if opc = IBV_WR_RDMA_WRITE_WITH_IMM then (amt + 20, r)
              else if opc = IBV_WR_ATOMIC_FETCH_AND_ADD \<or> opc = IBV_WR_ATOMIC_CMP_AND_SWP
                then (amt + 90, 74)
              else (amt, r))"

fun rc_amounts :: "nat \<Rightarrow> ibv_send_wr list \<Rightarrow> u64 \<times> u64 \<Rightarrow> (u64 \<times> u64) res" where
  "rc_amounts mtu [] acc = Inr acc"
| "rc_amounts mtu (w # ws) (snd_amt, rcv_amt) =
     bind_res (wr_length w) (\<lambda>len.
       let (s, r) = wr_amounts mtu (opcode w) len
       in rc_amounts mtu ws (snd_amt + s, rcv_amt + r))"

subsection \<open>The whole function\<close>

text \<open>
  \<open>att\<close> is whether \<open>shmat\<close> succeeded, which the code does not test; \<open>sec\<close> and \<open>nsec\<close> are
  the clock reading.
\<close>

definition flow_forecast ::
    "(ibv_qp \<Rightarrow> qp_attr) \<Rightarrow> (u8 list \<Rightarrow> string) \<Rightarrow> bool \<Rightarrow> int \<Rightarrow> int \<Rightarrow> ibv_qp \<Rightarrow> ibv_send_wr list
     \<Rightarrow> SHM \<Rightarrow> SHM res" where
  "flow_forecast query ntop att sec nsec qp wrs s =
     bind_res (flow_size wrs 0) (\<lambda>total.
       if total < 1024 then Inr s
       else if \<not> att then Inl Segfault
       else bind_res (qp_path query ntop qp s) (\<lambda>(pm, gid, s1).
         let mtu = mtu_bytes pm
         in bind_res (if qp_type qp = IBV_QPT_RC then rc_amounts mtu wrs (0, 0) else Inr (0, 0))
              (\<lambda>(snd_amt, rcv_amt).
                if rcv_amt + snd_amt > 4096
                then put_record gid (dev_name qp) snd_amt rcv_amt
                       (word_of_int (sec * 1000000000 + nsec)) s1
                else Inr s1)))"

subsection \<open>Payload lengths\<close>

text \<open>A request whose list holds the announced number of entries.\<close>

definition wr_wf :: "ibv_send_wr \<Rightarrow> bool" where
  "wr_wf w \<longleftrightarrow> (case sg_list w of None \<Rightarrow> num_sge w \<le> 1 | Some xs \<Rightarrow> num_sge w \<le> int (length xs))"

definition payload :: "ibv_send_wr \<Rightarrow> nat" where
  "payload w = (case sg_list w of None \<Rightarrow> 0
     | Some xs \<Rightarrow> sum_list (map (\<lambda>e. unat (sge_length e)) (take (nat (num_sge w)) xs)))"

lemma sum_sge_Some:
  "i + n \<le> length xs \<Longrightarrow>
   sum_sge (Some xs) i n acc = Inr (acc + sum_list (map (\<lambda>e. unat (sge_length e)) (take n (drop i xs))))"
proof (induction n arbitrary: i acc)
  case (Suc n)
  then have d: "drop i xs = xs ! i # drop (Suc i) xs"
    by (simp add: Cons_nth_drop_Suc)
  from Suc show ?case
    by (simp add: d sge_len_def add.assoc)
qed simp

lemma wr_length_wf [simp]: "wr_wf w \<Longrightarrow> wr_length w = Inr (payload w)"
proof (cases "sg_list w")
  case None
  assume "wr_wf w"
  with None have "nat (num_sge w) = 0 \<or> nat (num_sge w) = Suc 0"
    by (auto simp: wr_wf_def)
  with None show ?thesis
    by (auto simp: wr_length_def payload_def sge_len_def)
next
  case (Some xs)
  assume "wr_wf w"
  with Some show ?thesis
    by (simp add: wr_length_def payload_def wr_wf_def sum_sge_Some)
qed

lemma flow_size_wf [simp]:
  "\<forall>w \<in> set ws. wr_wf w \<Longrightarrow> flow_size ws acc = Inr (acc + sum_list (map payload ws))"
  by (induction ws arbitrary: acc) auto

subsection \<open>Amounts as the sum of packet costs\<close>

text \<open>
  The reference: cut the payload into packets of at most one MTU and charge every packet its
  payload and the 62 bytes of headers; the opcode adds its extended headers once.
\<close>

function packetize :: "nat \<Rightarrow> nat \<Rightarrow> nat list" where
  "packetize m n =
     (if n = 0 \<or> m = 0 then [] else if n \<le> m then [n] else m # packetize m (n - m))"
  by pat_completeness auto
termination
  by (relation "measure snd") auto

declare packetize.simps [simp del]

definition wire_cost :: "nat \<Rightarrow> nat \<Rightarrow> nat" where
  "wire_cost m n = sum_list (map (\<lambda>p. p + packet_header) (packetize m n))"

definition tx_cost :: "nat \<Rightarrow> ibv_wr_opcode \<Rightarrow> nat \<Rightarrow> nat" where
  "tx_cost m opc n =
     (case opc of
        IBV_WR_RDMA_READ \<Rightarrow> 78
      | IBV_WR_SEND_WITH_IMM \<Rightarrow> wire_cost m n + 4
      | IBV_WR_RDMA_WRITE \<Rightarrow> wire_cost m n + 16
      | IBV_WR_RDMA_WRITE_WITH_IMM \<Rightarrow> wire_cost m n + 20
      | IBV_WR_ATOMIC_FETCH_AND_ADD \<Rightarrow> wire_cost m n + 90
      | IBV_WR_ATOMIC_CMP_AND_SWP \<Rightarrow> wire_cost m n + 90
      | _ \<Rightarrow> wire_cost m n)"

definition rx_cost :: "nat \<Rightarrow> ibv_wr_opcode \<Rightarrow> nat \<Rightarrow> nat" where
  "rx_cost m opc n =
     (case opc of
        IBV_WR_RDMA_READ \<Rightarrow> wire_cost m n + 4 * (if length (packetize m n) > 1 then 2 else 1)
      | IBV_WR_ATOMIC_FETCH_AND_ADD \<Rightarrow> 74
      | IBV_WR_ATOMIC_CMP_AND_SWP \<Rightarrow> 74
      | _ \<Rightarrow> 66 * (if length (packetize m n) > 1 then 2 else 1))"

lemma packetize_small: "n \<le> m \<Longrightarrow> packetize m n = (if n = 0 then [] else [n])"
  by (subst packetize.simps) auto

lemma sum_packetize: "0 < m \<Longrightarrow> sum_list (packetize m n) = n"
proof (induction m n rule: packetize.induct)
  case (1 m n)
  then show ?case by (subst packetize.simps) auto
qed

lemma packetize_le: "\<forall>p \<in> set (packetize m n). 0 < p \<and> p \<le> m"
proof (induction m n rule: packetize.induct)
  case (1 m n)
  then show ?case by (subst packetize.simps) auto
qed

lemma length_packetize: "0 < m \<Longrightarrow> length (packetize m n) = (n + m - 1) div m"
proof (induction m n rule: packetize.induct)
  case (1 m n)
  show ?case
  proof (cases "n \<le> m")
    case True
    with 1(2) show ?thesis
      by (cases "n = 0") (auto simp: packetize_small intro!: div_nat_eqI [symmetric])
  next
    case False
    then have "n + m - 1 = m + (n - m + m - 1)" using 1(2) by simp
    then have "(n + m - 1) div m = Suc ((n - m + m - 1) div m)"
      using 1(2) by (metis div_add_self1 plus_1_eq_Suc add.commute neq0_conv)
    with 1 False show ?thesis
      by (subst packetize.simps) simp
  qed
qed

lemma multi_packet_iff: "0 < m \<Longrightarrow> Suc 0 < length (packetize m n) \<longleftrightarrow> m < n"
proof (cases "n \<le> m")
  case False
  assume "0 < m"
  with False have "packetize m n = m # packetize m (n - m)" and "packetize m (n - m) \<noteq> []"
    by (auto simp: packetize.simps [of m n] packetize.simps [of m "n - m"])
  with False show ?thesis by (cases "packetize m (n - m)") auto
qed (simp add: packetize_small)

lemma wire_cost_eq: "0 < m \<Longrightarrow> wire_cost m n = n + ((n + m - 1) div m) * packet_header"
  by (simp add: wire_cost_def sum_list_addf sum_packetize length_packetize
      sum_list_triv)

lemma num_packet_word:
  fixes L m :: nat
  assumes "L < 2 ^ 63" "0 < m" "m < 2 ^ 16"
  shows "(of_nat L + of_nat m - 1 :: u64) div of_nat m = of_nat ((L + m - 1) div m)"
proof -
  have "(of_nat L + of_nat m - 1 :: u64) = of_nat (L + m - 1)"
    using assms(2) by (simp add: of_nat_diff)
  moreover have "unat (of_nat (L + m - 1) :: u64) = L + m - 1"
    using assms by (intro unat_of_nat_small) simp
  moreover have "unat (of_nat m :: u64) = m"
    using assms by (intro unat_of_nat_small) simp
  ultimately show ?thesis
    by (simp add: word_arith_nat_div)
qed

lemma wr_amounts_cost:
  assumes "n < 2 ^ 63" "0 < m" "m < 2 ^ 16"
  shows "wr_amounts m opc n = (of_nat (tx_cost m opc n), of_nat (rx_cost m opc n))"
  using assms
  by (cases opc)
    (simp_all add: wr_amounts_def tx_cost_def rx_cost_def Let_def num_packet_word
      wire_cost_eq multi_packet_iff)

definition c_int_sges :: "ibv_send_wr \<Rightarrow> bool" where
  "c_int_sges w \<longleftrightarrow> num_sge w < 2 ^ 31"

lemma payload_bound:
  assumes "c_int_sges w"
  shows "payload w < 2 ^ 63"
proof (cases "sg_list w")
  case (Some xs)
  let ?ys = "take (nat (num_sge w)) xs"
  have "sum_list (map (\<lambda>e. unat (sge_length e)) ?ys) \<le> length ?ys * (2 ^ 32 - 1)"
    using sum_list_unat_le [of sge_length ?ys] by simp
  also have "\<dots> \<le> (2 ^ 31 - 1) * (2 ^ 32 - 1)"
    using assms by (intro mult_right_mono) (auto simp: c_int_sges_def)
  finally show ?thesis using Some by (simp add: payload_def)
qed (simp add: payload_def)

lemma wr_amounts_wf:
  assumes "c_int_sges w" "0 < m" "m < 2 ^ 16"
  shows "wr_amounts m opc (payload w) =
    (of_nat (tx_cost m opc (payload w)), of_nat (rx_cost m opc (payload w)))"
  using assms by (intro wr_amounts_cost payload_bound)

lemma rc_amounts_acc:
  assumes "\<forall>w \<in> set ws. wr_wf w \<and> c_int_sges w" "0 < m" "m < 2 ^ 16"
  shows "rc_amounts m ws (a, b) =
    Inr (a + of_nat (\<Sum>w\<leftarrow>ws. tx_cost m (opcode w) (payload w)),
         b + of_nat (\<Sum>w\<leftarrow>ws. rx_cost m (opcode w) (payload w)))"
  using assms(1)
proof (induction ws arbitrary: a b)
  case (Cons w ws)
  then have "wr_wf w" "c_int_sges w" by auto
  with Cons assms(2,3) show ?case
    by (simp add: wr_amounts_wf add.assoc)
qed simp

lemma mtu_bytes_range [simp]: "0 < mtu_bytes p" "mtu_bytes p < 65536" "256 \<le> mtu_bytes p" "mtu_bytes p \<le> 4096"
  by (simp_all add: mtu_bytes_def)

subsection \<open>The cache of the segment\<close>

text \<open>
  An entry is in use when its queue-pair number is not the zero that \<open>alloc_shared_memory\<close> leaves.  The cache is
  found by the number alone, while the device is asked about the queue pair itself: the entries agree with a set of
  queue pairs when queue pairs of the set with the same number have the same path, and the entry of a
  number holds what the device reports for the queue pairs that have it.
\<close>

definition one_path :: "ibv_qp set \<Rightarrow> (ibv_qp \<Rightarrow> qp_attr) \<Rightarrow> bool" where
  "one_path Q query \<longleftrightarrow> (\<forall>a \<in> Q. \<forall>b \<in> Q. qp_num a = qp_num b \<longrightarrow> query a = query b)"

definition cache_ok :: "ibv_qp set \<Rightarrow> (ibv_qp \<Rightarrow> qp_attr) \<Rightarrow> (u8 list \<Rightarrow> string) \<Rightarrow> SHM \<Rightarrow> bool" where
  "cache_ok Q query ntop s \<longleftrightarrow>
     one_path Q query \<and>
     (\<forall>k < CACHE_NUM. \<forall>qp \<in> Q. let e = cache s k in qp_num qp \<noteq> 0 \<and> c_qp_num e = qp_num qp \<longrightarrow>
        peer_gid ntop (dgid (query qp)) = Inr (c_gid e) \<and> c_path_mtu e = path_mtu (query qp))"

definition same_ring :: "SHM \<Rightarrow> SHM \<Rightarrow> bool" where
  "same_ring s s' \<longleftrightarrow> shm_t s' = shm_t s \<and> shm_h s' = shm_h s \<and> amount s' = amount s"

lemma cache_key_bound [simp]: "cache_key n < CACHE_NUM"
  by (simp add: cache_key_def CACHE_NUM_def)

lemma peer_gid_fixed: "peer_gid ntop g = Inr x \<Longrightarrow> strncpy 16 x = x"
  by (auto simp: peer_gid_def Let_def strncpy_strncpy split: option.splits if_splits)

lemma qp_path_ring: "qp_path query ntop qp s = Inr (pm, gid, s') \<Longrightarrow> same_ring s s'"
  by (auto simp: qp_path_def same_ring_def Let_def bind_res_eq_Inr split: if_splits)

lemma qp_path_value:
  assumes "cache_ok Q query ntop s" "qp \<in> Q" "qp_num qp \<noteq> 0"
  shows "map_sum id (\<lambda>(pm, gid, _). (pm, gid)) (qp_path query ntop qp s) =
    bind_res (peer_gid ntop (dgid (query qp))) (\<lambda>gid. Inr (path_mtu (query qp), gid))"
proof (cases "c_qp_num (cache s (cache_key (qp_num qp))) = qp_num qp")
  case True
  with assms have "peer_gid ntop (dgid (query qp)) = Inr (c_gid (cache s (cache_key (qp_num qp))))"
    "c_path_mtu (cache s (cache_key (qp_num qp))) = path_mtu (query qp)"
    by (auto simp: cache_ok_def Let_def)
  with True show ?thesis by (simp add: qp_path_def peer_gid_fixed Let_def)
next
  case False
  then show ?thesis
    by (cases "peer_gid ntop (dgid (query qp))") (simp_all add: qp_path_def Let_def)
qed

lemma qp_path_again:
  assumes p: "qp_path query ntop old s = Inr (pm, gid, s')" and n: "qp_num old = qp_num qp" and c: "cache s'' = cache s'"
  shows "qp_path query' ntop' qp s'' = Inr (pm, gid, s'')"
proof -
  let ?e = "cache s (cache_key (qp_num old))" and ?k = "cache_key (qp_num qp)"
  have "c_qp_num (cache s' ?k) = qp_num qp \<and> c_path_mtu (cache s' ?k) = pm \<and> strncpy 16 (c_gid (cache s' ?k)) = gid"
  proof (cases "c_qp_num ?e = qp_num old")
    case True
    with p n show ?thesis by (auto simp: qp_path_def Let_def)
  next
    case False
    with p n show ?thesis by (auto simp: qp_path_def Let_def bind_res_eq_Inr peer_gid_fixed)
  qed
  with c show ?thesis by (simp add: qp_path_def Let_def)
qed

lemma qp_path_cache_ok:
  assumes "cache_ok Q query ntop s" "qp \<in> Q" "qp_path query ntop qp s = Inr (pm, gid, s')"
  shows "cache_ok Q query ntop s'"
proof (cases "c_qp_num (cache s (cache_key (qp_num qp))) = qp_num qp")
  case True
  with assms show ?thesis by (simp add: qp_path_def Let_def)
next
  case False
  with assms(3) have g: "peer_gid ntop (dgid (query qp)) = Inr gid" and s': "s' = s\<lparr>cache := (cache s)(cache_key (qp_num qp) :=
      \<lparr>c_qp_num = qp_num qp, c_path_mtu = path_mtu (query qp), c_gid = gid\<rparr>)\<rparr>"
    by (auto simp: qp_path_def Let_def bind_res_eq_Inr peer_gid_fixed)
  have "query x = query qp" if "x \<in> Q" "qp_num qp = qp_num x" for x using assms(1,2) that unfolding cache_ok_def one_path_def by metis
  with assms(1) g show ?thesis unfolding s' by (auto simp: cache_ok_def Let_def)
qed

subsection \<open>IPv4 peers\<close>

text \<open>
  A RoCE v2 peer has an IPv4-mapped GID: ten zero bytes, two bytes \<open>ff\<close> and the address.
  \<open>inet_ntop\<close> documents its text as \<open>::ffff:\<close> and the dotted quad; the hypothesis on the
  parameter is this.
\<close>

definition digit :: "nat \<Rightarrow> char" where
  "digit d = char_of (48 + d)"

definition dec8 :: "u8 \<Rightarrow> string" where
  "dec8 x =
     (let n = unat x
      in if n < 10 then [digit n]
         else if n < 100 then [digit (n div 10), digit (n mod 10)]
         else [digit (n div 100), digit (n div 10 mod 10), digit (n mod 10)])"

definition dotted :: "u8 \<Rightarrow> u8 \<Rightarrow> u8 \<Rightarrow> u8 \<Rightarrow> string" where
  "dotted a b c d = dec8 a @ ''.'' @ dec8 b @ ''.'' @ dec8 c @ ''.'' @ dec8 d"

definition v4mapped :: "u8 \<Rightarrow> u8 \<Rightarrow> u8 \<Rightarrow> u8 \<Rightarrow> u8 list" where
  "v4mapped a b c d = replicate 10 0 @ [255, 255, a, b, c, d]"

definition ntop_v4 :: "(u8 list \<Rightarrow> string) \<Rightarrow> bool" where
  "ntop_v4 ntop \<longleftrightarrow> (\<forall>a b c d. ntop (v4mapped a b c d) = ''::ffff:'' @ dotted a b c d)"

lemma digit_neq [simp]: "d < 10 \<Longrightarrow> digit d \<noteq> CHR '':''" "d < 10 \<Longrightarrow> digit d \<noteq> NUL"
proof -
  have code: "of_char (digit d) = 48 + d" if "d < 10"
    using that by (simp add: digit_def)
  show "digit d \<noteq> CHR '':''" if "d < 10"
  proof
    assume "digit d = CHR '':''"
    then have "of_char (digit d) = (58::nat)" by simp
    with code [OF that] that show False by simp
  qed
  show "digit d \<noteq> NUL" if "d < 10"
  proof
    assume "digit d = NUL"
    then have "of_char (digit d) = (0::nat)" by simp
    with code [OF that] show False by simp
  qed
qed

lemma dec8_chars: "CHR '':'' \<notin> set (dec8 x) \<and> NUL \<notin> set (dec8 x) \<and> length (dec8 x) \<le> 3"
proof -
  have "unat x < 256" using unsigned_less [where ?'a = nat, of x] by simp
  then have "unat x div 100 < 10" by simp
  then show ?thesis
    by (auto simp: dec8_def Let_def dest: sym)
qed

lemma dotted_chars:
  "CHR '':'' \<notin> set (dotted a b c d) \<and> NUL \<notin> set (dotted a b c d) \<and> length (dotted a b c d) \<le> 15"
  using dec8_chars [of a] dec8_chars [of b] dec8_chars [of c] dec8_chars [of d]
  by (auto simp: dotted_def)

lemma after_last_append: "c \<notin> set t \<Longrightarrow> after_last c (s @ c # t) = Some t"
proof -
  assume "c \<notin> set t"
  then have "takeWhile (\<lambda>x. x \<noteq> c) (rev t @ c # rev s) = rev t"
    by (subst takeWhile_append2) auto
  then show ?thesis by (simp add: after_last_def)
qed

lemma peer_gid_v4:
  assumes "ntop_v4 ntop"
  shows "peer_gid ntop (v4mapped a b c d) = Inr (strncpy 16 (dotted a b c d))"
proof -
  have t: "ntop (v4mapped a b c d) = ''::ffff'' @ CHR '':'' # dotted a b c d"
    using assms by (simp add: ntop_v4_def)
  then have "length (ntop (v4mapped a b c d)) + 1 \<le> 30"
    using dotted_chars [of a b c d] by simp
  with t dotted_chars [of a b c d] show ?thesis
    unfolding peer_gid_def by (simp add: after_last_append del: append_Cons)
qed

subsection \<open>Properties of the forecast\<close>

definition flow_wf :: "ibv_send_wr list \<Rightarrow> bool" where
  "flow_wf ws \<longleftrightarrow> (\<forall>w \<in> set ws. wr_wf w \<and> c_int_sges w)"

abbreviation total_payload :: "ibv_send_wr list \<Rightarrow> nat" where
  "total_payload ws \<equiv> sum_list (map payload ws)"

abbreviation total_tx :: "nat \<Rightarrow> ibv_send_wr list \<Rightarrow> nat" where
  "total_tx m ws \<equiv> \<Sum>w\<leftarrow>ws. tx_cost m (opcode w) (payload w)"

abbreviation total_rx :: "nat \<Rightarrow> ibv_send_wr list \<Rightarrow> nat" where
  "total_rx m ws \<equiv> \<Sum>w\<leftarrow>ws. rx_cost m (opcode w) (payload w)"

lemma flow_size_flow_wf: "flow_wf ws \<Longrightarrow> flow_size ws 0 = Inr (total_payload ws)"
  by (simp add: flow_wf_def)

lemma rc_amounts_flow_wf:
  "flow_wf ws \<Longrightarrow>
   rc_amounts (mtu_bytes pm) ws (0, 0) =
     Inr (of_nat (total_tx (mtu_bytes pm) ws), of_nat (total_rx (mtu_bytes pm) ws))"
  by (subst rc_amounts_acc) (auto simp: flow_wf_def)

lemma put_record_ok:
  "ring_ok s \<Longrightarrow> \<exists>s'. put_record gid dev tx rx tm s = Inr s' \<and> ring_ok s'"
  by (auto simp: put_record_def ring_ok_def Let_def)

lemma flow_forecast_wf:
  assumes "flow_wf ws"
  shows "flow_forecast query ntop att sec nsec qp ws s =
    (if total_payload ws < 1024 then Inr s
     else if \<not> att then Inl Segfault
     else bind_res (qp_path query ntop qp s) (\<lambda>(pm, gid, s1).
       let m = mtu_bytes pm;
           T = (if qp_type qp = IBV_QPT_RC then of_nat (total_tx m ws) else 0);
           R = (if qp_type qp = IBV_QPT_RC then of_nat (total_rx m ws) else 0)
       in if R + T > 4096
          then put_record gid (dev_name qp) T R (word_of_int (sec * 1000000000 + nsec)) s1
          else Inr s1))"
  using assms
  by (cases "qp_path query ntop qp s")
    (auto simp: flow_forecast_def flow_size_flow_wf rc_amounts_flow_wf Let_def split: prod.splits)

text \<open>
  C16. On a reliable-connection queue pair the record that \<open>flow_forecast\<close> stores carries exactly
  the per-packet costs of the posted requests: every payload is cut into packets of one path MTU,
  each packet is charged its payload and 62 header bytes, and the extended headers of the opcode,
  the acknowledgements and the read responses are added as the reference says.  Nothing is stored
  when both directions together stay within 4096 bytes.
\<close>
theorem flow_forecast_packet_costs:
  assumes "flow_wf ws" "1024 \<le> total_payload ws" "qp_type qp = IBV_QPT_RC"
    and "qp_path query ntop qp s = Inr (pm, gid, s1)"
  shows "flow_forecast query ntop True sec nsec qp ws s =
    (let T = of_nat (total_tx (mtu_bytes pm) ws); R = of_nat (total_rx (mtu_bytes pm) ws)
     in if R + T > (4096 :: u64)
        then put_record gid (dev_name qp) T R (word_of_int (sec * 1000000000 + nsec)) s1
        else Inr s1)"
  using assms by (simp add: flow_forecast_wf Let_def)

text \<open>A post of one 8192-byte RDMA write by queue pair 7 on a path with a 1024-byte MTU.\<close>

definition ex_qp :: ibv_qp where
  "ex_qp = \<lparr>qp_num = 7, qp_type = IBV_QPT_RC, dev_name = ''mlx5_0''\<rparr>"

definition ex_query :: "ibv_qp \<Rightarrow> qp_attr" where
  "ex_query qp = \<lparr>path_mtu = IBV_MTU_1024, dgid = v4mapped 10 0 0 2\<rparr>"

definition ex_ntop :: "u8 list \<Rightarrow> string" where
  "ex_ntop g = ''::ffff:'' @ dotted (g ! 12) (g ! 13) (g ! 14) (g ! 15)"

definition ex_shm :: SHM where
  "ex_shm = \<lparr>shm_t = 0, shm_h = 0, amount = (\<lambda>_. zero_Amount), cache = (\<lambda>_. zero_Cache)\<rparr>"

definition ex_wr :: ibv_send_wr where
  "ex_wr = zero_wr\<lparr>sg_list := Some [\<lparr>sge_addr = 4096, sge_length = 8192, sge_lkey = 1\<rparr>],
     num_sge := 1, opcode := IBV_WR_RDMA_WRITE\<rparr>"

lemma ex_ntop_v4: "ntop_v4 ex_ntop"
  by (simp add: ntop_v4_def ex_ntop_def v4mapped_def nth_append)

lemma ex_wr_wf: "flow_wf [ex_wr]" "total_payload [ex_wr] = 8192"
  by (simp_all add: flow_wf_def wr_wf_def c_int_sges_def ex_wr_def payload_def zero_wr_def)

lemma ex_path_num:
  "qp_num qp = 7 \<Longrightarrow> qp_path ex_query ex_ntop qp ex_shm =
     Inr (IBV_MTU_1024, strncpy 16 (dotted 10 0 0 2),
       ex_shm\<lparr>cache := (cache ex_shm)(7 := \<lparr>c_qp_num = 7, c_path_mtu = IBV_MTU_1024,
         c_gid = strncpy 16 (dotted 10 0 0 2)\<rparr>)\<rparr>)"
  by (simp add: qp_path_def cache_key_def CACHE_NUM_def ex_shm_def zero_Cache_def
      ex_query_def peer_gid_v4 [OF ex_ntop_v4] strncpy_strncpy Let_def)

lemma ex_path:
  "qp_path ex_query ex_ntop ex_qp ex_shm =
     Inr (IBV_MTU_1024, strncpy 16 (dotted 10 0 0 2),
       ex_shm\<lparr>cache := (cache ex_shm)(7 := \<lparr>c_qp_num = 7, c_path_mtu = IBV_MTU_1024,
         c_gid = strncpy 16 (dotted 10 0 0 2)\<rparr>)\<rparr>)"
  by (rule ex_path_num) (simp add: ex_qp_def)

theorem flow_forecast_packet_costs_witness:
  "\<exists>s'. flow_forecast ex_query ex_ntop True 5 6 ex_qp [ex_wr] ex_shm = Inr s' \<and>
     a_tx (amount s' 0) = 8192 + 8 * 62 + 16 \<and> a_rx (amount s' 0) = 132"
proof -
  have *: "total_tx 1024 [ex_wr] = 8704" "total_rx 1024 [ex_wr] = 132"
    using ex_wr_wf(2)
    by (simp_all add: tx_cost_def rx_cost_def wire_cost_eq multi_packet_iff packet_header_def
        ex_wr_def)
  have m: "mtu_bytes IBV_MTU_1024 = 1024" by (simp add: mtu_bytes_def)
  show ?thesis
    using flow_forecast_packet_costs [OF ex_wr_wf(1) _ _ ex_path, of 5 6] ex_wr_wf(2)
    unfolding m *
    by (simp add: ex_qp_def put_record_def ex_shm_def flow_NUM_def Let_def)
qed


text \<open>The queue pair with the number 7 of a second adapter, connected to another host.\<close>

definition ex_query2 :: "ibv_qp \<Rightarrow> qp_attr" where
  "ex_query2 qp = \<lparr>path_mtu = IBV_MTU_4096, dgid = v4mapped 10 0 0 9\<rparr>"


text \<open>
  For a peer with an IPv4-mapped GID the stored peer name is the dotted address: the copy fits
  the sixteen bytes with its terminator, so reading the array back as a C string gives the address
  and nothing of the next field.
\<close>
theorem peer_gid_dotted:
  assumes "ntop_v4 ntop"
  shows "\<exists>g. peer_gid ntop (v4mapped a b c d) = Inr g \<and> length g = 16 \<and> NUL \<in> set g \<and>
    c_str g = dotted a b c d"
proof (intro exI conjI)
  show "peer_gid ntop (v4mapped a b c d) = Inr (strncpy 16 (dotted a b c d))"
    using assms by (rule peer_gid_v4)
  show "c_str (strncpy 16 (dotted a b c d)) = dotted a b c d"
    using dotted_chars [of a b c d] by (simp add: c_str_strncpy c_str_id)
  show "NUL \<in> set (strncpy 16 (dotted a b c d))"
    using dotted_chars [of a b c d] by (simp add: strncpy_def c_str_id Let_def)
qed simp

theorem peer_gid_dotted_witness:
  "\<exists>g. peer_gid ex_ntop (v4mapped 192 168 1 255) = Inr g \<and> c_str g = ''192.168.1.255''"
proof -
  have "dotted 192 168 1 255 = ''192.168.1.255''"
    by code_simp
  with peer_gid_dotted [OF ex_ntop_v4, of 192 168 1 255] show ?thesis by auto
qed

text \<open>
  The forecast is silent where it should be: when the posted payload is below 1024 bytes, or the
  queue pair is not a reliable connection, the ring and its indices are unchanged.
\<close>
theorem flow_forecast_quiet:
  assumes "flow_wf ws" "total_payload ws < 1024 \<or> qp_type qp \<noteq> IBV_QPT_RC"
    and "flow_forecast query ntop att sec nsec qp ws s = Inr s'"
  shows "same_ring s s'"
proof (cases "total_payload ws < 1024")
  case True
  with assms show ?thesis by (simp add: flow_forecast_wf same_ring_def)
next
  case False
  with assms obtain pm gid where "qp_path query ntop qp s = Inr (pm, gid, s')"
    by (auto simp: flow_forecast_wf bind_res_eq_Inr Let_def split: if_splits)
  then show ?thesis by (rule qp_path_ring)
qed

theorem flow_forecast_quiet_witness:
  "\<exists>s'. flow_forecast ex_query ex_ntop True 5 6 (ex_qp\<lparr>qp_type := IBV_QPT_UD\<rparr>) [ex_wr] ex_shm =
      Inr s' \<and> same_ring ex_shm s'"
proof -
  let ?qp = "ex_qp\<lparr>qp_type := IBV_QPT_UD\<rparr>"
  obtain s' where s': "flow_forecast ex_query ex_ntop True 5 6 ?qp [ex_wr] ex_shm = Inr s'"
    using ex_path_num [of ?qp] ex_wr_wf by (auto simp: flow_forecast_wf ex_qp_def)
  moreover have "same_ring ex_shm s'"
    by (rule flow_forecast_quiet [OF ex_wr_wf(1) _ s']) simp
  ultimately show ?thesis by blast
qed

text \<open>
  C35. With the segment attached, an intact ring, a cache that agrees with the device and well-formed requests the forecast never faults
  unless the peer's textual GID has no usable form, and it keeps the ring indices in range.
\<close>
theorem flow_forecast_safe:
  assumes "flow_wf ws" "ring_ok s" "cache_ok Q query ntop s" "qp \<in> Q" "qp_num qp \<noteq> 0"
    and "peer_gid ntop (dgid (query qp)) = Inr gid"
  shows "\<exists>s'. flow_forecast query ntop True sec nsec qp ws s = Inr s' \<and> ring_ok s' \<and>
    cache_ok Q query ntop s'"
proof -
  have put_cache: "cache s2 = cache s1" if "put_record g d t r u s1 = Inr s2" for g d t r u s1 s2
    using that by (auto simp: put_record_def Let_def split: if_splits)
  from qp_path_value [OF assms(3-5)] assms(6) obtain pm g s1 where
    p: "qp_path query ntop qp s = Inr (pm, g, s1)"
    by (cases "qp_path query ntop qp s") auto
  have ok1: "ring_ok s1" "cache_ok Q query ntop s1"
    using qp_path_ring [OF p] qp_path_cache_ok [OF assms(3,4) p] assms(2)
    by (auto simp: same_ring_def ring_ok_def)
  show ?thesis
  proof (cases "total_payload ws < 1024")
    case True
    with assms show ?thesis by (simp add: flow_forecast_wf)
  next
    case False
    let ?T = "if qp_type qp = IBV_QPT_RC then of_nat (total_tx (mtu_bytes pm) ws) else 0 :: u64"
    let ?R = "if qp_type qp = IBV_QPT_RC then of_nat (total_rx (mtu_bytes pm) ws) else 0 :: u64"
    let ?tm = "word_of_int (sec * 1000000000 + nsec) :: u64"
    obtain s2 where s2: "put_record g (dev_name qp) ?T ?R ?tm s1 = Inr s2" "ring_ok s2"
      using put_record_ok [OF ok1(1)] by blast
    have "cache_ok Q query ntop s2"
      using ok1(2) put_cache [OF s2(1)] by (simp add: cache_ok_def)
    moreover have "flow_forecast query ntop True sec nsec qp ws s =
        (if ?R + ?T > 4096 then Inr s2 else Inr s1)"
      using assms(1) False p s2(1) by (simp add: flow_forecast_wf Let_def)
    ultimately show ?thesis using ok1 s2(2) by (cases "?R + ?T > 4096") auto
  qed
qed

theorem flow_forecast_safe_witness:
  "\<exists>s'. flow_forecast ex_query ex_ntop True 5 6 ex_qp [ex_wr] ex_shm = Inr s' \<and> ring_ok s' \<and>
    cache_ok {ex_qp} ex_query ex_ntop s'"
proof (rule flow_forecast_safe [OF ex_wr_wf(1)])
  show "ring_ok ex_shm" by (simp add: ring_ok_def ex_shm_def)
  show "cache_ok {ex_qp} ex_query ex_ntop ex_shm" by (simp add: cache_ok_def one_path_def ex_shm_def zero_Cache_def)
  show "ex_qp \<in> {ex_qp}" "qp_num ex_qp \<noteq> 0" by (simp_all add: ex_qp_def)
  show "peer_gid ex_ntop (dgid (ex_query ex_qp)) = Inr (strncpy 16 (dotted 10 0 0 2))"
    by (simp add: ex_query_def peer_gid_v4 [OF ex_ntop_v4])
qed

text \<open>
  C39. A peer whose textual GID does not fit the 30-byte buffer makes the forecast fault on the
  first post of at least 1024 bytes: the result of \<open>inet_ntop\<close> is not tested, the buffer stays
  empty, and the search for the last colon returns null.
\<close>
theorem flow_forecast_long_gid_faults:
  assumes "flow_wf ws" "1024 \<le> total_payload ws"
    and "c_qp_num (cache s (cache_key (qp_num qp))) \<noteq> qp_num qp"
    and "30 \<le> length (ntop (dgid (query qp)))"
  shows "flow_forecast query ntop True sec nsec qp ws s = Inl Segfault"
  using assms
  by (simp add: flow_forecast_wf qp_path_def peer_gid_def after_last_def Let_def)

theorem flow_forecast_long_gid_faults_witness:
  "flow_forecast ex_query (\<lambda>_. ''fe80:0:1234:5678:9abc:def0:1234:5678'') True 5 6 ex_qp [ex_wr] ex_shm
   = Inl Segfault"
  by (rule flow_forecast_long_gid_faults [OF ex_wr_wf(1)])
    (simp_all only: ex_wr_wf, simp_all add: ex_shm_def ex_qp_def zero_Cache_def)

end
