(* ===== verification/Post_Send.thy ===== *)
theory Post_Send
  imports Mlx5_Queue Flow_Forecast
begin

text \<open>
  \<open>mlx5_post_send\<close> of \<open>providers/mlx5/qp.c\<close>: the traffic forecast, the loop over the work requests,
  the descriptor of each of them by queue-pair type, its data segments or inline data, its
  control segment, and the doorbell.  The state of the loop is \<open>build\<close>: the queue pair, the current
  segment and size, the position in the scatter list that the inline headers consumed, which the
  code keeps across requests, and the fence of the next request.  Steps return an error number,
  0 for success, with the state reached so far.
\<close>

record build =
  b_qp :: mlx5_qp
  b_seg :: nat
  b_size :: nat
  b_ctrl :: nat
  b_index :: int
  b_offset :: int
  b_next_fence :: u8
  b_inl :: bool

type_synonym step = "(nat \<times> build) res"

definition and_then :: "step \<Rightarrow> (build \<Rightarrow> step) \<Rightarrow> step" where
  "and_then m f = bind_res m (\<lambda>(e, b). if e \<noteq> 0 then Inr (e, b) else f b)"

definition ok_step :: "build \<Rightarrow> step" where
  "ok_step b = Inr (0, b)"

abbreviation b_mem :: "build \<Rightarrow> mem" where
  "b_mem b \<equiv> sq_mem (b_qp b)"

definition put_mem :: "mem \<Rightarrow> build \<Rightarrow> build" where
  "put_mem m b = b\<lparr>b_qp := (b_qp b)\<lparr>sq_mem := m\<rparr>\<rparr>"

definition on_mem :: "(mem \<Rightarrow> mem) \<Rightarrow> build \<Rightarrow> build" where
  "on_mem f b = put_mem (f (b_mem b)) b"

text \<open>A segment of \<open>n\<close> bytes has been written: the pointer and the size move on.\<close>

definition advance :: "nat \<Rightarrow> build \<Rightarrow> build" where
  "advance n b = b\<lparr>b_seg := b_seg b + n, b_size := b_size b + n div 16\<rparr>"

text \<open>Entry \<open>i\<close> of the scatter list.\<close>

definition wr_sge :: "ibv_send_wr \<Rightarrow> int \<Rightarrow> ibv_sge res" where
  "wr_sge wr i =
     (case sg_list wr of
        None \<Rightarrow> Inl Segfault
      | Some xs \<Rightarrow> if 0 \<le> i \<and> nat i < length xs then Inr (xs ! nat i) else Inl OutOfBounds)"

subsection \<open>Inline data\<close>

fun inl_copy ::
    "user_mem \<Rightarrow> nat \<Rightarrow> int \<Rightarrow> ibv_send_wr \<Rightarrow> nat \<Rightarrow> int \<Rightarrow> int \<Rightarrow> nat \<times> int \<times> mem \<Rightarrow> (nat \<times> nat \<times> int \<times> mem) res" where
  "inl_copy um qe maxi wr 0 i offset s = Inr (0, s)"
| "inl_copy um qe maxi wr (Suc n) i offset s =
     (case s of (wqe, inl, m) \<Rightarrow>
        bind_res (wr_sge wr i) (\<lambda>sg.
          let len = sint (sge_length sg - of_int offset); inl' = inl + len
          in if maxi < inl' then Inr (ENOMEM, wqe, inl', m)
             else if len < 0 then Inl Segfault
             else bind_res
                    (memcpy_to_wqe_and_update qe wqe (user_bytes um (sge_addr sg + of_int offset) (nat len)) m)
                    (\<lambda>(wqe', m'). inl_copy um qe maxi wr n (i + 1) 0 (wqe', inl', m'))))"

definition set_data_inl_seg :: "user_mem \<Rightarrow> ibv_send_wr \<Rightarrow> build \<Rightarrow> step" where
  "set_data_inl_seg um wr b =
     bind_res
       (inl_copy um (qend (sq (b_qp b))) (max_inline_data (b_qp b)) wr
          (nat (num_sge wr - b_index b)) (b_index b) (b_offset b) (b_seg b + 4, 0, b_mem b))
       (\<lambda>(e, _, inl, m).
          if e \<noteq> 0 then Inr (e, put_mem m b)
          else if inl \<noteq> 0
          then ok_step (b\<lparr>b_qp := (b_qp b)\<lparr>sq_mem := st_be32 (b_seg b) (of_int inl OR MLX5_INLINE_SEG) m\<rparr>,
                          b_size := b_size b + align (nat inl + 4) 16 div 16\<rparr>)
          else ok_step (put_mem m b))"

subsection \<open>Ethernet headers\<close>

text \<open>
  \<open>copy_eth_inline_headers\<close> serves scatter entries and data buffers alike: \<open>get\<close> gives the address and
  the length of an element of the list.  The loop returns the bytes still to copy, the counter, the
  length of the last element and what was copied of it, and the memory.
\<close>

fun eth_inline_loop ::
    "user_mem \<Rightarrow> (nat \<Rightarrow> (u64 \<times> nat) res) \<Rightarrow> nat \<Rightarrow> nat \<Rightarrow> nat \<Rightarrow> nat \<Rightarrow> nat \<times> nat \<Rightarrow> mem \<Rightarrow>
     (nat \<times> nat \<times> nat \<times> nat \<times> mem) res" where
  "eth_inline_loop um get hdr 0 j rest len_c m = Inr (rest, j, fst len_c, snd len_c, m)"
| "eth_inline_loop um get hdr (Suc n) j rest len_c m =
     (if rest = 0 then Inr (rest, j, fst len_c, snd len_c, m)
      else bind_res (get j) (\<lambda>(a, len).
             let c = min len rest
             in eth_inline_loop um get hdr n (Suc j) (rest - c) (len, c)
                  (store (hdr + (18 - rest)) (user_bytes um a c) m)))"

definition eth_headers_done :: "nat \<Rightarrow> nat \<Rightarrow> nat \<times> nat \<times> nat \<times> mem \<Rightarrow> nat \<times> (int \<times> int) \<times> mem" where
  "eth_headers_done inl_hdr_size eseg r =
     (case r of (j, len, c, m) \<Rightarrow>
        (0, (if len = c then (int j + 1, 0) else (int j, int c)), st_be16 (eseg + 12) (of_nat inl_hdr_size) m))"

definition copy_eth_inline_headers ::
    "user_mem \<Rightarrow> nat \<Rightarrow> (nat \<Rightarrow> (u64 \<times> nat) res) \<Rightarrow> nat \<Rightarrow> nat \<Rightarrow> mem \<Rightarrow> (nat \<times> (int \<times> int) \<times> mem) res" where
  "copy_eth_inline_headers um inl_hdr_size get nelem eseg m =
     (if nelem < 1 then Inr (EINVAL, (0, 0), m)
      else bind_res (get 0) (\<lambda>(a, len).
        if 18 \<le> len
        then Inr (eth_headers_done inl_hdr_size eseg
                    (0, len, inl_hdr_size, store (eseg + 14) (user_bytes um a inl_hdr_size) m))
        else bind_res (eth_inline_loop um get (eseg + 14) nelem 0 inl_hdr_size (len, 0) m) (\<lambda>(rest, j, l, c, m1).
          if rest \<noteq> 0 then Inr (EINVAL, (0, 0), m1)
          else Inr (eth_headers_done inl_hdr_size eseg (j - 1, l, c, m1)))))"

text \<open>The scatter list as the list of buffers; the number of entries is converted to \<open>size_t\<close>.\<close>

definition sge_buf :: "ibv_send_wr \<Rightarrow> nat \<Rightarrow> (u64 \<times> nat) res" where
  "sge_buf wr j = bind_res (wr_sge wr (int j)) (\<lambda>s. Inr (sge_addr s, unat (sge_length s)))"

definition sge_count :: "ibv_send_wr \<Rightarrow> nat" where
  "sge_count wr = as_size_t (num_sge wr)"

text \<open>\<open>set_tso_eth_seg\<close>: the header of a segmented packet, wrapping at the end of the queue.\<close>

definition set_tso_eth_seg ::
    "user_mem \<Rightarrow> u64 \<Rightarrow> u16 \<Rightarrow> u16 \<Rightarrow> mlx5_qp \<Rightarrow> nat \<times> nat \<times> mem \<Rightarrow> nat \<times> nat \<times> nat \<times> mem" where
  "set_tso_eth_seg um hdr hdr_sz mss qp s =
     (case s of (seg, sz, m) \<Rightarrow>
        if hdr_sz < 14 \<or> max_tso_header qp < hdr_sz then (EINVAL, seg, sz, m)
        else
          let left = unat hdr_sz;
              m1 = st_be16 (seg + 12) hdr_sz (st_be16 (seg + 6) mss m);
              copy_sz = min (qend (sq qp) - (seg + 14)) left;
              m2 = store (seg + 14) (user_bytes um hdr copy_sz) m1;
              seg1 = seg + align (copy_sz - 2) 16 - 16;
              sz1 = sz + align (copy_sz - 2) 16 div 16 - 1
          in if copy_sz < left
             then let rest = left - copy_sz
                  in (0, align rest 16, sz1 + align rest 16 div 16,
                      store 0 (user_bytes um (hdr + of_nat copy_sz) rest) m2)
             else (0, seg1, sz1, m2))"

definition eth_csum :: "nat \<Rightarrow> mem \<Rightarrow> mem" where
  "eth_csum eseg m = st8 (eseg + 4) (m (eseg + 4) OR (MLX5_ETH_WQE_L3_CSUM OR MLX5_ETH_WQE_L4_CSUM)) m"

text \<open>\<open>mlx5_post_send_underlay\<close>: a padding segment and an Ethernet segment with the IPoIB header.\<close>

definition mlx5_post_send_underlay :: "user_mem \<Rightarrow> ibv_send_wr \<Rightarrow> build \<Rightarrow> step" where
  "mlx5_post_send_underlay um wr b =
     (if opcode wr = IBV_WR_SEND_WITH_IMM then Inr (EINVAL, b)
      else
        let eseg = b_seg b + 16;
            b1 = on_mem (\<lambda>m. st_be32 (eseg + 8) 0 (memset0 eseg 8 (memset0 (b_seg b) 16 m))) b;
            csum = has_flag (send_flags wr) IBV_SEND_IP_CSUM
        in if csum \<and> \<not> has_flag (qp_cap_cache (b_qp b)) MLX5_CSUM_SUPPORT_UNDERLAY_UD then Inr (EINVAL, b1)
           else
             let b2 = (if csum then on_mem (eth_csum eseg) b1 else b1)
             in bind_res (wr_sge wr 0) (\<lambda>sg.
                  let len = unat (sge_length sg);
                      c = (if 18 \<le> len \<and> has_flag (send_flags wr) IBV_SEND_INLINE then 18 else 4)
                  in if len < 4 then Inr (EINVAL, b2)
                     else
                       let b3 = on_mem (\<lambda>m. st_be16 (eseg + 12) (of_nat c)
                                  (store (eseg + 14) (user_bytes um (sge_addr sg) c) m)) b2;
                           b4 = (if len = c then b3\<lparr>b_index := b_index b3 + 1\<rparr> else b3\<lparr>b_offset := int c\<rparr>)
                       in ok_step (advance 48 b4)))"

subsection \<open>The segments of each transport\<close>

definition raddr_step :: "u64 \<Rightarrow> u32 \<Rightarrow> build \<Rightarrow> build" where
  "raddr_step addr rkey b = advance 16 (on_mem (set_raddr_seg (b_seg b) addr rkey) b)"

definition bind_step :: "nat \<Rightarrow> ibv_mw_type \<Rightarrow> u32 \<Rightarrow> ibv_mw_bind_info \<Rightarrow> u32 \<Rightarrow> u32 \<Rightarrow> build \<Rightarrow> step" where
  "bind_step idx type rkey bi imm wc b =
     (let b1 = on_mem (st_be32 (b_ctrl b + 12) imm) (b\<lparr>b_next_fence := MLX5_WQE_CTRL_INITIATOR_SMALL_FENCE\<rparr>)
      in case set_bind_wr (b_qp b1) type rkey bi (qp_num (ibqp (b_qp b1))) (b_seg b1, b_size b1, b_mem b1) of
           (e, seg, sz, m) \<Rightarrow>
             let b2 = put_mem m (b1\<lparr>b_seg := seg, b_size := sz\<rparr>)
             in if e \<noteq> 0 then Inr (e, b2)
                else ok_step (b2\<lparr>b_qp := (b_qp b2)\<lparr>sq := (sq (b_qp b2))\<lparr>wr_data := (wr_data (sq (b_qp b2)))(idx := wc)\<rparr>\<rparr>\<rparr>))"

definition no_bind :: ibv_mw_bind_info where
  "no_bind = \<lparr>bi_mr_lkey = 0, bi_addr = 0, bi_length = 0, bi_access = 0\<rparr>"

definition xrc_step :: "ibv_send_wr \<Rightarrow> build \<Rightarrow> build" where
  "xrc_step wr b =
     (if opcode wr \<noteq> IBV_WR_BIND_MW \<and> opcode wr \<noteq> IBV_WR_LOCAL_INV
      then advance 16 (on_mem (st_be32 (b_seg b) (xrc_remote_srqn wr)) b)
      else b)"

definition rc_step :: "nat \<Rightarrow> ibv_send_wr \<Rightarrow> build \<Rightarrow> step" where
  "rc_step idx wr b =
     (case opcode wr of
        IBV_WR_RDMA_READ \<Rightarrow> ok_step (raddr_step (rdma_remote_addr wr) (rdma_rkey wr) b)
      | IBV_WR_RDMA_WRITE \<Rightarrow> ok_step (raddr_step (rdma_remote_addr wr) (rdma_rkey wr) b)
      | IBV_WR_RDMA_WRITE_WITH_IMM \<Rightarrow> ok_step (raddr_step (rdma_remote_addr wr) (rdma_rkey wr) b)
      | IBV_WR_BIND_MW \<Rightarrow>
          bind_step idx (bind_mw_type wr) (bind_rkey wr) (bind_info wr) (bind_mw_rkey wr) IBV_WC_BIND_MW b
      | IBV_WR_LOCAL_INV \<Rightarrow> bind_step idx IBV_MW_TYPE_2 0 no_bind (imm_data wr) IBV_WC_LOCAL_INV b
      | op \<Rightarrow>
          if op = IBV_WR_ATOMIC_CMP_AND_SWP \<or> op = IBV_WR_ATOMIC_FETCH_AND_ADD
          then if \<not> atomics_enabled (b_qp b) then Inr (EOPNOTSUPP, b)
               else let b1 = raddr_step (atomic_remote_addr wr) (atomic_rkey wr) b
                    in ok_step (advance 16
                         (on_mem (set_atomic_seg (b_seg b1) op (atomic_swap wr) (atomic_compare_add wr)) b1))
          else ok_step b)"

definition uc_step :: "nat \<Rightarrow> ibv_send_wr \<Rightarrow> build \<Rightarrow> step" where
  "uc_step idx wr b =
     (case opcode wr of
        IBV_WR_RDMA_WRITE \<Rightarrow> ok_step (raddr_step (rdma_remote_addr wr) (rdma_rkey wr) b)
      | IBV_WR_RDMA_WRITE_WITH_IMM \<Rightarrow> ok_step (raddr_step (rdma_remote_addr wr) (rdma_rkey wr) b)
      | IBV_WR_BIND_MW \<Rightarrow>
          bind_step idx (bind_mw_type wr) (bind_rkey wr) (bind_info wr) (bind_mw_rkey wr) IBV_WC_BIND_MW b
      | IBV_WR_LOCAL_INV \<Rightarrow> bind_step idx IBV_MW_TYPE_2 0 no_bind (imm_data wr) IBV_WC_LOCAL_INV b
      | _ \<Rightarrow> ok_step b)"

definition ud_step :: "user_mem \<Rightarrow> ibv_send_wr \<Rightarrow> build \<Rightarrow> step" where
  "ud_step um wr b =
     (let b1 = advance 48 (on_mem (set_datagram_seg (b_seg b) (ud_av wr) (ud_remote_qpn wr) (ud_remote_qkey wr)) b);
          b2 = b1\<lparr>b_seg := wrap_end (b_qp b1) (b_seg b1)\<rparr>
      in if has_flag (qp_flags (b_qp b2)) MLX5_QP_FLAGS_USE_UNDERLAY then mlx5_post_send_underlay um wr b2
         else ok_step b2)"

definition raw_step :: "user_mem \<Rightarrow> ibv_send_wr \<Rightarrow> build \<Rightarrow> step" where
  "raw_step um wr b =
     (let b1 = on_mem (memset0 (b_seg b) 32) b; csum = has_flag (send_flags wr) IBV_SEND_IP_CSUM
      in if csum \<and> \<not> has_flag (qp_cap_cache (b_qp b)) MLX5_CSUM_SUPPORT_RAW_OVER_ETH then Inr (EINVAL, b1)
         else
           let b2 = (if csum then on_mem (eth_csum (b_seg b)) b1 else b1)
           in if opcode wr = IBV_WR_TSO
              then case set_tso_eth_seg um (tso_hdr wr) (tso_hdr_sz wr) (tso_mss wr) (b_qp b2)
                          (b_seg b2, b_size b2, b_mem b2) of
                     (e, seg, sz, m) \<Rightarrow>
                       let b3 = put_mem m (b2\<lparr>b_seg := seg, b_size := sz\<rparr>)
                       in if e \<noteq> 0 then Inr (e, b3) else ok_step (advance 32 b3)
              else
                bind_res
                  (copy_eth_inline_headers um (eth_min_inline_size (b_qp b2)) (sge_buf wr) (sge_count wr)
                     (b_seg b2) (b_mem b2))
                  (\<lambda>(e, (idx, off), m).
                      if e \<noteq> 0 then Inr (e, put_mem m b2)
                      else ok_step
                        (let b3 = put_mem m (b2\<lparr>b_index := idx, b_offset := off\<rparr>);
                             n = (16 + eth_min_inline_size (b_qp b3)) div 16
                         in b3\<lparr>b_seg := b_seg b3 + n * 16, b_size := b_size b3 + n\<rparr>)))"

definition transport_step :: "user_mem \<Rightarrow> nat \<Rightarrow> ibv_send_wr \<Rightarrow> build \<Rightarrow> step" where
  "transport_step um idx wr b =
     (case qp_type (ibqp (b_qp b)) of
        IBV_QPT_XRC_SEND \<Rightarrow> rc_step idx wr (xrc_step wr b)
      | IBV_QPT_RC \<Rightarrow> rc_step idx wr b
      | IBV_QPT_UC \<Rightarrow> uc_step idx wr b
      | IBV_QPT_UD \<Rightarrow> ud_step um wr b
      | IBV_QPT_RAW_PACKET \<Rightarrow> raw_step um wr b
      | _ \<Rightarrow> ok_step b)"

subsection \<open>Data segments\<close>

text \<open>
  The loop over the scatter entries that are not inlined.  \<open>tso\<close> is the budget left for a segmented
  packet.
\<close>

fun data_segs :: "ibv_send_wr \<Rightarrow> nat \<Rightarrow> int \<Rightarrow> u32 \<Rightarrow> build \<Rightarrow> step" where
  "data_segs wr 0 i tso b = ok_step b"
| "data_segs wr (Suc n) i tso b =
     bind_res (wr_sge wr i) (\<lambda>sg.
       let seg = wrap_end (b_qp b) (b_seg b); b1 = b\<lparr>b_seg := seg\<rparr>; len = sge_length sg
       in if len = 0 then data_segs wr n (i + 1) tso b1
          else if opcode wr = IBV_WR_ATOMIC_CMP_AND_SWP \<or> opcode wr = IBV_WR_ATOMIC_FETCH_AND_ADD
          then data_segs wr n (i + 1) tso
                 (advance 16 (on_mem (set_data_ptr_seg_atomic seg sg) (b1\<lparr>b_offset := 0\<rparr>)))
          else if opcode wr = IBV_WR_TSO \<and> tso < len then Inr (EINVAL, b1)
          else data_segs wr n (i + 1) (if opcode wr = IBV_WR_TSO then tso - len else tso)
                 (advance 16 (on_mem (set_data_ptr_seg seg sg (b_offset b1)) (b1\<lparr>b_offset := 0\<rparr>))))"

definition payload_step :: "user_mem \<Rightarrow> ibv_send_wr \<Rightarrow> build \<Rightarrow> step" where
  "payload_step um wr b =
     (if has_flag (send_flags wr) IBV_SEND_INLINE \<and> num_sge wr \<noteq> 0
      then and_then (set_data_inl_seg um wr b) (\<lambda>b1. ok_step (b1\<lparr>b_inl := True\<rparr>))
      else data_segs wr (nat (num_sge wr - b_index b)) (b_index b)
             (if qp_type (ibqp (b_qp b)) = IBV_QPT_RAW_PACKET then max_tso (b_qp b) else 0) b)"

subsection \<open>The control segment\<close>

definition ctrl_fm_ce_se :: "mlx5_qp \<Rightarrow> u8 \<Rightarrow> u32 \<Rightarrow> u8" where
  "ctrl_fm_ce_se qp fence flags =
     sq_signal_bits qp OR fence OR
     (if has_flag flags IBV_SEND_SIGNALED then MLX5_WQE_CTRL_CQ_UPDATE else 0) OR
     (if has_flag flags IBV_SEND_SOLICITED then MLX5_WQE_CTRL_SOLICITED else 0)"

definition ctrl_start :: "nat \<Rightarrow> ibv_send_wr \<Rightarrow> build \<Rightarrow> build" where
  "ctrl_start idx wr b =
     (let fence = (if has_flag (send_flags wr) IBV_SEND_FENCE then MLX5_WQE_CTRL_FENCE else b_next_fence b);
          ctrl = mlx5_get_send_wqe idx;
          qp = b_qp b;
          m = st8 (ctrl + 11) (ctrl_fm_ce_se qp fence (send_flags wr))
                (store (ctrl + 12) (send_ieth wr) (memset0 (ctrl + 8) 4 (sq_mem qp)))
      in b\<lparr>b_next_fence := 0, b_ctrl := ctrl, b_seg := ctrl + 16, b_size := 1,
           b_qp := qp\<lparr>sq_mem := m, sq := (sq qp)\<lparr>wr_data := (wr_data (sq qp))(idx := 0)\<rparr>\<rparr>\<rparr>)"

text \<open>The opcode, index, size and queue-pair number, the signature, and the bookkeeping of the queue.\<close>

definition ctrl_finish :: "nat \<Rightarrow> nat \<Rightarrow> u32 \<Rightarrow> ibv_send_wr \<Rightarrow> build \<Rightarrow> build" where
  "ctrl_finish n idx op wr b =
     (let qp = b_qp b; ctrl = b_ctrl b; w = sq qp;
          m1 = st_be32 ctrl (push_bit 8 (cur_post w AND 0xffff) OR op) (sq_mem qp);
          m2 = st_be32 (ctrl + 4) (of_nat (b_size b) OR push_bit 8 (qp_num (ibqp qp))) m1;
          m3 = (if wq_sig qp then st8 (ctrl + 8) (wqe_sig ctrl m2) m2 else m2)
      in b\<lparr>b_qp := qp\<lparr>sq_mem := m3,
             sq := w\<lparr>wrid := (wrid w)(idx := wr_id wr),
                     wqe_head := (wqe_head w)(idx := wq_head w + of_nat n),
                     cur_post := cur_post w + of_nat ((b_size b * 16 + 63) div 64)\<rparr>\<rparr>\<rparr>)"

subsection \<open>The loop over the requests\<close>

definition post_one :: "user_mem \<Rightarrow> nat \<Rightarrow> ibv_send_wr \<Rightarrow> build \<Rightarrow> step" where
  "post_one um n wr b =
     (case mlx5_ib_opcode (opcode wr) of
        None \<Rightarrow> Inr (EINVAL, b)
      | Some op \<Rightarrow>
          if mlx5_wq_overflow (sq (b_qp b)) n then Inr (ENOMEM, b)
          else if max_gs (sq (b_qp b)) < num_sge wr then Inr (ENOMEM, b)
          else
            let idx = sq_idx (b_qp b)
            in and_then (transport_step um idx wr (ctrl_start idx wr b)) (\<lambda>b1.
               and_then (payload_step um wr b1) (\<lambda>b2.
                 ok_step (ctrl_finish n idx op wr b2))))"

text \<open>The result is the error, the number of requests posted, which is the position of \<open>bad_wr\<close> on an
  error, and the state.\<close>

fun post_loop :: "user_mem \<Rightarrow> nat \<Rightarrow> ibv_send_wr list \<Rightarrow> build \<Rightarrow> (nat \<times> nat \<times> build) res" where
  "post_loop um n [] b = Inr (0, n, b)"
| "post_loop um n (wr # wrs) b =
     bind_res (post_one um n wr b) (\<lambda>(e, b1).
       if e \<noteq> 0 then Inr (e, n, b1) else post_loop um (Suc n) wrs b1)"

definition start_build :: "mlx5_qp \<Rightarrow> build" where
  "start_build qp = \<lparr>b_qp = qp, b_seg = 0, b_size = 0, b_ctrl = 0, b_index = 0, b_offset = 0,
     b_next_fence = fm_cache qp, b_inl = False\<rparr>"

definition finish_post :: "nat \<Rightarrow> build \<Rightarrow> mlx5_qp" where
  "finish_post n b = post_send_db n (b_inl b) (b_size b) (b_ctrl b) ((b_qp b)\<lparr>fm_cache := b_next_fence b\<rparr>)"

definition post_requests :: "user_mem \<Rightarrow> ibv_send_wr list \<Rightarrow> mlx5_qp \<Rightarrow> (nat \<times> nat \<times> mlx5_qp) res" where
  "post_requests um wrs qp =
     bind_res (post_loop um 0 wrs (start_build qp)) (\<lambda>(e, n, b). Inr (e, n, finish_post n b))"

text \<open>\<open>_mlx5_post_send\<close>: the forecast comes first.\<close>

definition mlx5_post_send ::
    "(ibv_qp \<Rightarrow> qp_attr) \<Rightarrow> (u8 list \<Rightarrow> string) \<Rightarrow> bool \<Rightarrow> int \<Rightarrow> int \<Rightarrow> user_mem \<Rightarrow> ibv_send_wr list \<Rightarrow>
     mlx5_qp \<times> SHM \<Rightarrow> (nat \<times> nat \<times> mlx5_qp \<times> SHM) res" where
  "mlx5_post_send query ntop att sec nsec um wrs s =
     (case s of (qp, shm) \<Rightarrow>
        bind_res (flow_forecast query ntop att sec nsec (ibqp qp) wrs shm) (\<lambda>shm'.
        bind_res (post_requests um wrs qp) (\<lambda>(e, n, qp').
          Inr (e, n, qp', shm'))))"

end
