(* ===== verification/Send_Wr.thy ===== *)
theory Send_Wr
  imports Post_Send
begin

text \<open>
  The extended posting interface of \<open>providers/mlx5/qp.c\<close>: a section opened by \<open>mlx5_send_wr_start\<close>,
  builders that open a descriptor, setters that fill it, and \<open>mlx5_send_wr_complete\<close> or
  \<open>mlx5_send_wr_abort\<close>.  Every operation is a function on the queue pair, which keeps the current
  descriptor in \<open>cur_ctrl\<close>, \<open>cur_data\<close> and \<open>cur_size\<close>; an error is recorded in \<open>qp_err\<close> and the operations
  that follow go on with the descriptor they find.  The identifier and the flags of the next request
  are \<open>ex_wr_id\<close> and \<open>ex_wr_flags\<close>.  \<open>cur_ctrl\<close> is a position from the first request on: the first
  request of a queue with \<open>max_post > 0\<close> never overflows.
\<close>

subsection \<open>Sections\<close>

definition mlx5_send_wr_start :: "mlx5_qp \<Rightarrow> mlx5_qp" where
  "mlx5_send_wr_start qp =
     qp\<lparr>cur_post_rb := cur_post (sq qp), fm_cache_rb := fm_cache qp, qp_err := 0, nreq := 0, inl_wqe := False\<rparr>"

definition roll_back :: "mlx5_qp \<Rightarrow> mlx5_qp" where
  "roll_back qp = qp\<lparr>sq := (sq qp)\<lparr>cur_post := cur_post_rb qp\<rparr>, fm_cache := fm_cache_rb qp\<rparr>"

definition mlx5_send_wr_complete :: "mlx5_qp \<Rightarrow> nat \<times> mlx5_qp" where
  "mlx5_send_wr_complete qp =
     (if qp_err qp \<noteq> 0 then (qp_err qp, roll_back qp)
      else (0, post_send_db (nreq qp) (inl_wqe qp) (cur_size qp) (cur_ctrl qp) qp))"

definition mlx5_send_wr_abort :: "mlx5_qp \<Rightarrow> mlx5_qp" where
  "mlx5_send_wr_abort qp = roll_back qp"

text \<open>The first error of a section is the one it reports.\<close>

definition set_err :: "nat \<Rightarrow> mlx5_qp \<Rightarrow> mlx5_qp" where
  "set_err e qp = (if qp_err qp = 0 then qp\<lparr>qp_err := e\<rparr> else qp)"

definition upd_mem :: "(mem \<Rightarrow> mem) \<Rightarrow> mlx5_qp \<Rightarrow> mlx5_qp" where
  "upd_mem f qp = qp\<lparr>sq_mem := f (sq_mem qp)\<rparr>"

subsection \<open>The control segment\<close>

text \<open>The opcode of the request is \<open>None\<close> for the \<open>-1\<close> of a copy by the device.\<close>

definition wr_data_of :: "ibv_wr_opcode option \<Rightarrow> u32 \<Rightarrow> u32" where
  "wr_data_of ib_op mlx5_op =
     (if ib_op = Some IBV_WR_BIND_MW then IBV_WC_BIND_MW
      else if ib_op = Some IBV_WR_LOCAL_INV then IBV_WC_LOCAL_INV
      else if ib_op = Some IBV_WR_DRIVER1 then IBV_WC_DRIVER1
      else if mlx5_op = MLX5_OPCODE_MMO then IBV_WC_DRIVER3
      else 0)"

definition common_wqe_init_op :: "ibv_wr_opcode option \<Rightarrow> u32 \<Rightarrow> mlx5_qp \<Rightarrow> mlx5_qp" where
  "common_wqe_init_op ib_op mlx5_op qp =
     (if mlx5_wq_overflow (sq qp) (nreq qp) then set_err ENOMEM qp
      else
        let idx = sq_idx qp; w = sq qp; ctrl = mlx5_get_send_wqe idx;
            fence = (if has_flag (ex_wr_flags qp) IBV_SEND_FENCE then MLX5_WQE_CTRL_FENCE else fm_cache qp);
            m = st_be32 ctrl (push_bit 8 (cur_post w AND 0xffff) OR mlx5_op)
                  (st8 (ctrl + 11) (ctrl_fm_ce_se qp fence (ex_wr_flags qp)) (memset0 (ctrl + 8) 4 (sq_mem qp)))
        in qp\<lparr>sq := w\<lparr>wrid := (wrid w)(idx := ex_wr_id qp),
                      wqe_head := (wqe_head w)(idx := wq_head w + of_nat (nreq qp)),
                      wr_data := (wr_data w)(idx := wr_data_of ib_op mlx5_op)\<rparr>,
              sq_mem := m, fm_cache := 0, cur_ctrl := ctrl\<rparr>)"

definition common_wqe_init :: "ibv_wr_opcode \<Rightarrow> mlx5_qp \<Rightarrow> mlx5_qp" where
  "common_wqe_init ib_op qp =
     common_wqe_init_op (Some ib_op) (case mlx5_ib_opcode ib_op of Some op \<Rightarrow> op | None \<Rightarrow> 0) qp"

definition wqe_finalize :: "mlx5_qp \<Rightarrow> mlx5_qp" where
  "wqe_finalize qp =
     (let m = sq_mem qp; ctrl = cur_ctrl qp
      in qp\<lparr>sq_mem := (if wq_sig qp then st8 (ctrl + 8) (wqe_sig ctrl m) m else m),
            sq := (sq qp)\<lparr>cur_post := cur_post (sq qp) + of_nat ((cur_size qp + 3) div 4)\<rparr>\<rparr>)"

definition common_wqe_finalize :: "mlx5_qp \<Rightarrow> mlx5_qp" where
  "common_wqe_finalize qp =
     wqe_finalize
       (upd_mem (st_be32 (cur_ctrl qp + 4) (of_nat (cur_size qp) OR push_bit 8 (qp_num (ibqp qp)))) qp)"

text \<open>A descriptor of a datagram, XRC or DC queue pair is complete after its second setter.\<close>

definition second_setter :: "mlx5_qp \<Rightarrow> mlx5_qp" where
  "second_setter qp =
     (if cur_setters_cnt qp = 2 - 1 then common_wqe_finalize qp
      else qp\<lparr>cur_setters_cnt := cur_setters_cnt qp + 1\<rparr>)"

subsection \<open>Builders\<close>

definition send_transport_sz :: "ibv_qp_type \<Rightarrow> nat" where
  "send_transport_sz t =
     (if t = IBV_QPT_UD \<or> t = IBV_QPT_DRIVER then 48 else if t = IBV_QPT_XRC_SEND then 16 else 0)"

definition mlx5_send_wr_send :: "ibv_wr_opcode \<Rightarrow> mlx5_qp \<Rightarrow> mlx5_qp" where
  "mlx5_send_wr_send ib_op qp =
     (let q = common_wqe_init ib_op qp; sz = send_transport_sz (qp_type (ibqp q))
      in q\<lparr>cur_data := wrap_end q (cur_ctrl q + 16 + sz), cur_size := (16 + sz) div 16,
           nreq := nreq q + 1, cur_setters_cnt := 0\<rparr>)"

definition mlx5_send_wr_send_other :: "mlx5_qp \<Rightarrow> mlx5_qp" where
  "mlx5_send_wr_send_other qp = mlx5_send_wr_send IBV_WR_SEND qp"

definition mlx5_send_wr_send_eth :: "mlx5_qp \<Rightarrow> mlx5_qp" where
  "mlx5_send_wr_send_eth qp =
     (let q = common_wqe_init IBV_WR_SEND qp; eseg = cur_ctrl q + 16; h = eth_min_inline_size q;
          q1 = upd_mem (memset0 eseg 32) q;
          q2 = (if h \<noteq> 0 then q1\<lparr>cur_eth := Some eseg\<rparr> else q1);
          csum = has_flag (ex_wr_flags q2) IBV_SEND_IP_CSUM
      in if csum \<and> \<not> has_flag (qp_cap_cache q2) MLX5_CSUM_SUPPORT_RAW_OVER_ETH then set_err EINVAL q2
         else
           let q3 = (if csum then upd_mem (eth_csum eseg) q2 else q2); sz = (16 + h) div 16 * 16
           in q3\<lparr>cur_data := eseg + sz, cur_size := (16 + sz) div 16, nreq := nreq q3 + 1\<rparr>)"

text \<open>The immediate data is in network order in memory; its value here is that of a host load.\<close>

definition mlx5_send_wr_send_imm :: "u32 \<Rightarrow> mlx5_qp \<Rightarrow> mlx5_qp" where
  "mlx5_send_wr_send_imm imm qp =
     (let q = mlx5_send_wr_send IBV_WR_SEND_WITH_IMM qp in upd_mem (st_le32 (cur_ctrl q + 12) imm) q)"

definition mlx5_send_wr_send_inv :: "u32 \<Rightarrow> mlx5_qp \<Rightarrow> mlx5_qp" where
  "mlx5_send_wr_send_inv invalidate_rkey qp =
     (let q = mlx5_send_wr_send IBV_WR_SEND_WITH_INV qp
      in upd_mem (st_be32 (cur_ctrl q + 12) invalidate_rkey) q)"

definition mlx5_send_wr_send_tso :: "user_mem \<Rightarrow> u64 \<Rightarrow> u16 \<Rightarrow> u16 \<Rightarrow> mlx5_qp \<Rightarrow> mlx5_qp" where
  "mlx5_send_wr_send_tso um hdr hdr_sz mss qp =
     (let q = common_wqe_init IBV_WR_TSO qp; eseg = cur_ctrl q + 16;
          q1 = upd_mem (memset0 eseg 32) q;
          csum = has_flag (ex_wr_flags q1) IBV_SEND_IP_CSUM
      in if csum \<and> \<not> has_flag (qp_cap_cache q1) MLX5_CSUM_SUPPORT_RAW_OVER_ETH then set_err EINVAL q1
         else
           let q2 = (if csum then upd_mem (eth_csum eseg) q1 else q1)
           in case set_tso_eth_seg um hdr hdr_sz mss q2 (eseg, 0, sq_mem q2) of
                (e, seg, sz, m) \<Rightarrow>
                  if e \<noteq> 0 then set_err e q2
                  else q2\<lparr>sq_mem := m, cur_data := seg + 32, cur_size := sz + 3, cur_eth := None,
                          nreq := nreq q2 + 1\<rparr>)"

definition rdma_transport_sz :: "ibv_qp_type \<Rightarrow> nat" where
  "rdma_transport_sz t = (if t = IBV_QPT_DRIVER then 48 else if t = IBV_QPT_XRC_SEND then 16 else 0)"

definition mlx5_send_wr_rdma :: "u32 \<Rightarrow> u64 \<Rightarrow> ibv_wr_opcode \<Rightarrow> mlx5_qp \<Rightarrow> mlx5_qp" where
  "mlx5_send_wr_rdma rkey remote_addr ib_op qp =
     (let q = common_wqe_init ib_op qp; sz = rdma_transport_sz (qp_type (ibqp q));
          rseg = wrap_end q (cur_ctrl q + 16 + sz)
      in (upd_mem (set_raddr_seg rseg remote_addr rkey) q)
           \<lparr>cur_data := rseg + 16, cur_size := (16 + sz + 16) div 16, nreq := nreq q + 1, cur_setters_cnt := 0\<rparr>)"

definition mlx5_send_wr_rdma_write :: "u32 \<Rightarrow> u64 \<Rightarrow> mlx5_qp \<Rightarrow> mlx5_qp" where
  "mlx5_send_wr_rdma_write rkey remote_addr = mlx5_send_wr_rdma rkey remote_addr IBV_WR_RDMA_WRITE"

definition mlx5_send_wr_rdma_write_imm :: "u32 \<Rightarrow> u64 \<Rightarrow> u32 \<Rightarrow> mlx5_qp \<Rightarrow> mlx5_qp" where
  "mlx5_send_wr_rdma_write_imm rkey remote_addr imm qp =
     (let q = mlx5_send_wr_rdma rkey remote_addr IBV_WR_RDMA_WRITE_WITH_IMM qp
      in upd_mem (st_le32 (cur_ctrl q + 12) imm) q)"

definition mlx5_send_wr_rdma_read :: "u32 \<Rightarrow> u64 \<Rightarrow> mlx5_qp \<Rightarrow> mlx5_qp" where
  "mlx5_send_wr_rdma_read rkey remote_addr = mlx5_send_wr_rdma rkey remote_addr IBV_WR_RDMA_READ"

definition mlx5_send_wr_atomic :: "u32 \<Rightarrow> u64 \<Rightarrow> u64 \<Rightarrow> u64 \<Rightarrow> ibv_wr_opcode \<Rightarrow> mlx5_qp \<Rightarrow> mlx5_qp" where
  "mlx5_send_wr_atomic rkey remote_addr compare_add swap ib_op qp =
     (let q = common_wqe_init ib_op qp; sz = rdma_transport_sz (qp_type (ibqp q));
          rseg = wrap_end q (cur_ctrl q + 16 + sz)
      in (upd_mem (\<lambda>m. set_atomic_seg (rseg + 16) ib_op swap compare_add (set_raddr_seg rseg remote_addr rkey m)) q)
           \<lparr>cur_data := wrap_end q (rseg + 16 + 16), cur_size := (16 + sz + 16 + 16) div 16, nreq := nreq q + 1,
            cur_setters_cnt := 0\<rparr>)"

definition mlx5_send_wr_atomic_cmp_swp :: "u32 \<Rightarrow> u64 \<Rightarrow> u64 \<Rightarrow> u64 \<Rightarrow> mlx5_qp \<Rightarrow> mlx5_qp" where
  "mlx5_send_wr_atomic_cmp_swp rkey remote_addr compare swap =
     mlx5_send_wr_atomic rkey remote_addr compare swap IBV_WR_ATOMIC_CMP_AND_SWP"

definition mlx5_send_wr_atomic_fetch_add :: "u32 \<Rightarrow> u64 \<Rightarrow> u64 \<Rightarrow> mlx5_qp \<Rightarrow> mlx5_qp" where
  "mlx5_send_wr_atomic_fetch_add rkey remote_addr add =
     mlx5_send_wr_atomic rkey remote_addr add 0 IBV_WR_ATOMIC_FETCH_AND_ADD"

definition build_umr_wqe :: "u32 \<Rightarrow> u32 \<Rightarrow> ibv_mw_bind_info \<Rightarrow> ibv_wr_opcode \<Rightarrow> mlx5_qp \<Rightarrow> mlx5_qp" where
  "build_umr_wqe orig_rkey new_rkey bi ib_op qp =
     (let q = common_wqe_init ib_op qp; q1 = upd_mem (st_be32 (cur_ctrl q + 12) orig_rkey) q
      in case set_bind_wr q1 IBV_MW_TYPE_2 new_rkey bi (qp_num (ibqp q1)) (cur_ctrl q1 + 16, 1, sq_mem q1) of
           (e, _, sz, m) \<Rightarrow>
             if e \<noteq> 0 then set_err e q1
             else common_wqe_finalize
                    (q1\<lparr>sq_mem := m, cur_size := sz, fm_cache := MLX5_WQE_CTRL_INITIATOR_SMALL_FENCE,
                        nreq := nreq q1 + 1\<rparr>))"

definition mlx5_send_wr_bind_mw :: "u32 \<Rightarrow> u32 \<Rightarrow> ibv_mw_bind_info \<Rightarrow> mlx5_qp \<Rightarrow> mlx5_qp" where
  "mlx5_send_wr_bind_mw mw_rkey rkey bi = build_umr_wqe mw_rkey rkey bi IBV_WR_BIND_MW"

definition mlx5_send_wr_local_inv :: "u32 \<Rightarrow> mlx5_qp \<Rightarrow> mlx5_qp" where
  "mlx5_send_wr_local_inv invalidate_rkey = build_umr_wqe invalidate_rkey 0 no_bind IBV_WR_LOCAL_INV"

subsection \<open>Scatter entries\<close>

definition put_data_seg :: "nat \<Rightarrow> u32 \<Rightarrow> u64 \<Rightarrow> u32 \<Rightarrow> mem \<Rightarrow> mem" where
  "put_data_seg dseg lkey addr len m =
     st_be64 (dseg + 8) addr (st_be32 (dseg + 4) lkey (st_be32 dseg len m))"

definition mlx5_send_wr_set_sge :: "u32 \<Rightarrow> u64 \<Rightarrow> u32 \<Rightarrow> mlx5_qp \<Rightarrow> mlx5_qp" where
  "mlx5_send_wr_set_sge lkey addr len qp =
     (if len = 0 then qp
      else (upd_mem (put_data_seg (cur_data qp) lkey addr len) qp)\<lparr>cur_size := cur_size qp + 1\<rparr>)"

definition mlx5_send_wr_set_sge_rc_uc :: "u32 \<Rightarrow> u64 \<Rightarrow> u32 \<Rightarrow> mlx5_qp \<Rightarrow> mlx5_qp" where
  "mlx5_send_wr_set_sge_rc_uc lkey addr len qp = common_wqe_finalize (mlx5_send_wr_set_sge lkey addr len qp)"

definition mlx5_send_wr_set_sge_ud_xrc_dc :: "u32 \<Rightarrow> u64 \<Rightarrow> u32 \<Rightarrow> mlx5_qp \<Rightarrow> mlx5_qp" where
  "mlx5_send_wr_set_sge_ud_xrc_dc lkey addr len qp = second_setter (mlx5_send_wr_set_sge lkey addr len qp)"

text \<open>A list with the one buffer a caller passes.\<close>

definition one_buf :: "u64 \<Rightarrow> nat \<Rightarrow> nat \<Rightarrow> (u64 \<times> nat) res" where
  "one_buf a len j = (if j = 0 then Inr (a, len) else Inl OutOfBounds)"

text \<open>
  The inline headers of an Ethernet descriptor, when it has them: the position in the list after them,
  or the queue pair with the error recorded.
\<close>

definition eth_headers ::
    "user_mem \<Rightarrow> (nat \<Rightarrow> (u64 \<times> nat) res) \<Rightarrow> nat \<Rightarrow> mlx5_qp \<Rightarrow> (bool \<times> (int \<times> int) \<times> mlx5_qp) res" where
  "eth_headers um get nelem qp =
     (case cur_eth qp of
        None \<Rightarrow> Inr (True, (0, 0), qp)
      | Some eseg \<Rightarrow>
          bind_res (copy_eth_inline_headers um (eth_min_inline_size qp) get nelem eseg (sq_mem qp))
            (\<lambda>(e, ptr, m).
               let q = qp\<lparr>sq_mem := m\<rparr>
               in if e \<noteq> 0 then Inr (False, ptr, set_err e q) else Inr (True, ptr, q)))"

definition mlx5_send_wr_set_sge_eth :: "user_mem \<Rightarrow> u32 \<Rightarrow> u64 \<Rightarrow> u32 \<Rightarrow> mlx5_qp \<Rightarrow> mlx5_qp res" where
  "mlx5_send_wr_set_sge_eth um lkey addr len qp =
     bind_res (eth_headers um (one_buf addr (unat len)) 1 qp) (\<lambda>(ok, (_, off), q).
       if \<not> ok then Inr q
       else Inr (common_wqe_finalize (mlx5_send_wr_set_sge lkey (addr + of_int off) (len - of_int off) q)))"

text \<open>An array of scatter entries, and an array of buffers.\<close>

definition arr :: "'a list \<Rightarrow> nat \<Rightarrow> 'a res" where
  "arr xs i = (if i < length xs then Inr (xs ! i) else Inl OutOfBounds)"

fun sge_list_loop :: "ibv_sge list \<Rightarrow> nat \<Rightarrow> nat \<Rightarrow> nat \<Rightarrow> mlx5_qp \<Rightarrow> mlx5_qp res" where
  "sge_list_loop xs 0 i dseg qp = Inr qp"
| "sge_list_loop xs (Suc n) i dseg qp =
     bind_res (arr xs i) (\<lambda>sg.
       let d = wrap_end qp dseg
       in if sge_length sg = 0 then sge_list_loop xs n (Suc i) d qp
          else sge_list_loop xs n (Suc i) (d + 16)
                 ((upd_mem (put_data_seg d (sge_lkey sg) (sge_addr sg) (sge_length sg)) qp)
                    \<lparr>cur_size := cur_size qp + 1\<rparr>))"

definition mlx5_send_wr_set_sge_list :: "nat \<Rightarrow> ibv_sge list \<Rightarrow> mlx5_qp \<Rightarrow> mlx5_qp res" where
  "mlx5_send_wr_set_sge_list num_sges xs qp =
     (if as_size_t (max_gs (sq qp)) < num_sges then Inr (set_err ENOMEM qp)
      else sge_list_loop xs num_sges 0 (cur_data qp) qp)"

definition mlx5_send_wr_set_sge_list_rc_uc :: "nat \<Rightarrow> ibv_sge list \<Rightarrow> mlx5_qp \<Rightarrow> mlx5_qp res" where
  "mlx5_send_wr_set_sge_list_rc_uc num_sges xs qp =
     bind_res (mlx5_send_wr_set_sge_list num_sges xs qp) (\<lambda>q. Inr (common_wqe_finalize q))"

definition mlx5_send_wr_set_sge_list_ud_xrc_dc :: "nat \<Rightarrow> ibv_sge list \<Rightarrow> mlx5_qp \<Rightarrow> mlx5_qp res" where
  "mlx5_send_wr_set_sge_list_ud_xrc_dc num_sges xs qp =
     bind_res (mlx5_send_wr_set_sge_list num_sges xs qp) (\<lambda>q. Inr (second_setter q))"

fun sge_list_eth_loop :: "ibv_sge list \<Rightarrow> nat \<Rightarrow> nat \<Rightarrow> int \<Rightarrow> nat \<Rightarrow> mlx5_qp \<Rightarrow> mlx5_qp res" where
  "sge_list_eth_loop xs 0 i off dseg qp = Inr qp"
| "sge_list_eth_loop xs (Suc n) i off dseg qp =
     bind_res (arr xs i) (\<lambda>sg.
       let len = sge_length sg - of_int off; d = wrap_end qp dseg
       in if len = 0 then sge_list_eth_loop xs n (Suc i) off dseg qp
          else sge_list_eth_loop xs n (Suc i) 0 (d + 16)
                 ((upd_mem (put_data_seg d (sge_lkey sg) (sge_addr sg + of_int off) len) qp)
                    \<lparr>cur_size := cur_size qp + 1\<rparr>))"

definition sges_buf :: "ibv_sge list \<Rightarrow> nat \<Rightarrow> (u64 \<times> nat) res" where
  "sges_buf xs j = bind_res (arr xs j) (\<lambda>s. Inr (sge_addr s, unat (sge_length s)))"

definition mlx5_send_wr_set_sge_list_eth :: "user_mem \<Rightarrow> nat \<Rightarrow> ibv_sge list \<Rightarrow> mlx5_qp \<Rightarrow> mlx5_qp res" where
  "mlx5_send_wr_set_sge_list_eth um num_sges xs qp =
     (if as_size_t (max_gs (sq qp)) < num_sges then Inr (set_err ENOMEM qp)
      else bind_res (eth_headers um (sges_buf xs) num_sges qp) (\<lambda>(ok, (idx, off), q).
        if \<not> ok then Inr q
        else bind_res (sge_list_eth_loop xs (num_sges - nat idx) (nat idx) off (cur_data q) q)
               (\<lambda>q1. Inr (common_wqe_finalize q1))))"

subsection \<open>Inline data\<close>

definition mlx5_send_wr_set_inline_data :: "user_mem \<Rightarrow> u64 \<Rightarrow> nat \<Rightarrow> mlx5_qp \<Rightarrow> mlx5_qp res" where
  "mlx5_send_wr_set_inline_data um addr len qp =
     (if as_size_t (max_inline_data qp) < len then Inr (set_err ENOMEM qp)
      else
        let q = qp\<lparr>inl_wqe := True\<rparr>; dseg = cur_data qp
        in if len = 0 then Inr q
           else bind_res (memcpy_to_wqe_and_update (qend (sq qp)) (dseg + 4) (user_bytes um addr len) (sq_mem qp))
                  (\<lambda>(_, m). Inr (q\<lparr>sq_mem := st_be32 dseg (of_nat len OR MLX5_INLINE_SEG) m,
                                  cur_size := cur_size qp + (len + 4 + 15) div 16\<rparr>)))"

definition mlx5_send_wr_set_inline_data_rc_uc :: "user_mem \<Rightarrow> u64 \<Rightarrow> nat \<Rightarrow> mlx5_qp \<Rightarrow> mlx5_qp res" where
  "mlx5_send_wr_set_inline_data_rc_uc um addr len qp =
     bind_res (mlx5_send_wr_set_inline_data um addr len qp) (\<lambda>q. Inr (common_wqe_finalize q))"

definition mlx5_send_wr_set_inline_data_ud_xrc_dc :: "user_mem \<Rightarrow> u64 \<Rightarrow> nat \<Rightarrow> mlx5_qp \<Rightarrow> mlx5_qp res" where
  "mlx5_send_wr_set_inline_data_ud_xrc_dc um addr len qp =
     bind_res (mlx5_send_wr_set_inline_data um addr len qp) (\<lambda>q. Inr (second_setter q))"

definition mlx5_send_wr_set_inline_data_eth :: "user_mem \<Rightarrow> u64 \<Rightarrow> nat \<Rightarrow> mlx5_qp \<Rightarrow> mlx5_qp res" where
  "mlx5_send_wr_set_inline_data_eth um addr len qp =
     bind_res (eth_headers um (one_buf addr len) 1 qp) (\<lambda>(ok, (_, off), q).
       if \<not> ok then Inr q
       else bind_res (mlx5_send_wr_set_inline_data um (addr + of_int off) (len - nat off) q)
              (\<lambda>q1. Inr (common_wqe_finalize q1)))"

text \<open>
  The loop over the buffers; the result says whether they all fit, with the number of bytes and the
  memory.  Sizes are of type \<open>size_t\<close>.
\<close>

fun inline_list_loop ::
    "user_mem \<Rightarrow> nat \<Rightarrow> nat \<Rightarrow> (u64 \<times> nat) list \<Rightarrow> nat \<Rightarrow> nat \<Rightarrow> nat \<Rightarrow> nat \<times> nat \<times> mem \<Rightarrow> (bool \<times> nat \<times> mem) res" where
  "inline_list_loop um qe maxi xs 0 i off s = (case s of (_, inl, m) \<Rightarrow> Inr (True, inl, m))"
| "inline_list_loop um qe maxi xs (Suc n) i off s =
     (case s of (wqe, inl, m) \<Rightarrow>
        bind_res (arr xs i) (\<lambda>(a, l).
          let len = l - off; inl' = (inl + len) mod 2 ^ 64
          in if maxi < inl' then Inr (False, inl', m)
             else bind_res (memcpy_to_wqe_and_update qe wqe (user_bytes um (a + of_nat off) len) m)
                    (\<lambda>(wqe', m'). inline_list_loop um qe maxi xs n (Suc i) 0 (wqe', inl', m'))))"

definition inline_header :: "nat \<Rightarrow> nat \<Rightarrow> mlx5_qp \<Rightarrow> mlx5_qp" where
  "inline_header dseg inl qp =
     (if inl = 0 then qp
      else (upd_mem (st_be32 dseg (of_nat inl OR MLX5_INLINE_SEG)) qp)
             \<lparr>cur_size := cur_size qp + (inl + 4 + 15) div 16\<rparr>)"

definition mlx5_send_wr_set_inline_data_list ::
    "user_mem \<Rightarrow> nat \<Rightarrow> (u64 \<times> nat) list \<Rightarrow> mlx5_qp \<Rightarrow> mlx5_qp res" where
  "mlx5_send_wr_set_inline_data_list um num_buf bufs qp =
     bind_res
       (inline_list_loop um (qend (sq qp)) (as_size_t (max_inline_data qp)) bufs num_buf 0 0
          (cur_data qp + 4, 0, sq_mem qp))
       (\<lambda>(fits, inl, m).
          let q = qp\<lparr>sq_mem := m\<rparr>
          in if \<not> fits then Inr (set_err ENOMEM q)
             else Inr (inline_header (cur_data qp) inl (q\<lparr>inl_wqe := True\<rparr>)))"

definition mlx5_send_wr_set_inline_data_list_rc_uc ::
    "user_mem \<Rightarrow> nat \<Rightarrow> (u64 \<times> nat) list \<Rightarrow> mlx5_qp \<Rightarrow> mlx5_qp res" where
  "mlx5_send_wr_set_inline_data_list_rc_uc um num_buf bufs qp =
     bind_res (mlx5_send_wr_set_inline_data_list um num_buf bufs qp) (\<lambda>q. Inr (common_wqe_finalize q))"

definition mlx5_send_wr_set_inline_data_list_ud_xrc_dc ::
    "user_mem \<Rightarrow> nat \<Rightarrow> (u64 \<times> nat) list \<Rightarrow> mlx5_qp \<Rightarrow> mlx5_qp res" where
  "mlx5_send_wr_set_inline_data_list_ud_xrc_dc um num_buf bufs qp =
     bind_res (mlx5_send_wr_set_inline_data_list um num_buf bufs qp) (\<lambda>q. Inr (second_setter q))"

definition mlx5_send_wr_set_inline_data_list_eth ::
    "user_mem \<Rightarrow> nat \<Rightarrow> (u64 \<times> nat) list \<Rightarrow> mlx5_qp \<Rightarrow> mlx5_qp res" where
  "mlx5_send_wr_set_inline_data_list_eth um num_buf bufs qp =
     bind_res (eth_headers um (arr bufs) num_buf qp) (\<lambda>(ok, (idx, off), q).
       if \<not> ok then Inr q
       else bind_res
         (inline_list_loop um (qend (sq q)) (as_size_t (max_inline_data q)) bufs (num_buf - nat idx) (nat idx)
            (nat off) (cur_data q + 4, 0, sq_mem q))
         (\<lambda>(fits, inl, m).
            let q1 = q\<lparr>sq_mem := m\<rparr>
            in if \<not> fits then Inr (set_err EINVAL q1)
               else Inr (common_wqe_finalize ((inline_header (cur_data q) inl q1)\<lparr>inl_wqe := True\<rparr>))))"

subsection \<open>Addresses\<close>

definition mlx5_send_wr_set_ud_addr :: "u8 list \<Rightarrow> u32 \<Rightarrow> u32 \<Rightarrow> mlx5_qp \<Rightarrow> mlx5_qp" where
  "mlx5_send_wr_set_ud_addr av remote_qpn remote_qkey qp =
     second_setter (upd_mem (set_datagram_seg (cur_ctrl qp + 16) av remote_qpn remote_qkey) qp)"

definition mlx5_send_wr_set_xrc_srqn :: "u32 \<Rightarrow> mlx5_qp \<Rightarrow> mlx5_qp" where
  "mlx5_send_wr_set_xrc_srqn remote_srqn qp =
     second_setter (upd_mem (st_be32 (cur_ctrl qp + 16) remote_srqn) qp)"

text \<open>The destination is merged into the one of the address vector.\<close>

definition set_dc_seg :: "nat \<Rightarrow> u8 list \<Rightarrow> u32 \<Rightarrow> u64 \<Rightarrow> mem \<Rightarrow> mem" where
  "set_dc_seg dseg av dctn dc_key m =
     (let m1 = store dseg (take 48 av) m
      in st_be64 dseg dc_key (st_be32 (dseg + 8) (ld_be32 (dseg + 8) m1 OR (dctn OR MLX5_EXTENDED_UD_AV)) m1))"

definition mlx5_send_wr_set_dc_addr :: "u8 list \<Rightarrow> u32 \<Rightarrow> u64 \<Rightarrow> mlx5_qp \<Rightarrow> mlx5_qp" where
  "mlx5_send_wr_set_dc_addr av dctn dc_key qp =
     second_setter (upd_mem (set_dc_seg (cur_ctrl qp + 16) av dctn dc_key) qp)"

definition mlx5_send_wr_set_dc_addr_stream :: "u8 list \<Rightarrow> u32 \<Rightarrow> u64 \<Rightarrow> u16 \<Rightarrow> mlx5_qp \<Rightarrow> mlx5_qp" where
  "mlx5_send_wr_set_dc_addr_stream av dctn dc_key stream_id qp =
     mlx5_send_wr_set_dc_addr av dctn dc_key (upd_mem (st_be16 (cur_ctrl qp + 9) stream_id) qp)"

subsection \<open>Raw descriptors and copies by the device\<close>

definition raw_wqe_init :: "mlx5_qp \<Rightarrow> mlx5_qp" where
  "raw_wqe_init qp =
     (if mlx5_wq_overflow (sq qp) (nreq qp) then set_err ENOMEM qp
      else
        let idx = sq_idx qp; w = sq qp
        in qp\<lparr>sq := w\<lparr>wrid := (wrid w)(idx := ex_wr_id qp),
                      wqe_head := (wqe_head w)(idx := wq_head w + of_nat (nreq qp)),
                      wr_data := (wr_data w)(idx := IBV_WC_DRIVER2)\<rparr>,
              fm_cache := 0, cur_ctrl := mlx5_get_send_wqe idx\<rparr>)"

text \<open>The descriptor of the caller is \<open>wqe\<close>, a memory of its own.\<close>

definition mlx5_wr_raw_wqe :: "mem \<Rightarrow> mlx5_qp \<Rightarrow> mlx5_qp" where
  "mlx5_wr_raw_wqe wqe qp =
     (let ds = unat (ld_be32 4 wqe AND 0x3f); q = raw_wqe_init qp; ctrl = cur_ctrl q;
          m = snd (copy_wrap (qend (sq q)) ctrl (load_bytes 0 (ds * 16) wqe) (sq_mem q));
          op = (ld_be32 0 wqe AND 0xff0000ff) OR push_bit 8 (cur_post (sq q) AND 0xffff)
      in wqe_finalize (q\<lparr>sq_mem := st_be32 ctrl op m, cur_size := ds, nreq := nreq q + 1\<rparr>))"

text \<open>
  \<open>dma_max\<close> is the limit of the device; \<open>opaque_lkey\<close> and \<open>opaque_buf\<close> belong to the protection domain.
  \<open>MLX5_OPC_MOD_MMO_DMA\<close> is 1 and \<open>MLX5_DMA_MMO_MAX_SIZE\<close> is 2 GB.
\<close>

definition mlx5_wr_memcpy ::
    "nat \<Rightarrow> u32 \<Rightarrow> u64 \<Rightarrow> u32 \<Rightarrow> u64 \<Rightarrow> u32 \<Rightarrow> u64 \<Rightarrow> nat \<Rightarrow> mlx5_qp \<Rightarrow> mlx5_qp" where
  "mlx5_wr_memcpy dma_max opaque_lkey opaque_buf dest_lkey dest_addr src_lkey src_addr len qp =
     (if len = 0 \<or> dma_max < len then set_err EINVAL qp
      else
        let l = (if len = 2 ^ 31 then 0 else of_nat len);
            q = common_wqe_init_op None MLX5_OPCODE_MMO qp; ctrl = cur_ctrl q;
            m = sq_mem q;
            m1 = st_be32 ctrl ((ld_be32 ctrl m AND 0xffffff) OR push_bit 24 1) m;
            m2 = st_be64 (ctrl + 24) opaque_buf (st_be32 (ctrl + 20) opaque_lkey (st_be32 (ctrl + 16) 0 m1));
            m3 = put_data_seg (ctrl + 48) dest_lkey dest_addr l (put_data_seg (ctrl + 32) src_lkey src_addr l m2)
        in common_wqe_finalize (q\<lparr>sq_mem := m3, cur_size := 4, nreq := nreq q + 1\<rparr>))"

end
