(* ===== verification/Wr_Pfns.thy ===== *)
theory Wr_Pfns
  imports Send_Wr
begin

text \<open>
  \<open>mlx5_qp_fill_wr_pfns\<close>: the table of function pointers that a queue pair with the extended interface
  gets at creation, by queue-pair type, and the tests that refuse an unsupported set of operations.
  A null pointer is \<open>None\<close>.  The builders of memory keys are not modelled; that they are installed is
  the flag \<open>dv_mkey_fns\<close>.
\<close>

abbreviation (input) IBV_QP_EX_WITH_RDMA_WRITE :: u64 where "IBV_QP_EX_WITH_RDMA_WRITE \<equiv> 0x1"
abbreviation (input) IBV_QP_EX_WITH_RDMA_WRITE_WITH_IMM :: u64 where "IBV_QP_EX_WITH_RDMA_WRITE_WITH_IMM \<equiv> 0x2"
abbreviation (input) IBV_QP_EX_WITH_SEND :: u64 where "IBV_QP_EX_WITH_SEND \<equiv> 0x4"
abbreviation (input) IBV_QP_EX_WITH_SEND_WITH_IMM :: u64 where "IBV_QP_EX_WITH_SEND_WITH_IMM \<equiv> 0x8"
abbreviation (input) IBV_QP_EX_WITH_RDMA_READ :: u64 where "IBV_QP_EX_WITH_RDMA_READ \<equiv> 0x10"
abbreviation (input) IBV_QP_EX_WITH_ATOMIC_CMP_AND_SWP :: u64 where "IBV_QP_EX_WITH_ATOMIC_CMP_AND_SWP \<equiv> 0x20"
abbreviation (input) IBV_QP_EX_WITH_ATOMIC_FETCH_AND_ADD :: u64 where "IBV_QP_EX_WITH_ATOMIC_FETCH_AND_ADD \<equiv> 0x40"
abbreviation (input) IBV_QP_EX_WITH_LOCAL_INV :: u64 where "IBV_QP_EX_WITH_LOCAL_INV \<equiv> 0x80"
abbreviation (input) IBV_QP_EX_WITH_BIND_MW :: u64 where "IBV_QP_EX_WITH_BIND_MW \<equiv> 0x100"
abbreviation (input) IBV_QP_EX_WITH_SEND_WITH_INV :: u64 where "IBV_QP_EX_WITH_SEND_WITH_INV \<equiv> 0x200"
abbreviation (input) IBV_QP_EX_WITH_TSO :: u64 where "IBV_QP_EX_WITH_TSO \<equiv> 0x400"

abbreviation (input) MLX5DV_QP_EX_WITH_RAW_WQE :: u64 where "MLX5DV_QP_EX_WITH_RAW_WQE \<equiv> 0x8"
abbreviation (input) MLX5DV_QP_EX_WITH_MEMCPY :: u64 where "MLX5DV_QP_EX_WITH_MEMCPY \<equiv> 0x10"

definition MLX5_SUPPORTED_SEND_OPS_FLAGS_RC :: u64 where
  "MLX5_SUPPORTED_SEND_OPS_FLAGS_RC =
     IBV_QP_EX_WITH_SEND OR IBV_QP_EX_WITH_SEND_WITH_INV OR IBV_QP_EX_WITH_SEND_WITH_IMM OR
     IBV_QP_EX_WITH_RDMA_WRITE OR IBV_QP_EX_WITH_RDMA_WRITE_WITH_IMM OR IBV_QP_EX_WITH_RDMA_READ OR
     IBV_QP_EX_WITH_ATOMIC_CMP_AND_SWP OR IBV_QP_EX_WITH_ATOMIC_FETCH_AND_ADD OR
     IBV_QP_EX_WITH_LOCAL_INV OR IBV_QP_EX_WITH_BIND_MW"

definition MLX5_SUPPORTED_SEND_OPS_FLAGS_UD :: u64 where
  "MLX5_SUPPORTED_SEND_OPS_FLAGS_UD = IBV_QP_EX_WITH_SEND OR IBV_QP_EX_WITH_SEND_WITH_IMM"

definition MLX5_SUPPORTED_SEND_OPS_FLAGS_UC :: u64 where
  "MLX5_SUPPORTED_SEND_OPS_FLAGS_UC =
     IBV_QP_EX_WITH_SEND OR IBV_QP_EX_WITH_SEND_WITH_INV OR IBV_QP_EX_WITH_SEND_WITH_IMM OR
     IBV_QP_EX_WITH_RDMA_WRITE OR IBV_QP_EX_WITH_RDMA_WRITE_WITH_IMM OR IBV_QP_EX_WITH_LOCAL_INV OR
     IBV_QP_EX_WITH_BIND_MW"

definition MLX5_SUPPORTED_SEND_OPS_FLAGS_RAW_PACKET :: u64 where
  "MLX5_SUPPORTED_SEND_OPS_FLAGS_RAW_PACKET = IBV_QP_EX_WITH_SEND OR IBV_QP_EX_WITH_TSO"

type_synonym op0 = "(mlx5_qp \<Rightarrow> mlx5_qp) option"

record wr_pfns =
  wr_start :: op0
  wr_complete :: "(mlx5_qp \<Rightarrow> nat \<times> mlx5_qp) option"
  wr_abort :: op0
  wr_send :: op0
  wr_send_imm :: "(u32 \<Rightarrow> mlx5_qp \<Rightarrow> mlx5_qp) option"
  wr_send_inv :: "(u32 \<Rightarrow> mlx5_qp \<Rightarrow> mlx5_qp) option"
  wr_send_tso :: "(user_mem \<Rightarrow> u64 \<Rightarrow> u16 \<Rightarrow> u16 \<Rightarrow> mlx5_qp \<Rightarrow> mlx5_qp) option"
  wr_rdma_write :: "(u32 \<Rightarrow> u64 \<Rightarrow> mlx5_qp \<Rightarrow> mlx5_qp) option"
  wr_rdma_write_imm :: "(u32 \<Rightarrow> u64 \<Rightarrow> u32 \<Rightarrow> mlx5_qp \<Rightarrow> mlx5_qp) option"
  wr_rdma_read :: "(u32 \<Rightarrow> u64 \<Rightarrow> mlx5_qp \<Rightarrow> mlx5_qp) option"
  wr_atomic_cmp_swp :: "(u32 \<Rightarrow> u64 \<Rightarrow> u64 \<Rightarrow> u64 \<Rightarrow> mlx5_qp \<Rightarrow> mlx5_qp) option"
  wr_atomic_fetch_add :: "(u32 \<Rightarrow> u64 \<Rightarrow> u64 \<Rightarrow> mlx5_qp \<Rightarrow> mlx5_qp) option"
  wr_bind_mw :: "(u32 \<Rightarrow> u32 \<Rightarrow> ibv_mw_bind_info \<Rightarrow> mlx5_qp \<Rightarrow> mlx5_qp) option"
  wr_local_inv :: "(u32 \<Rightarrow> mlx5_qp \<Rightarrow> mlx5_qp) option"
  wr_set_sge :: "(user_mem \<Rightarrow> u32 \<Rightarrow> u64 \<Rightarrow> u32 \<Rightarrow> mlx5_qp \<Rightarrow> mlx5_qp res) option"
  wr_set_sge_list :: "(user_mem \<Rightarrow> nat \<Rightarrow> ibv_sge list \<Rightarrow> mlx5_qp \<Rightarrow> mlx5_qp res) option"
  wr_set_inline_data :: "(user_mem \<Rightarrow> u64 \<Rightarrow> nat \<Rightarrow> mlx5_qp \<Rightarrow> mlx5_qp res) option"
  wr_set_inline_data_list :: "(user_mem \<Rightarrow> nat \<Rightarrow> (u64 \<times> nat) list \<Rightarrow> mlx5_qp \<Rightarrow> mlx5_qp res) option"
  wr_set_ud_addr :: "(u8 list \<Rightarrow> u32 \<Rightarrow> u32 \<Rightarrow> mlx5_qp \<Rightarrow> mlx5_qp) option"
  wr_set_xrc_srqn :: "(u32 \<Rightarrow> mlx5_qp \<Rightarrow> mlx5_qp) option"
  dv_set_dc_addr :: "(u8 list \<Rightarrow> u32 \<Rightarrow> u64 \<Rightarrow> mlx5_qp \<Rightarrow> mlx5_qp) option"
  dv_set_dc_addr_stream :: "(u8 list \<Rightarrow> u32 \<Rightarrow> u64 \<Rightarrow> u16 \<Rightarrow> mlx5_qp \<Rightarrow> mlx5_qp) option"
  dv_raw_wqe :: "(mem \<Rightarrow> mlx5_qp \<Rightarrow> mlx5_qp) option"
  dv_memcpy :: "(nat \<Rightarrow> u32 \<Rightarrow> u64 \<Rightarrow> u32 \<Rightarrow> u64 \<Rightarrow> u32 \<Rightarrow> u64 \<Rightarrow> nat \<Rightarrow> mlx5_qp \<Rightarrow> mlx5_qp) option"
  dv_mkey_fns :: bool

definition fill_wr_builders_rc_xrc_dc :: "wr_pfns \<Rightarrow> wr_pfns" where
  "fill_wr_builders_rc_xrc_dc f =
     f\<lparr>wr_send := Some mlx5_send_wr_send_other,
       wr_send_imm := Some mlx5_send_wr_send_imm,
       wr_send_inv := Some mlx5_send_wr_send_inv,
       wr_rdma_write := Some mlx5_send_wr_rdma_write,
       wr_rdma_write_imm := Some mlx5_send_wr_rdma_write_imm,
       wr_rdma_read := Some mlx5_send_wr_rdma_read,
       wr_atomic_cmp_swp := Some mlx5_send_wr_atomic_cmp_swp,
       wr_atomic_fetch_add := Some mlx5_send_wr_atomic_fetch_add,
       wr_bind_mw := Some mlx5_send_wr_bind_mw,
       wr_local_inv := Some mlx5_send_wr_local_inv\<rparr>"

definition fill_wr_builders_uc :: "wr_pfns \<Rightarrow> wr_pfns" where
  "fill_wr_builders_uc f =
     f\<lparr>wr_send := Some mlx5_send_wr_send_other,
       wr_send_imm := Some mlx5_send_wr_send_imm,
       wr_send_inv := Some mlx5_send_wr_send_inv,
       wr_rdma_write := Some mlx5_send_wr_rdma_write,
       wr_rdma_write_imm := Some mlx5_send_wr_rdma_write_imm,
       wr_bind_mw := Some mlx5_send_wr_bind_mw,
       wr_local_inv := Some mlx5_send_wr_local_inv\<rparr>"

definition fill_wr_builders_ud :: "wr_pfns \<Rightarrow> wr_pfns" where
  "fill_wr_builders_ud f =
     f\<lparr>wr_send := Some mlx5_send_wr_send_other,
       wr_send_imm := Some mlx5_send_wr_send_imm\<rparr>"

definition fill_wr_builders_eth :: "wr_pfns \<Rightarrow> wr_pfns" where
  "fill_wr_builders_eth f =
     f\<lparr>wr_send := Some mlx5_send_wr_send_eth,
       wr_send_tso := Some mlx5_send_wr_send_tso\<rparr>"

definition fill_wr_setters_rc_uc :: "wr_pfns \<Rightarrow> wr_pfns" where
  "fill_wr_setters_rc_uc f =
     f\<lparr>wr_set_sge := Some (\<lambda>um lkey addr len qp. Inr (mlx5_send_wr_set_sge_rc_uc lkey addr len qp)),
       wr_set_sge_list := Some (\<lambda>um. mlx5_send_wr_set_sge_list_rc_uc),
       wr_set_inline_data := Some mlx5_send_wr_set_inline_data_rc_uc,
       wr_set_inline_data_list := Some mlx5_send_wr_set_inline_data_list_rc_uc\<rparr>"

definition fill_wr_setters_ud_xrc_dc :: "wr_pfns \<Rightarrow> wr_pfns" where
  "fill_wr_setters_ud_xrc_dc f =
     f\<lparr>wr_set_sge := Some (\<lambda>um lkey addr len qp. Inr (mlx5_send_wr_set_sge_ud_xrc_dc lkey addr len qp)),
       wr_set_sge_list := Some (\<lambda>um. mlx5_send_wr_set_sge_list_ud_xrc_dc),
       wr_set_inline_data := Some mlx5_send_wr_set_inline_data_ud_xrc_dc,
       wr_set_inline_data_list := Some mlx5_send_wr_set_inline_data_list_ud_xrc_dc\<rparr>"

definition fill_wr_setters_eth :: "wr_pfns \<Rightarrow> wr_pfns" where
  "fill_wr_setters_eth f =
     f\<lparr>wr_set_sge := Some mlx5_send_wr_set_sge_eth,
       wr_set_sge_list := Some mlx5_send_wr_set_sge_list_eth,
       wr_set_inline_data := Some mlx5_send_wr_set_inline_data_eth,
       wr_set_inline_data_list := Some mlx5_send_wr_set_inline_data_list_eth\<rparr>"

text \<open>
  What the function reads of \<open>mlx5_attr\<close>: the operations when its mask has them, and whether it
  describes the initiator of a DC connection.
\<close>

record dv_attr =
  dv_has_ops :: bool
  dv_ops :: u64
  dv_is_dci :: bool

definition only :: "u64 \<Rightarrow> u64 \<Rightarrow> bool" where
  "only supported ops \<longleftrightarrow> ops AND NOT supported = 0"

definition fill_by_type :: "ibv_qp_type \<Rightarrow> u64 \<Rightarrow> u64 \<Rightarrow> dv_attr option \<Rightarrow> u32 \<Rightarrow> wr_pfns \<Rightarrow> (nat \<times> wr_pfns) res" where
  "fill_by_type t ops mlx5_ops at flags f =
     (case t of
        IBV_QPT_RC \<Rightarrow>
          if \<not> only MLX5_SUPPORTED_SEND_OPS_FLAGS_RC ops then Inr (EOPNOTSUPP, f)
          else let f1 = fill_wr_setters_rc_uc (fill_wr_builders_rc_xrc_dc f)
               in Inr (0, if mlx5_ops \<noteq> 0 then f1\<lparr>dv_mkey_fns := True, dv_memcpy := Some mlx5_wr_memcpy\<rparr> else f1)
      | IBV_QPT_UC \<Rightarrow>
          if \<not> only MLX5_SUPPORTED_SEND_OPS_FLAGS_UC ops \<or> \<not> only MLX5DV_QP_EX_WITH_RAW_WQE mlx5_ops
          then Inr (EOPNOTSUPP, f)
          else Inr (0, fill_wr_setters_rc_uc (fill_wr_builders_uc f))
      | IBV_QPT_XRC_SEND \<Rightarrow>
          if \<not> only MLX5_SUPPORTED_SEND_OPS_FLAGS_RC ops \<or> \<not> only MLX5DV_QP_EX_WITH_RAW_WQE mlx5_ops
          then Inr (EOPNOTSUPP, f)
          else Inr (0, (fill_wr_setters_ud_xrc_dc (fill_wr_builders_rc_xrc_dc f))
                         \<lparr>wr_set_xrc_srqn := Some mlx5_send_wr_set_xrc_srqn\<rparr>)
      | IBV_QPT_UD \<Rightarrow>
          if \<not> only MLX5_SUPPORTED_SEND_OPS_FLAGS_UD ops \<or> \<not> only MLX5DV_QP_EX_WITH_RAW_WQE mlx5_ops
          then Inr (EOPNOTSUPP, f)
          else if has_flag flags MLX5_QP_FLAGS_USE_UNDERLAY then Inr (EOPNOTSUPP, f)
          else Inr (0, (fill_wr_setters_ud_xrc_dc (fill_wr_builders_ud f))
                         \<lparr>wr_set_ud_addr := Some mlx5_send_wr_set_ud_addr\<rparr>)
      | IBV_QPT_RAW_PACKET \<Rightarrow>
          if \<not> only MLX5_SUPPORTED_SEND_OPS_FLAGS_RAW_PACKET ops \<or> \<not> only MLX5DV_QP_EX_WITH_RAW_WQE mlx5_ops
          then Inr (EOPNOTSUPP, f)
          else Inr (0, fill_wr_setters_eth (fill_wr_builders_eth f))
      | IBV_QPT_DRIVER \<Rightarrow>
          (case at of
             None \<Rightarrow> Inl Segfault
           | Some a \<Rightarrow>
               if \<not> dv_is_dci a then Inr (EOPNOTSUPP, f)
               else if \<not> only MLX5_SUPPORTED_SEND_OPS_FLAGS_RC ops \<or>
                       \<not> only (MLX5DV_QP_EX_WITH_RAW_WQE OR MLX5DV_QP_EX_WITH_MEMCPY) mlx5_ops
               then Inr (EOPNOTSUPP, f)
               else Inr (0, (fill_wr_setters_ud_xrc_dc (fill_wr_builders_rc_xrc_dc f))
                              \<lparr>dv_set_dc_addr := Some mlx5_send_wr_set_dc_addr,
                               dv_set_dc_addr_stream := Some mlx5_send_wr_set_dc_addr_stream,
                               dv_memcpy := Some mlx5_wr_memcpy\<rparr>))
      | IBV_QPT_XRC_RECV \<Rightarrow> Inr (EOPNOTSUPP, f))"

definition mlx5_qp_fill_wr_pfns ::
    "bool \<Rightarrow> u32 \<Rightarrow> ibv_qp_type \<Rightarrow> u64 \<Rightarrow> dv_attr option \<Rightarrow> wr_pfns \<Rightarrow> (nat \<times> wr_pfns) res" where
  "mlx5_qp_fill_wr_pfns atomics flags t ops at f =
     (let f1 = f\<lparr>wr_start := Some mlx5_send_wr_start, wr_complete := Some mlx5_send_wr_complete,
                 wr_abort := Some mlx5_send_wr_abort\<rparr>;
          mlx5_ops = (case at of Some a \<Rightarrow> if dv_has_ops a then dv_ops a else 0 | None \<Rightarrow> 0)
      in if \<not> atomics \<and> (ops AND IBV_QP_EX_WITH_ATOMIC_CMP_AND_SWP \<noteq> 0 \<or>
                         ops AND IBV_QP_EX_WITH_ATOMIC_FETCH_AND_ADD \<noteq> 0)
         then Inr (EOPNOTSUPP, f1)
         else if mlx5_ops \<noteq> 0 \<and> \<not> only 0x1f mlx5_ops then Inr (EOPNOTSUPP, f1)
         else fill_by_type t ops mlx5_ops at flags
                (if mlx5_ops \<noteq> 0 then f1\<lparr>dv_raw_wqe := Some mlx5_wr_raw_wqe\<rparr> else f1))"

subsection \<open>What the installed functions build\<close>

text \<open>
  A queue pair with a free descriptor that does not reach the end of the ring.  A builder called on it starts a
  descriptor: the first word of the control segment has the index and the operation, and the queue remembers what
  the completion of a descriptor of a memory key is to be reported as.
\<close>

definition free_wqe :: "mlx5_qp \<Rightarrow> bool" where
  "free_wqe qp \<longleftrightarrow> \<not> mlx5_wq_overflow (sq qp) (nreq qp) \<and> mlx5_get_send_wqe (sq_idx qp) + 256 \<le> qend (sq qp) \<and> max_tso_header qp \<le> 128"

definition builds :: "u32 \<Rightarrow> u32 \<Rightarrow> (mlx5_qp \<Rightarrow> mlx5_qp) \<Rightarrow> bool" where
  "builds op data g \<longleftrightarrow> (\<forall>qp. free_wqe qp \<longrightarrow>
     ld_be32 (mlx5_get_send_wqe (sq_idx qp)) (sq_mem (g qp)) = (push_bit 8 (cur_post (sq qp) AND 0xffff) OR op) \<and>
     wr_data (sq (g qp)) (sq_idx qp) = data)"

lemma init_starts:
  assumes "free_wqe qp" "mlx5_ib_opcode ib_op = Some op" "q = common_wqe_init ib_op qp"
  shows "ld_be32 (mlx5_get_send_wqe (sq_idx qp)) (sq_mem q) = (push_bit 8 (cur_post (sq qp) AND 0xffff) OR op)"
    "wr_data (sq q) (sq_idx qp) = wr_data_of (Some ib_op) op" "cur_ctrl q = mlx5_get_send_wqe (sq_idx qp)"
    "qend (sq q) = qend (sq qp)" "max_tso_header q = max_tso_header qp"
  using assms by (simp_all add: common_wqe_init_def common_wqe_init_op_def free_wqe_def Let_def byte_simps)

lemma free_wrap: "free_wqe qp \<Longrightarrow> qend (sq q) = qend (sq qp) \<Longrightarrow> n < 256 \<Longrightarrow> wrap_end q (mlx5_get_send_wqe (sq_idx qp) + n) = mlx5_get_send_wqe (sq_idx qp) + n"
  by (auto simp: free_wqe_def wrap_end_def)

lemmas ctrl_skip = st_defs ld_be32_store upd_mem_def

lemma buildsI:
  assumes "mlx5_ib_opcode ib_op = Some op"
    and "\<And>qp q. free_wqe qp \<Longrightarrow> q = common_wqe_init ib_op qp \<Longrightarrow> cur_ctrl q = mlx5_get_send_wqe (sq_idx qp) \<Longrightarrow>
      qend (sq q) = qend (sq qp) \<Longrightarrow> max_tso_header q = max_tso_header qp \<Longrightarrow>
      ld_be32 (mlx5_get_send_wqe (sq_idx qp)) (sq_mem (g qp)) = ld_be32 (mlx5_get_send_wqe (sq_idx qp)) (sq_mem q) \<and>
      wr_data (sq (g qp)) = wr_data (sq q)"
  shows "builds op (wr_data_of (Some ib_op) op) g"
  unfolding builds_def
proof (intro allI impI)
  fix qp
  assume f: "free_wqe qp"
  note i = init_starts [OF f assms(1) refl]
  from assms(2) [OF f refl i(3-5)] i(1,2)
  show "ld_be32 (mlx5_get_send_wqe (sq_idx qp)) (sq_mem (g qp)) = (push_bit 8 (cur_post (sq qp) AND 0xffff) OR op) \<and>
      wr_data (sq (g qp)) (sq_idx qp) = wr_data_of (Some ib_op) op" by simp
qed

lemma send_builds: "builds MLX5_OPCODE_SEND 0 mlx5_send_wr_send_other"
  using buildsI [of IBV_WR_SEND MLX5_OPCODE_SEND mlx5_send_wr_send_other]
  by (simp add: mlx5_send_wr_send_other_def mlx5_send_wr_send_def Let_def wr_data_of_def)

lemma send_imm_builds: "builds MLX5_OPCODE_SEND_IMM 0 (mlx5_send_wr_send_imm imm)"
  using buildsI [of IBV_WR_SEND_WITH_IMM MLX5_OPCODE_SEND_IMM "mlx5_send_wr_send_imm imm"]
  by (simp add: mlx5_send_wr_send_imm_def mlx5_send_wr_send_def Let_def wr_data_of_def ctrl_skip)

lemma send_inv_builds: "builds MLX5_OPCODE_SEND_INVAL 0 (mlx5_send_wr_send_inv rkey)"
  using buildsI [of IBV_WR_SEND_WITH_INV MLX5_OPCODE_SEND_INVAL "mlx5_send_wr_send_inv rkey"]
  by (simp add: mlx5_send_wr_send_inv_def mlx5_send_wr_send_def Let_def wr_data_of_def ctrl_skip)

lemma rdma_skip:
  assumes "free_wqe qp" "qend (sq q) = qend (sq qp)" "cur_ctrl q = mlx5_get_send_wqe (sq_idx qp)"
  shows "wrap_end q (cur_ctrl q + 16 + rdma_transport_sz t) = mlx5_get_send_wqe (sq_idx qp) + 16 + rdma_transport_sz t"
  using free_wrap [OF assms(1,2), of "16 + rdma_transport_sz t"] assms(3) by (simp add: rdma_transport_sz_def add.assoc)

lemma seg_skip:
  "p + 4 \<le> seg \<Longrightarrow> ld_be32 p (set_raddr_seg seg a k m) = ld_be32 p m" "p + 4 \<le> seg \<Longrightarrow> ld_be32 p (set_atomic_seg seg o' x y m) = ld_be32 p m"
  "p + 4 \<le> seg \<Longrightarrow> ld_be32 p (set_umr_control_seg t bi seg m) = ld_be32 p m" "p + 4 \<le> seg \<Longrightarrow> ld_be32 p (set_umr_data_seg bi seg m) = ld_be32 p m"
  "p + 4 \<le> seg \<Longrightarrow> ld_be32 p (set_umr_mkey_seg t k bi n seg m) = ld_be32 p m"
  by (simp_all add: set_raddr_seg_def set_atomic_seg_def set_umr_control_seg_def set_umr_data_seg_def set_umr_mkey_seg_def Let_def ctrl_skip)

lemma rdma_builds:
  assumes "mlx5_ib_opcode ib_op = Some op"
  shows "builds op (wr_data_of (Some ib_op) op) (mlx5_send_wr_rdma rkey addr ib_op)"
    "builds op (wr_data_of (Some ib_op) op) (\<lambda>qp. let q = mlx5_send_wr_rdma rkey addr ib_op qp in upd_mem (st_le32 (cur_ctrl q + 12) imm) q)"
    "builds op (wr_data_of (Some ib_op) op) (mlx5_send_wr_atomic rkey addr x y ib_op)"
  by (rule buildsI [OF assms];
      use rdma_skip in \<open>simp add: mlx5_send_wr_rdma_def mlx5_send_wr_atomic_def Let_def seg_skip ctrl_skip\<close>)+

lemma tso_builds: "builds MLX5_OPCODE_TSO 0 (mlx5_send_wr_send_tso um hdr hdr_sz mss)"
proof -
  have "builds MLX5_OPCODE_TSO (wr_data_of (Some IBV_WR_TSO) MLX5_OPCODE_TSO) (mlx5_send_wr_send_tso um hdr hdr_sz mss)"
  proof (rule buildsI)
    fix qp q
    assume f: "free_wqe qp" and q: "q = common_wqe_init IBV_WR_TSO qp" and c: "cur_ctrl q = mlx5_get_send_wqe (sq_idx qp)"
      and e: "qend (sq q) = qend (sq qp)" "max_tso_header q = max_tso_header qp"
    let ?c = "mlx5_get_send_wqe (sq_idx qp)" and ?e = "mlx5_get_send_wqe (sq_idx qp) + 16"
    have t: "ld_be32 ?c m' = ld_be32 ?c m"
      if "set_tso_eth_seg um hdr hdr_sz mss q' (?e, 0, m) = (er, se, sz, m')" "qend (sq q') = qend (sq qp)" "max_tso_header q' = max_tso_header qp" for q' m er se sz m'
    proof (cases "hdr_sz < 14 \<or> max_tso_header q' < hdr_sz")
      case False
      then have "hdr_sz \<le> 128" using that(3) f unfolding free_wqe_def by (metis not_less order_trans)
      then have "unat hdr_sz \<le> 128" by (simp add: word_le_nat_alt)
      then have "\<not> min (qend (sq q') - (?e + 14)) (unat hdr_sz) < unat hdr_sz" using f that(2) unfolding free_wqe_def by linarith
      with False that(1) show ?thesis by (auto simp: set_tso_eth_seg_def Let_def ctrl_skip)
    qed (use that(1) in \<open>simp add: set_tso_eth_seg_def\<close>)
    show "ld_be32 ?c (sq_mem (mlx5_send_wr_send_tso um hdr hdr_sz mss qp)) = ld_be32 ?c (sq_mem q) \<and>
        wr_data (sq (mlx5_send_wr_send_tso um hdr hdr_sz mss qp)) = wr_data (sq q)"
      using e c unfolding mlx5_send_wr_send_tso_def q [symmetric] Let_def
      by (auto simp: ctrl_skip eth_csum_def set_err_def dest!: t split: prod.splits)
  qed simp
  then show ?thesis by (simp add: wr_data_of_def)
qed

lemma send_eth_builds: "builds MLX5_OPCODE_SEND 0 mlx5_send_wr_send_eth"
proof -
  have "builds MLX5_OPCODE_SEND (wr_data_of (Some IBV_WR_SEND) MLX5_OPCODE_SEND) mlx5_send_wr_send_eth"
    by (rule buildsI) (auto simp: mlx5_send_wr_send_eth_def Let_def ctrl_skip eth_csum_def set_err_def)
  then show ?thesis by (simp add: wr_data_of_def)
qed

lemma finalize_skip: "cur_ctrl q = p \<Longrightarrow> ld_be32 p (sq_mem (common_wqe_finalize q)) = ld_be32 p (sq_mem q) \<and>
    wr_data (sq (common_wqe_finalize q)) = wr_data (sq q)"
  by (simp add: common_wqe_finalize_def wqe_finalize_def Let_def ctrl_skip)

lemma umr_builds:
  assumes "mlx5_ib_opcode ib_op = Some op"
  shows "builds op (wr_data_of (Some ib_op) op) (build_umr_wqe old new bi ib_op)"
proof (rule buildsI [OF assms])
  fix qp q
  assume f: "free_wqe qp" and q: "q = common_wqe_init ib_op qp" and c: "cur_ctrl q = mlx5_get_send_wqe (sq_idx qp)"
    and e: "qend (sq q) = qend (sq qp)"
  let ?c = "mlx5_get_send_wqe (sq_idx qp)"
  have t: "ld_be32 ?c m' = ld_be32 ?c m"
    if "set_bind_wr q' ty k bi n (?c + 16, z, m) = (er, se, z', m')" "qend (sq q') = qend (sq qp)" for q' ty k n z m er se z' m'
    using free_wrap [OF f that(2), of 64] free_wrap [OF f that(2), of 128] that(1)
    by (auto simp: set_bind_wr_def Let_def seg_skip add.assoc split: if_splits)
  show "ld_be32 ?c (sq_mem (build_umr_wqe old new bi ib_op qp)) = ld_be32 ?c (sq_mem q) \<and>
      wr_data (sq (build_umr_wqe old new bi ib_op qp)) = wr_data (sq q)"
    using e c unfolding build_umr_wqe_def q [symmetric] Let_def
    by (auto simp: ctrl_skip set_err_def finalize_skip dest!: t split: prod.splits)
qed

subsection \<open>The table of a new queue pair\<close>

definition no_pfns :: wr_pfns where
  "no_pfns = \<lparr>wr_start = None, wr_complete = None, wr_abort = None, wr_send = None, wr_send_imm = None,
     wr_send_inv = None, wr_send_tso = None, wr_rdma_write = None, wr_rdma_write_imm = None, wr_rdma_read = None,
     wr_atomic_cmp_swp = None, wr_atomic_fetch_add = None, wr_bind_mw = None, wr_local_inv = None,
     wr_set_sge = None, wr_set_sge_list = None, wr_set_inline_data = None, wr_set_inline_data_list = None,
     wr_set_ud_addr = None, wr_set_xrc_srqn = None, dv_set_dc_addr = None, dv_set_dc_addr_stream = None,
     dv_raw_wqe = None, dv_memcpy = None, dv_mkey_fns = False\<rparr>"

lemmas fill_defs = fill_wr_builders_rc_xrc_dc_def fill_wr_builders_uc_def fill_wr_builders_ud_def
  fill_wr_builders_eth_def fill_wr_setters_rc_uc_def fill_wr_setters_ud_xrc_dc_def fill_wr_setters_eth_def

text \<open>The operations of a type of queue pair, by the bits of the creation flags.\<close>

definition supported :: "ibv_qp_type \<Rightarrow> u64" where
  "supported t =
     (case t of
        IBV_QPT_RC \<Rightarrow> MLX5_SUPPORTED_SEND_OPS_FLAGS_RC
      | IBV_QPT_XRC_SEND \<Rightarrow> MLX5_SUPPORTED_SEND_OPS_FLAGS_RC
      | IBV_QPT_DRIVER \<Rightarrow> MLX5_SUPPORTED_SEND_OPS_FLAGS_RC
      | IBV_QPT_UC \<Rightarrow> MLX5_SUPPORTED_SEND_OPS_FLAGS_UC
      | IBV_QPT_UD \<Rightarrow> MLX5_SUPPORTED_SEND_OPS_FLAGS_UD
      | IBV_QPT_RAW_PACKET \<Rightarrow> MLX5_SUPPORTED_SEND_OPS_FLAGS_RAW_PACKET
      | IBV_QPT_XRC_RECV \<Rightarrow> 0)"

text \<open>A pointer is set to a function with a property, or is null.\<close>

definition pfn :: "bool \<Rightarrow> ('a \<Rightarrow> bool) \<Rightarrow> 'a option \<Rightarrow> bool" where
  "pfn c P p \<longleftrightarrow> (if c then (\<exists>g. p = Some g \<and> P g) else p = None)"

definition builders_ok :: "u64 \<Rightarrow> wr_pfns \<Rightarrow> bool" where
  "builders_ok ops f \<longleftrightarrow>
     pfn (bit ops 0) (\<lambda>g. \<forall>k a. builds MLX5_OPCODE_RDMA_WRITE 0 (g k a)) (wr_rdma_write f) \<and>
     pfn (bit ops 1) (\<lambda>g. \<forall>k a i. builds MLX5_OPCODE_RDMA_WRITE_IMM 0 (g k a i)) (wr_rdma_write_imm f) \<and>
     pfn (bit ops 2) (builds MLX5_OPCODE_SEND 0) (wr_send f) \<and>
     pfn (bit ops 3) (\<lambda>g. \<forall>i. builds MLX5_OPCODE_SEND_IMM 0 (g i)) (wr_send_imm f) \<and>
     pfn (bit ops 4) (\<lambda>g. \<forall>k a. builds MLX5_OPCODE_RDMA_READ 0 (g k a)) (wr_rdma_read f) \<and>
     pfn (bit ops 5) (\<lambda>g. \<forall>k a x y. builds MLX5_OPCODE_ATOMIC_CS 0 (g k a x y)) (wr_atomic_cmp_swp f) \<and>
     pfn (bit ops 6) (\<lambda>g. \<forall>k a x. builds MLX5_OPCODE_ATOMIC_FA 0 (g k a x)) (wr_atomic_fetch_add f) \<and>
     pfn (bit ops 7) (\<lambda>g. \<forall>k. builds MLX5_OPCODE_UMR IBV_WC_LOCAL_INV (g k)) (wr_local_inv f) \<and>
     pfn (bit ops 8) (\<lambda>g. \<forall>k r bi. builds MLX5_OPCODE_UMR IBV_WC_BIND_MW (g k r bi)) (wr_bind_mw f) \<and>
     pfn (bit ops 9) (\<lambda>g. \<forall>k. builds MLX5_OPCODE_SEND_INVAL 0 (g k)) (wr_send_inv f) \<and>
     pfn (bit ops 10) (\<lambda>g. \<forall>um h n mss. builds MLX5_OPCODE_TSO 0 (g um h n mss)) (wr_send_tso f)"

text \<open>
  The data setters: those of connected queue pairs complete the descriptor, those of the types with an address
  complete it together with the setter of the address, those of Ethernet copy the header into it.
\<close>

definition setters_ok :: "ibv_qp_type \<Rightarrow> wr_pfns \<Rightarrow> bool" where
  "setters_ok t f \<longleftrightarrow>
     (if t = IBV_QPT_RC \<or> t = IBV_QPT_UC then
        wr_set_sge f = Some (\<lambda>um k a n qp. Inr (common_wqe_finalize (mlx5_send_wr_set_sge k a n qp))) \<and>
        wr_set_sge_list f = Some (\<lambda>um. mlx5_send_wr_set_sge_list_rc_uc) \<and>
        wr_set_inline_data f = Some mlx5_send_wr_set_inline_data_rc_uc \<and>
        wr_set_inline_data_list f = Some mlx5_send_wr_set_inline_data_list_rc_uc \<and>
        wr_set_ud_addr f = None \<and> wr_set_xrc_srqn f = None \<and> dv_set_dc_addr f = None
      else if t = IBV_QPT_RAW_PACKET then
        wr_set_sge f = Some mlx5_send_wr_set_sge_eth \<and>
        wr_set_sge_list f = Some mlx5_send_wr_set_sge_list_eth \<and>
        wr_set_inline_data f = Some mlx5_send_wr_set_inline_data_eth \<and>
        wr_set_inline_data_list f = Some mlx5_send_wr_set_inline_data_list_eth \<and>
        wr_set_ud_addr f = None \<and> wr_set_xrc_srqn f = None \<and> dv_set_dc_addr f = None
      else
        wr_set_sge f = Some (\<lambda>um k a n qp. Inr (second_setter (mlx5_send_wr_set_sge k a n qp))) \<and>
        wr_set_sge_list f = Some (\<lambda>um. mlx5_send_wr_set_sge_list_ud_xrc_dc) \<and>
        wr_set_inline_data f = Some mlx5_send_wr_set_inline_data_ud_xrc_dc \<and>
        wr_set_inline_data_list f = Some mlx5_send_wr_set_inline_data_list_ud_xrc_dc \<and>
        (wr_set_ud_addr f \<noteq> None \<longleftrightarrow> t = IBV_QPT_UD) \<and> (wr_set_xrc_srqn f \<noteq> None \<longleftrightarrow> t = IBV_QPT_XRC_SEND) \<and>
        (dv_set_dc_addr f \<noteq> None \<longleftrightarrow> t = IBV_QPT_DRIVER))"

text \<open>The table before the type is looked at.\<close>

definition fresh_pfns :: "wr_pfns \<Rightarrow> bool" where
  "fresh_pfns f \<longleftrightarrow> (\<exists>s c a r. f = no_pfns\<lparr>wr_start := s, wr_complete := c, wr_abort := a, dv_raw_wqe := r\<rparr>)"

lemmas supported_defs = MLX5_SUPPORTED_SEND_OPS_FLAGS_RC_def MLX5_SUPPORTED_SEND_OPS_FLAGS_UC_def
  MLX5_SUPPORTED_SEND_OPS_FLAGS_UD_def MLX5_SUPPORTED_SEND_OPS_FLAGS_RAW_PACKET_def

lemma named_builds:
  "builds MLX5_OPCODE_RDMA_WRITE 0 (mlx5_send_wr_rdma_write k a)" "builds MLX5_OPCODE_RDMA_READ 0 (mlx5_send_wr_rdma_read k a)"
  "builds MLX5_OPCODE_RDMA_WRITE_IMM 0 (mlx5_send_wr_rdma_write_imm k a i)"
  "builds MLX5_OPCODE_ATOMIC_CS 0 (mlx5_send_wr_atomic_cmp_swp k a x y)" "builds MLX5_OPCODE_ATOMIC_FA 0 (mlx5_send_wr_atomic_fetch_add k a x)"
  "builds MLX5_OPCODE_UMR IBV_WC_LOCAL_INV (mlx5_send_wr_local_inv k)" "builds MLX5_OPCODE_UMR IBV_WC_BIND_MW (mlx5_send_wr_bind_mw k r bi)"
  using rdma_builds(1) [of IBV_WR_RDMA_WRITE] rdma_builds(1) [of IBV_WR_RDMA_READ] rdma_builds(2) [of IBV_WR_RDMA_WRITE_WITH_IMM]
    rdma_builds(3) [of IBV_WR_ATOMIC_CMP_AND_SWP] rdma_builds(3) [of IBV_WR_ATOMIC_FETCH_AND_ADD]
    umr_builds [of IBV_WR_LOCAL_INV] umr_builds [of IBV_WR_BIND_MW]
  by (simp_all add: wr_data_of_def mlx5_send_wr_rdma_write_def mlx5_send_wr_rdma_read_def mlx5_send_wr_rdma_write_imm_def [abs_def]
      mlx5_send_wr_atomic_cmp_swp_def mlx5_send_wr_atomic_fetch_add_def mlx5_send_wr_local_inv_def mlx5_send_wr_bind_mw_def)

lemmas builder_facts = send_builds send_eth_builds send_imm_builds send_inv_builds tso_builds named_builds

lemmas setter_facts = mlx5_send_wr_set_sge_rc_uc_def mlx5_send_wr_set_sge_ud_xrc_dc_def

lemma fill_by_type_table:
  assumes r: "fill_by_type t ops mlx5_ops at flags f = Inr (0, f')" and s: "fresh_pfns f"
  shows "builders_ok (supported t) f' \<and> setters_ok t f' \<and> only (supported t) ops"
  using assms
  by (cases t)
    (auto simp: fill_by_type_def Let_def fill_defs supported_def builders_ok_def setters_ok_def pfn_def fresh_pfns_def no_pfns_def
      builder_facts setter_facts supported_defs split: if_splits option.splits)


definition empty_ud :: mlx5_qp where
  "empty_ud = (demo_qp IBV_QPT_UD)\<lparr>sq := demo_wq\<lparr>cur_post := 0\<rparr>\<rparr>"

lemma empty_ud_free: "free_wqe empty_ud" "mlx5_get_send_wqe (sq_idx empty_ud) = 0" "cur_post (sq empty_ud) = 0"
  by (simp_all add: empty_ud_def demo_qp_def demo_wq_def free_wqe_def mlx5_wq_overflow_def mlx5_get_send_wqe_def sq_idx_def Let_def)


end
