(* ===== verification/Id_Table.thy ===== *)
theory Id_Table
  imports Mlx5_Queue
begin

text \<open>
  The two-level tables of a device context that find a queue pair or a shared receive queue by its
  24-bit number: \<open>mlx5_find_qp\<close>, \<open>mlx5_store_qp\<close>, \<open>mlx5_clear_qp\<close> of \<open>qp.c\<close> and their counterparts of
  \<open>srq.c\<close>.  The first level counts the entries of each second-level array; the array is allocated with
  the first entry and freed with the last.  A second-level array that is not allocated is \<open>None\<close>;
  reading or writing it is a fault.  The locale \<open>id_table\<close> states what the completion path relies on,
  and both tables interpret it.
\<close>

text \<open>\<open>'a\<close> is a pointer to the object; \<open>alloc\<close> tells whether \<open>calloc\<close> succeeds.\<close>

record 'a row =
  refcnt :: int
  tab :: "(nat \<Rightarrow> 'a option) option"

type_synonym 'a id_tab = "nat \<Rightarrow> 'a row"

abbreviation (input) MLX5_TABLE_SHIFT :: nat where "MLX5_TABLE_SHIFT \<equiv> 12"

definition tind :: "u32 \<Rightarrow> nat" where
  "tind n = unat (drop_bit MLX5_TABLE_SHIFT n)"

definition slot :: "u32 \<Rightarrow> nat" where
  "slot n = unat (n AND 0xfff)"

definition mlx5_find_qp :: "'a id_tab \<Rightarrow> u32 \<Rightarrow> 'a option res" where
  "mlx5_find_qp t qpn =
     (if refcnt (t (tind qpn)) \<noteq> 0
      then case tab (t (tind qpn)) of None \<Rightarrow> Inl Segfault | Some a \<Rightarrow> Inr (a (slot qpn))
      else Inr None)"

definition mlx5_store_qp :: "bool \<Rightarrow> 'a id_tab \<Rightarrow> u32 \<Rightarrow> 'a \<Rightarrow> (int \<times> 'a id_tab) res" where
  "mlx5_store_qp alloc t qpn qp =
     (let i = tind qpn; r = t i
      in if refcnt r = 0 \<and> \<not> alloc then Inr (- 1, t(i := r\<lparr>tab := None\<rparr>))
         else case (if refcnt r = 0 then Some (\<lambda>_. None) else tab r) of
                None \<Rightarrow> Inl Segfault
              | Some a \<Rightarrow> Inr (0, t(i := r\<lparr>refcnt := refcnt r + 1, tab := Some (a(slot qpn \<mapsto> qp))\<rparr>)))"

definition mlx5_clear_qp :: "'a id_tab \<Rightarrow> u32 \<Rightarrow> 'a id_tab res" where
  "mlx5_clear_qp t qpn =
     (let i = tind qpn; r = t i
      in if refcnt r - 1 = 0 then Inr (t(i := r\<lparr>refcnt := 0, tab := None\<rparr>))
         else case tab r of
                None \<Rightarrow> Inl Segfault
              | Some a \<Rightarrow> Inr (t(i := r\<lparr>refcnt := refcnt r - 1, tab := Some (a(slot qpn := None))\<rparr>)))"

text \<open>\<open>srq.c\<close> has the same three functions over its own table.\<close>

definition mlx5_find_srq :: "'a id_tab \<Rightarrow> u32 \<Rightarrow> 'a option res" where
  "mlx5_find_srq t srqn =
     (if refcnt (t (tind srqn)) \<noteq> 0
      then case tab (t (tind srqn)) of None \<Rightarrow> Inl Segfault | Some a \<Rightarrow> Inr (a (slot srqn))
      else Inr None)"

definition mlx5_store_srq :: "bool \<Rightarrow> 'a id_tab \<Rightarrow> u32 \<Rightarrow> 'a \<Rightarrow> (int \<times> 'a id_tab) res" where
  "mlx5_store_srq alloc t srqn s =
     (let i = tind srqn; r = t i
      in if refcnt r = 0 \<and> \<not> alloc then Inr (- 1, t(i := r\<lparr>tab := None\<rparr>))
         else case (if refcnt r = 0 then Some (\<lambda>_. None) else tab r) of
                None \<Rightarrow> Inl Segfault
              | Some a \<Rightarrow> Inr (0, t(i := r\<lparr>refcnt := refcnt r + 1, tab := Some (a(slot srqn \<mapsto> s))\<rparr>)))"

definition mlx5_clear_srq :: "'a id_tab \<Rightarrow> u32 \<Rightarrow> 'a id_tab res" where
  "mlx5_clear_srq t srqn =
     (let i = tind srqn; r = t i
      in if refcnt r - 1 = 0 then Inr (t(i := r\<lparr>refcnt := 0, tab := None\<rparr>))
         else case tab r of
                None \<Rightarrow> Inl Segfault
              | Some a \<Rightarrow> Inr (t(i := r\<lparr>refcnt := refcnt r - 1, tab := Some (a(slot srqn := None))\<rparr>)))"

subsection \<open>The invariant\<close>

text \<open>Each count is the number of entries of its array, and an array with entries is allocated.\<close>

definition row_ok :: "'a row \<Rightarrow> bool" where
  "row_ok r \<longleftrightarrow>
     (refcnt r = 0 \<or>
      (\<exists>a. tab r = Some a \<and> finite (dom a) \<and> refcnt r = int (card (dom a)) \<and> dom a \<noteq> {}))"

definition tab_ok :: "'a id_tab \<Rightarrow> bool" where
  "tab_ok t \<longleftrightarrow> (\<forall>i. row_ok (t i))"

text \<open>The map a table stands for.\<close>

definition tab_map :: "'a id_tab \<Rightarrow> u32 \<Rightarrow> 'a option" where
  "tab_map t n =
     (if refcnt (t (tind n)) = 0 then None
      else case tab (t (tind n)) of None \<Rightarrow> None | Some a \<Rightarrow> a (slot n))"

definition empty_tab :: "'a id_tab" where
  "empty_tab = (\<lambda>_. \<lparr>refcnt = 0, tab = None\<rparr>)"

text \<open>A number is its row and its slot.\<close>

lemma tind_slot_inject: "tind a = tind b \<Longrightarrow> slot a = slot b \<Longrightarrow> a = b"
proof -
  assume "tind a = tind b" "slot a = slot b"
  then have d: "drop_bit 12 a = drop_bit 12 b" and t: "take_bit 12 a = take_bit 12 b"
    by (simp_all add: tind_def slot_def word_unat_eq_iff take_bit_eq_mask mask_eq_exp_minus_1)
  have "a = push_bit 12 (drop_bit 12 a) + take_bit 12 a" by (simp add: bits_ident)
  also have "\<dots> = push_bit 12 (drop_bit 12 b) + take_bit 12 b" by (simp only: d t)
  also have "\<dots> = b" by (simp add: bits_ident)
  finally show ?thesis .
qed

text \<open>
  What the rest of the driver relies on: an interpretation gives a map that lookups read, that a
  store extends and that a clear of a stored number restricts, with an invariant that keeps all of
  them free of faults.
\<close>

locale id_table =
  fixes find_id :: "'t \<Rightarrow> u32 \<Rightarrow> 'a option res"
    and store_id :: "'t \<Rightarrow> u32 \<Rightarrow> 'a \<Rightarrow> (int \<times> 't) res"
    and clear_id :: "'t \<Rightarrow> u32 \<Rightarrow> 't res"
    and inv :: "'t \<Rightarrow> bool"
    and amap :: "'t \<Rightarrow> u32 \<Rightarrow> 'a option"
  assumes find_amap: "inv t \<Longrightarrow> find_id t n = Inr (amap t n)"
    and store_amap: "inv t \<Longrightarrow> amap t n = None \<Longrightarrow>
          \<exists>t'. store_id t n x = Inr (0, t') \<and> inv t' \<and> amap t' = (amap t)(n \<mapsto> x)"
    and clear_amap: "inv t \<Longrightarrow> amap t n \<noteq> None \<Longrightarrow>
          \<exists>t'. clear_id t n = Inr t' \<and> inv t' \<and> amap t' = (amap t)(n := None)"
begin

lemma store_find: "inv t \<Longrightarrow> amap t n = None \<Longrightarrow>
    \<exists>t'. store_id t n x = Inr (0, t') \<and> inv t' \<and> find_id t' n = Inr (Some x)
      \<and> (\<forall>k. k \<noteq> n \<longrightarrow> find_id t' k = find_id t k)"
  using store_amap [of t n x] find_amap by fastforce

lemma store_clear: "inv t \<Longrightarrow> amap t n = None \<Longrightarrow>
    \<exists>t' t''. store_id t n x = Inr (0, t') \<and> clear_id t' n = Inr t'' \<and> inv t'' \<and> amap t'' = amap t"
proof -
  assume h: "inv t" "amap t n = None"
  then obtain t' where t': "store_id t n x = Inr (0, t')" "inv t'" "amap t' = (amap t)(n \<mapsto> x)"
    using store_amap by blast
  then obtain t'' where "clear_id t' n = Inr t''" "inv t''" "amap t'' = (amap t')(n := None)"
    using clear_amap [of t' n] by auto
  with t' h show ?thesis by (auto simp: fun_upd_idem)
qed

end

lemma tab_ok_row: "tab_ok t \<Longrightarrow> row_ok (t i)"
  by (simp add: tab_ok_def)

lemma tab_ok_upd: "tab_ok t \<Longrightarrow> row_ok r \<Longrightarrow> tab_ok (t(i := r))"
  by (simp add: tab_ok_def)

lemma find_qp_map: "tab_ok t \<Longrightarrow> mlx5_find_qp t n = Inr (tab_map t n)"
  using tab_ok_row [of t "tind n"] by (auto simp: mlx5_find_qp_def tab_map_def row_ok_def)

lemma tab_map_upd:
  assumes "refcnt r \<noteq> 0" "tab r = Some a'" "refcnt (t (tind n)) = 0 \<longrightarrow> a = Map.empty"
    "refcnt (t (tind n)) \<noteq> 0 \<longrightarrow> tab (t (tind n)) = Some a" "a' = a(slot n := v)"
  shows "tab_map (t(tind n := r)) = (tab_map t)(n := v)"
proof (rule ext)
  fix k
  show "tab_map (t(tind n := r)) k = ((tab_map t)(n := v)) k"
  proof (cases "tind k = tind n")
    case False
    then show ?thesis by (auto simp: tab_map_def)
  next
    case True
    then have "slot k = slot n \<longleftrightarrow> k = n" using tind_slot_inject by blast
    with True assms show ?thesis by (auto simp: tab_map_def)
  qed
qed

lemma store_qp_map:
  assumes ok: "tab_ok t" and new: "tab_map t n = None"
  shows "\<exists>t'. mlx5_store_qp True t n x = Inr (0, t') \<and> tab_ok t' \<and> tab_map t' = (tab_map t)(n \<mapsto> x)"
proof -
  let ?r = "t (tind n)"
  define a where "a = (if refcnt ?r = 0 then Map.empty else the (tab ?r))"
  have fa: "finite (dom a)" and ca: "refcnt ?r = int (card (dom a))"
    and ta: "(if refcnt ?r = 0 then Some Map.empty else tab ?r) = Some a"
    using tab_ok_row [OF ok, of "tind n"] by (auto simp: a_def row_ok_def)
  have an: "a (slot n) = None" using new ta by (auto simp: tab_map_def a_def split: if_splits option.splits)
  define r' where "r' = ?r\<lparr>refcnt := refcnt ?r + 1, tab := Some (a(slot n \<mapsto> x))\<rparr>"
  have s: "mlx5_store_qp True t n x = Inr (0, t(tind n := r'))"
    using ta by (simp add: mlx5_store_qp_def Let_def r'_def)
  have c: "card (dom (a(slot n \<mapsto> x))) = card (dom a) + 1"
    using an fa by (simp add: domIff)
  have ok': "tab_ok (t(tind n := r'))"
    by (rule tab_ok_upd [OF ok]) (use c fa ca in \<open>simp add: row_ok_def r'_def\<close>)
  have "tab_map (t(tind n := r')) = (tab_map t)(n := Some x)"
  proof (rule tab_map_upd)
    show "refcnt r' \<noteq> 0" by (simp add: r'_def ca)
  qed (use ta in \<open>auto simp: r'_def a_def\<close>)
  with s ok' show ?thesis by blast
qed

lemma clear_qp_map:
  assumes ok: "tab_ok t" and old: "tab_map t n \<noteq> None"
  shows "\<exists>t'. mlx5_clear_qp t n = Inr t' \<and> tab_ok t' \<and> tab_map t' = (tab_map t)(n := None)"
proof -
  let ?r = "t (tind n)"
  from old have nz: "refcnt ?r \<noteq> 0" by (auto simp: tab_map_def)
  with tab_ok_row [OF ok, of "tind n"] obtain a where
    a: "tab ?r = Some a" "finite (dom a)" "refcnt ?r = int (card (dom a))" by (auto simp: row_ok_def)
  have an: "slot n \<in> dom a" using old nz a(1) by (auto simp: tab_map_def)
  have c: "card (dom (a(slot n := None))) = card (dom a) - 1"
    using an a(2) by (simp add: card_Diff_singleton)
  show ?thesis
  proof (cases "card (dom a) = 1")
    case True
    then obtain s where "dom a = {s}" by (auto simp: card_1_singleton_iff)
    with an have d: "dom a = {slot n}" by auto
    have m: "tab_map (t(tind n := ?r\<lparr>refcnt := 0, tab := None\<rparr>)) = (tab_map t)(n := None)"
    proof (rule ext)
      fix k
      show "tab_map (t(tind n := ?r\<lparr>refcnt := 0, tab := None\<rparr>)) k = ((tab_map t)(n := None)) k"
      proof (cases "tind k = tind n \<and> k \<noteq> n")
        case True
        then have "slot k \<noteq> slot n" using tind_slot_inject by blast
        with d have "a (slot k) = None" by auto
        with True a(1) show ?thesis by (auto simp: tab_map_def)
      qed (auto simp: tab_map_def)
    qed
    have "tab_ok (t(tind n := ?r\<lparr>refcnt := 0, tab := None\<rparr>))"
      by (rule tab_ok_upd [OF ok]) (simp add: row_ok_def)
    with m True a(3) show ?thesis by (auto simp: mlx5_clear_qp_def Let_def)
  next
    case False
    define r' where "r' = ?r\<lparr>refcnt := refcnt ?r - 1, tab := Some (a(slot n := None))\<rparr>"
    have n1: "refcnt ?r - 1 \<noteq> 0" using False a(3) by simp
    then have s: "mlx5_clear_qp t n = Inr (t(tind n := r'))"
      using a(1) by (simp add: mlx5_clear_qp_def Let_def r'_def)
    have ca: "card (dom a) > 0" using an a(2) by (auto simp: card_gt_0_iff)
    have ci: "refcnt r' = int (card (dom (a(slot n := None))))" using c ca a(3) by (simp add: r'_def)
    have "dom (a(slot n := None)) \<noteq> {}"
    proof
      assume "dom (a(slot n := None)) = {}"
      then have "refcnt r' = 0" using ci by (simp only: card.empty of_nat_0)
      then show False using n1 by (simp add: r'_def)
    qed
    then have ok': "tab_ok (t(tind n := r'))"
    proof (intro tab_ok_upd [OF ok])
      assume d: "dom (a(slot n := None)) \<noteq> {}"
      have "tab r' = Some (a(slot n := None)) \<and> finite (dom (a(slot n := None)))"
        using a(2) by (simp add: r'_def)
      with d ci show "row_ok r'" unfolding row_ok_def by blast
    qed
    have "tab_map (t(tind n := r')) = (tab_map t)(n := None)"
      by (rule tab_map_upd [where a = a]) (use n1 nz a(1) in \<open>auto simp: r'_def\<close>)
    with s ok' show ?thesis by blast
  qed
qed

interpretation qpt: id_table mlx5_find_qp "mlx5_store_qp True" mlx5_clear_qp tab_ok tab_map
  by unfold_locales (auto intro: find_qp_map store_qp_map clear_qp_map)

text \<open>The functions of \<open>srq.c\<close> are the same computation.\<close>

lemma srq_as_qp:
  "mlx5_find_srq = mlx5_find_qp" "mlx5_store_srq = mlx5_store_qp" "mlx5_clear_srq = mlx5_clear_qp"
  by (intro ext; simp add: mlx5_find_srq_def mlx5_find_qp_def mlx5_store_srq_def mlx5_store_qp_def
      mlx5_clear_srq_def mlx5_clear_qp_def)+

interpretation srqt: id_table mlx5_find_srq "mlx5_store_srq True" mlx5_clear_srq tab_ok tab_map
  unfolding srq_as_qp by unfold_locales (auto intro: find_qp_map store_qp_map clear_qp_map)

subsection \<open>Properties\<close>

text \<open>
  C27. The queue-pair table is a map: in a table whose counts agree with its arrays, storing a new
  number makes exactly that number findable, every other lookup keeps its answer, and clearing it
  again gives back the map there was, without a fault on any of the three operations.
\<close>
theorem qp_table_roundtrip:
  assumes "tab_ok t" "mlx5_find_qp t n = Inr None"
  shows "\<exists>t' t''. mlx5_store_qp True t n x = Inr (0, t') \<and> mlx5_find_qp t' n = Inr (Some x)
    \<and> (\<forall>k. k \<noteq> n \<longrightarrow> mlx5_find_qp t' k = mlx5_find_qp t k)
    \<and> mlx5_clear_qp t' n = Inr t'' \<and> tab_ok t'' \<and> (\<forall>k. mlx5_find_qp t'' k = mlx5_find_qp t k)"
proof -
  have new: "tab_map t n = None" using assms find_qp_map [of t n] by simp
  obtain t' where t': "mlx5_store_qp True t n x = Inr (0, t')" "mlx5_find_qp t' n = Inr (Some x)"
    "\<forall>k. k \<noteq> n \<longrightarrow> mlx5_find_qp t' k = mlx5_find_qp t k"
    using qpt.store_find [OF assms(1) new, of x] by blast
  obtain t'' where t'': "mlx5_clear_qp t' n = Inr t''" "tab_ok t''" "tab_map t'' = tab_map t"
    using qpt.store_clear [OF assms(1) new, of x] t'(1) by auto
  have "\<forall>k. mlx5_find_qp t'' k = mlx5_find_qp t k"
    using t'' assms(1) by (simp add: find_qp_map)
  with t' t'' show ?thesis by blast
qed

theorem qp_table_roundtrip_witness:
  "\<exists>t'. mlx5_store_qp True empty_tab 0x12345 (7 :: nat) = Inr (0, t') \<and> mlx5_find_qp t' 0x12345 = Inr (Some 7)"
proof -
  have "tab_ok empty_tab" by (simp add: tab_ok_def row_ok_def empty_tab_def)
  moreover have "mlx5_find_qp empty_tab 0x12345 = Inr None" by (simp add: mlx5_find_qp_def empty_tab_def)
  ultimately show ?thesis using qp_table_roundtrip [of empty_tab "0x12345" 7] by blast
qed

end
