(* ===== verification/Post_Recv.thy ===== *)
theory Post_Recv
  imports Mlx5_Queue
begin

text \<open>
  The receive side of \<open>providers/mlx5/qp.c\<close>: \<open>mlx5_post_recv\<close> and \<open>mlx5_post_wq_recv\<close>, which fill the
  descriptors of a receive queue, and \<open>copy_to_scat\<close> with its callers, which copy the data that arrives
  inside a completion into the buffers a descriptor lists.  The buffer of a receive queue is a memory of
  its own, and a descriptor starts at \<open>wq_offset\<close> plus its index shifted by \<open>wqe_shift\<close>.
\<close>

record ibv_recv_wr =
  rwr_id :: u64
  rwr_sg_list :: "ibv_sge list option"
  rwr_num_sge :: int

definition recv_sge :: "ibv_recv_wr \<Rightarrow> nat \<Rightarrow> ibv_sge res" where
  "recv_sge wr i =
     (case rwr_sg_list wr of
        None \<Rightarrow> Inl Segfault
      | Some xs \<Rightarrow> if i < length xs then Inr (xs ! i) else Inl OutOfBounds)"

definition get_recv_wqe :: "mlx5_wq \<Rightarrow> nat \<Rightarrow> nat" where
  "get_recv_wqe w n = wq_offset w + n * 2 ^ wqe_shift w"

record mlx5_rwq =
  wq_num :: u32
  rwq_rq :: mlx5_wq
  rwq_pbuff :: mem
  rwq_db :: u32
  rwq_sig :: bool

definition get_wq_recv_wqe :: "mlx5_rwq \<Rightarrow> nat \<Rightarrow> nat" where
  "get_wq_recv_wqe r n = n * 2 ^ wqe_shift (rwq_rq r)"

definition mlx5_init_rwq_indices :: "mlx5_rwq \<Rightarrow> mlx5_rwq" where
  "mlx5_init_rwq_indices r = r\<lparr>rwq_rq := (rwq_rq r)\<lparr>wq_head := 0, wq_tail := 0\<rparr>\<rparr>"

subsection \<open>Posting\<close>

text \<open>\<open>set_sig_seg\<close> and \<open>set_wq_sig_seg\<close>: the signature covers the descriptor, the number and the index.\<close>

definition set_sig_seg :: "u32 \<Rightarrow> nat \<Rightarrow> nat \<Rightarrow> u16 \<Rightarrow> mem \<Rightarrow> mem" where
  "set_sig_seg num sig sz idx m =
     st8 (sig + 4)
       (calc_sig (load_bytes sig sz m) XOR calc_sig (le_bytes 4 (unat num)) XOR calc_sig (le_bytes 2 (unat idx))) m"

text \<open>The entries of length 0 are skipped; the result holds the number of segments written.\<close>

fun scat_loop :: "ibv_recv_wr \<Rightarrow> nat \<Rightarrow> nat \<Rightarrow> nat \<Rightarrow> nat \<Rightarrow> mem \<Rightarrow> (nat \<times> mem) res" where
  "scat_loop wr 0 i scat j m = Inr (j, m)"
| "scat_loop wr (Suc n) i scat j m =
     bind_res (recv_sge wr i) (\<lambda>sg.
       if sge_length sg = 0 then scat_loop wr n (Suc i) scat j m
       else scat_loop wr n (Suc i) scat (Suc j) (set_data_ptr_seg (scat + 16 * j) sg 0 m))"

definition fill_recv_wqe :: "bool \<Rightarrow> u32 \<Rightarrow> mlx5_wq \<Rightarrow> nat \<Rightarrow> ibv_recv_wr \<Rightarrow> mem \<Rightarrow> mem res" where
  "fill_recv_wqe sig num w p wr m =
     (let m1 = (if sig then memset0 p (2 ^ wqe_shift w) m else m);
          scat = (if sig then p + 16 else p)
      in bind_res (scat_loop wr (nat (rwr_num_sge wr)) 0 scat 0 m1) (\<lambda>(j, m2).
           let m3 = (if int j < max_gs w then set_data_ptr_seg_end (scat + 16 * j) m2 else m2)
           in Inr (if sig
                   then set_sig_seg num p (nat ((rwr_num_sge wr + 1) * 16)) (ucast (wq_head w AND 0xffff)) m3
                   else m3)))"

text \<open>The loop: the error, the number of requests posted, and the queue with its memory.\<close>

fun recv_loop ::
    "bool \<Rightarrow> u32 \<Rightarrow> (nat \<Rightarrow> nat) \<Rightarrow> nat \<Rightarrow> u32 \<Rightarrow> ibv_recv_wr list \<Rightarrow> mlx5_wq \<times> mem \<Rightarrow>
     (nat \<times> nat \<times> mlx5_wq \<times> mem) res" where
  "recv_loop sig num get n ind [] s = Inr (0, n, s)"
| "recv_loop sig num get n ind (wr # wrs) s =
     (case s of (w, m) \<Rightarrow>
        if mlx5_wq_overflow w n then Inr (ENOMEM, n, w, m)
        else if max_gs w < rwr_num_sge wr then Inr (EINVAL, n, w, m)
        else bind_res (fill_recv_wqe sig num w (get (unat ind)) wr m) (\<lambda>m1.
               recv_loop sig num get (Suc n) ((ind + 1) AND (wqe_cnt w - 1)) wrs
                 (w\<lparr>wrid := (wrid w)(unat ind := rwr_id wr)\<rparr>, m1)))"

definition mlx5_post_wq_recv :: "ibv_recv_wr list \<Rightarrow> mlx5_rwq \<Rightarrow> (nat \<times> nat \<times> mlx5_rwq) res" where
  "mlx5_post_wq_recv wrs r =
     (let w = rwq_rq r
      in bind_res
           (recv_loop (rwq_sig r) (wq_num r) (get_wq_recv_wqe r) 0 (wq_head w AND (wqe_cnt w - 1)) wrs
              (w, rwq_pbuff r))
           (\<lambda>(e, n, w1, m).
              let w2 = w1\<lparr>wq_head := wq_head w1 + of_nat n\<rparr>
              in Inr (e, n, if n \<noteq> 0 then r\<lparr>rwq_rq := w2, rwq_pbuff := m, rwq_db := wq_head w2 AND 0xffff\<rparr>
                            else r\<lparr>rwq_rq := w1, rwq_pbuff := m\<rparr>)))"

text \<open>A raw-packet or underlay queue pair that is not ready to receive gets no doorbell.\<close>

definition mlx5_post_recv :: "ibv_recv_wr list \<Rightarrow> mlx5_qp \<Rightarrow> (nat \<times> nat \<times> mlx5_qp) res" where
  "mlx5_post_recv wrs qp =
     (let w = rq qp;
          held = ((qp_type (ibqp qp) = IBV_QPT_RAW_PACKET \<or> has_flag (qp_flags qp) MLX5_QP_FLAGS_USE_UNDERLAY) \<and>
                  \<not> qp_state_rtr qp)
      in bind_res
           (recv_loop (wq_sig qp) (qp_num (ibqp qp)) (get_recv_wqe w) 0 (wq_head w AND (wqe_cnt w - 1)) wrs
              (w, rq_mem qp))
           (\<lambda>(e, n, w1, m).
              let w2 = w1\<lparr>wq_head := wq_head w1 + of_nat n\<rparr>
              in Inr (e, n,
                   if n = 0 then qp\<lparr>rq := w1, rq_mem := m\<rparr>
                   else qp\<lparr>rq := w2, rq_mem := m,
                           db_rcv := (if held then db_rcv qp else wq_head w2 AND 0xffff)\<rparr>)))"

subsection \<open>Data delivered in a completion\<close>

abbreviation (input) IBV_WC_SUCCESS :: nat where "IBV_WC_SUCCESS \<equiv> 0"
abbreviation (input) IBV_WC_LOC_LEN_ERR :: nat where "IBV_WC_LOC_LEN_ERR \<equiv> 1"
abbreviation (input) IBV_WC_REM_INV_REQ_ERR :: nat where "IBV_WC_REM_INV_REQ_ERR \<equiv> 9"
abbreviation (input) IBV_WC_GENERAL_ERR :: nat where "IBV_WC_GENERAL_ERR \<equiv> 21"

definition user_store :: "u64 \<Rightarrow> u8 list \<Rightarrow> user_mem \<Rightarrow> user_mem" where
  "user_store a bs um = (\<lambda>x. if unat (x - a) < length bs then bs ! unat (x - a) else um x)"

text \<open>\<open>null_lkey\<close> is the key whose buffers are not written.\<close>

fun scat_copy_loop :: "u32 \<Rightarrow> nat \<Rightarrow> nat \<Rightarrow> u8 list \<Rightarrow> mem \<Rightarrow> user_mem \<Rightarrow> nat \<times> u8 list \<times> user_mem" where
  "scat_copy_loop null_lkey 0 scat buf m um = (IBV_WC_LOC_LEN_ERR, buf, um)"
| "scat_copy_loop null_lkey (Suc n) scat buf m um =
     (let c = min (length buf) (unat (ld_be32 scat m));
          um' = (if ld_be32 (scat + 4) m \<noteq> null_lkey then user_store (ld_be64 (scat + 8) m) (take c buf) um else um)
      in if length buf = c then (IBV_WC_SUCCESS, [], um')
         else scat_copy_loop null_lkey n (scat + 16) (drop c buf) m um')"

text \<open>The data is a list; what is left of it stands for the pointer and the size that remain.\<close>

definition copy_to_scat :: "u32 \<Rightarrow> nat \<Rightarrow> u8 list \<Rightarrow> nat \<Rightarrow> mem \<Rightarrow> user_mem \<Rightarrow> nat \<times> u8 list \<times> user_mem" where
  "copy_to_scat null_lkey scat buf maxn m um =
     (if buf = [] then (IBV_WC_SUCCESS, [], um) else scat_copy_loop null_lkey maxn scat buf m um)"

definition mlx5_copy_to_recv_wqe :: "u32 \<Rightarrow> mlx5_qp \<Rightarrow> nat \<Rightarrow> u8 list \<Rightarrow> user_mem \<Rightarrow> nat \<times> user_mem" where
  "mlx5_copy_to_recv_wqe null_lkey qp idx buf um =
     (let p = get_recv_wqe (rq qp) idx; scat = (if wq_sig qp then p + 16 else p)
      in case copy_to_scat null_lkey scat buf (2 ^ (wqe_shift (rq qp) - 4)) (rq_mem qp) um of (st, _, um') \<Rightarrow> (st, um'))"

definition mlx5_copy_to_send_wqe :: "u32 \<Rightarrow> mlx5_qp \<Rightarrow> u32 \<Rightarrow> u8 list \<Rightarrow> user_mem \<Rightarrow> nat \<times> user_mem" where
  "mlx5_copy_to_send_wqe null_lkey qp i buf um =
     (let idx = unat (i AND (wqe_cnt (sq qp) - 1)); ctrl = mlx5_get_send_wqe idx; m = sq_mem qp;
          op = ld_be32 ctrl m AND 0xff;
          scat = (if op = MLX5_OPCODE_RDMA_READ then ctrl + 32 else ctrl + 48);
          maxn = int (unat (ld_be32 (ctrl + 4) m AND 0x3f)) - int ((scat - ctrl) div 16)
      in if qp_type (ibqp qp) \<noteq> IBV_QPT_RC then (IBV_WC_GENERAL_ERR, um)
         else if op \<noteq> MLX5_OPCODE_RDMA_READ \<and> op \<noteq> MLX5_OPCODE_ATOMIC_CS \<and> op \<noteq> MLX5_OPCODE_ATOMIC_FA
         then (IBV_WC_REM_INV_REQ_ERR, um)
         else if int (qend (sq qp)) < int scat + 16 * maxn
         then let tmp = (qend (sq qp) - scat) div 16
              in case copy_to_scat null_lkey scat buf tmp m um of (st, rest, um1) \<Rightarrow>
                   if st = IBV_WC_SUCCESS then (IBV_WC_SUCCESS, um1)
                   else case copy_to_scat null_lkey (mlx5_get_send_wqe 0) rest (nat (maxn - int tmp)) m um1 of
                          (st', _, um2) \<Rightarrow> (st', um2)
         else case copy_to_scat null_lkey scat buf (nat maxn) m um of (st, _, um1) \<Rightarrow> (st, um1))"

text \<open>The local address of an atomic request, and its length.\<close>

definition mlx5_get_atomic_laddr :: "mlx5_qp \<Rightarrow> nat \<Rightarrow> u64 \<times> nat" where
  "mlx5_get_atomic_laddr qp idx = (ld_be64 (mlx5_get_send_wqe idx + 48 + 8) (sq_mem qp), 8)"

end
