(* ===== verification/Srq.thy ===== *)
theory Srq
  imports Post_Recv
begin

text \<open>
  The shared receive queue of \<open>providers/mlx5/srq.c\<close>.  Its descriptors form a list linked by the indices
  stored in them: \<open>mlx5_post_srq_recv\<close> takes descriptors at the head, a completion gives them back at
  the tail, and descriptors that met a page fault rest in a second list, the wait queue.  The linked
  lists are refined to lists of indices by \<open>free_list\<close> and \<open>wait_list\<close>.
\<close>

record mlx5_srq =
  srq_mem :: mem
  srq_wrid :: "nat \<Rightarrow> u64"
  srq_max :: nat
  srq_max_gs :: int
  srq_shift :: nat
  srq_head :: nat
  srq_tail :: nat
  waitq_head :: int
  waitq_tail :: int
  srq_db :: u32
  srq_counter :: u16

definition get_wqe :: "mlx5_srq \<Rightarrow> nat \<Rightarrow> nat" where
  "get_wqe s n = n * 2 ^ srq_shift s"

text \<open>The index a descriptor points to.\<close>

definition next_wqe_index :: "mlx5_srq \<Rightarrow> nat \<Rightarrow> nat" where
  "next_wqe_index s n = unat (ld_be16 (get_wqe s n + 2) (srq_mem s))"

definition set_next :: "nat \<Rightarrow> nat \<Rightarrow> mlx5_srq \<Rightarrow> mlx5_srq" where
  "set_next n i s = s\<lparr>srq_mem := st_be16 (get_wqe s n + 2) (of_nat i) (srq_mem s)\<rparr>"

definition mlx5_free_srq_wqe :: "nat \<Rightarrow> mlx5_srq \<Rightarrow> mlx5_srq" where
  "mlx5_free_srq_wqe ind s = (set_next (srq_tail s) ind s)\<lparr>srq_tail := ind\<rparr>"

subsection \<open>The wait queue\<close>

definition srq_has_waitq :: "mlx5_srq \<Rightarrow> bool" where
  "srq_has_waitq s \<longleftrightarrow> 0 \<le> waitq_head s"

definition srq_put_in_waitq :: "nat \<Rightarrow> mlx5_srq \<Rightarrow> mlx5_srq" where
  "srq_put_in_waitq ind s = (set_next (nat (waitq_tail s)) ind s)\<lparr>waitq_tail := int ind\<rparr>"

definition srq_get_from_waitq :: "mlx5_srq \<Rightarrow> mlx5_srq" where
  "srq_get_from_waitq s =
     (let w = nat (waitq_head s); s1 = (set_next (srq_tail s) w s)\<lparr>srq_tail := w\<rparr>
      in s1\<lparr>waitq_head := int (next_wqe_index s1 w)\<rparr>)"

definition srq_cooldown_wqe :: "nat \<Rightarrow> mlx5_srq \<Rightarrow> bool \<times> mlx5_srq" where
  "srq_cooldown_wqe ind s =
     (if \<not> srq_has_waitq s then (False, s) else (True, srq_get_from_waitq (srq_put_in_waitq ind s)))"

fun repost_copy :: "nat \<Rightarrow> nat \<Rightarrow> nat \<Rightarrow> mem \<Rightarrow> mem" where
  "repost_copy 0 src dst m = m"
| "repost_copy (Suc n) src dst m =
     (let m1 = store dst (load_bytes src 16 m) m
      in if ld_be32 (dst + 4) m1 = MLX5_INVALID_LKEY then m1 else repost_copy n (src + 16) (dst + 16) m1)"

text \<open>The array of identifiers has \<open>srq_max\<close> elements.\<close>

definition srq_repost :: "nat \<Rightarrow> mlx5_srq \<Rightarrow> mlx5_srq res" where
  "srq_repost ind s =
     (if srq_max s \<le> srq_head s \<or> srq_max s \<le> ind then Inl OutOfBounds
      else
        let h = srq_head s;
            s1 = s\<lparr>srq_wrid := (srq_wrid s)(h := srq_wrid s ind),
                   srq_mem := repost_copy (nat (srq_max_gs s)) (get_wqe s ind + 16) (get_wqe s h + 16) (srq_mem s)\<rparr>
        in Inr (s1\<lparr>srq_head := next_wqe_index s1 h, srq_counter := srq_counter s + 1,
                   srq_db := ucast (srq_counter s + 1)\<rparr>))"

definition mlx5_complete_odp_fault :: "nat \<Rightarrow> mlx5_srq \<Rightarrow> mlx5_srq res" where
  "mlx5_complete_odp_fault ind s =
     (case srq_cooldown_wqe ind s of (cooled, s1) \<Rightarrow>
        srq_repost ind (if cooled then s1 else (set_next (srq_tail s1) ind s1)\<lparr>srq_tail := ind\<rparr>))"

subsection \<open>Posting and delivery\<close>

fun srq_scat :: "ibv_recv_wr \<Rightarrow> nat \<Rightarrow> nat \<Rightarrow> nat \<Rightarrow> mem \<Rightarrow> mem res" where
  "srq_scat wr 0 i scat m = Inr m"
| "srq_scat wr (Suc n) i scat m =
     bind_res (recv_sge wr i) (\<lambda>sg. srq_scat wr n (Suc i) (scat + 16) (set_data_ptr_seg scat sg 0 m))"

definition srq_post_one :: "ibv_recv_wr \<Rightarrow> mlx5_srq \<Rightarrow> (nat \<times> mlx5_srq) res" where
  "srq_post_one wr s =
     (if srq_max_gs s < rwr_num_sge wr then Inr (EINVAL, s)
      else if srq_head s = srq_tail s then Inr (ENOMEM, s)
      else if srq_max s \<le> srq_head s then Inl OutOfBounds
      else
        let h = srq_head s; n = nat (rwr_num_sge wr); scat = get_wqe s h + 16;
            s1 = s\<lparr>srq_wrid := (srq_wrid s)(h := rwr_id wr), srq_head := next_wqe_index s h\<rparr>
        in bind_res (srq_scat wr n 0 scat (srq_mem s)) (\<lambda>m.
             Inr (0, s1\<lparr>srq_mem := (if int n < srq_max_gs s then set_data_ptr_seg_end (scat + 16 * n) m else m)\<rparr>)))"

fun srq_post_loop :: "nat \<Rightarrow> ibv_recv_wr list \<Rightarrow> mlx5_srq \<Rightarrow> (nat \<times> nat \<times> mlx5_srq) res" where
  "srq_post_loop n [] s = Inr (0, n, s)"
| "srq_post_loop n (wr # wrs) s =
     bind_res (srq_post_one wr s) (\<lambda>(e, s1). if e \<noteq> 0 then Inr (e, n, s1) else srq_post_loop (Suc n) wrs s1)"

definition mlx5_post_srq_recv :: "ibv_recv_wr list \<Rightarrow> mlx5_srq \<Rightarrow> (nat \<times> nat \<times> mlx5_srq) res" where
  "mlx5_post_srq_recv wrs s =
     bind_res (srq_post_loop 0 wrs s) (\<lambda>(e, n, s1).
       Inr (e, n, if n \<noteq> 0
                  then s1\<lparr>srq_counter := srq_counter s1 + of_nat n, srq_db := ucast (srq_counter s1 + of_nat n)\<rparr>
                  else s1))"

text \<open>Unlike \<open>copy_to_scat\<close> it writes buffers of every key.\<close>

fun srq_copy_loop :: "nat \<Rightarrow> nat \<Rightarrow> u8 list \<Rightarrow> mem \<Rightarrow> user_mem \<Rightarrow> nat \<times> user_mem" where
  "srq_copy_loop 0 scat buf m um = (IBV_WC_LOC_LEN_ERR, um)"
| "srq_copy_loop (Suc n) scat buf m um =
     (let c = min (length buf) (unat (ld_be32 scat m)); um' = user_store (ld_be64 (scat + 8) m) (take c buf) um
      in if length buf \<le> c then (IBV_WC_SUCCESS, um') else srq_copy_loop n (scat + 16) (drop c buf) m um')"

definition mlx5_copy_to_recv_srq :: "mlx5_srq \<Rightarrow> nat \<Rightarrow> u8 list \<Rightarrow> user_mem \<Rightarrow> nat \<times> user_mem" where
  "mlx5_copy_to_recv_srq s idx buf um =
     srq_copy_loop (2 ^ (srq_shift s - 4)) (get_wqe s idx + 16) buf (srq_mem s) um"

subsection \<open>Creation\<close>

text \<open>The number of bits of a value, and the next power of two.\<close>

fun ilog :: "nat \<Rightarrow> nat" where
  "ilog n = (if n = 0 then 0 else Suc (ilog (n div 2)))"

declare ilog.simps [simp del]

definition roundup_pow_of_two :: "nat \<Rightarrow> nat" where
  "roundup_pow_of_two n = (if n = 1 then 1 else 2 ^ ilog (n - 1))"

definition align_queue_size :: "nat \<Rightarrow> nat" where
  "align_queue_size req = roundup_pow_of_two req"

definition set_srq_buf_ll :: "nat \<Rightarrow> nat \<Rightarrow> mlx5_srq \<Rightarrow> mlx5_srq" where
  "set_srq_buf_ll start fin s = fold (\<lambda>i. set_next i (i + 1)) [start..<fin] s"

text \<open>
  The limits of the device are \<open>max_srq\<close> (descriptors) and \<open>max_recv\<close> (bytes of one); \<open>buf_ok\<close> and
  \<open>wrid_ok\<close> tell whether the two allocations succeed.  The result is \<open>None\<close> when the code returns -1.
\<close>

definition mlx5_alloc_srq_buf :: "nat \<Rightarrow> nat \<Rightarrow> bool \<Rightarrow> bool \<Rightarrow> u32 \<Rightarrow> mlx5_srq \<Rightarrow> mlx5_srq option" where
  "mlx5_alloc_srq_buf max_srq max_recv buf_ok wrid_ok orig s =
     (if srq_max_gs s < 0 then None
      else
        let have_wq = (unat (orig * 2 + 1) \<le> max_srq);
            max_wr = (if have_wq then unat (orig * 2 + 1) else unat (orig + 1));
            sz = roundup_pow_of_two (max 32 (16 + nat (srq_max_gs s) * 16))
        in if max_recv < sz \<or> \<not> buf_ok \<or> \<not> wrid_ok then None
           else
             let mx = align_queue_size max_wr; tl = align_queue_size (unat (orig + 1)) - 1;
                 s1 = s\<lparr>srq_max_gs := int ((sz - 16) div 16), srq_shift := ilog (sz - 1), srq_max := mx,
                        srq_mem := memset0 0 (mx * sz) (srq_mem s), srq_head := 0, srq_tail := tl,
                        waitq_head := (if have_wq then int tl + 1 else - 1),
                        waitq_tail := (if have_wq then int mx - 1 else - 1)\<rparr>;
                 s2 = set_srq_buf_ll 0 tl s1
             in Some (if have_wq then set_srq_buf_ll (tl + 1) (mx - 1) s2 else s2))"

end
