(* ===== verification/Send_Queue.thy ===== *)
theory Send_Queue
  imports Send_Wr
begin

text \<open>
  Properties of the two posting interfaces.  A run of data segments is a list of 16-byte writes that
  does not depend on the memory it is applied to (\<open>seg_writes\<close>), which gives both loops over scatter
  entries one closed form; with it the descriptors of the two interfaces are compared byte by byte and
  read back.
\<close>

subsection \<open>Data segments as lists of writes\<close>

definition seg_bytes :: "ibv_sge \<Rightarrow> u8 list" where
  "seg_bytes sg =
     be_bytes 4 (unat (sge_length sg)) @ be_bytes 4 (unat (sge_lkey sg)) @ be_bytes 8 (unat (sge_addr sg))"

lemma length_seg_bytes [simp]: "length (seg_bytes sg) = 16"
  by (simp add: seg_bytes_def)

lemma store_append: "store p (a @ b) m = store (p + length a) b (store p a m)"
  by (intro ext) (auto simp: store_def nth_append)

lemma put_data_seg_store: "put_data_seg d (sge_lkey sg) (sge_addr sg) (sge_length sg) m = store d (seg_bytes sg) m"
  by (simp add: put_data_seg_def seg_bytes_def st_defs store_append add.commute)

lemma set_data_ptr_seg_store: "set_data_ptr_seg d sg 0 m = store d (seg_bytes sg) m"
  by (simp add: set_data_ptr_seg_def seg_bytes_def st_defs store_append add.commute)

definition apply_writes :: "(nat \<times> u8 list) list \<Rightarrow> mem \<Rightarrow> mem" where
  "apply_writes ws m = fold (\<lambda>w. store (fst w) (snd w)) ws m"

lemma apply_writes_simps [simp]:
  "apply_writes [] m = m" "apply_writes (w # ws) m = apply_writes ws (store (fst w) (snd w) m)"
  by (simp_all add: apply_writes_def)

definition apart :: "nat \<Rightarrow> nat \<Rightarrow> nat \<times> u8 list \<Rightarrow> bool" where
  "apart p n w \<longleftrightarrow> p + n \<le> fst w \<or> fst w + length (snd w) \<le> p"

lemma apply_writes_store:
  "\<forall>w \<in> set ws. apart p (length bs) w \<Longrightarrow> apply_writes ws (store p bs m) = store p bs (apply_writes ws m)"
proof (induction ws arbitrary: m)
  case (Cons w ws)
  have "store (fst w) (snd w) (store p bs m) = store p bs (store (fst w) (snd w) m)"
    by (rule store_commute) (use Cons.prems in \<open>auto simp: apart_def\<close>)
  with Cons show ?case by simp
qed simp

lemma load_apply_writes:
  "\<forall>w \<in> set ws. apart p n w \<Longrightarrow> load_bytes p n (apply_writes ws m) = load_bytes p n m"
proof (induction ws arbitrary: m)
  case (Cons w ws)
  then have "load_bytes p n (apply_writes ws (store (fst w) (snd w) m)) = load_bytes p n (store (fst w) (snd w) m)"
    by simp
  also have "\<dots> = load_bytes p n m"
    by (rule load_store_other) (use Cons.prems in \<open>auto simp: apart_def\<close>)
  finally show ?case by simp
qed simp

lemma apply_writes_keeps:
  "\<forall>w \<in> set ws. lo \<le> fst w \<and> fst w + length (snd w) \<le> hi \<Longrightarrow> keeps_outside lo hi m m' \<Longrightarrow>
   keeps_outside lo hi m (apply_writes ws m')"
  by (induction ws arbitrary: m') (auto intro: keeps_outside_store)

text \<open>The writes of the entries \<open>xs\<close>, wrapping at the end \<open>qe\<close> of the queue.\<close>

definition wrap_at :: "nat \<Rightarrow> nat \<Rightarrow> nat" where
  "wrap_at qe seg = (if seg = qe then 0 else seg)"

lemma wrap_end_at: "wrap_end qp seg = wrap_at (qend (sq qp)) seg"
  by (simp add: wrap_end_def wrap_at_def mlx5_get_send_wqe_def)

lemma wrap_at_idem [simp]: "wrap_at qe (wrap_at qe s) = wrap_at qe s"
  by (simp add: wrap_at_def)

fun seg_writes :: "nat \<Rightarrow> nat \<Rightarrow> ibv_sge list \<Rightarrow> (nat \<times> u8 list) list" where
  "seg_writes qe seg [] = []"
| "seg_writes qe seg (sg # xs) = (wrap_at qe seg, seg_bytes sg) # seg_writes qe (wrap_at qe seg + 16) xs"

lemma seg_writes_wrap [simp]: "seg_writes qe (wrap_at qe seg) xs = seg_writes qe seg xs"
  by (cases xs) simp_all

lemma length_seg_writes [simp]: "length (seg_writes qe seg xs) = length xs"
  by (induction xs arbitrary: seg) simp_all

text \<open>The position of the \<open>k\<close>-th write, for a run that is not longer than the queue.\<close>

definition seg_pos :: "nat \<Rightarrow> nat \<Rightarrow> nat \<Rightarrow> nat" where
  "seg_pos qe seg k = (if seg + 16 * k < qe then seg + 16 * k else seg + 16 * k - qe)"

lemma seg_writes_nth:
  assumes "seg \<le> qe" "16 dvd seg" "16 dvd qe" "16 * length xs \<le> qe" "k < length xs"
  shows "seg_writes qe seg xs ! k = (seg_pos qe seg k, seg_bytes (xs ! k))"
  using assms
proof (induction xs arbitrary: seg k)
  case (Cons sg xs)
  have w: "wrap_at qe seg < qe" "16 dvd wrap_at qe seg" using Cons.prems by (auto simp: wrap_at_def)
  then have w16: "wrap_at qe seg + 16 \<le> qe" using Cons.prems by (auto simp: dvd_def)
  show ?case
  proof (cases k)
    case 0
    then show ?thesis using Cons.prems by (auto simp: seg_pos_def wrap_at_def)
  next
    case (Suc j)
    have "seg_writes qe (wrap_at qe seg + 16) xs ! j = (seg_pos qe (wrap_at qe seg + 16) j, seg_bytes (xs ! j))"
      by (rule Cons.IH) (use Cons.prems w w16 Suc in auto)
    moreover have "seg_pos qe (wrap_at qe seg + 16) j = seg_pos qe seg k"
      using Cons.prems Suc by (auto simp: seg_pos_def wrap_at_def)
    ultimately show ?thesis using Suc by simp
  qed
qed simp

text \<open>A run keeps clear of a range that lies outside it around the ring.\<close>

lemma seg_writes_apart:
  assumes "seg \<le> qe" "16 dvd seg" "16 dvd qe" "p + n \<le> seg" "seg + 16 * length xs \<le> qe + p"
  shows "\<forall>w \<in> set (seg_writes qe seg xs). apart p n w"
proof
  fix w assume "w \<in> set (seg_writes qe seg xs)"
  then obtain k where k: "k < length xs" "w = seg_writes qe seg xs ! k" by (auto simp: in_set_conv_nth)
  have "16 * length xs \<le> qe" using assms by auto
  with k assms have "w = (seg_pos qe seg k, seg_bytes (xs ! k))" by (simp add: seg_writes_nth)
  moreover have "p + n \<le> seg_pos qe seg k \<or> seg_pos qe seg k + 16 \<le> p"
  proof (cases "seg + 16 * k < qe")
    case True
    with assms show ?thesis by (simp add: seg_pos_def)
  next
    case False
    have "16 * Suc k \<le> 16 * length xs" using k(1) by simp
    then have "seg + 16 * k + 16 \<le> qe + p" using assms(5) by simp
    with False have "seg + 16 * k - qe + 16 \<le> p" by linarith
    with False show ?thesis by (simp only: seg_pos_def if_False simp_thms)
  qed
  ultimately show "apart p n w" by (simp add: apart_def)
qed


subsection \<open>The loops over scatter entries\<close>

definition nz :: "ibv_sge list \<Rightarrow> ibv_sge list" where
  "nz xs = filter (\<lambda>s. sge_length s \<noteq> 0) xs"

definition plain_op :: "ibv_wr_opcode \<Rightarrow> bool" where
  "plain_op op \<longleftrightarrow> op \<noteq> IBV_WR_ATOMIC_CMP_AND_SWP \<and> op \<noteq> IBV_WR_ATOMIC_FETCH_AND_ADD \<and> op \<noteq> IBV_WR_TSO"

lemma take_Suc_drop: "i < length xs \<Longrightarrow> take (Suc n) (drop i xs) = xs ! i # take n (drop (Suc i) xs)"
  by (simp add: Cons_nth_drop_Suc [symmetric])

lemma offset_id: "b_offset b = 0 \<Longrightarrow> b\<lparr>b_offset := 0\<rparr> = b"
  by (cases b) simp

lemma data_segs_run:
  assumes "sg_list wr = Some xs" "plain_op (opcode wr)"
  shows "i + n \<le> length xs \<Longrightarrow> b_offset b = 0 \<Longrightarrow>
    \<exists>s. data_segs wr n (int i) tso b =
      ok_step (b\<lparr>b_qp := (b_qp b)\<lparr>sq_mem :=
          apply_writes (seg_writes (qend (sq (b_qp b))) (b_seg b) (nz (take n (drop i xs)))) (b_mem b)\<rparr>,
        b_seg := s, b_size := b_size b + length (nz (take n (drop i xs)))\<rparr>)"
proof (induction n arbitrary: i b)
  case 0
  show ?case by (intro exI [of _ "b_seg b"]) (simp add: nz_def)
next
  case (Suc n)
  let ?sg = "xs ! i" and ?seg = "wrap_at (qend (sq (b_qp b))) (b_seg b)"
  have i: "i < length xs" using Suc.prems by simp
  have g: "wr_sge wr (int i) = Inr ?sg" using assms(1) i by (simp add: wr_sge_def)
  have ii: "int i + 1 = int (Suc i)" by simp
  show ?case
  proof (cases "sge_length ?sg = 0")
    case True
    then have "data_segs wr (Suc n) (int i) tso b = data_segs wr n (int (Suc i)) tso (b\<lparr>b_seg := ?seg\<rparr>)"
      by (simp add: g wrap_end_at ii del: of_nat_Suc)
    with Suc.IH [of "Suc i" "b\<lparr>b_seg := ?seg\<rparr>"] Suc.prems i True show ?thesis
      by (simp add: take_Suc_drop nz_def)
  next
    case False
    define b1 where "b1 = b\<lparr>b_qp := (b_qp b)\<lparr>sq_mem := store ?seg (seg_bytes ?sg) (b_mem b)\<rparr>,
      b_seg := ?seg + 16, b_size := b_size b + 1\<rparr>"
    have "data_segs wr (Suc n) (int i) tso b = data_segs wr n (int (Suc i)) tso b1"
      using False assms(2) Suc.prems(2)
      by (simp add: g wrap_end_at ii plain_op_def offset_id set_data_ptr_seg_store advance_def on_mem_def put_mem_def Let_def
          b1_def del: of_nat_Suc)
    with Suc.IH [of "Suc i" b1] Suc.prems i False show ?thesis
      by (simp add: take_Suc_drop nz_def b1_def)
  qed
qed

lemma sge_list_loop_run:
  "i + n \<le> length xs \<Longrightarrow>
   sge_list_loop xs n i dseg qp =
     Inr ((upd_mem (apply_writes (seg_writes (qend (sq qp)) dseg (nz (take n (drop i xs))))) qp)
            \<lparr>cur_size := cur_size qp + length (nz (take n (drop i xs)))\<rparr>)"
proof (induction n arbitrary: i dseg qp)
  case 0
  then show ?case by (simp add: nz_def upd_mem_def)
next
  case (Suc n)
  then have i: "i < length xs" by simp
  then show ?case
    using Suc by (simp add: arr_def take_Suc_drop nz_def wrap_end_at put_data_seg_store upd_mem_def Let_def)
qed


subsection \<open>The two interfaces build the same descriptor\<close>

text \<open>A send queue as the driver lays it out: \<open>wqe_cnt\<close> is a power of two, and the buffer ends after it.\<close>

definition sq_ok :: "mlx5_qp \<Rightarrow> bool" where
  "sq_ok qp \<longleftrightarrow> (\<exists>b < 32. wqe_cnt (sq qp) = 2 ^ b) \<and> qend (sq qp) = 64 * unat (wqe_cnt (sq qp))"

lemma sq_idx_less: "sq_ok qp \<Longrightarrow> sq_idx qp < unat (wqe_cnt (sq qp))"
proof -
  assume "sq_ok qp"
  then obtain b where b: "b < 32" "wqe_cnt (sq qp) = 2 ^ b" by (auto simp: sq_ok_def)
  have "sq_idx qp = unat (take_bit b (cur_post (sq qp)))"
    by (simp add: sq_idx_def b take_bit_eq_mask mask_eq_exp_minus_1)
  also have "\<dots> < 2 ^ b" by (simp add: unsigned_take_bit_eq)
  also have "2 ^ b = unat (2 ^ b :: u32)" using b by (simp add: unat_pow2)
  finally show ?thesis using b by simp
qed

lemma ctrl_in_queue: "sq_ok qp \<Longrightarrow> mlx5_get_send_wqe (sq_idx qp) + 64 \<le> qend (sq qp)"
  using sq_idx_less [of qp] by (auto simp: sq_ok_def mlx5_get_send_wqe_def)

text \<open>
  The calls of an application that posts the request \<open>wr\<close> through the extended interface of an RC
  queue pair, for the opcodes that carry four bytes of immediate data or a key.
\<close>

definition wr_builder :: "ibv_send_wr \<Rightarrow> mlx5_qp \<Rightarrow> mlx5_qp" where
  "wr_builder wr =
     (case opcode wr of
        IBV_WR_RDMA_WRITE_WITH_IMM \<Rightarrow> mlx5_send_wr_rdma_write_imm (rdma_rkey wr) (rdma_remote_addr wr) (imm_data wr)
      | IBV_WR_SEND_WITH_IMM \<Rightarrow> mlx5_send_wr_send_imm (imm_data wr)
      | _ \<Rightarrow> mlx5_send_wr_send_inv (imm_data wr))"

definition wr_session :: "ibv_send_wr \<Rightarrow> ibv_sge list \<Rightarrow> mlx5_qp \<Rightarrow> (nat \<times> mlx5_qp) res" where
  "wr_session wr xs qp =
     (let q = (mlx5_send_wr_start qp)\<lparr>ex_wr_id := wr_id wr, ex_wr_flags := send_flags wr\<rparr>
      in bind_res (mlx5_send_wr_set_sge_list_rc_uc (length xs) xs (wr_builder wr q))
           (\<lambda>q'. Inr (mlx5_send_wr_complete q')))"

text \<open>What the device and the later operations of the queue see.\<close>

definition queue_view :: "mlx5_qp \<Rightarrow> mlx5_wq \<times> mem \<times> u32 \<times> mmio list \<times> mlx5_bf \<times> u8" where
  "queue_view qp = (sq qp, sq_mem qp, db_snd qp, mmio_log qp, bf qp, fm_cache qp)"

text \<open>The writes of the remote-address segment.\<close>

definition raddr_writes :: "nat \<Rightarrow> u64 \<Rightarrow> u32 \<Rightarrow> (nat \<times> u8 list) list" where
  "raddr_writes r a k = [(r, be_bytes 8 (unat a)), (r + 8, be_bytes 4 (unat k)), (r + 12, be_bytes 4 0)]"

lemma set_raddr_seg_writes: "set_raddr_seg r a k m = apply_writes (raddr_writes r a k) m"
  by (simp add: set_raddr_seg_def raddr_writes_def st_defs)

definition imm_op :: "ibv_wr_opcode \<Rightarrow> bool" where
  "imm_op op \<longleftrightarrow> op \<in> {IBV_WR_RDMA_WRITE_WITH_IMM, IBV_WR_SEND_WITH_IMM, IBV_WR_SEND_WITH_INV}"

definition rdma_op :: "ibv_wr_opcode \<Rightarrow> bool" where
  "rdma_op op \<longleftrightarrow> op \<in> {IBV_WR_RDMA_WRITE, IBV_WR_RDMA_WRITE_WITH_IMM, IBV_WR_RDMA_READ}"

text \<open>The operations whose descriptor is a control segment, for RDMA a remote address, and data segments.\<close>

definition seg_op :: "ibv_wr_opcode \<Rightarrow> bool" where
  "seg_op op \<longleftrightarrow> rdma_op op \<or> op \<in> {IBV_WR_SEND, IBV_WR_SEND_WITH_IMM, IBV_WR_SEND_WITH_INV}"

lemma imm_op_seg_op: "imm_op op \<Longrightarrow> seg_op op"
  by (auto simp: imm_op_def seg_op_def rdma_op_def)

definition rc_len :: "ibv_send_wr \<Rightarrow> nat" where
  "rc_len wr = (if rdma_op (opcode wr) then 2 else 1)"

definition rc_writes :: "ibv_send_wr \<Rightarrow> nat \<Rightarrow> (nat \<times> u8 list) list" where
  "rc_writes wr ctrl =
     (if rdma_op (opcode wr) then raddr_writes (ctrl + 16) (rdma_remote_addr wr) (rdma_rkey wr) else [])"

definition mlx5_op :: "ibv_send_wr \<Rightarrow> u32" where
  "mlx5_op wr = (case mlx5_ib_opcode (opcode wr) of Some op \<Rightarrow> op | None \<Rightarrow> 0)"

text \<open>
  The memory after the payload and before the signature, in the order of the first interface; the
  second writes the opcode before, and the immediate data between, the two groups of segments.
\<close>

definition wqe_body :: "nat \<Rightarrow> u8 \<Rightarrow> u8 list \<Rightarrow> u32 \<Rightarrow> u32 \<Rightarrow> (nat \<times> u8 list) list \<Rightarrow> (nat \<times> u8 list) list \<Rightarrow> mem \<Rightarrow> mem" where
  "wqe_body ctrl fm imm op ds rs ws m =
     st_be32 (ctrl + 4) ds (st_be32 ctrl op (apply_writes ws (apply_writes rs
       (st8 (ctrl + 11) fm (store (ctrl + 12) imm (memset0 (ctrl + 8) 4 m))))))"

lemma wqe_body_order:
  assumes "length imm = 4" "\<forall>w \<in> set rs. ctrl + 16 \<le> fst w"
    "\<forall>w \<in> set ws. apart ctrl 16 w"
  shows "wqe_body ctrl fm imm op ds rs ws m =
    st_be32 (ctrl + 4) ds (apply_writes ws (store (ctrl + 12) imm (apply_writes rs
       (st_be32 ctrl op (st8 (ctrl + 11) fm (memset0 (ctrl + 8) 4 m))))))"
proof -
  have r: "apply_writes rs (store p bs m') = store p bs (apply_writes rs m')"
    if "p + length bs \<le> ctrl + 16" for p bs m'
    by (rule apply_writes_store) (use assms(2) that in \<open>fastforce simp: apart_def\<close>)
  have w: "apply_writes ws (store p bs m') = store p bs (apply_writes ws m')"
    if "ctrl \<le> p" "p + length bs \<le> ctrl + 16" for p bs m'
    by (rule apply_writes_store) (use assms(3) that in \<open>fastforce simp: apart_def\<close>)
  let ?m = "apply_writes ws (apply_writes rs m)"
  have "store ctrl (be_bytes 4 (unat op)) (store (ctrl + 11) [fm] (store (ctrl + 12) imm (store (ctrl + 8) (replicate 4 0) ?m)))
      = store (ctrl + 12) imm (store ctrl (be_bytes 4 (unat op)) (store (ctrl + 11) [fm] (store (ctrl + 8) (replicate 4 0) ?m)))"
    using assms(1)
    by (subst (2) store_commute, simp, subst store_commute, simp_all)
  then show ?thesis
    by (simp add: wqe_body_def st_defs r w assms(1))
qed


definition signed_mem :: "mlx5_qp \<Rightarrow> nat \<Rightarrow> mem \<Rightarrow> mem" where
  "signed_mem qp ctrl m = (if wq_sig qp then st8 (ctrl + 8) (wqe_sig ctrl m) m else m)"

text \<open>A request as both interfaces accept it.\<close>

definition rc_request :: "mlx5_qp \<Rightarrow> ibv_send_wr \<Rightarrow> ibv_sge list \<Rightarrow> bool" where
  "rc_request qp wr xs \<longleftrightarrow>
     sq_ok qp \<and> qp_type (ibqp qp) = IBV_QPT_RC \<and> seg_op (opcode wr) \<and>
     \<not> has_flag (send_flags wr) IBV_SEND_INLINE \<and> sg_list wr = Some xs \<and> num_sge wr = int (length xs) \<and>
     int (length xs) \<le> max_gs (sq qp) \<and> max_gs (sq qp) < 2 ^ 31 \<and> \<not> mlx5_wq_overflow (sq qp) 0 \<and>
     16 * (2 + length xs) \<le> qend (sq qp)"

definition req_fence :: "ibv_send_wr \<Rightarrow> mlx5_qp \<Rightarrow> u8" where
  "req_fence wr qp = (if has_flag (send_flags wr) IBV_SEND_FENCE then MLX5_WQE_CTRL_FENCE else fm_cache qp)"

definition posted_mem :: "mlx5_qp \<Rightarrow> ibv_send_wr \<Rightarrow> ibv_sge list \<Rightarrow> mem" where
  "posted_mem qp wr xs =
     (let ctrl = mlx5_get_send_wqe (sq_idx qp)
      in signed_mem qp ctrl
           (wqe_body ctrl (ctrl_fm_ce_se qp (req_fence wr qp) (send_flags wr)) (send_ieth wr)
             (push_bit 8 (cur_post (sq qp) AND 0xffff) OR mlx5_op wr)
             (of_nat (rc_len wr + length (nz xs)) OR push_bit 8 (qp_num (ibqp qp)))
             (rc_writes wr ctrl) (seg_writes (qend (sq qp)) (ctrl + 16 * rc_len wr) (nz xs)) (sq_mem qp)))"

definition posted_sq :: "mlx5_qp \<Rightarrow> ibv_send_wr \<Rightarrow> ibv_sge list \<Rightarrow> mlx5_wq" where
  "posted_sq qp wr xs =
     (let w = sq qp; idx = sq_idx qp
      in w\<lparr>wrid := (wrid w)(idx := wr_id wr), wqe_head := (wqe_head w)(idx := wq_head w),
           cur_post := cur_post w + of_nat ((rc_len wr + length (nz xs) + 3) div 4), wr_data := (wr_data w)(idx := 0)\<rparr>)"

definition posted_qp :: "mlx5_qp \<Rightarrow> ibv_send_wr \<Rightarrow> ibv_sge list \<Rightarrow> mlx5_qp" where
  "posted_qp qp wr xs = qp\<lparr>sq := posted_sq qp wr xs, sq_mem := posted_mem qp wr xs, fm_cache := 0\<rparr>"

lemma wqe_blocks: "(a * 16 + b * 16 + 63) div 64 = (a + b + 3) div (4 :: nat)"
proof -
  have "(a * 16 + b * 16 + 63) div 64 = (a * 16 + b * 16 + 63) div 16 div 4"
    by (simp add: div_mult2_eq [symmetric])
  also have "(a * 16 + b * 16 + 63) div 16 = a + b + 3" by simp
  finally show ?thesis .
qed

lemma rc_transport:
  assumes "seg_op (opcode wr)" "qp_type (ibqp (b_qp b)) = IBV_QPT_RC" "b_seg b = b_ctrl b + 16" "b_size b = 1"
  shows "transport_step um idx wr b =
    ok_step (b\<lparr>b_qp := (b_qp b)\<lparr>sq_mem := apply_writes (rc_writes wr (b_ctrl b)) (b_mem b)\<rparr>,
               b_seg := b_ctrl b + 16 * rc_len wr, b_size := rc_len wr\<rparr>)"
  using assms
  by (cases b) (auto simp: transport_step_def rc_step_def seg_op_def rdma_op_def rc_writes_def rc_len_def raddr_step_def
      advance_def on_mem_def put_mem_def set_raddr_seg_writes ok_step_def numeral_2_eq_2 add.commute)

lemma rc_payload:
  assumes "rc_request qp wr xs" "b_index b = 0" "b_offset b = 0"
  shows "\<exists>s. payload_step um wr b =
    ok_step (b\<lparr>b_qp := (b_qp b)\<lparr>sq_mem :=
        apply_writes (seg_writes (qend (sq (b_qp b))) (b_seg b) (nz xs)) (b_mem b)\<rparr>,
      b_seg := s, b_size := b_size b + length (nz xs)\<rparr>)"
proof -
  have p: "plain_op (opcode wr)" using assms(1) by (auto simp: rc_request_def seg_op_def rdma_op_def plain_op_def)
  have "payload_step um wr b = data_segs wr (length xs) (int 0)
      (if qp_type (ibqp (b_qp b)) = IBV_QPT_RAW_PACKET then max_tso (b_qp b) else 0) b"
    using assms by (simp add: payload_step_def rc_request_def)
  with data_segs_run [OF _ p, of xs 0 "length xs" b] assms show ?thesis by (simp add: rc_request_def)
qed

lemma post_requests_rc:
  assumes r: "rc_request qp wr xs"
  shows "\<exists>q. post_requests um [wr] qp =
      Inr (0, 1, post_send_db 1 False (rc_len wr + length (nz xs)) (mlx5_get_send_wqe (sq_idx qp)) q)
    \<and> queue_view q = queue_view (posted_qp qp wr xs)
    \<and> (shut_up_bf q, prefer_bf q) = (shut_up_bf qp, prefer_bf qp)"
proof -
  let ?idx = "sq_idx qp" let ?ctrl = "mlx5_get_send_wqe ?idx"
  define b1 where "b1 = ctrl_start ?idx wr (start_build qp)"
  define b2 where "b2 = b1\<lparr>b_qp := (b_qp b1)\<lparr>sq_mem := apply_writes (rc_writes wr (b_ctrl b1)) (b_mem b1)\<rparr>,
               b_seg := b_ctrl b1 + 16 * rc_len wr, b_size := rc_len wr\<rparr>"
  have b1: "qp_type (ibqp (b_qp b1)) = IBV_QPT_RC" "b_seg b1 = b_ctrl b1 + 16" "b_size b1 = 1"
    using r by (simp_all add: b1_def ctrl_start_def start_build_def rc_request_def Let_def)
  have t: "transport_step um ?idx wr b1 = ok_step b2"
    using rc_transport [OF _ b1] r by (simp add: rc_request_def b2_def)
  have z: "b_index b2 = 0" "b_offset b2 = 0"
    by (simp_all add: b2_def b1_def ctrl_start_def start_build_def Let_def)
  obtain s where p: "payload_step um wr b2 =
    ok_step (b2\<lparr>b_qp := (b_qp b2)\<lparr>sq_mem :=
        apply_writes (seg_writes (qend (sq (b_qp b2))) (b_seg b2) (nz xs)) (b_mem b2)\<rparr>,
      b_seg := s, b_size := b_size b2 + length (nz xs)\<rparr>)" (is "_ = ok_step ?b3")
    using rc_payload [OF r z] by blast
  have op: "mlx5_ib_opcode (opcode wr) = Some (mlx5_op wr)"
    using r by (auto simp: rc_request_def seg_op_def rdma_op_def mlx5_op_def)
  have one: "post_one um 0 wr (start_build qp) = ok_step (ctrl_finish 0 ?idx (mlx5_op wr) wr ?b3)"
    using r t p op
    by (simp add: post_one_def rc_request_def start_build_def and_then_def ok_step_def b1_def [unfolded start_build_def])
  define q where "q = (b_qp (ctrl_finish 0 ?idx (mlx5_op wr) wr ?b3))\<lparr>fm_cache := 0\<rparr>"
  have "post_requests um [wr] qp = Inr (0, 1, post_send_db 1 False (rc_len wr + length (nz xs)) ?ctrl q)"
    using one by (simp add: post_requests_def finish_post_def ok_step_def q_def ctrl_finish_def Let_def
        b2_def b1_def ctrl_start_def start_build_def)
  moreover have "sq q = posted_sq qp wr xs"
    by (rule mlx5_wq.equality)
      (simp_all add: q_def posted_sq_def ctrl_finish_def Let_def wqe_blocks b2_def b1_def ctrl_start_def start_build_def)
  then have "queue_view q = queue_view (posted_qp qp wr xs)"
    by (simp add: queue_view_def posted_qp_def)
      (simp add: q_def posted_mem_def ctrl_finish_def Let_def
        b2_def b1_def ctrl_start_def start_build_def wqe_body_def signed_mem_def req_fence_def)
  moreover have "(shut_up_bf q, prefer_bf q) = (shut_up_bf qp, prefer_bf qp)"
    by (simp add: q_def ctrl_finish_def Let_def b2_def b1_def ctrl_start_def start_build_def)
  ultimately show ?thesis by blast
qed


lemma as_size_t_max_gs: "rc_request qp wr xs \<Longrightarrow> \<not> as_size_t (max_gs (sq qp)) < length xs"
  by (auto simp: rc_request_def as_size_t_nonneg nat_less_iff)

text \<open>The state the second interface has reached before the scatter entries.\<close>

lemma builder_rc:
  assumes r: "rc_request qp wr xs" and imm: "imm_op (opcode wr)"
  shows "\<exists>q. wr_builder wr ((mlx5_send_wr_start qp)\<lparr>ex_wr_id := wr_id wr, ex_wr_flags := send_flags wr\<rparr>) = q
    \<and> sq q = (sq qp)\<lparr>wrid := (wrid (sq qp))(sq_idx qp := wr_id wr),
                     wqe_head := (wqe_head (sq qp))(sq_idx qp := wq_head (sq qp)),
                     wr_data := (wr_data (sq qp))(sq_idx qp := 0)\<rparr>
    \<and> sq_mem q = store (mlx5_get_send_wqe (sq_idx qp) + 12) (send_ieth wr)
         (apply_writes (rc_writes wr (mlx5_get_send_wqe (sq_idx qp)))
           (st_be32 (mlx5_get_send_wqe (sq_idx qp)) (push_bit 8 (cur_post (sq qp) AND 0xffff) OR mlx5_op wr)
             (st8 (mlx5_get_send_wqe (sq_idx qp) + 11) (ctrl_fm_ce_se qp (req_fence wr qp) (send_flags wr))
               (memset0 (mlx5_get_send_wqe (sq_idx qp) + 8) 4 (sq_mem qp)))))
    \<and> cur_ctrl q = mlx5_get_send_wqe (sq_idx qp)
    \<and> cur_data q = mlx5_get_send_wqe (sq_idx qp) + 16 * rc_len wr \<and> cur_size q = rc_len wr
    \<and> nreq q = 1 \<and> qp_err q = 0 \<and> inl_wqe q = False \<and> fm_cache q = 0
    \<and> (ibqp q, wq_sig q, db_snd q, mmio_log q, bf q) = (ibqp qp, wq_sig qp, db_snd qp, mmio_log qp, bf qp)
    \<and> (shut_up_bf q, prefer_bf q) = (shut_up_bf qp, prefer_bf qp)"
proof -
  have n: "mlx5_get_send_wqe (sq_idx qp) + 16 \<noteq> qend (sq qp)"
    using ctrl_in_queue [of qp] r by (auto simp: rc_request_def)
  consider (w) "opcode wr = IBV_WR_RDMA_WRITE_WITH_IMM" | (s) "opcode wr = IBV_WR_SEND_WITH_IMM"
    | (i) "opcode wr = IBV_WR_SEND_WITH_INV" using imm by (auto simp: imm_op_def)
  then show ?thesis
  proof cases
    case w
    with n r show ?thesis
      by (simp add: wr_builder_def mlx5_send_wr_rdma_write_imm_def mlx5_send_wr_rdma_def Let_def common_wqe_init_def
          common_wqe_init_op_def mlx5_send_wr_start_def rc_request_def rdma_transport_sz_def wrap_end_def
          upd_mem_def st_le32_def send_ieth_def rc_writes_def rc_len_def rdma_op_def set_raddr_seg_writes mlx5_op_def
          wr_data_of_def req_fence_def sq_idx_def ctrl_fm_ce_se_def)
  next
    case s
    with n r show ?thesis
      by (simp add: wr_builder_def mlx5_send_wr_send_imm_def mlx5_send_wr_send_def Let_def common_wqe_init_def
          common_wqe_init_op_def mlx5_send_wr_start_def rc_request_def send_transport_sz_def wrap_end_def
          upd_mem_def st_le32_def send_ieth_def rc_writes_def rc_len_def rdma_op_def mlx5_op_def
          wr_data_of_def req_fence_def sq_idx_def ctrl_fm_ce_se_def)
  next
    case i
    with n r show ?thesis
      by (simp add: wr_builder_def mlx5_send_wr_send_inv_def mlx5_send_wr_send_def Let_def common_wqe_init_def
          common_wqe_init_op_def mlx5_send_wr_start_def rc_request_def send_transport_sz_def wrap_end_def
          upd_mem_def st_be32_def send_ieth_def rc_writes_def rc_len_def rdma_op_def mlx5_op_def
          wr_data_of_def req_fence_def sq_idx_def ctrl_fm_ce_se_def)
  qed
qed


lemma rc_apart:
  assumes r: "rc_request qp wr xs"
  shows "\<forall>w \<in> set (seg_writes (qend (sq qp)) (mlx5_get_send_wqe (sq_idx qp) + 16 * rc_len wr) (nz xs)).
    apart (mlx5_get_send_wqe (sq_idx qp)) 16 w"
proof (rule seg_writes_apart)
  let ?ctrl = "mlx5_get_send_wqe (sq_idx qp)"
  have c: "?ctrl + 64 \<le> qend (sq qp)" and l: "rc_len wr \<in> {1, 2}"
    using ctrl_in_queue r by (auto simp: rc_request_def rc_len_def)
  show "?ctrl + 16 * rc_len wr \<le> qend (sq qp)" "?ctrl + 16 \<le> ?ctrl + 16 * rc_len wr" using c l by auto
  show "16 dvd ?ctrl + 16 * rc_len wr" by (simp add: mlx5_get_send_wqe_def)
  show "16 dvd qend (sq qp)" using r by (simp add: rc_request_def sq_ok_def)
  have "length (nz xs) \<le> length xs" by (simp add: nz_def)
  then show "?ctrl + 16 * rc_len wr + 16 * length (nz xs) \<le> qend (sq qp) + ?ctrl"
    using r l by (auto simp: rc_request_def)
qed

lemma sq_mem_post_send_db [simp]: "sq_mem (post_send_db n inl sz ctrl qp) = sq_mem qp"
  by (simp add: post_send_db_def Let_def)

lemma post_send_db_view:
  "queue_view q = queue_view q' \<Longrightarrow> (shut_up_bf q, prefer_bf q) = (shut_up_bf q', prefer_bf q') \<Longrightarrow>
   queue_view (post_send_db n inl sz ctrl q) = queue_view (post_send_db n inl sz ctrl q')"
  by (simp add: queue_view_def post_send_db_def Let_def)

lemma wr_session_rc:
  assumes r: "rc_request qp wr xs" and imm: "imm_op (opcode wr)"
  shows "\<exists>q. wr_session wr xs qp =
      Inr (0, post_send_db 1 False (rc_len wr + length (nz xs)) (mlx5_get_send_wqe (sq_idx qp)) q)
    \<and> queue_view q = queue_view (posted_qp qp wr xs)
    \<and> (shut_up_bf q, prefer_bf q) = (shut_up_bf qp, prefer_bf qp)"
proof -
  let ?ctrl = "mlx5_get_send_wqe (sq_idx qp)"
  define q1 where "q1 = wr_builder wr ((mlx5_send_wr_start qp)\<lparr>ex_wr_id := wr_id wr, ex_wr_flags := send_flags wr\<rparr>)"
  note b = builder_rc [OF r imm, folded q1_def, simplified]
  have l: "length (send_ieth wr) = 4"
    by (simp add: send_ieth_def split: ibv_wr_opcode.split)
  have rs: "\<forall>w \<in> set (rc_writes wr ?ctrl). ?ctrl + 16 \<le> fst w"
    by (auto simp: rc_writes_def raddr_writes_def)
  note order = wqe_body_order [OF l rs rc_apart [OF r]]
  define q2 where "q2 = common_wqe_finalize
    ((upd_mem (apply_writes (seg_writes (qend (sq q1)) (cur_data q1) (nz xs))) q1)\<lparr>cur_size := cur_size q1 + length (nz xs)\<rparr>)"
  have "\<not> as_size_t (max_gs (sq q1)) < length xs"
    using as_size_t_max_gs [OF r] b by simp
  then have s: "mlx5_send_wr_set_sge_list_rc_uc (length xs) xs q1 = Inr q2"
    by (simp add: mlx5_send_wr_set_sge_list_rc_uc_def mlx5_send_wr_set_sge_list_def sge_list_loop_run q2_def)
  have f: "qp_err q2 = 0" "nreq q2 = 1" "inl_wqe q2 = False" "cur_ctrl q2 = ?ctrl"
    "cur_size q2 = rc_len wr + length (nz xs)" "shut_up_bf q2 = shut_up_bf qp" "prefer_bf q2 = prefer_bf qp"
    using b by (simp_all add: q2_def common_wqe_finalize_def wqe_finalize_def upd_mem_def Let_def)
  have "queue_view q2 = queue_view (posted_qp qp wr xs)"
    using b by (simp add: queue_view_def q2_def common_wqe_finalize_def wqe_finalize_def upd_mem_def Let_def
        posted_qp_def posted_sq_def posted_mem_def signed_mem_def order)
  moreover have "wr_session wr xs qp = Inr (0, post_send_db 1 False (rc_len wr + length (nz xs)) ?ctrl q2)"
    using s f by (simp add: wr_session_def Let_def q1_def [symmetric] mlx5_send_wr_complete_def)
  ultimately show ?thesis using f by auto
qed




subsection \<open>Reading a descriptor back\<close>

lemma load_bytes_part: "i + n \<le> k \<Longrightarrow> load_bytes (p + i) n m = take n (drop i (load_bytes p k m))"
  by (rule nth_equalityI) (auto simp: load_bytes_def add.assoc)

definition read_seg :: "nat \<Rightarrow> mem \<Rightarrow> ibv_sge" where
  "read_seg p m = \<lparr>sge_addr = ld_be64 (p + 8) m, sge_length = ld_be32 p m, sge_lkey = ld_be32 (p + 4) m\<rparr>"

lemma of_be_bytes:
  "of_nat (be_value (be_bytes 4 (unat x))) = (x :: u32)" "of_nat (be_value (be_bytes 8 (unat y))) = (y :: u64)"
proof -
  have "unat x mod 256 ^ 4 = unat x" "unat y mod 256 ^ 8 = unat y"
    using unat_lt_256(2) [of x] unat_lt_256(3) [of y] by simp_all
  then show "of_nat (be_value (be_bytes 4 (unat x))) = x" "of_nat (be_value (be_bytes 8 (unat y))) = y"
    by (simp_all only: be_value_be_bytes) simp_all
qed

lemma read_seg_bytes: "load_bytes p 16 m = seg_bytes sg \<Longrightarrow> read_seg p m = sg"
  using load_bytes_part [of 0 4 16 p m] load_bytes_part [of 4 4 16 p m] load_bytes_part [of 8 8 16 p m]
  by (cases sg) (simp add: read_seg_def ld_be32_def ld_be64_def seg_bytes_def of_be_bytes)

lemma load_apply_nth:
  assumes "k < length ws" "\<forall>j. k < j \<and> j < length ws \<longrightarrow> apart (fst (ws ! k)) (length (snd (ws ! k))) (ws ! j)"
  shows "load_bytes (fst (ws ! k)) (length (snd (ws ! k))) (apply_writes ws m) = snd (ws ! k)"
  using assms
proof (induction ws arbitrary: k m)
  case (Cons w ws)
  show ?case
  proof (cases k)
    case 0
    have "\<forall>v \<in> set ws. apart (fst w) (length (snd w)) v"
    proof
      fix v assume "v \<in> set ws"
      then obtain j where "j < length ws" "v = ws ! j" by (auto simp: in_set_conv_nth)
      with Cons.prems(2) 0 show "apart (fst w) (length (snd w)) v" by (auto dest: spec [of _ "Suc j"])
    qed
    with 0 show ?thesis by (simp add: load_apply_writes load_store_same)
  next
    case (Suc i)
    have "\<forall>j. i < j \<and> j < length ws \<longrightarrow> apart (fst (ws ! i)) (length (snd (ws ! i))) (ws ! j)"
    proof (intro allI impI)
      fix j assume "i < j \<and> j < length ws"
      with Cons.prems(2) Suc show "apart (fst (ws ! i)) (length (snd (ws ! i))) (ws ! j)"
        by (auto dest: spec [of _ "Suc j"])
    qed
    with Cons Suc show ?thesis by simp
  qed
qed simp

lemma seg_pos_apart:
  assumes "seg \<le> qe" "16 dvd seg" "16 dvd qe" "16 * n \<le> qe" "i < j" "j < n"
  shows "seg_pos qe seg i + 16 \<le> seg_pos qe seg j \<or> seg_pos qe seg j + 16 \<le> seg_pos qe seg i"
proof -
  obtain a b where "seg = 16 * a" "qe = 16 * b" using assms(2,3) by (auto simp: dvd_def)
  with assms show ?thesis by (auto simp: seg_pos_def)
qed

lemma load_segs:
  assumes "seg \<le> qe" "16 dvd seg" "16 dvd qe" "16 * length ys \<le> qe" "k < length ys"
  shows "load_bytes (seg_pos qe seg k) 16 (apply_writes (seg_writes qe seg ys) m) = seg_bytes (ys ! k)"
proof -
  let ?ws = "seg_writes qe seg ys"
  have n: "?ws ! j = (seg_pos qe seg j, seg_bytes (ys ! j))" if "j < length ys" for j
    using seg_writes_nth [OF assms(1-4) that] .
  have "\<forall>j. k < j \<and> j < length ?ws \<longrightarrow> apart (fst (?ws ! k)) (length (snd (?ws ! k))) (?ws ! j)"
    using seg_pos_apart [OF assms(1-4)] assms(5) by (auto simp: n apart_def)
  from load_apply_nth [OF _ this, of m] assms(5) n show ?thesis by simp
qed

lemma posted_seg:
  assumes r: "rc_request qp wr xs" and k: "k < length (nz xs)"
  shows "read_seg (seg_pos (qend (sq qp)) (mlx5_get_send_wqe (sq_idx qp) + 16 * rc_len wr) k) (posted_mem qp wr xs) = nz xs ! k"
proof -
  let ?ctrl = "mlx5_get_send_wqe (sq_idx qp)" let ?qe = "qend (sq qp)"
  let ?seg = "?ctrl + 16 * rc_len wr"
  let ?p = "seg_pos ?qe ?seg k"
  have c: "?ctrl + 64 \<le> ?qe" "rc_len wr \<in> {1, 2}" using ctrl_in_queue r by (auto simp: rc_request_def rc_len_def)
  have l: "length (nz xs) \<le> length xs" by (simp add: nz_def)
  have g: "?seg \<le> ?qe" "16 dvd ?seg" "16 dvd ?qe" "16 * length (nz xs) \<le> ?qe"
    using c l r by (auto simp: rc_request_def sq_ok_def mlx5_get_send_wqe_def)
  have a: "?p + 16 \<le> ?ctrl \<or> ?ctrl + 16 \<le> ?p"
    using bspec [OF rc_apart [OF r] nth_mem, of k] seg_writes_nth [OF g k] k by (auto simp: apart_def)
  have same: "load_bytes ?p 16 (store q bs m) = load_bytes ?p 16 m" if "?ctrl \<le> q" "q + length bs \<le> ?ctrl + 16" for q bs m
    by (rule load_store_other) (use a that in auto)
  have "load_bytes ?p 16 (posted_mem qp wr xs) =
      load_bytes ?p 16 (apply_writes (seg_writes ?qe ?seg (nz xs)) (apply_writes (rc_writes wr ?ctrl)
       (st8 (?ctrl + 11) (ctrl_fm_ce_se qp (req_fence wr qp) (send_flags wr))
         (store (?ctrl + 12) (send_ieth wr) (memset0 (?ctrl + 8) 4 (sq_mem qp))))))"
    by (simp add: posted_mem_def signed_mem_def wqe_body_def st_be32_def st8_def Let_def same)
  also have "\<dots> = seg_bytes (nz xs ! k)" by (rule load_segs [OF g k])
  finally show ?thesis by (rule read_seg_bytes)
qed


text \<open>The data segments of a descriptor keep clear of its control and remote-address segments.\<close>

lemma rc_apart_raddr:
  assumes r: "rc_request qp wr xs" "rdma_op (opcode wr)"
  shows "\<forall>w \<in> set (seg_writes (qend (sq qp)) (mlx5_get_send_wqe (sq_idx qp) + 16 * rc_len wr) (nz xs)).
    apart (mlx5_get_send_wqe (sq_idx qp) + 16) 16 w"
proof (rule seg_writes_apart)
  let ?ctrl = "mlx5_get_send_wqe (sq_idx qp)"
  have c: "?ctrl + 64 \<le> qend (sq qp)" and l: "rc_len wr = 2"
    using ctrl_in_queue r by (auto simp: rc_request_def rc_len_def)
  show "?ctrl + 16 * rc_len wr \<le> qend (sq qp)" "?ctrl + 16 + 16 \<le> ?ctrl + 16 * rc_len wr" using c l by auto
  show "16 dvd ?ctrl + 16 * rc_len wr" by (simp add: mlx5_get_send_wqe_def)
  show "16 dvd qend (sq qp)" using r by (simp add: rc_request_def sq_ok_def)
  have "length (nz xs) \<le> length xs" by (simp add: nz_def)
  then show "?ctrl + 16 * rc_len wr + 16 * length (nz xs) \<le> qend (sq qp) + (?ctrl + 16)"
    using r l by (auto simp: rc_request_def)
qed

lemma apart_sub: "apart p n w \<Longrightarrow> p \<le> q \<Longrightarrow> q + k \<le> p + n \<Longrightarrow> apart q k w"
  by (auto simp: apart_def)

lemma posted_fields:
  fixes qp :: mlx5_qp
  assumes r: "rc_request qp wr xs"
  defines "ctrl \<equiv> mlx5_get_send_wqe (sq_idx qp)"
  shows "ld_be32 ctrl (posted_mem qp wr xs) = push_bit 8 (cur_post (sq qp) AND 0xffff) OR mlx5_op wr" (is ?op)
    and "ld_be32 (ctrl + 4) (posted_mem qp wr xs) =
      of_nat (rc_len wr + length (nz xs)) OR push_bit 8 (qp_num (ibqp qp))" (is ?ds)
    and "load_bytes (ctrl + 12) 4 (posted_mem qp wr xs) = send_ieth wr" (is ?imm)
    and "rdma_op (opcode wr) \<Longrightarrow> ld_be64 (ctrl + 16) (posted_mem qp wr xs) = rdma_remote_addr wr" (is "_ \<Longrightarrow> ?ra")
    and "rdma_op (opcode wr) \<Longrightarrow> ld_be32 (ctrl + 24) (posted_mem qp wr xs) = rdma_rkey wr" (is "_ \<Longrightarrow> ?rk")
proof -
  have ieth: "length (send_ieth wr) = 4" by (simp add: send_ieth_def split: ibv_wr_opcode.split)
  note m = posted_mem_def signed_mem_def wqe_body_def st_be32_def st8_def memset0_def Let_def ctrl_def [symmetric]
  note ld = ld_be32_def ld_be64_def load_store_same load_store_other of_be_bytes
  show ?op ?ds by (simp_all add: m ld)
  note seg = rc_apart [OF r, folded ctrl_def]
  have "\<forall>w \<in> set (rc_writes wr ctrl). apart (ctrl + 12) 4 w"
    by (auto simp: rc_writes_def raddr_writes_def apart_def)
  moreover have "\<forall>w \<in> set (seg_writes (qend (sq qp)) (ctrl + 16 * rc_len wr) (nz xs)). apart (ctrl + 12) 4 w"
    using seg by (auto intro: apart_sub)
  ultimately show ?imm by (simp add: m ld load_apply_writes ieth)
  assume rd: "rdma_op (opcode wr)"
  note rseg = rc_apart_raddr [OF r rd, folded ctrl_def]
  have "\<forall>w \<in> set (seg_writes (qend (sq qp)) (ctrl + 16 * rc_len wr) (nz xs)). apart (ctrl + 16) 8 w"
    "\<forall>w \<in> set (seg_writes (qend (sq qp)) (ctrl + 16 * rc_len wr) (nz xs)). apart (ctrl + 24) 4 w"
    using rseg by (auto intro: apart_sub)
  moreover have "rc_writes wr ctrl = [(ctrl + 16, be_bytes 8 (unat (rdma_remote_addr wr))),
      (ctrl + 24, be_bytes 4 (unat (rdma_rkey wr))), (ctrl + 28, be_bytes 4 0)]"
    using rd by (simp add: rc_writes_def raddr_writes_def)
  ultimately show ?ra ?rk by (simp_all add: m ld load_apply_writes)
qed

text \<open>
  C12. A posted request can be read back: after \<open>post_send\<close> of a send, an RDMA write or an RDMA read on an
  RC queue pair, the descriptor at the producer index holds its opcode, its size and queue-pair number,
  its immediate data, the remote address and key, and, following the segments around the end of the
  ring, exactly the non-empty entries of the scatter list in their order.
\<close>
theorem posted_wqe_decodes:
  assumes "rc_request qp wr xs"
  shows "\<exists>q. post_requests um [wr] qp = Inr (0, 1, q) \<and>
    (let ctrl = mlx5_get_send_wqe (sq_idx qp); m = sq_mem q
     in ld_be32 ctrl m = push_bit 8 (cur_post (sq qp) AND 0xffff) OR mlx5_op wr
      \<and> ld_be32 (ctrl + 4) m = of_nat (rc_len wr + length (nz xs)) OR push_bit 8 (qp_num (ibqp qp))
      \<and> load_bytes (ctrl + 12) 4 m = send_ieth wr
      \<and> (rdma_op (opcode wr) \<longrightarrow>
           ld_be64 (ctrl + 16) m = rdma_remote_addr wr \<and> ld_be32 (ctrl + 24) m = rdma_rkey wr)
      \<and> map (\<lambda>k. read_seg (seg_pos (qend (sq qp)) (ctrl + 16 * rc_len wr) k) m) [0..<length (nz xs)] = nz xs)"
proof -
  obtain q where q: "post_requests um [wr] qp =
      Inr (0, 1, post_send_db 1 False (rc_len wr + length (nz xs)) (mlx5_get_send_wqe (sq_idx qp)) q)"
    "queue_view q = queue_view (posted_qp qp wr xs)"
    using post_requests_rc [OF assms] by blast
  have m: "sq_mem q = posted_mem qp wr xs"
    using q(2) by (simp add: queue_view_def posted_qp_def)
  have "map (\<lambda>k. read_seg (seg_pos (qend (sq qp)) (mlx5_get_send_wqe (sq_idx qp) + 16 * rc_len wr) k)
      (posted_mem qp wr xs)) [0..<length (nz xs)] = nz xs"
    by (rule nth_equalityI) (simp_all add: posted_seg [OF assms])
  with q(1) posted_fields [OF assms] show ?thesis by (simp add: m Let_def)
qed

theorem posted_wqe_decodes_witness:
  "\<exists>q. post_requests (\<lambda>_. 0)
      [zero_wr\<lparr>opcode := IBV_WR_RDMA_READ, rdma_remote_addr := 0x1000, rdma_rkey := 9,
         sg_list := Some [\<lparr>sge_addr = 4096, sge_length = 10, sge_lkey = 5\<rparr>], num_sge := 1\<rparr>]
      (demo_qp IBV_QPT_RC) = Inr (0, 1, q) \<and> ld_be64 (3 * 64 + 16) (sq_mem q) = 0x1000"
proof -
  let ?wr = "zero_wr\<lparr>opcode := IBV_WR_RDMA_READ, rdma_remote_addr := 0x1000, rdma_rkey := 9,
         sg_list := Some [\<lparr>sge_addr = 4096, sge_length = 10, sge_lkey = 5\<rparr>], num_sge := 1\<rparr>"
  have "\<exists>b < 32. (4 :: u32) = 2 ^ b" by (rule exI [of _ 2]) simp
  then have r: "rc_request (demo_qp IBV_QPT_RC) ?wr [\<lparr>sge_addr = 4096, sge_length = 10, sge_lkey = 5\<rparr>]"
    by (simp add: rc_request_def sq_ok_def demo_qp_def demo_wq_def seg_op_def rdma_op_def zero_wr_def has_flag_def
        mlx5_wq_overflow_def)
  have "sq_idx (demo_qp IBV_QPT_RC) = 3" by (simp add: sq_idx_def demo_qp_def demo_wq_def)
  with posted_wqe_decodes [OF r, of "\<lambda>_. 0"] show ?thesis
    by (auto simp: Let_def mlx5_get_send_wqe_def rdma_op_def zero_wr_def)
qed

end
