(* ===== verification/Recv_Queue.thy ===== *)
theory Recv_Queue
  imports Post_Recv Send_Queue
begin

text \<open>
  Properties of the receive side.  A slot of the ring holds the segments \<open>ys\<close> when its bytes are those of
  \<open>ys\<close> one after the other (\<open>segs_at\<close>); posting establishes this for every slot it fills and keeps the
  others, and the copy of inline data, run on a slot that holds \<open>ys\<close>, is the abstract scatter \<open>deliver\<close>.
  The last property composes the two.
\<close>

subsection \<open>Segments in a slot\<close>

definition segs_at :: "nat \<Rightarrow> ibv_sge list \<Rightarrow> mem \<Rightarrow> bool" where
  "segs_at p ys m \<longleftrightarrow> load_bytes p (16 * length ys) m = concat (map seg_bytes ys)"

lemma load_bytes_add: "load_bytes p (a + b) m = load_bytes p a m @ load_bytes (p + a) b m"
  by (auto simp: load_bytes_def add.assoc nth_append intro!: nth_equalityI)

lemma length_segs [simp]: "length (concat (map seg_bytes ys)) = 16 * length ys"
  by (induction ys) simp_all

lemma segs_at_Nil [simp]: "segs_at p [] m"
  by (simp add: segs_at_def load_bytes_def)

lemma segs_at_Cons [simp]: "segs_at p (y # ys) m \<longleftrightarrow> load_bytes p 16 m = seg_bytes y \<and> segs_at (p + 16) ys m"
  by (simp add: segs_at_def load_bytes_add)

lemma segs_at_store: "segs_at p ys (store p (concat (map seg_bytes ys)) m)"
  by (simp add: segs_at_def load_store_same)

lemma segs_at_cong: "(\<And>a. p \<le> a \<Longrightarrow> a < p + 16 * length ys \<Longrightarrow> m' a = m a) \<Longrightarrow> segs_at p ys m' = segs_at p ys m"
proof -
  assume "\<And>a. p \<le> a \<Longrightarrow> a < p + 16 * length ys \<Longrightarrow> m' a = m a"
  then have "load_bytes p (16 * length ys) m' = load_bytes p (16 * length ys) m" by (simp add: load_bytes_def)
  then show ?thesis by (simp add: segs_at_def)
qed

lemma segs_at_keeps:
  "keeps_outside lo hi m m' \<Longrightarrow> p + 16 * length ys \<le> lo \<or> hi \<le> p \<Longrightarrow> segs_at p ys m' = segs_at p ys m"
  by (rule segs_at_cong) (auto simp: keeps_outside_def)

subsection \<open>Filling a slot\<close>

definition recv_entries :: "ibv_recv_wr \<Rightarrow> ibv_sge list" where
  "recv_entries wr = take (nat (rwr_num_sge wr)) (case rwr_sg_list wr of None \<Rightarrow> [] | Some xs \<Rightarrow> xs)"

text \<open>The scatter list is as long as the request says, and not longer than the queue allows.\<close>

definition recv_ok :: "mlx5_wq \<Rightarrow> ibv_recv_wr \<Rightarrow> bool" where
  "recv_ok w wr \<longleftrightarrow> rwr_num_sge wr \<le> max_gs w \<and>
     nat (rwr_num_sge wr) \<le> length (case rwr_sg_list wr of None \<Rightarrow> [] | Some xs \<Rightarrow> xs)"

lemma scat_loop_run:
  "rwr_sg_list wr = Some xs \<Longrightarrow> i + n \<le> length xs \<Longrightarrow>
   scat_loop wr n i scat j m =
     Inr (j + length (nz (take n (drop i xs))), store (scat + 16 * j) (concat (map seg_bytes (nz (take n (drop i xs))))) m)"
proof (induction n arbitrary: i j m)
  case (Suc n)
  then have "i < length xs" by simp
  with Suc show ?case
    by (simp add: recv_sge_def take_Suc_drop nz_def set_data_ptr_seg_store store_append ac_simps)
qed (simp add: nz_def)

lemma scat_loop_entries:
  assumes "recv_ok w wr"
  shows "scat_loop wr (nat (rwr_num_sge wr)) 0 scat 0 m =
    Inr (length (nz (recv_entries wr)), store scat (concat (map seg_bytes (nz (recv_entries wr)))) m)"
  using assms scat_loop_run [of wr _ 0 "nat (rwr_num_sge wr)" scat 0 m]
  by (cases "rwr_sg_list wr") (auto simp: recv_ok_def recv_entries_def nz_def)

definition scat_start :: "bool \<Rightarrow> nat \<Rightarrow> nat" where
  "scat_start sig p = (if sig then p + 16 else p)"

lemma length_nz_entries: "recv_ok w wr \<Longrightarrow> 0 \<le> max_gs w \<Longrightarrow> int (length (nz (recv_entries wr))) \<le> max_gs w"
proof -
  assume "recv_ok w wr" "0 \<le> max_gs w"
  moreover have "length (nz (recv_entries wr)) \<le> length (recv_entries wr)" by (simp add: nz_def)
  ultimately show ?thesis by (auto simp: recv_ok_def recv_entries_def)
qed

lemma set_end_store: "set_data_ptr_seg_end p m = store p (seg_bytes \<lparr>sge_addr = 0, sge_length = 0, sge_lkey = MLX5_INVALID_LKEY\<rparr>) m"
  by (simp add: set_data_ptr_seg_end_def seg_bytes_def st_defs store_append add.commute)

lemma segs_at_sig:
  "segs_at (scat_start sig p) ys (if sig then set_sig_seg num p n i m else m) = segs_at (scat_start sig p) ys m"
  by (simp add: set_sig_seg_def st8_def scat_start_def
      segs_at_keeps [OF keeps_outside_store [OF keeps_outside_refl order_refl order_refl]])

lemma fill_recv_wqe_run:
  assumes "recv_ok w wr" "0 \<le> max_gs w" and room: "scat_start sig p + 16 * nat (max_gs w) \<le> p + 2 ^ wqe_shift w"
  shows "\<exists>m'. fill_recv_wqe sig num w p wr m = Inr m' \<and> segs_at (scat_start sig p) (nz (recv_entries wr)) m'
    \<and> keeps_outside p (p + 2 ^ wqe_shift w) m m'"
proof -
  let ?ys = "nz (recv_entries wr)" and ?s = "scat_start sig p" and ?hi = "p + 2 ^ wqe_shift w"
  let ?m1 = "if sig then memset0 p (2 ^ wqe_shift w) m else m"
  let ?m2 = "store ?s (concat (map seg_bytes ?ys)) ?m1"
  let ?m3 = "if int (length ?ys) < max_gs w then set_data_ptr_seg_end (?s + 16 * length ?ys) ?m2 else ?m2"
  let ?m4 = "if sig then set_sig_seg num p (nat ((rwr_num_sge wr + 1) * 16)) (ucast (wq_head w AND 0xffff)) ?m3 else ?m3"
  have n: "int (length ?ys) \<le> max_gs w" using length_nz_entries assms by blast
  have e: "fill_recv_wqe sig num w p wr m = Inr ?m4"
    by (simp add: fill_recv_wqe_def scat_loop_entries [OF assms(1)] scat_start_def Let_def)
  have k1: "keeps_outside p ?hi m ?m1" by (simp add: memset0_def keeps_outside_store)
  have k2: "keeps_outside p ?hi m ?m2"
    by (rule keeps_outside_store [OF k1]) (use n room in \<open>auto simp: scat_start_def split: if_splits\<close>)
  have k3: "keeps_outside p ?hi m ?m3"
  proof (cases "int (length ?ys) < max_gs w")
    case True
    then have "?s + 16 * length ?ys + 16 \<le> ?hi" using room by simp
    with True k2 show ?thesis by (simp add: set_end_store keeps_outside_store scat_start_def)
  qed (use k2 in simp)
  have "sig \<Longrightarrow> p + 5 \<le> ?hi" using room by (simp add: scat_start_def)
  then have k4: "keeps_outside p ?hi m ?m4"
    using k3 keeps_outside_store [OF k3] by (simp add: set_sig_seg_def st8_def)
  have "segs_at ?s ?ys ?m3"
    using segs_at_store [of ?s ?ys] by (simp add: set_end_store segs_at_keeps [OF keeps_outside_store [OF keeps_outside_refl order_refl order_refl]])
  then have "segs_at ?s ?ys ?m4" by (simp only: segs_at_sig)
  with e k4 show ?thesis by blast
qed

subsection \<open>Posting to the ring\<close>

text \<open>The geometry of a receive queue: a power of two of slots, each large enough for its segments.\<close>

definition recv_queue :: "bool \<Rightarrow> mlx5_wq \<Rightarrow> bool" where
  "recv_queue sig w \<longleftrightarrow> (\<exists>b < 32. wqe_cnt w = 2 ^ b) \<and> max_post w \<le> wqe_cnt w \<and> 0 \<le> max_gs w \<and>
     scat_start sig 0 + 16 * nat (max_gs w) \<le> 2 ^ wqe_shift w"

text \<open>The index of the slot that the \<open>k\<close>-th request after the index \<open>h\<close> is written to.\<close>

definition slot_after :: "mlx5_wq \<Rightarrow> nat \<Rightarrow> nat \<Rightarrow> nat" where
  "slot_after w h k = (h + k) mod unat (wqe_cnt w)"

lemma slot_after_next: "slot_after w (slot_after w h (Suc 0)) k = slot_after w h (Suc k)"
  by (simp add: slot_after_def mod_simps)

lemma mod_add_inj: "k < l \<Longrightarrow> l < k + c \<Longrightarrow> (h + k) mod c \<noteq> (h + l) mod (c :: nat)"
proof
  assume kl: "k < l" "l < k + c" and "(h + k) mod c = (h + l) mod c"
  then have "c dvd (h + l) - (h + k)" by (metis add_le_cancel_left less_imp_le mod_eq_dvd_iff_nat)
  then have "c dvd l - k" by simp
  with kl show False by (auto dest!: dvd_imp_le)
qed

lemma no_overflow:
  assumes "unat (wq_head w - wq_tail w) + n < unat (max_post w)"
  shows "\<not> mlx5_wq_overflow w n"
proof -
  have "unat (wq_head w - wq_tail w + of_nat n) \<le> unat (wq_head w - wq_tail w) + n"
    by (simp add: unat_word_ariths unsigned_of_nat take_bit_eq_mod mod_simps)
  with assms show ?thesis by (simp add: mlx5_wq_overflow_def Let_def word_less_nat_alt)
qed


text \<open>The slots from \<open>h\<close> on hold the requests \<open>wrs\<close>, and everything else is as it was.\<close>

definition slots_hold :: "bool \<Rightarrow> (nat \<Rightarrow> nat) \<Rightarrow> nat \<Rightarrow> ibv_recv_wr list \<Rightarrow> mlx5_wq \<times> mem \<Rightarrow> bool" where
  "slots_hold sig get h wrs s \<longleftrightarrow> (case s of (w, m) \<Rightarrow> \<forall>k < length wrs.
     wrid w (slot_after w h k) = rwr_id (wrs ! k) \<and>
     segs_at (scat_start sig (get (slot_after w h k))) (nz (recv_entries (wrs ! k))) m)"

definition slot_kept :: "(nat \<Rightarrow> nat) \<Rightarrow> nat \<Rightarrow> mlx5_wq \<times> mem \<Rightarrow> mlx5_wq \<times> mem \<Rightarrow> bool" where
  "slot_kept get i s s' \<longleftrightarrow> (case (s, s') of ((w, m), (w', m')) \<Rightarrow>
     wrid w' i = wrid w i \<and> (\<forall>a. get i \<le> a \<and> a < get i + 2 ^ wqe_shift w \<longrightarrow> m' a = m a))"

definition ids_only :: "mlx5_wq \<Rightarrow> mlx5_wq \<Rightarrow> bool" where
  "ids_only w w' \<longleftrightarrow> w' = w\<lparr>wrid := wrid w'\<rparr>"

lemma ids_only_refl [simp]: "ids_only w w"
  by (simp add: ids_only_def)

lemma ids_only_fields:
  "ids_only w w' \<Longrightarrow> wqe_cnt w' = wqe_cnt w" "ids_only w w' \<Longrightarrow> wqe_shift w' = wqe_shift w"
  "ids_only w w' \<Longrightarrow> max_gs w' = max_gs w" "ids_only w w' \<Longrightarrow> wq_head w' = wq_head w"
  "ids_only w w' \<Longrightarrow> wq_tail w' = wq_tail w" "ids_only w w' \<Longrightarrow> max_post w' = max_post w"
  "ids_only w w' \<Longrightarrow> wq_offset w' = wq_offset w"
  unfolding ids_only_def by (metis mlx5_wq.select_convs mlx5_wq.update_convs mlx5_wq.surjective)+

lemma slot_apart: "i \<noteq> j \<Longrightarrow> i * s + s \<le> j * s \<or> j * s + s \<le> i * (s :: nat)"
proof -
  assume "i \<noteq> j"
  then have "Suc i \<le> j \<or> Suc j \<le> i" by auto
  then have "Suc i * s \<le> j * s \<or> Suc j * s \<le> i * s" using mult_le_mono1 by blast
  then show ?thesis by (simp add: add.commute)
qed

lemma fill_keeps_slot:
  assumes "\<And>i. get i = off + i * 2 ^ wqe_shift w" "i \<noteq> j" "keeps_outside (get j) (get j + 2 ^ wqe_shift w) m m1"
  shows "slot_kept get i (w, m) (w\<lparr>wrid := (wrid w)(j := x)\<rparr>, m1)"
  using slot_apart [OF assms(2), of "2 ^ wqe_shift w"] assms by (auto simp: slot_kept_def keeps_outside_def)

lemma slot_kept_trans:
  "slot_kept get i (w, m) (w1, m1) \<Longrightarrow> slot_kept get i (w1, m1) s \<Longrightarrow> wqe_shift w1 = wqe_shift w \<Longrightarrow> slot_kept get i (w, m) s"
  by (cases s) (simp add: slot_kept_def)

lemma slots_hold_Cons:
  assumes q: "recv_queue sig w1" "recv_ok w1 wr" and i: "i < unat (wqe_cnt w1)" and w: "ids_only w1 w'"
    and here: "wrid w1 i = rwr_id wr" "segs_at (scat_start sig (get i)) (nz (recv_entries wr)) m1"
    and kept: "slot_kept get i (w1, m1) (w', m')" and rest: "slots_hold sig get (slot_after w1 i 1) wrs (w', m')"
  shows "slots_hold sig get i (wr # wrs) (w', m')"
proof -
  have c: "wqe_cnt w' = wqe_cnt w1" using w by (rule ids_only_fields)
  have "int (length (nz (recv_entries wr))) \<le> max_gs w1" using length_nz_entries q by (auto simp: recv_queue_def)
  then have "scat_start sig 0 + 16 * length (nz (recv_entries wr)) \<le> 2 ^ wqe_shift w1"
    using q(1) by (auto simp: recv_queue_def)
  then have "segs_at (scat_start sig (get i)) (nz (recv_entries wr)) m' = segs_at (scat_start sig (get i)) (nz (recv_entries wr)) m1"
    using kept by (intro segs_at_cong) (auto simp: slot_kept_def scat_start_def split: if_splits)
  with here kept i rest show ?thesis
    by (auto simp: slots_hold_def slot_kept_def slot_after_def c less_Suc_eq_0_disj mod_simps)
qed

lemma recv_loop_run:
  assumes get: "\<And>i. get i = off + i * 2 ^ wqe_shift w" and q: "recv_queue sig w"
    and "\<forall>wr \<in> set wrs. recv_ok w wr" "unat ind < unat (wqe_cnt w)"
    and "unat (wq_head w - wq_tail w) + n + length wrs \<le> unat (max_post w)"
  shows "\<exists>w' m'. recv_loop sig num get n ind wrs (w, m) = Inr (0, n + length wrs, w', m') \<and> ids_only w w'
    \<and> slots_hold sig get (unat ind) wrs (w', m')
    \<and> (\<forall>i < unat (wqe_cnt w). (\<forall>k < length wrs. i \<noteq> slot_after w (unat ind) k) \<longrightarrow> slot_kept get i (w, m) (w', m'))"
  using assms
proof (induction wrs arbitrary: w n ind m)
  case Nil
  then show ?case by (auto simp: slots_hold_def slot_kept_def)
next
  case (Cons wr wrs)
  let ?i = "unat ind" and ?w1 = "w\<lparr>wrid := (wrid w)(unat ind := rwr_id wr)\<rparr>"
  let ?ind1 = "(ind + 1) AND (wqe_cnt w - 1)"
  obtain b where b: "wqe_cnt w = 2 ^ b" "b < 32" using Cons.prems(2) by (auto simp: recv_queue_def)
  have c: "unat (wqe_cnt w) = 2 ^ b" using b by (simp add: unat_pow2)
  have i1: "unat ?ind1 = slot_after w ?i 1" using unat_mask_add [OF b, of ind 1] by (simp add: slot_after_def c)
  have ok: "recv_ok w wr" using Cons.prems(3) by simp
  obtain m1 where m1: "fill_recv_wqe sig num w (get ?i) wr m = Inr m1"
    "segs_at (scat_start sig (get ?i)) (nz (recv_entries wr)) m1" "keeps_outside (get ?i) (get ?i + 2 ^ wqe_shift w) m m1"
    using fill_recv_wqe_run [OF ok, of sig "get ?i" num m] Cons.prems(2)
    by (auto simp: recv_queue_def scat_start_def split: if_splits)
  have "\<not> mlx5_wq_overflow w n" by (rule no_overflow) (use Cons.prems(5) in simp)
  then have step: "recv_loop sig num get n ind (wr # wrs) (w, m) = recv_loop sig num get (Suc n) ?ind1 wrs (?w1, m1)"
    using ok m1(1) by (simp add: recv_ok_def)
  have "\<exists>w' m'. recv_loop sig num get (Suc n) ?ind1 wrs (?w1, m1) = Inr (0, Suc n + length wrs, w', m') \<and> ids_only ?w1 w'
    \<and> slots_hold sig get (unat ?ind1) wrs (w', m')
    \<and> (\<forall>i < unat (wqe_cnt ?w1). (\<forall>k < length wrs. i \<noteq> slot_after ?w1 (unat ?ind1) k) \<longrightarrow> slot_kept get i (?w1, m1) (w', m'))"
    by (rule Cons.IH) (use Cons.prems c i1 in \<open>auto simp: recv_queue_def recv_ok_def slot_after_def\<close>)
  then obtain w' m' where t: "recv_loop sig num get (Suc n) ?ind1 wrs (?w1, m1) = Inr (0, Suc n + length wrs, w', m')"
    "ids_only ?w1 w'" "slots_hold sig get (slot_after w ?i 1) wrs (w', m')"
    "\<forall>i < unat (wqe_cnt w). (\<forall>k < length wrs. i \<noteq> slot_after w ?i (Suc k)) \<longrightarrow> slot_kept get i (?w1, m1) (w', m')"
    by (auto simp: i1 slot_after_next slot_after_def mod_simps)
  have w: "ids_only w w'" using t(2) by (simp add: ids_only_def)
  have "length wrs < unat (wqe_cnt w)" using Cons.prems(2,5) by (auto simp: recv_queue_def word_le_nat_alt)
  then have "\<forall>k < length wrs. ?i \<noteq> slot_after w ?i (Suc k)"
    using mod_add_inj [of 0 "Suc _" "unat (wqe_cnt w)" ?i] Cons.prems(4) by (auto simp: slot_after_def)
  with t(4) Cons.prems(4) have k: "slot_kept get ?i (?w1, m1) (w', m')" by simp
  have "slots_hold sig get ?i (wr # wrs) (w', m')"
    by (rule slots_hold_Cons [OF _ _ _ t(2) _ m1(2) k])
      (use Cons.prems(2,4) ok t(3) in \<open>auto simp: recv_queue_def recv_ok_def slot_after_def\<close>)
  moreover have "slot_kept get i (w, m) (w', m')"
    if "i < unat (wqe_cnt w)" "\<forall>k < length (wr # wrs). i \<noteq> slot_after w ?i k" for i
  proof -
    have "i \<noteq> ?i" using that(2) Cons.prems(4) by (auto simp: slot_after_def dest: spec [of _ 0])
    then have "slot_kept get i (w, m) (?w1, m1)" by (rule fill_keeps_slot [OF Cons.prems(1) _ m1(3)])
    moreover have "slot_kept get i (?w1, m1) (w', m')" using t(4) that by auto
    ultimately show ?thesis by (rule slot_kept_trans) simp
  qed
  ultimately show ?case using step t(1) w by auto
qed

subsection \<open>Delivering inline data\<close>

text \<open>What arriving data does to the memory of the application, in terms of the scatter entries.\<close>

fun deliver :: "u32 \<Rightarrow> ibv_sge list \<Rightarrow> u8 list \<Rightarrow> user_mem \<Rightarrow> user_mem" where
  "deliver null_lkey [] buf um = um"
| "deliver null_lkey (s # xs) buf um =
     deliver null_lkey xs (drop (unat (sge_length s)) buf)
       (if sge_lkey s = null_lkey then um else user_store (sge_addr s) (take (unat (sge_length s)) buf) um)"

definition room_of :: "ibv_sge list \<Rightarrow> nat" where
  "room_of xs = (\<Sum>s \<leftarrow> xs. unat (sge_length s))"

lemma user_store_Nil [simp]: "user_store a [] um = um"
  by (rule ext) (simp add: user_store_def)

lemma deliver_Nil [simp]: "deliver null_lkey xs [] um = um"
  by (induction xs) simp_all

lemma deliver_nz: "deliver null_lkey (nz xs) buf um = deliver null_lkey xs buf um"
  by (induction xs arbitrary: buf um) (simp_all add: nz_def)

lemma room_of_nz: "room_of (nz xs) = room_of xs"
  by (induction xs) (simp_all add: nz_def room_of_def)

lemma ld_seg:
  assumes "load_bytes p 16 m = seg_bytes s"
  shows "ld_be32 p m = sge_length s" "ld_be32 (p + 4) m = sge_lkey s" "ld_be64 (p + 8) m = sge_addr s"
proof -
  have "read_seg p m = s" using assms by (rule read_seg_bytes)
  then show "ld_be32 p m = sge_length s" "ld_be32 (p + 4) m = sge_lkey s" "ld_be64 (p + 8) m = sge_addr s"
    by (auto simp: read_seg_def)
qed

lemma scat_copy_loop_deliver:
  "segs_at p ys m \<Longrightarrow> length ys \<le> n \<Longrightarrow> buf \<noteq> [] \<Longrightarrow> length buf \<le> room_of ys \<Longrightarrow>
   scat_copy_loop null_lkey n p buf m um = (IBV_WC_SUCCESS, [], deliver null_lkey ys buf um)"
proof (induction ys arbitrary: p n buf um)
  case Nil
  then show ?case by (simp add: room_of_def)
next
  case (Cons y ys)
  then obtain n' where n: "n = Suc n'" "length ys \<le> n'" by (cases n) auto
  have l: "ld_be32 p m = sge_length y" "ld_be32 (p + 4) m = sge_lkey y" "ld_be64 (p + 8) m = sge_addr y"
    using Cons.prems(1) ld_seg by simp_all
  show ?case
  proof (cases "length buf \<le> unat (sge_length y)")
    case True
    then show ?thesis by (simp add: n(1) l Let_def min_def)
  next
    case False
    then have "drop (unat (sge_length y)) buf \<noteq> []" by simp
    moreover have "length (drop (unat (sge_length y)) buf) \<le> room_of ys" using Cons.prems(4) by (simp add: room_of_def)
    ultimately show ?thesis
      using Cons.IH [OF _ n(2)] Cons.prems(1) False by (simp add: n(1) l Let_def min_def)
  qed
qed

lemma copy_to_scat_deliver:
  "segs_at p ys m \<Longrightarrow> length ys \<le> n \<Longrightarrow> length buf \<le> room_of ys \<Longrightarrow>
   copy_to_scat null_lkey p buf n m um = (IBV_WC_SUCCESS, [], deliver null_lkey ys buf um)"
  by (auto simp: copy_to_scat_def scat_copy_loop_deliver)

lemma segs_in_slot:
  assumes "recv_queue sig w" "recv_ok w wr"
  shows "length (nz (recv_entries wr)) \<le> 2 ^ (wqe_shift w - 4)"
proof -
  have "int (length (nz (recv_entries wr))) \<le> max_gs w" using length_nz_entries assms by (auto simp: recv_queue_def)
  then have l: "16 * length (nz (recv_entries wr)) \<le> 2 ^ wqe_shift w"
    using assms(1) by (auto simp: recv_queue_def)
  show ?thesis
  proof (cases "4 \<le> wqe_shift w")
    case True
    then have "(2 :: nat) ^ wqe_shift w = 16 * 2 ^ (wqe_shift w - 4)"
      using power_add [of "2 :: nat" 4 "wqe_shift w - 4"] by simp
    with l show ?thesis by simp
  next
    case False
    then have "(2 :: nat) ^ wqe_shift w < 2 ^ 4" by (intro power_strict_increasing) simp_all
    with l show ?thesis by simp
  qed
qed

text \<open>
  C15. Posting and delivery fit together: when there is room for the requests, \<open>mlx5_post_recv\<close> accepts
  all of them, and data that then arrives inside the completion of the \<open>k\<close>-th of them, no longer than
  its buffers, is copied by \<open>mlx5_copy_to_recv_wqe\<close> from slot \<open>head + k\<close> of the ring into the
  scatter entries of exactly that request in their order, whose identifier is in that slot.
\<close>
theorem posted_recv_delivers:
  assumes "recv_queue (wq_sig qp) (rq qp)" "\<forall>wr \<in> set wrs. recv_ok (rq qp) wr"
    and "unat (wq_head (rq qp) - wq_tail (rq qp)) + length wrs \<le> unat (max_post (rq qp))"
    and "k < length wrs" "length buf \<le> room_of (recv_entries (wrs ! k))"
  shows "\<exists>q. mlx5_post_recv wrs qp = Inr (0, length wrs, q) \<and>
    (let i = slot_after (rq qp) (unat (wq_head (rq qp))) k
     in wrid (rq q) i = rwr_id (wrs ! k) \<and>
        mlx5_copy_to_recv_wqe null_lkey q i buf um = (IBV_WC_SUCCESS, deliver null_lkey (recv_entries (wrs ! k)) buf um))"
proof -
  let ?w = "rq qp" and ?ind = "wq_head (rq qp) AND (wqe_cnt (rq qp) - 1)"
  obtain b where b: "wqe_cnt ?w = 2 ^ b" "b < 32" using assms(1) by (auto simp: recv_queue_def)
  have ind: "unat ?ind = unat (wq_head ?w) mod unat (wqe_cnt ?w)"
    using unat_mask_add [OF b, of "wq_head ?w" 0] b by (simp add: unat_pow2)
  have "unat ?ind < unat (wqe_cnt ?w)" unfolding ind by (rule mod_less_divisor) (simp add: b unat_pow2)
  then obtain w' m' where r: "recv_loop (wq_sig qp) (qp_num (ibqp qp)) (get_recv_wqe ?w) 0 ?ind wrs (?w, rq_mem qp)
      = Inr (0, length wrs, w', m')" "ids_only ?w w'" "slots_hold (wq_sig qp) (get_recv_wqe ?w) (unat ?ind) wrs (w', m')"
    using recv_loop_run [of "get_recv_wqe ?w" "wq_offset ?w" ?w "wq_sig qp" wrs ?ind 0 "qp_num (ibqp qp)" "rq_mem qp"] assms
    by (auto simp: get_recv_wqe_def)
  note f = ids_only_fields [OF r(2)]
  let ?i = "slot_after ?w (unat (wq_head ?w)) k"
  have "slot_after w' (unat ?ind) k = ?i" by (simp add: slot_after_def ind f mod_simps)
  with r(3) assms(4) have h: "wrid w' ?i = rwr_id (wrs ! k)"
    "segs_at (scat_start (wq_sig qp) (get_recv_wqe ?w ?i)) (nz (recv_entries (wrs ! k))) m'"
    by (auto simp: slots_hold_def)
  have g: "get_recv_wqe (w'\<lparr>wq_head := h\<rparr>) i = get_recv_wqe ?w i" for h i by (simp add: get_recv_wqe_def f)
  have "length (nz (recv_entries (wrs ! k))) \<le> 2 ^ (wqe_shift ?w - 4)"
    using segs_in_slot [OF assms(1)] assms(2,4) by simp
  with copy_to_scat_deliver [OF h(2) this, of buf null_lkey um] assms(5)
  have c: "copy_to_scat null_lkey (scat_start (wq_sig qp) (get_recv_wqe ?w ?i)) buf (2 ^ (wqe_shift ?w - 4)) m' um
     = (IBV_WC_SUCCESS, [], deliver null_lkey (recv_entries (wrs ! k)) buf um)"
    by (simp add: deliver_nz room_of_nz)
  have "wrs \<noteq> []" using assms(4) by auto
  then show ?thesis using r(1) h(1) c
    by (simp add: mlx5_post_recv_def mlx5_copy_to_recv_wqe_def Let_def f g scat_start_def [symmetric])
qed

text \<open>A queue of four slots whose indices are about to wrap, and two requests.\<close>

definition demo_recv_qp :: mlx5_qp where
  "demo_recv_qp = (demo_qp IBV_QPT_RC)\<lparr>rq := demo_wq\<lparr>wqe_cnt := 4, max_post := 4, wqe_shift := 5, max_gs := 2,
     wq_head := 3, wq_tail := 1\<rparr>\<rparr>"

definition demo_recvs :: "ibv_recv_wr list" where
  "demo_recvs =
     [\<lparr>rwr_id = 8, rwr_sg_list = Some [\<lparr>sge_addr = 4096, sge_length = 64, sge_lkey = 5\<rparr>], rwr_num_sge = 1\<rparr>,
      \<lparr>rwr_id = 9, rwr_sg_list = Some [\<lparr>sge_addr = 64, sge_length = 2, sge_lkey = 5\<rparr>, \<lparr>sge_addr = 128, sge_length = 8, sge_lkey = 5\<rparr>],
       rwr_num_sge = 2\<rparr>]"

theorem posted_recv_delivers_witness:
  "\<exists>q. mlx5_post_recv demo_recvs demo_recv_qp = Inr (0, length demo_recvs, q) \<and> wrid (rq q) 0 = 9 \<and>
     mlx5_copy_to_recv_wqe 0 q 0 [1, 2, 3] (\<lambda>_. 0)
       = (IBV_WC_SUCCESS, user_store 128 [3] (user_store 64 [1, 2] (\<lambda>_. 0)))"
proof -
  have "(4 :: u32) = 2 ^ 2" by simp
  then have q: "recv_queue (wq_sig demo_recv_qp) (rq demo_recv_qp)"
    by (auto simp: recv_queue_def demo_recv_qp_def demo_qp_def demo_wq_def scat_start_def intro!: exI [of _ 2])
  have r: "\<forall>wr \<in> set demo_recvs. recv_ok (rq demo_recv_qp) wr"
    by (simp add: recv_ok_def demo_recvs_def demo_recv_qp_def)
  show ?thesis
    using posted_recv_delivers [OF q r, of 1 "[1, 2, 3]" 0 "\<lambda>_. 0"]
    by (simp add: demo_recvs_def demo_recv_qp_def slot_after_def room_of_def recv_entries_def)
qed

end
