(* ===== verification/Srq_Lists.thy ===== *)
theory Srq_Lists
  imports Srq Recv_Queue
begin

text \<open>
  Refinement of the shared receive queue.  The abstract queue is a list of free descriptors, a list of
  resting ones and a map from the descriptors the device owns to the requests posted in them; \<open>srq_rel\<close>
  relates it to the linked lists in the buffer.  The locale \<open>simulation\<close> states what a refinement of
  single operations gives for sequences of them, and is interpreted on the operations of \<open>srq.c\<close>.
\<close>

subsection \<open>Linked lists\<close>

fun chain :: "(nat \<Rightarrow> nat) \<Rightarrow> nat list \<Rightarrow> bool" where
  "chain nx [] = True"
| "chain nx [x] = True"
| "chain nx (x # y # xs) = (nx x = y \<and> chain nx (y # xs))"

lemma chain_cong: "(\<And>x. x \<in> set (butlast xs) \<Longrightarrow> nx' x = nx x) \<Longrightarrow> chain nx' xs = chain nx xs"
  by (induction nx xs rule: chain.induct) auto

lemma chain_snoc: "chain nx (xs @ [x]) \<longleftrightarrow> chain nx xs \<and> (xs \<noteq> [] \<longrightarrow> nx (last xs) = x)"
  by (induction nx xs rule: chain.induct) auto

lemma chain_tl: "chain nx xs \<Longrightarrow> chain nx (tl xs)"
  by (cases "(nx, xs)" rule: chain.cases) simp_all

lemma chain_next: "chain nx xs \<Longrightarrow> tl xs \<noteq> [] \<Longrightarrow> nx (hd xs) = hd (tl xs)"
  by (cases "(nx, xs)" rule: chain.cases) simp_all

lemma chain_other: "chain nx xs \<Longrightarrow> t \<notin> set xs \<Longrightarrow> chain (nx(t := i)) xs"
proof -
  assume "chain nx xs" "t \<notin> set xs"
  then show ?thesis by (subst chain_cong [of xs _ nx]) (auto dest: in_set_butlastD)
qed

lemma chain_extend:
  assumes "chain nx xs" "xs \<noteq> []" "distinct xs"
  shows "chain (nx(last xs := i)) (xs @ [i])"
proof -
  have "last xs \<notin> set (butlast xs)" using assms(2,3) by (metis append_butlast_last_id distinct_butlast not_distinct_conv_prefix)
  then have "chain (nx(last xs := i)) xs = chain nx xs" by (intro chain_cong) auto
  with assms(1) show ?thesis by (simp add: chain_snoc)
qed

text \<open>A list with its two ends in the fields of the queue.\<close>

definition ends :: "(nat \<Rightarrow> nat) \<Rightarrow> nat \<Rightarrow> nat \<Rightarrow> nat list \<Rightarrow> bool" where
  "ends nx h t xs \<longleftrightarrow> xs \<noteq> [] \<and> hd xs = h \<and> last xs = t \<and> chain nx xs"

lemma ends_push: "ends nx h t xs \<Longrightarrow> distinct xs \<Longrightarrow> ends (nx(t := i)) h i (xs @ [i])"
  by (auto simp: ends_def chain_extend)

lemma ends_pop: "ends nx h t xs \<Longrightarrow> tl xs \<noteq> [] \<Longrightarrow> ends nx (nx h) t (tl xs)"
  by (auto simp: ends_def chain_tl chain_next last_tl)

lemma ends_other: "ends nx h t xs \<Longrightarrow> j \<notin> set xs \<Longrightarrow> ends (nx(j := i)) h t xs"
  by (auto simp: ends_def chain_other)

lemma ends_in: "ends nx h t xs \<Longrightarrow> h \<in> set xs \<and> t \<in> set xs"
  by (auto simp: ends_def)

lemma ends_same: "ends nx h t xs \<Longrightarrow> distinct xs \<Longrightarrow> h = t \<longleftrightarrow> tl xs = []"
proof (cases xs)
  case (Cons x ys)
  assume "ends nx h t xs" "distinct xs"
  moreover have "ys \<noteq> [] \<Longrightarrow> last ys \<in> set ys" by simp
  ultimately show ?thesis using Cons by (cases "ys = []") (auto simp: ends_def)
qed (simp add: ends_def)

subsection \<open>The abstract queue\<close>

record abs_srq =
  a_free :: "nat list"
  a_wait :: "nat list"
  a_posted :: "nat \<rightharpoonup> ibv_recv_wr"

definition end_seg :: ibv_sge where
  "end_seg = \<lparr>sge_addr = 0, sge_length = 0, sge_lkey = MLX5_INVALID_LKEY\<rparr>"

text \<open>The segments of a request in a descriptor with room for \<open>gs\<close> of them.\<close>

definition wqe_segs :: "int \<Rightarrow> ibv_recv_wr \<Rightarrow> ibv_sge list" where
  "wqe_segs gs wr = recv_entries wr @ (if int (length (recv_entries wr)) < gs then [end_seg] else [])"

definition wqe_holds :: "mlx5_srq \<Rightarrow> nat \<Rightarrow> ibv_recv_wr \<Rightarrow> bool" where
  "wqe_holds s i wr \<longleftrightarrow> srq_wrid s i = rwr_id wr \<and> segs_at (get_wqe s i + 16) (wqe_segs (srq_max_gs s) wr) (srq_mem s)"

text \<open>The scatter list is as long as the request says, and no entry has the key that marks the end.\<close>

definition srq_wr_ok :: "ibv_recv_wr \<Rightarrow> bool" where
  "srq_wr_ok wr \<longleftrightarrow> nat (rwr_num_sge wr) \<le> length (case rwr_sg_list wr of None \<Rightarrow> [] | Some xs \<Rightarrow> xs) \<and>
     (\<forall>s \<in> set (recv_entries wr). sge_lkey s \<noteq> MLX5_INVALID_LKEY)"

definition srq_geom :: "mlx5_srq \<Rightarrow> bool" where
  "srq_geom s \<longleftrightarrow> 0 \<le> srq_max_gs s \<and> 16 + 16 * nat (srq_max_gs s) \<le> 2 ^ srq_shift s \<and> srq_max s \<le> 2 ^ 16"

definition srq_rel :: "mlx5_srq \<Rightarrow> abs_srq \<Rightarrow> bool" where
  "srq_rel s a \<longleftrightarrow> srq_geom s \<and> ends (next_wqe_index s) (srq_head s) (srq_tail s) (a_free a) \<and>
     (if srq_has_waitq s then ends (next_wqe_index s) (nat (waitq_head s)) (nat (waitq_tail s)) (a_wait a) else a_wait a = []) \<and>
     distinct (a_free a @ a_wait a) \<and> (set (a_free a) \<union> set (a_wait a)) \<inter> dom (a_posted a) = {} \<and>
     set (a_free a) \<union> set (a_wait a) \<union> dom (a_posted a) = {..<srq_max s} \<and>
     (\<forall>i wr. a_posted a i = Some wr \<longrightarrow> srq_wr_ok wr \<and> int (length (recv_entries wr)) \<le> srq_max_gs s \<and> wqe_holds s i wr)"

subsection \<open>Memory of the linked lists\<close>

lemma next_set_next:
  assumes "srq_geom s" "i < 2 ^ 16"
  shows "next_wqe_index (set_next n i s) = (next_wqe_index s)(n := i)"
proof
  fix k
  have sz: "16 \<le> (2 :: nat) ^ srq_shift s" using assms(1) by (simp add: srq_geom_def)
  have v: "unat (of_nat i :: u16) = i" using assms(2) by (intro unat_of_nat_small) simp
  show "next_wqe_index (set_next n i s) k = ((next_wqe_index s)(n := i)) k"
  proof (cases "k = n")
    case True
    then show ?thesis by (simp add: next_wqe_index_def set_next_def get_wqe_def ld_st_be16 v)
  next
    case False
    then have "get_wqe s k + 4 \<le> get_wqe s n \<or> get_wqe s n + 4 \<le> get_wqe s k"
      using slot_apart [OF False, of "2 ^ srq_shift s"] sz by (auto simp: get_wqe_def)
    then have "ld_be16 (get_wqe s k + 2) (st_be16 (get_wqe s n + 2) (of_nat i) (srq_mem s)) = ld_be16 (get_wqe s k + 2) (srq_mem s)"
      by (auto simp: ld_be16_def st_be16_def load_store_other)
    with False show ?thesis by (simp add: next_wqe_index_def set_next_def get_wqe_def)
  qed
qed

lemma set_next_fields [simp]:
  "srq_head (set_next n i s) = srq_head s" "srq_tail (set_next n i s) = srq_tail s" "srq_max (set_next n i s) = srq_max s"
  "srq_max_gs (set_next n i s) = srq_max_gs s" "srq_shift (set_next n i s) = srq_shift s" "srq_wrid (set_next n i s) = srq_wrid s"
  "waitq_head (set_next n i s) = waitq_head s" "waitq_tail (set_next n i s) = waitq_tail s"
  by (simp_all add: set_next_def)

lemma length_wqe_segs: "int (length (recv_entries wr)) \<le> gs \<Longrightarrow> int (length (wqe_segs gs wr)) \<le> gs"
  by (simp add: wqe_segs_def)

lemma wqe_holds_set_next:
  assumes "srq_geom s" "int (length (recv_entries wr)) \<le> srq_max_gs s"
  shows "wqe_holds (set_next n j s) i wr = wqe_holds s i wr"
proof -
  let ?L = "wqe_segs (srq_max_gs s) wr"
  have g: "get_wqe (set_next n j s) i = get_wqe s i" by (simp add: get_wqe_def)
  have l: "16 + 16 * length ?L \<le> 2 ^ srq_shift s" using length_wqe_segs [OF assms(2)] assms(1) by (auto simp: srq_geom_def)
  have "keeps_outside (get_wqe s n + 2) (get_wqe s n + 4) (srq_mem s) (srq_mem (set_next n j s))"
    by (simp add: set_next_def st_be16_def keeps_outside_store)
  moreover have "get_wqe s i + 16 + 16 * length ?L \<le> get_wqe s n + 2 \<or> get_wqe s n + 4 \<le> get_wqe s i + 16"
  proof (cases "i = n")
    case False
    from slot_apart [OF False, of "2 ^ srq_shift s"] l show ?thesis by (auto simp: get_wqe_def)
  qed simp
  ultimately have "segs_at (get_wqe s i + 16) ?L (srq_mem (set_next n j s)) = segs_at (get_wqe s i + 16) ?L (srq_mem s)"
    by (rule segs_at_keeps)
  then show ?thesis by (simp add: wqe_holds_def g)
qed

lemma get_wqe_upd [simp]:
  "get_wqe (s\<lparr>srq_mem := m\<rparr>) = get_wqe s" "get_wqe (s\<lparr>srq_wrid := r\<rparr>) = get_wqe s" "get_wqe (s\<lparr>srq_head := h\<rparr>) = get_wqe s"
  "get_wqe (s\<lparr>srq_tail := h\<rparr>) = get_wqe s" "get_wqe (s\<lparr>waitq_head := w\<rparr>) = get_wqe s" "get_wqe (s\<lparr>waitq_tail := w\<rparr>) = get_wqe s"
  "get_wqe (s\<lparr>srq_db := d\<rparr>) = get_wqe s" "get_wqe (s\<lparr>srq_counter := c\<rparr>) = get_wqe s"
  by (simp_all add: get_wqe_def fun_eq_iff)

lemma next_upd [simp]:
  "next_wqe_index (s\<lparr>srq_wrid := r\<rparr>) = next_wqe_index s" "next_wqe_index (s\<lparr>srq_head := h\<rparr>) = next_wqe_index s"
  "next_wqe_index (s\<lparr>srq_tail := h\<rparr>) = next_wqe_index s" "next_wqe_index (s\<lparr>waitq_head := w\<rparr>) = next_wqe_index s"
  "next_wqe_index (s\<lparr>waitq_tail := w\<rparr>) = next_wqe_index s" "next_wqe_index (s\<lparr>srq_db := d\<rparr>) = next_wqe_index s"
  "next_wqe_index (s\<lparr>srq_counter := c\<rparr>) = next_wqe_index s"
  by (simp_all add: next_wqe_index_def fun_eq_iff)

lemma holds_upd [simp]:
  "wqe_holds (s\<lparr>srq_head := h\<rparr>) = wqe_holds s" "wqe_holds (s\<lparr>srq_tail := h\<rparr>) = wqe_holds s"
  "wqe_holds (s\<lparr>waitq_head := w\<rparr>) = wqe_holds s" "wqe_holds (s\<lparr>waitq_tail := w\<rparr>) = wqe_holds s"
  "wqe_holds (s\<lparr>srq_db := d\<rparr>) = wqe_holds s" "wqe_holds (s\<lparr>srq_counter := c\<rparr>) = wqe_holds s"
  by (simp_all add: wqe_holds_def fun_eq_iff)

lemma geom_upd [simp]:
  "srq_geom (s\<lparr>srq_mem := m\<rparr>) = srq_geom s" "srq_geom (s\<lparr>srq_wrid := r\<rparr>) = srq_geom s" "srq_geom (s\<lparr>srq_head := h\<rparr>) = srq_geom s"
  "srq_geom (s\<lparr>srq_tail := h\<rparr>) = srq_geom s" "srq_geom (s\<lparr>waitq_head := w\<rparr>) = srq_geom s" "srq_geom (s\<lparr>waitq_tail := w\<rparr>) = srq_geom s"
  "srq_geom (s\<lparr>srq_db := d\<rparr>) = srq_geom s" "srq_geom (s\<lparr>srq_counter := c\<rparr>) = srq_geom s" "srq_geom (set_next n i s) = srq_geom s"
  by (simp_all add: srq_geom_def)

lemma rel_db [simp]: "srq_rel (s\<lparr>srq_counter := c, srq_db := d\<rparr>) a = srq_rel s a"
  by (simp add: srq_rel_def srq_has_waitq_def)

subsection \<open>Giving descriptors back\<close>

definition a_complete :: "nat \<Rightarrow> abs_srq \<Rightarrow> abs_srq" where
  "a_complete i a = a\<lparr>a_free := a_free a @ [i], a_posted := (a_posted a)(i := None)\<rparr>"

lemma posted_less: "srq_rel s a \<Longrightarrow> a_posted a i = Some wr \<Longrightarrow> i < srq_max s \<and> i < 2 ^ 16 \<and> i \<notin> set (a_free a) \<and> i \<notin> set (a_wait a)"
proof -
  assume r: "srq_rel s a" and "a_posted a i = Some wr"
  then have d: "i \<in> dom (a_posted a)" by blast
  have "set (a_free a) \<union> set (a_wait a) \<union> dom (a_posted a) = {..<srq_max s}" "srq_max s \<le> 2 ^ 16"
    "(set (a_free a) \<union> set (a_wait a)) \<inter> dom (a_posted a) = {}"
    using r by (simp_all add: srq_rel_def srq_geom_def)
  with d show ?thesis by (metis (no_types, lifting) UnCI disjoint_iff lessThan_iff order_less_le_trans)
qed

lemma free_rel:
  assumes r: "srq_rel s a" and p: "a_posted a i = Some wr"
  shows "srq_rel (mlx5_free_srq_wqe i s) (a_complete i a)"
proof -
  note i = posted_less [OF r p]
  have g: "srq_geom s" using r by (simp add: srq_rel_def)
  have t: "srq_tail s \<in> set (a_free a)" using r ends_in by (auto simp: srq_rel_def)
  let ?nx = "next_wqe_index s"
  have nx: "next_wqe_index (mlx5_free_srq_wqe i s) = ?nx(srq_tail s := i)"
    using next_set_next [OF g, of i] i by (simp add: mlx5_free_srq_wqe_def)
  have f: "ends (?nx(srq_tail s := i)) (srq_head s) i (a_free a @ [i])"
    by (rule ends_push) (use r in \<open>simp_all add: srq_rel_def\<close>)
  have w: "srq_has_waitq s \<Longrightarrow> ends (?nx(srq_tail s := i)) (nat (waitq_head s)) (nat (waitq_tail s)) (a_wait a)"
    by (rule ends_other) (use r t in \<open>auto simp: srq_rel_def\<close>)
  have part: "insert i (set (a_free a) \<union> set (a_wait a) \<union> (dom (a_posted a) - {i})) = {..<srq_max s}"
    using r p by (auto simp: srq_rel_def)
  show ?thesis
    unfolding srq_rel_def nx
    using r f w part i wqe_holds_set_next [OF g]
    by (auto simp: srq_rel_def mlx5_free_srq_wqe_def a_complete_def srq_has_waitq_def)
qed

text \<open>A descriptor that met a page fault changes places with the one that has rested longest.\<close>

definition a_cooldown :: "nat \<Rightarrow> abs_srq \<Rightarrow> abs_srq" where
  "a_cooldown i a =
     (case a_wait a of
        [] \<Rightarrow> a_complete i a
      | w # ws \<Rightarrow> a\<lparr>a_free := a_free a @ [w], a_wait := ws @ [i], a_posted := (a_posted a)(i := None)\<rparr>)"

definition cooled :: "nat \<Rightarrow> mlx5_srq \<Rightarrow> mlx5_srq" where
  "cooled ind s =
     (case srq_cooldown_wqe ind s of (c, s1) \<Rightarrow> if c then s1 else (set_next (srq_tail s1) ind s1)\<lparr>srq_tail := ind\<rparr>)"

lemma cooled_waitq:
  assumes r: "srq_rel s a" and p: "a_posted a i = Some wr" and h: "srq_has_waitq s" and w: "a_wait a = w # ws"
  shows "srq_rel (cooled i s) (a_cooldown i a)"
proof -
  note i = posted_less [OF r p]
  have g: "srq_geom s" using r by (simp add: srq_rel_def)
  let ?nx = "next_wqe_index s" and ?wt = "nat (waitq_tail s)"
  have ew: "ends ?nx (nat (waitq_head s)) ?wt (w # ws)" using r h w by (simp add: srq_rel_def)
  then have wh: "nat (waitq_head s) = w" by (simp add: ends_def)
  have d: "distinct (a_free a @ w # ws)" "i \<notin> set (a_free a @ w # ws)" using r w i by (simp_all add: srq_rel_def)
  have t: "srq_tail s \<in> set (a_free a)" "?wt \<in> set (w # ws)" using ends_in [OF ew] r ends_in by (auto simp: srq_rel_def)
  have "w < srq_max s" using r w by (auto simp: srq_rel_def)
  then have w16: "w < 2 ^ 16" using g by (simp add: srq_geom_def)
  let ?nx2 = "?nx(?wt := i, srq_tail s := w)"
  have "ends (?nx(?wt := i)) w i (w # ws @ [i])" using ends_push [OF ew, of i] d wh by simp
  then have "ends ?nx2 w i (w # ws @ [i])" by (rule ends_other) (use t d in auto)
  then have ew2: "ends ?nx2 (?nx2 w) i (ws @ [i])" using ends_pop by fastforce
  have "ends (?nx(?wt := i)) (srq_head s) (srq_tail s) (a_free a)"
    by (rule ends_other) (use r t d in \<open>auto simp: srq_rel_def\<close>)
  then have ef2: "ends ?nx2 (srq_head s) w (a_free a @ [w])" by (rule ends_push) (use d in simp)
  have n1: "next_wqe_index (set_next ?wt i s) = ?nx(?wt := i)" using i by (intro next_set_next [OF g]) simp
  have n2: "next_wqe_index (set_next (srq_tail s) w ((set_next ?wt i s)\<lparr>waitq_tail := int i\<rparr>)) = ?nx2"
    using w16 g n1 by (subst next_set_next) simp_all
  let ?s1 = "(set_next (srq_tail s) w ((set_next ?wt i s)\<lparr>waitq_tail := int i\<rparr>))\<lparr>srq_tail := w\<rparr>"
  have c: "cooled i s = ?s1\<lparr>waitq_head := int (?nx2 w)\<rparr>"
    using h wh n2 by (simp add: cooled_def srq_cooldown_wqe_def srq_put_in_waitq_def srq_get_from_waitq_def Let_def)
  have hold: "wqe_holds (cooled i s) j v = wqe_holds s j v" if "int (length (recv_entries v)) \<le> srq_max_gs s" for j v
    using that g unfolding c by (simp add: wqe_holds_set_next)
  have part: "insert w (set (a_free a)) \<union> insert i (set ws) \<union> (dom (a_posted a) - {i}) = {..<srq_max s}"
    using r p w by (auto simp: srq_rel_def)
  have fields: "srq_geom (cooled i s)" "srq_max (cooled i s) = srq_max s" "srq_max_gs (cooled i s) = srq_max_gs s"
    "srq_has_waitq (cooled i s)" "next_wqe_index (cooled i s) = ?nx2" "srq_head (cooled i s) = srq_head s"
    "srq_tail (cooled i s) = w" "waitq_head (cooled i s) = int (?nx2 w)" "waitq_tail (cooled i s) = int i"
    using g n2 unfolding c by (simp_all add: srq_has_waitq_def)
  show ?thesis
    unfolding srq_rel_def fields
    using r ew2 ef2 part d i hold w by (auto simp: srq_rel_def a_cooldown_def fields)
qed

lemma cooled_rel:
  assumes r: "srq_rel s a" and p: "a_posted a i = Some wr"
  shows "srq_rel (cooled i s) (a_cooldown i a)"
proof (cases "srq_has_waitq s")
  case True
  then obtain w ws where "a_wait a = w # ws" using r by (cases "a_wait a") (auto simp: srq_rel_def ends_def)
  with r p True show ?thesis by (rule cooled_waitq)
next
  case False
  then have "a_wait a = []" using r by (simp add: srq_rel_def)
  moreover have "cooled i s = mlx5_free_srq_wqe i s" using False by (simp add: cooled_def srq_cooldown_wqe_def mlx5_free_srq_wqe_def)
  ultimately show ?thesis using free_rel [OF r p] by (simp add: a_cooldown_def)
qed

lemma cooled_holds: "srq_geom s \<Longrightarrow> int (length (recv_entries v)) \<le> srq_max_gs s \<Longrightarrow> wqe_holds (cooled i s) j v = wqe_holds s j v"
  by (simp add: cooled_def srq_cooldown_wqe_def srq_put_in_waitq_def srq_get_from_waitq_def wqe_holds_set_next Let_def)

subsection \<open>Taking descriptors\<close>

definition a_take :: "ibv_recv_wr \<Rightarrow> abs_srq \<Rightarrow> abs_srq" where
  "a_take wr a = a\<lparr>a_free := tl (a_free a), a_posted := (a_posted a)(hd (a_free a) \<mapsto> wr)\<rparr>"

text \<open>A write to the segments of the descriptor at the head, which then belongs to the device.\<close>

definition body_write :: "nat \<Rightarrow> mlx5_srq \<Rightarrow> mem \<Rightarrow> bool" where
  "body_write h s m \<longleftrightarrow> keeps_outside (get_wqe s h + 16) (get_wqe s h + 2 ^ srq_shift s) (srq_mem s) m"

lemma body_write_next:
  assumes "srq_geom s" "body_write h s m"
  shows "next_wqe_index (s\<lparr>srq_mem := m\<rparr>) = next_wqe_index s"
proof
  fix n
  have sz: "16 \<le> (2 :: nat) ^ srq_shift s" using assms(1) by (simp add: srq_geom_def)
  have "get_wqe s n + 4 \<le> get_wqe s h + 16 \<or> get_wqe s h + 2 ^ srq_shift s \<le> get_wqe s n + 2"
    using slot_apart [of n h "2 ^ srq_shift s"] sz by (cases "n = h") (auto simp: get_wqe_def)
  then have "load_bytes (get_wqe s n + 2) 2 m = load_bytes (get_wqe s n + 2) 2 (srq_mem s)"
    using assms(2) by (auto simp: body_write_def keeps_outside_def load_bytes_def)
  then show "next_wqe_index (s\<lparr>srq_mem := m\<rparr>) n = next_wqe_index s n" by (simp add: next_wqe_index_def ld_be16_def)
qed

lemma body_write_holds:
  assumes "srq_geom s" "body_write h s m" "j \<noteq> h" "int (length (recv_entries u)) \<le> srq_max_gs s"
  shows "wqe_holds (s\<lparr>srq_wrid := (srq_wrid s)(h := x), srq_mem := m\<rparr>) j u = wqe_holds s j u"
proof -
  have "16 + 16 * length (wqe_segs (srq_max_gs s) u) \<le> 2 ^ srq_shift s"
    using length_wqe_segs [OF assms(4)] assms(1) by (auto simp: srq_geom_def)
  then have "segs_at (get_wqe s j + 16) (wqe_segs (srq_max_gs s) u) m = segs_at (get_wqe s j + 16) (wqe_segs (srq_max_gs s) u) (srq_mem s)"
    using slot_apart [OF assms(3), of "2 ^ srq_shift s"] assms(2)
    by (intro segs_at_keeps) (auto simp: get_wqe_def body_write_def)
  with assms(3) show ?thesis by (simp add: wqe_holds_def)
qed

lemma take_lists:
  assumes r: "srq_rel s a" and f: "tl (a_free a) \<noteq> []"
  shows "hd (a_free a) = srq_head s" "distinct (tl (a_free a) @ a_wait a)"
    "(set (tl (a_free a)) \<union> set (a_wait a)) \<inter> insert (srq_head s) (dom (a_posted a)) = {}"
    "set (tl (a_free a)) \<union> set (a_wait a) \<union> insert (srq_head s) (dom (a_posted a)) = {..<srq_max s}"
proof -
  obtain F where F: "a_free a = srq_head s # F" using r f by (cases "a_free a") (auto simp: srq_rel_def ends_def)
  then show "hd (a_free a) = srq_head s" "distinct (tl (a_free a) @ a_wait a)"
    "(set (tl (a_free a)) \<union> set (a_wait a)) \<inter> insert (srq_head s) (dom (a_posted a)) = {}"
    "set (tl (a_free a)) \<union> set (a_wait a) \<union> insert (srq_head s) (dom (a_posted a)) = {..<srq_max s}"
    using r by (auto simp: srq_rel_def)
qed

lemma take_rel:
  assumes r: "srq_rel s a" and f: "tl (a_free a) \<noteq> []"
    and v: "srq_wr_ok wr" "int (length (recv_entries wr)) \<le> srq_max_gs s"
    and m: "segs_at (get_wqe s (srq_head s) + 16) (wqe_segs (srq_max_gs s) wr) m" and k: "body_write (srq_head s) s m"
  shows "srq_rel (s\<lparr>srq_wrid := (srq_wrid s)(srq_head s := rwr_id wr), srq_mem := m, srq_head := next_wqe_index s (srq_head s)\<rparr>)
    (a_take wr a)"
proof -
  let ?h = "srq_head s" and ?nx = "next_wqe_index s"
  let ?s1 = "s\<lparr>srq_wrid := (srq_wrid s)(?h := rwr_id wr), srq_mem := m\<rparr>" let ?s = "?s1\<lparr>srq_head := ?nx ?h\<rparr>"
  have g: "srq_geom s" using r by (simp add: srq_rel_def)
  note lists = take_lists [OF r f]
  have nx: "next_wqe_index ?s = ?nx" using body_write_next [OF g k] by (simp add: next_wqe_index_def get_wqe_def fun_eq_iff)
  have here: "wqe_holds ?s ?h wr" using m by (simp add: wqe_holds_def)
  have q: "srq_geom ?s" "srq_max ?s = srq_max s" "srq_max_gs ?s = srq_max_gs s" "srq_has_waitq ?s = srq_has_waitq s"
    using g by (simp_all add: srq_has_waitq_def)
  have other: "a_posted a i = Some u \<Longrightarrow> srq_wr_ok u \<and> int (length (recv_entries u)) \<le> srq_max_gs s \<and> wqe_holds s i u" for i u
    using r by (simp add: srq_rel_def)
  have all: "srq_wr_ok u \<and> int (length (recv_entries u)) \<le> srq_max_gs s \<and> wqe_holds ?s i u"
    if "a_posted (a_take wr a) i = Some u" for i u
    using that v here other [of i u] body_write_holds [OF g k, of i u] by (auto simp: a_take_def lists(1) split: if_splits)
  have "ends ?nx (?nx ?h) (srq_tail s) (tl (a_free a))"
    "if srq_has_waitq s then ends ?nx (nat (waitq_head s)) (nat (waitq_tail s)) (a_wait a) else a_wait a = []"
    using ends_pop [OF _ f] r by (simp_all add: srq_rel_def)
  then show ?thesis unfolding srq_rel_def nx q using lists all g by (auto simp: a_take_def)
qed

lemma srq_scat_run:
  "rwr_sg_list wr = Some xs \<Longrightarrow> i + n \<le> length xs \<Longrightarrow>
   srq_scat wr n i scat m = Inr (store scat (concat (map seg_bytes (take n (drop i xs)))) m)"
proof (induction n arbitrary: i scat m)
  case (Suc n)
  then have "i < length xs" by simp
  with Suc show ?case by (simp add: recv_sge_def take_Suc_drop set_data_ptr_seg_store store_append)
qed simp

lemma srq_scat_entries:
  assumes "srq_wr_ok wr"
  shows "srq_scat wr (nat (rwr_num_sge wr)) 0 scat m = Inr (store scat (concat (map seg_bytes (recv_entries wr))) m)"
    "length (recv_entries wr) = nat (rwr_num_sge wr)"
  using assms srq_scat_run [of wr _ 0 "nat (rwr_num_sge wr)" scat m]
  by (cases "rwr_sg_list wr"; auto simp: srq_wr_ok_def recv_entries_def)+

lemma wqe_segs_store:
  "store p (concat (map seg_bytes (wqe_segs gs wr))) m =
   (let m1 = store p (concat (map seg_bytes (recv_entries wr))) m; n = length (recv_entries wr)
    in if int n < gs then set_data_ptr_seg_end (p + 16 * n) m1 else m1)"
  by (simp add: wqe_segs_def end_seg_def set_end_store store_append)

lemma body_write_segs:
  assumes "srq_geom s" "int (length (recv_entries wr)) \<le> srq_max_gs s"
  shows "body_write h s (store (get_wqe s h + 16) (concat (map seg_bytes (wqe_segs (srq_max_gs s) wr))) (srq_mem s))"
  using length_wqe_segs [OF assms(2)] assms(1) by (auto simp: body_write_def srq_geom_def intro!: keeps_outside_store)

lemma head_is_tail: "srq_rel s a \<Longrightarrow> srq_head s = srq_tail s \<longleftrightarrow> tl (a_free a) = []"
  using ends_same [of "next_wqe_index s" "srq_head s" "srq_tail s" "a_free a"] by (simp add: srq_rel_def)

lemma post_one_rel:
  assumes r: "srq_rel s a" and v: "srq_wr_ok wr" and n: "rwr_num_sge wr \<le> srq_max_gs s" and f: "tl (a_free a) \<noteq> []"
  shows "\<exists>s'. srq_post_one wr s = Inr (0, s') \<and> srq_rel s' (a_take wr a) \<and> srq_max_gs s' = srq_max_gs s"
proof -
  have g: "srq_geom s" using r by (simp add: srq_rel_def)
  have l: "int (length (recv_entries wr)) \<le> srq_max_gs s" using srq_scat_entries(2) [OF v] n g by (simp add: srq_geom_def)
  have "srq_head s < srq_max s" using take_lists(4) [OF r f] by blast
  then have "srq_post_one wr s = Inr (0, s\<lparr>srq_wrid := (srq_wrid s)(srq_head s := rwr_id wr),
      srq_head := next_wqe_index s (srq_head s),
      srq_mem := store (get_wqe s (srq_head s) + 16) (concat (map seg_bytes (wqe_segs (srq_max_gs s) wr))) (srq_mem s)\<rparr>)"
    using n head_is_tail [OF r] f srq_scat_entries [OF v]
    by (simp add: srq_post_one_def wqe_segs_store Let_def)
  moreover note take_rel [OF r f v l segs_at_store body_write_segs [OF g l]]
  ultimately show ?thesis by (cases s) auto
qed

text \<open>The copy of a repost runs to the end mark, or to the last segment of a full descriptor.\<close>

fun stops :: "nat \<Rightarrow> ibv_sge list \<Rightarrow> bool" where
  "stops 0 ys = (ys = [])"
| "stops (Suc n) [] = False"
| "stops (Suc n) (y # ys) = (if sge_lkey y = MLX5_INVALID_LKEY then ys = [] else stops n ys)"

lemma stops_entries:
  "\<forall>y \<in> set ys. sge_lkey y \<noteq> MLX5_INVALID_LKEY \<Longrightarrow> length ys \<le> n \<Longrightarrow>
   stops n (ys @ (if length ys < n then [end_seg] else []))"
proof (induction ys arbitrary: n)
  case Nil
  then show ?case by (cases n) (simp_all add: end_seg_def)
next
  case (Cons y ys)
  then obtain k where "n = Suc k" by (cases n) auto
  with Cons show ?case by (auto split: if_splits)
qed

lemma stops_wqe_segs:
  assumes "srq_wr_ok wr" "int (length (recv_entries wr)) \<le> gs"
  shows "stops (nat gs) (wqe_segs gs wr)"
proof -
  have "int (length (recv_entries wr)) < gs \<longleftrightarrow> length (recv_entries wr) < nat gs" by auto
  moreover have "length (recv_entries wr) \<le> nat gs" using assms(2) by simp
  ultimately show ?thesis using assms(1) stops_entries [of "recv_entries wr" "nat gs"] by (auto simp: wqe_segs_def srq_wr_ok_def)
qed

lemma repost_copy_segs:
  "stops n ys \<Longrightarrow> segs_at src ys m \<Longrightarrow> src + 16 * length ys \<le> dst \<or> dst + 16 * length ys \<le> src \<Longrightarrow>
   repost_copy n src dst m = store dst (concat (map seg_bytes ys)) m"
proof (induction n ys arbitrary: src dst m rule: stops.induct)
  case (3 n y ys)
  let ?m1 = "store dst (seg_bytes y) m"
  have l: "load_bytes src 16 m = seg_bytes y" using "3.prems"(2) by simp
  have k: "ld_be32 (dst + 4) ?m1 = sge_lkey y" using ld_seg(2) [OF load_store_same] by simp
  show ?case
  proof (cases "sge_lkey y = MLX5_INVALID_LKEY")
    case True
    with "3.prems"(1) l k show ?thesis by simp
  next
    case False
    have "segs_at (src + 16) ys ?m1 = segs_at (src + 16) ys m"
      by (rule segs_at_keeps [OF keeps_outside_store [OF keeps_outside_refl order_refl order_refl]]) (use "3.prems"(3) in auto)
    then have "repost_copy n (src + 16) (dst + 16) ?m1 = store (dst + 16) (concat (map seg_bytes ys)) ?m1"
      using "3.prems" False by (intro "3.IH") auto
    with False l k show ?thesis by (simp add: store_append)
  qed
qed simp_all

lemma repost_rel:
  assumes r: "srq_rel s a" and f: "tl (a_free a) \<noteq> []" and v: "srq_wr_ok wr" "int (length (recv_entries wr)) \<le> srq_max_gs s"
    and i: "wqe_holds s i wr" "i < srq_max s" "i \<noteq> srq_head s"
  shows "\<exists>s'. srq_repost i s = Inr s' \<and> srq_rel s' (a_take wr a)"
proof -
  let ?h = "srq_head s" let ?L = "wqe_segs (srq_max_gs s) wr"
  let ?m = "store (get_wqe s ?h + 16) (concat (map seg_bytes ?L)) (srq_mem s)"
  have g: "srq_geom s" using r by (simp add: srq_rel_def)
  have l: "16 + 16 * length ?L \<le> 2 ^ srq_shift s" using length_wqe_segs [OF v(2)] g by (auto simp: srq_geom_def)
  have c: "repost_copy (nat (srq_max_gs s)) (get_wqe s i + 16) (get_wqe s ?h + 16) (srq_mem s) = ?m"
    by (rule repost_copy_segs [OF stops_wqe_segs [OF v]])
      (use i(1) slot_apart [OF i(3), of "2 ^ srq_shift s"] l in \<open>auto simp: wqe_holds_def get_wqe_def\<close>)
  let ?s1 = "s\<lparr>srq_wrid := (srq_wrid s)(?h := rwr_id wr), srq_mem := ?m\<rparr>"
  have nx: "next_wqe_index ?s1 = next_wqe_index s"
    using body_write_next [OF g body_write_segs [OF g v(2)]] by (simp add: next_wqe_index_def get_wqe_def fun_eq_iff)
  have "?h < srq_max s" using take_lists(4) [OF r f] by blast
  then have "srq_repost i s = Inr (?s1\<lparr>srq_head := next_wqe_index s ?h, srq_counter := srq_counter s + 1,
      srq_db := ucast (srq_counter s + 1)\<rparr>)"
    using i(1,2) nx by (simp add: srq_repost_def c wqe_holds_def Let_def)
  with take_rel [OF r f v segs_at_store body_write_segs [OF g v(2)]] show ?thesis by simp
qed

subsection \<open>Operations\<close>

datatype srq_op = PostRecv "ibv_recv_wr list" | Complete nat | OdpFault nat

definition srq_exec :: "srq_op \<Rightarrow> mlx5_srq \<Rightarrow> ((nat \<times> nat) \<times> mlx5_srq) res" where
  "srq_exec op s =
     (case op of
        PostRecv wrs \<Rightarrow> bind_res (mlx5_post_srq_recv wrs s) (\<lambda>(e, n, s'). Inr ((e, n), s'))
      | Complete i \<Rightarrow> Inr ((0, 0), mlx5_free_srq_wqe i s)
      | OdpFault i \<Rightarrow> bind_res (mlx5_complete_odp_fault i s) (\<lambda>s'. Inr ((0, 0), s')))"

fun a_post :: "int \<Rightarrow> nat \<Rightarrow> ibv_recv_wr list \<Rightarrow> abs_srq \<Rightarrow> (nat \<times> nat) \<times> abs_srq" where
  "a_post gs n [] a = ((0, n), a)"
| "a_post gs n (wr # wrs) a =
     (if gs < rwr_num_sge wr then ((EINVAL, n), a)
      else if tl (a_free a) = [] then ((ENOMEM, n), a)
      else a_post gs (Suc n) wrs (a_take wr a))"

text \<open>
  The specification of a queue whose descriptors have room for \<open>gs\<close> segments; \<open>None\<close> for a request whose
  scatter list is too short or uses the key of the end mark, and for a descriptor that was not posted.
\<close>

definition srq_spec :: "int \<Rightarrow> srq_op \<Rightarrow> abs_srq \<Rightarrow> ((nat \<times> nat) \<times> abs_srq) option" where
  "srq_spec gs op a =
     (case op of
        PostRecv wrs \<Rightarrow> if list_all srq_wr_ok wrs then Some (a_post gs 0 wrs a) else None
      | Complete i \<Rightarrow> (case a_posted a i of None \<Rightarrow> None | Some wr \<Rightarrow> Some ((0, 0), a_complete i a))
      | OdpFault i \<Rightarrow> (case a_posted a i of None \<Rightarrow> None | Some wr \<Rightarrow> Some ((0, 0), a_take wr (a_cooldown i a))))"

definition srq_refines :: "int \<Rightarrow> mlx5_srq \<Rightarrow> abs_srq \<Rightarrow> bool" where
  "srq_refines gs s a \<longleftrightarrow> srq_rel s a \<and> srq_max_gs s = gs"

lemma post_loop_refines:
  "srq_refines gs s a \<Longrightarrow> list_all srq_wr_ok wrs \<Longrightarrow> a_post gs n wrs a = ((e, k), a') \<Longrightarrow>
   \<exists>s'. srq_post_loop n wrs s = Inr (e, k, s') \<and> srq_refines gs s' a'"
proof (induction wrs arbitrary: n s a)
  case (Cons wr wrs)
  then have r: "srq_rel s a" "srq_max_gs s = gs" by (simp_all add: srq_refines_def)
  show ?case
  proof (cases "gs < rwr_num_sge wr \<or> tl (a_free a) = []")
    case True
    with Cons.prems r head_is_tail [OF r(1)] show ?thesis by (auto simp: srq_post_one_def split: if_splits)
  next
    case False
    with Cons.prems(2) r obtain s1 where s1: "srq_post_one wr s = Inr (0, s1)" "srq_refines gs s1 (a_take wr a)"
      using post_one_rel [OF r(1), of wr] by (auto simp: srq_refines_def)
    from Cons.IH [OF s1(2)] Cons.prems False obtain s' where
      "srq_post_loop (Suc n) wrs s1 = Inr (e, k, s')" "srq_refines gs s' a'" by auto
    with s1 show ?thesis by simp
  qed
qed (auto simp: srq_refines_def)

lemma srq_post_gs: "srq_max_gs (cooled i s) = srq_max_gs s" "srq_max (cooled i s) = srq_max s" "srq_head (cooled i s) = srq_head s"
  by (simp_all add: cooled_def srq_cooldown_wqe_def srq_put_in_waitq_def srq_get_from_waitq_def Let_def)

lemma repost_gs: "srq_repost i s = Inr s' \<Longrightarrow> srq_max_gs s' = srq_max_gs s"
  by (auto simp: srq_repost_def Let_def split: if_splits)

lemma fault_refines:
  assumes r: "srq_rel s a" and p: "a_posted a i = Some wr"
  shows "\<exists>s'. mlx5_complete_odp_fault i s = Inr s' \<and> srq_rel s' (a_take wr (a_cooldown i a)) \<and> srq_max_gs s' = srq_max_gs s"
proof -
  have g: "srq_geom s" and v: "srq_wr_ok wr" "int (length (recv_entries wr)) \<le> srq_max_gs s" "wqe_holds s i wr"
    using r p by (simp_all add: srq_rel_def)
  have f: "tl (a_free (a_cooldown i a)) \<noteq> []" using r by (cases "a_free a") (auto simp: a_cooldown_def a_complete_def srq_rel_def ends_def split: list.split)
  have "srq_head s \<in> set (a_free a)" using r ends_in by (auto simp: srq_rel_def)
  then have "i \<noteq> srq_head (cooled i s)" using posted_less [OF r p] by (auto simp: srq_post_gs)
  then obtain s' where "srq_repost i (cooled i s) = Inr s'" "srq_rel s' (a_take wr (a_cooldown i a))"
    using repost_rel [OF cooled_rel [OF r p] f v(1), of i] v cooled_holds [OF g v(2)] posted_less [OF r p]
    by (auto simp: srq_post_gs)
  moreover have "mlx5_complete_odp_fault i s = srq_repost i (cooled i s)"
    by (simp add: mlx5_complete_odp_fault_def cooled_def split: prod.split)
  ultimately show ?thesis using repost_gs [of i "cooled i s" s'] by (auto simp: srq_post_gs)
qed

lemma srq_exec_refines:
  assumes r: "srq_refines gs s a" and op: "srq_spec gs op a = Some (e, a')"
  shows "\<exists>s'. srq_exec op s = Inr (e, s') \<and> srq_refines gs s' a'"
proof (cases op)
  case (PostRecv wrs)
  obtain c k where e: "e = (c, k)" by (cases e)
  with op PostRecv have "list_all srq_wr_ok wrs" "a_post gs 0 wrs a = ((c, k), a')" by (auto simp: srq_spec_def split: if_splits)
  from post_loop_refines [OF r this] show ?thesis
    using PostRecv e by (auto simp: srq_exec_def mlx5_post_srq_recv_def srq_refines_def Let_def)
next
  case (Complete i)
  with op r free_rel [of s a i] show ?thesis
    by (auto simp: srq_spec_def srq_exec_def srq_refines_def mlx5_free_srq_wqe_def split: option.splits)
next
  case (OdpFault i)
  with op r fault_refines [of s a i] show ?thesis
    by (fastforce simp: srq_spec_def srq_exec_def srq_refines_def split: option.splits)
qed

subsection \<open>Sequences of operations\<close>

fun run_ops :: "('op \<Rightarrow> 's \<Rightarrow> ('e \<times> 's) res) \<Rightarrow> 'op list \<Rightarrow> 's \<Rightarrow> ('e list \<times> 's) res" where
  "run_ops ex [] s = Inr ([], s)"
| "run_ops ex (op # ops) s =
     bind_res (ex op s) (\<lambda>(e, s1). bind_res (run_ops ex ops s1) (\<lambda>(es, s2). Inr (e # es, s2)))"

fun run_spec :: "('op \<Rightarrow> 'a \<Rightarrow> ('e \<times> 'a) option) \<Rightarrow> 'op list \<Rightarrow> 'a \<Rightarrow> ('e list \<times> 'a) option" where
  "run_spec sp [] a = Some ([], a)"
| "run_spec sp (op # ops) a =
     (case sp op a of
        None \<Rightarrow> None
      | Some (e, a1) \<Rightarrow> (case run_spec sp ops a1 of None \<Rightarrow> None | Some (es, a2) \<Rightarrow> Some (e # es, a2)))"

locale simulation =
  fixes R :: "'s \<Rightarrow> 'a \<Rightarrow> bool"
    and ex :: "'op \<Rightarrow> 's \<Rightarrow> ('e \<times> 's) res"
    and sp :: "'op \<Rightarrow> 'a \<Rightarrow> ('e \<times> 'a) option"
  assumes step: "R s a \<Longrightarrow> sp op a = Some (e, a') \<Longrightarrow> \<exists>s'. ex op s = Inr (e, s') \<and> R s' a'"
begin

lemma runs: "R s a \<Longrightarrow> run_spec sp ops a = Some (es, a') \<Longrightarrow> \<exists>s'. run_ops ex ops s = Inr (es, s') \<and> R s' a'"
proof (induction ops arbitrary: s a es)
  case (Cons op ops)
  from Cons.prems(2) obtain e a1 es1 where sp: "sp op a = Some (e, a1)" "run_spec sp ops a1 = Some (es1, a')" "es = e # es1"
    by (auto split: option.splits)
  from step [OF Cons.prems(1) sp(1)] obtain s1 where s1: "ex op s = Inr (e, s1)" "R s1 a1" by blast
  from Cons.IH [OF s1(2) sp(2)] s1(1) sp(3) show ?case by auto
qed simp

end

interpretation srqs: simulation "srq_refines gs" srq_exec "srq_spec gs" for gs
  by unfold_locales (rule srq_exec_refines)

subsection \<open>A new queue\<close>

lemma ilog_less: "n < 2 ^ ilog n"
  by (induction n rule: ilog.induct) (subst ilog.simps, auto)

lemma ilog_le: "n < 2 ^ k \<Longrightarrow> ilog n \<le> k"
proof (induction n arbitrary: k rule: ilog.induct)
  case (1 n)
  show ?case
  proof (cases "n = 0")
    case False
    then obtain j where "k = Suc j" using "1.prems" by (cases k) auto
    with 1 False show ?thesis by (subst ilog.simps) auto
  qed (simp add: ilog.simps)
qed

lemma ilog_pow: "ilog (2 ^ k - 1) = k"
proof (rule antisym)
  show "ilog (2 ^ k - 1) \<le> k" by (rule ilog_le) simp
  have "(2 :: nat) ^ k \<le> 2 ^ ilog (2 ^ k - 1)" using ilog_less [of "2 ^ k - 1"] by linarith
  then show "k \<le> ilog (2 ^ k - 1)" by simp
qed

lemma roundup_bounds:
  assumes "0 < n"
  shows "n \<le> roundup_pow_of_two n" "roundup_pow_of_two n < 2 * n" "\<exists>k. roundup_pow_of_two n = 2 ^ k"
proof -
  have "n \<le> 2 ^ ilog (n - 1)" using ilog_less [of "n - 1"] by linarith
  then show "n \<le> roundup_pow_of_two n" by (simp add: roundup_pow_of_two_def)
  show "\<exists>k. roundup_pow_of_two n = 2 ^ k" using power_0 [of "2 :: nat"] by (metis roundup_pow_of_two_def)
  show "roundup_pow_of_two n < 2 * n"
  proof (cases "n = 1")
    case False
    then obtain j where j: "ilog (n - 1) = Suc j" 
      using assms ilog_less [of "n - 1"] by (cases "ilog (n - 1)") auto
    then have "\<not> n - 1 < 2 ^ j" using ilog_le [of "n - 1" j] by auto
    then have "2 ^ j < n" using assms by linarith
    with j False show ?thesis by (simp add: roundup_pow_of_two_def)
  qed (simp add: roundup_pow_of_two_def)
qed

lemma roundup_double: "0 < n \<Longrightarrow> 2 * roundup_pow_of_two (n + 1) \<le> roundup_pow_of_two (2 * n + 1)"
proof -
  assume n: "0 < n"
  obtain j k where p: "roundup_pow_of_two (n + 1) = 2 ^ j" "roundup_pow_of_two (2 * n + 1) = 2 ^ k"
    using roundup_bounds(3) [of "n + 1"] roundup_bounds(3) [of "2 * n + 1"] by auto
  have "(2 :: nat) ^ j < 2 * (n + 1)" "2 * n + 1 \<le> 2 ^ k" using roundup_bounds [of "n + 1"] roundup_bounds [of "2 * n + 1"] p by auto
  moreover obtain i where "j = Suc i" using p(1) roundup_bounds(1) [of "n + 1"] n by (cases j) auto
  ultimately have "2 ^ j \<le> 2 * n" "2 * n < 2 ^ k" by auto
  then have "(2 :: nat) ^ j < 2 ^ k" by (rule order.strict_trans1)
  then have "Suc j \<le> k" by simp
  then have "(2 :: nat) ^ Suc j \<le> 2 ^ k" by (rule power_increasing) simp
  then show ?thesis unfolding p by simp
qed

lemma roundup_le: "0 < n \<Longrightarrow> n \<le> 2 ^ k \<Longrightarrow> roundup_pow_of_two n \<le> 2 ^ k"
proof -
  assume n: "0 < n" "n \<le> 2 ^ k"
  then have "ilog (n - 1) \<le> k" by (intro ilog_le) linarith
  then have "(2 :: nat) ^ ilog (n - 1) \<le> 2 ^ k" by (rule power_increasing) simp
  then show ?thesis by (simp add: roundup_pow_of_two_def)
qed

lemma set_srq_buf_ll_Suc: "a \<le> b \<Longrightarrow> set_srq_buf_ll a (Suc b) s = set_next b (b + 1) (set_srq_buf_ll a b s)"
  by (simp add: set_srq_buf_ll_def)

lemma ll_fields [simp]:
  "srq_head (set_srq_buf_ll a b s) = srq_head s" "srq_tail (set_srq_buf_ll a b s) = srq_tail s"
  "srq_max (set_srq_buf_ll a b s) = srq_max s" "srq_max_gs (set_srq_buf_ll a b s) = srq_max_gs s"
  "srq_shift (set_srq_buf_ll a b s) = srq_shift s" "waitq_head (set_srq_buf_ll a b s) = waitq_head s"
  "waitq_tail (set_srq_buf_ll a b s) = waitq_tail s" "srq_geom (set_srq_buf_ll a b s) = srq_geom s"
  by (induction b; cases "a \<le> b"; simp add: set_srq_buf_ll_Suc set_srq_buf_ll_def)+

lemma ll_next:
  "srq_geom s \<Longrightarrow> b < 2 ^ 16 \<Longrightarrow>
   next_wqe_index (set_srq_buf_ll a b s) = (\<lambda>n. if a \<le> n \<and> n < b then n + 1 else next_wqe_index s n)"
proof (induction b)
  case (Suc b)
  show ?case
  proof (cases "a \<le> b")
    case True
    with Suc show ?thesis by (auto simp: set_srq_buf_ll_Suc next_set_next fun_eq_iff)
  qed (auto simp: set_srq_buf_ll_def)
qed (simp add: set_srq_buf_ll_def)

lemma chain_upt: "(\<And>n. a \<le> n \<Longrightarrow> Suc n < b \<Longrightarrow> nx n = Suc n) \<Longrightarrow> chain nx [a..<b]"
proof (induction b)
  case (Suc b)
  then show ?case by (cases "a < b") (auto simp: chain_snoc)
qed simp

lemma ends_upt: "a < b \<Longrightarrow> (\<And>n. a \<le> n \<Longrightarrow> Suc n < b \<Longrightarrow> nx n = Suc n) \<Longrightarrow> ends nx a (b - 1) [a..<b]"
  by (simp add: ends_def chain_upt)

text \<open>The lists of a queue as \<open>mlx5_alloc_srq_buf\<close> leaves it.\<close>

definition fresh :: "mlx5_srq \<Rightarrow> abs_srq" where
  "fresh s = \<lparr>a_free = [0..<srq_tail s + 1], a_wait = (if srq_has_waitq s then [srq_tail s + 1..<srq_max s] else []),
     a_posted = Map.empty\<rparr>"

lemma fresh_rel:
  assumes g: "srq_geom s" and h: "srq_head s = 0" "srq_tail s < srq_max s"
    and w: "srq_has_waitq s \<Longrightarrow> waitq_head s = int (srq_tail s) + 1 \<and> waitq_tail s = int (srq_max s) - 1 \<and> srq_tail s + 1 < srq_max s"
    and n: "\<not> srq_has_waitq s \<Longrightarrow> srq_max s = srq_tail s + 1"
    and nx: "\<And>k. k < srq_tail s \<Longrightarrow> next_wqe_index s k = k + 1"
      "\<And>k. srq_has_waitq s \<Longrightarrow> srq_tail s < k \<Longrightarrow> k + 1 < srq_max s \<Longrightarrow> next_wqe_index s k = k + 1"
  shows "srq_rel s (fresh s)"
proof -
  have "ends (next_wqe_index s) 0 (srq_tail s + 1 - 1) [0..<srq_tail s + 1]" by (rule ends_upt) (use nx(1) in auto)
  moreover have "srq_has_waitq s \<Longrightarrow> ends (next_wqe_index s) (srq_tail s + 1) (srq_max s - 1) [srq_tail s + 1..<srq_max s]"
    by (rule ends_upt) (use nx(2) w in auto)
  moreover have "nat (waitq_head s) = srq_tail s + 1 \<and> nat (waitq_tail s) = srq_max s - 1" if "srq_has_waitq s"
    using w [OF that] by auto
  ultimately show ?thesis using g h n by (auto simp: srq_rel_def fresh_def)
qed

lemma alloc_geom:
  fixes gs :: nat
  defines "sz \<equiv> roundup_pow_of_two (max 32 (16 + gs * 16))"
  shows "16 + 16 * ((sz - 16) div 16) \<le> 2 ^ ilog (sz - 1)"
proof -
  have "0 < max 32 (16 + gs * 16)" by simp
  then obtain k where k: "sz = 2 ^ k" using roundup_bounds(3) unfolding sz_def by blast
  have "32 \<le> sz" using roundup_bounds(1) [of "max 32 (16 + gs * 16)"] by (auto simp: sz_def)
  then have "16 + 16 * ((sz - 16) div 16) \<le> sz" by auto
  also have "sz = 2 ^ ilog (sz - 1)" by (simp only: k ilog_pow)
  finally show ?thesis .
qed

lemma alloc_rel:
  assumes "mlx5_alloc_srq_buf max_srq max_recv bo wo orig s0 = Some s" "0 < orig" "unat orig < 2 ^ 15"
  shows "srq_rel s (fresh s)"
proof -
  let ?o = "unat orig"
  have o: "unat (orig * 2 + 1) = 2 * ?o + 1" "unat (orig + 1) = ?o + 1" "0 < ?o"
    using assms(2,3) by (simp_all add: unat_word_ariths word_less_nat_alt)
  let ?wq = "2 * ?o + 1 \<le> max_srq"
  let ?sz = "roundup_pow_of_two (max 32 (16 + nat (srq_max_gs s0) * 16))"
  let ?mx = "align_queue_size (if ?wq then 2 * ?o + 1 else ?o + 1)" and ?tl = "align_queue_size (?o + 1) - 1"
  define s1 where "s1 = s0\<lparr>srq_max_gs := int ((?sz - 16) div 16), srq_shift := ilog (?sz - 1), srq_max := ?mx,
    srq_mem := memset0 0 (?mx * ?sz) (srq_mem s0), srq_head := 0, srq_tail := ?tl,
    waitq_head := (if ?wq then int ?tl + 1 else - 1), waitq_tail := (if ?wq then int ?mx - 1 else - 1)\<rparr>"
  have s: "s = (if ?wq then set_srq_buf_ll (?tl + 1) (?mx - 1) (set_srq_buf_ll 0 ?tl s1) else set_srq_buf_ll 0 ?tl s1)"
    using assms(1) by (auto simp: mlx5_alloc_srq_buf_def Let_def o s1_def split: if_splits)
  have tl: "1 < align_queue_size (?o + 1)" using roundup_bounds(1) [of "?o + 1"] o(3) by (simp add: align_queue_size_def)
  have mx: "if ?wq then ?tl + 1 < ?mx else ?mx = ?tl + 1" "?mx \<le> 2 ^ 16"
    using roundup_double [of ?o] roundup_le [of "2 * ?o + 1" 16] roundup_le [of "?o + 1" 16] o(3) assms(3) tl
    by (auto simp: align_queue_size_def)
  have g1: "srq_geom s1" using mx(2) alloc_geom [of "nat (srq_max_gs s0)"] by (simp add: srq_geom_def s1_def)
  have f1: "srq_head s1 = 0" "srq_tail s1 = ?tl" "srq_max s1 = ?mx" "waitq_head s1 = (if ?wq then int ?tl + 1 else - 1)"
    "waitq_tail s1 = (if ?wq then int ?mx - 1 else - 1)" by (simp_all add: s1_def)
  have lt: "?tl < ?mx" "?tl < 2 ^ 16" "?mx - 1 < 2 ^ 16" using mx tl by (auto split: if_splits)
  show ?thesis
  proof (rule fresh_rel)
    show "srq_geom s" using g1 by (simp add: s)
  qed (use mx(1) lt f1 g1 in \<open>auto simp: s srq_has_waitq_def ll_next split: if_splits\<close>)
qed

subsection \<open>Delivery\<close>

lemma srq_copy_loop_deliver:
  "segs_at p ys m \<Longrightarrow> \<forall>y \<in> set ys. sge_lkey y \<noteq> k \<Longrightarrow> length ys \<le> n \<Longrightarrow> buf \<noteq> [] \<Longrightarrow> length buf \<le> room_of ys \<Longrightarrow>
   srq_copy_loop n p buf m um = (IBV_WC_SUCCESS, deliver k ys buf um)"
proof (induction ys arbitrary: p n buf um)
  case Nil
  then show ?case by (simp add: room_of_def)
next
  case (Cons y ys)
  then obtain n' where n: "n = Suc n'" "length ys \<le> n'" by (cases n) auto
  have l: "ld_be32 p m = sge_length y" "ld_be32 (p + 4) m = sge_lkey y" "ld_be64 (p + 8) m = sge_addr y"
    using Cons.prems(1) ld_seg by simp_all
  show ?case
  proof (cases "length buf \<le> unat (sge_length y)")
    case True
    then show ?thesis using Cons.prems(2) by (simp add: n(1) l Let_def min_def)
  next
    case False
    then have "drop (unat (sge_length y)) buf \<noteq> []" by simp
    moreover have "length (drop (unat (sge_length y)) buf) \<le> room_of ys" using Cons.prems(5) by (simp add: room_of_def)
    ultimately show ?thesis
      using Cons.IH [OF _ _ n(2)] Cons.prems(1,2) False by (simp add: n(1) l Let_def min_def)
  qed
qed

lemma segs_at_append: "segs_at p (xs @ ys) m \<Longrightarrow> segs_at p xs m"
  by (induction xs arbitrary: p) simp_all

lemma posted_delivers:
  assumes r: "srq_rel s a" and p: "a_posted a i = Some wr" and b: "length buf \<le> room_of (recv_entries wr)"
  shows "srq_wrid s i = rwr_id wr"
    "mlx5_copy_to_recv_srq s i buf um = (IBV_WC_SUCCESS, deliver MLX5_INVALID_LKEY (recv_entries wr) buf um)"
proof -
  have g: "srq_geom s" and v: "srq_wr_ok wr" "int (length (recv_entries wr)) \<le> srq_max_gs s" "wqe_holds s i wr"
    using r p by (simp_all add: srq_rel_def)
  show "srq_wrid s i = rwr_id wr" using v(3) by (simp add: wqe_holds_def)
  have sg: "segs_at (get_wqe s i + 16) (recv_entries wr) (srq_mem s)"
    using v(3) segs_at_append by (auto simp: wqe_holds_def wqe_segs_def)
  have l: "16 + 16 * length (recv_entries wr) \<le> 2 ^ srq_shift s" using g v(2) by (auto simp: srq_geom_def)
  have "\<not> srq_shift s < 4"
  proof
    assume "srq_shift s < 4"
    then have "(2 :: nat) ^ srq_shift s < 2 ^ 4" by (intro power_strict_increasing) simp_all
    with l show False by simp
  qed
  then have "(2 :: nat) ^ srq_shift s = 16 * 2 ^ (srq_shift s - 4)"
    using power_add [of "2 :: nat" 4 "srq_shift s - 4"] by simp
  with l have n: "Suc (length (recv_entries wr)) \<le> 2 ^ (srq_shift s - 4)" by simp
  then obtain n' where n': "2 ^ (srq_shift s - 4) = Suc n'" by (cases "(2 :: nat) ^ (srq_shift s - 4)") auto
  show "mlx5_copy_to_recv_srq s i buf um = (IBV_WC_SUCCESS, deliver MLX5_INVALID_LKEY (recv_entries wr) buf um)"
  proof (cases "buf = []")
    case True
    then show ?thesis by (simp add: mlx5_copy_to_recv_srq_def n' Let_def)
  next
    case False
    with srq_copy_loop_deliver [OF sg _ _ False b, of MLX5_INVALID_LKEY "2 ^ (srq_shift s - 4)" um] v(1) n show ?thesis
      by (simp add: mlx5_copy_to_recv_srq_def srq_wr_ok_def)
  qed
qed

subsection \<open>Properties\<close>

text \<open>
  C3. A shared receive queue as \<open>mlx5_alloc_srq_buf\<close> creates it implements its specification: for every
  sequence of posts, completions and page faults that the specification allows, the linked lists run
  without a fault and return the same errors and counts, and at the end the chains in the buffer are
  the abstract lists, no descriptor is lost or in two lists, and every posted one holds its request.
\<close>
theorem srq_run_refines:
  assumes "mlx5_alloc_srq_buf max_srq max_recv bo wo orig s0 = Some s" "0 < orig" "unat orig < 2 ^ 15"
    and "run_spec (srq_spec (srq_max_gs s)) ops (fresh s) = Some (es, a)"
  shows "\<exists>s'. run_ops srq_exec ops s = Inr (es, s') \<and> srq_rel s' a"
  using srqs.runs [of "srq_max_gs s" s "fresh s", OF _ assms(4)] alloc_rel [OF assms(1-3)]
  by (auto simp: srq_refines_def)

text \<open>A queue of two descriptors and two resting ones; the request posted in 0 moves to 1 with a page fault.\<close>

definition demo_srq :: mlx5_srq where
  "demo_srq = \<lparr>srq_mem = (\<lambda>_. 0), srq_wrid = (\<lambda>_. 0), srq_max = 0, srq_max_gs = 1, srq_shift = 0, srq_head = 0, srq_tail = 0,
     waitq_head = 0, waitq_tail = 0, srq_db = 0, srq_counter = 0\<rparr>"

definition demo_recv :: ibv_recv_wr where
  "demo_recv = \<lparr>rwr_id = 7, rwr_sg_list = Some [\<lparr>sge_addr = 4096, sge_length = 4, sge_lkey = 5\<rparr>], rwr_num_sge = 1\<rparr>"

lemma demo_alloc:
  "\<exists>s. mlx5_alloc_srq_buf 100 4096 True True 1 demo_srq = Some s \<and> srq_max_gs s = 1 \<and>
     fresh s = \<lparr>a_free = [0, 1], a_wait = [2, 3], a_posted = Map.empty\<rparr>"
proof -
  have i: "ilog 31 = 5" "ilog 2 = 2" "ilog 1 = 1" "ilog (Suc 0) = 1" by (simp_all add: ilog.simps)
  show ?thesis
    by (simp add: mlx5_alloc_srq_buf_def demo_srq_def roundup_pow_of_two_def align_queue_size_def i fresh_def
        srq_has_waitq_def upt_rec Let_def)
qed

lemma demo_run:
  "run_spec (srq_spec 1) [PostRecv [demo_recv, demo_recv], OdpFault 0] \<lparr>a_free = [0, 1], a_wait = [2, 3], a_posted = Map.empty\<rparr>
   = Some ([(ENOMEM, 1), (0, 0)], \<lparr>a_free = [2], a_wait = [3, 0], a_posted = [1 \<mapsto> demo_recv]\<rparr>)"
  by (simp add: srq_spec_def demo_recv_def srq_wr_ok_def recv_entries_def a_take_def a_cooldown_def)

theorem srq_run_refines_witness:
  "\<exists>s s'. mlx5_alloc_srq_buf 100 4096 True True 1 demo_srq = Some s \<and>
     run_ops srq_exec [PostRecv [demo_recv, demo_recv], OdpFault 0] s = Inr ([(ENOMEM, 1), (0, 0)], s') \<and>
     srq_rel s' \<lparr>a_free = [2], a_wait = [3, 0], a_posted = [1 \<mapsto> demo_recv]\<rparr>"
proof -
  obtain s where s: "mlx5_alloc_srq_buf 100 4096 True True 1 demo_srq = Some s" "srq_max_gs s = 1"
    "fresh s = \<lparr>a_free = [0, 1], a_wait = [2, 3], a_posted = Map.empty\<rparr>" using demo_alloc by blast
  from srq_run_refines [OF s(1), of "[PostRecv [demo_recv, demo_recv], OdpFault 0]"] s demo_run show ?thesis by auto
qed

text \<open>
  C21. Data that arrives in a descriptor of the shared receive queue reaches the buffers of the request
  that was posted in it, also when a page fault has moved the request to another descriptor: after
  any sequence of operations, the identifier of a posted descriptor is that of its request, and
  \<open>mlx5_copy_to_recv_srq\<close> scatters the data over exactly its entries.
\<close>
theorem srq_delivers:
  assumes "mlx5_alloc_srq_buf max_srq max_recv bo wo orig s0 = Some s" "0 < orig" "unat orig < 2 ^ 15"
    and "run_spec (srq_spec (srq_max_gs s)) ops (fresh s) = Some (es, a)"
    and "a_posted a i = Some wr" "length buf \<le> room_of (recv_entries wr)"
  shows "\<exists>s'. run_ops srq_exec ops s = Inr (es, s') \<and> srq_wrid s' i = rwr_id wr \<and>
    mlx5_copy_to_recv_srq s' i buf um = (IBV_WC_SUCCESS, deliver MLX5_INVALID_LKEY (recv_entries wr) buf um)"
proof -
  obtain s' where "run_ops srq_exec ops s = Inr (es, s')" "srq_rel s' a"
    using srqs.runs [of "srq_max_gs s" s "fresh s", OF _ assms(4)] alloc_rel [OF assms(1-3)] by (auto simp: srq_refines_def)
  with posted_delivers [OF _ assms(5,6)] show ?thesis by blast
qed

theorem srq_delivers_witness:
  "\<exists>s s'. mlx5_alloc_srq_buf 100 4096 True True 1 demo_srq = Some s \<and>
     run_ops srq_exec [PostRecv [demo_recv, demo_recv], OdpFault 0] s = Inr ([(ENOMEM, 1), (0, 0)], s') \<and>
     mlx5_copy_to_recv_srq s' 1 [8, 9] (\<lambda>_. 0) = (IBV_WC_SUCCESS, user_store 4096 [8, 9] (\<lambda>_. 0))"
proof -
  obtain s where s: "mlx5_alloc_srq_buf 100 4096 True True 1 demo_srq = Some s" "srq_max_gs s = 1"
    "fresh s = \<lparr>a_free = [0, 1], a_wait = [2, 3], a_posted = Map.empty\<rparr>" using demo_alloc by blast
  have "recv_entries demo_recv = [\<lparr>sge_addr = 4096, sge_length = 4, sge_lkey = 5\<rparr>]" by (simp add: demo_recv_def recv_entries_def)
  with srq_delivers [OF s(1) _ _ _, of "[PostRecv [demo_recv, demo_recv], OdpFault 0]" _ _ 1 demo_recv "[8, 9]" "\<lambda>_. 0"] s demo_run
  show ?thesis by (auto simp: room_of_def)
qed

end
