(* ===== verification/Sq_Cancel.thy ===== *)
theory Sq_Cancel
  imports Mlx5_Queue
begin

text \<open>
  \<open>mlx5dv_qp_cancel_posted_send_wrs\<close> of \<open>providers/mlx5/qp.c\<close>: in a drained send queue the descriptors
  with a given identifier are turned into no-operations.  The walk from descriptor to descriptor
  searches the array \<open>wqe_head\<close> for the next request number; the search may run forever, so it is a
  partial function and \<open>None\<close> is not returning.  The array has \<open>wqe_cnt\<close> elements.
\<close>

definition head_at :: "mlx5_wq \<Rightarrow> nat \<Rightarrow> u32 res" where
  "head_at w i = (if i < unat (wqe_cnt w) then Inr (wqe_head w i) else Inl OutOfBounds)"

partial_function (option) search_head :: "mlx5_wq \<Rightarrow> u32 \<Rightarrow> u32 \<Rightarrow> u32 res option" where
  "search_head w next_head idx =
     (case head_at w (unat idx) of
        Inl e \<Rightarrow> Some (Inl e)
      | Inr h \<Rightarrow> if h = next_head then Some (Inr idx)
                 else search_head w next_head ((idx + 1) AND (wqe_cnt w - 1)))"

text \<open>The error and the index of the next request.\<close>

definition mlx5_qp_sq_next_idx :: "mlx5_wq \<Rightarrow> u32 \<Rightarrow> (nat \<times> u32) res option" where
  "mlx5_qp_sq_next_idx w cur_idx =
     (case head_at w (unat cur_idx) of
        Inl e \<Rightarrow> Some (Inl e)
      | Inr h \<Rightarrow>
          if h + 1 = wq_head w then Some (Inr (ENOENT, cur_idx))
          else case search_head w (h + 1) (cur_idx + 1) of
                 None \<Rightarrow> None
               | Some (Inl e) \<Rightarrow> Some (Inl e)
               | Some (Inr i) \<Rightarrow> Some (Inr (0, i)))"

text \<open>The completion opcode that is kept for an opcode; \<open>None\<close> for an opcode that is not handled.\<close>

definition cancel_wr_data :: "u32 \<Rightarrow> u32 \<Rightarrow> u32 option" where
  "cancel_wr_data op old =
     (if op = MLX5_OPCODE_RDMA_WRITE_IMM \<or> op = MLX5_OPCODE_RDMA_WRITE then Some IBV_WC_RDMA_WRITE
      else if op = MLX5_OPCODE_SEND_IMM \<or> op = MLX5_OPCODE_SEND \<or> op = MLX5_OPCODE_SEND_INVAL then Some IBV_WC_SEND
      else if op = MLX5_OPCODE_RDMA_READ then Some IBV_WC_RDMA_READ
      else if op = MLX5_OPCODE_ATOMIC_CS then Some IBV_WC_COMP_SWAP
      else if op = MLX5_OPCODE_ATOMIC_FA then Some IBV_WC_FETCH_ADD
      else if op = MLX5_OPCODE_TSO then Some IBV_WC_TSO
      else if op = MLX5_OPCODE_UMR \<or> op = MLX5_OPCODE_SET_PSV \<or> op = MLX5_OPCODE_MMO then Some old
      else None)"

definition mlx5dv_qp_cancel_wr :: "nat \<Rightarrow> mlx5_qp \<Rightarrow> bool \<times> mlx5_qp" where
  "mlx5dv_qp_cancel_wr idx qp =
     (let ctrl = mlx5_get_send_wqe idx; op = ld_be32 ctrl (sq_mem qp); w = sq qp;
          nop = qp\<lparr>sq_mem := st_be32 ctrl ((op AND 0xffff00) OR MLX5_OPCODE_NOP) (sq_mem qp)\<rparr>
      in if wr_data w idx = IBV_WC_DRIVER2 then (True, nop)
         else case cancel_wr_data (op AND 0xff) (wr_data w idx) of
                None \<Rightarrow> (False, qp)
              | Some d \<Rightarrow> (True, nop\<lparr>sq := w\<lparr>wr_data := (wr_data w)(idx := d)\<rparr>\<rparr>))"

text \<open>The loop of the caller: the count on success, or -22 for \<open>-EINVAL\<close>.\<close>

partial_function (option) cancel_loop :: "u64 \<Rightarrow> u32 \<Rightarrow> int \<Rightarrow> mlx5_qp \<Rightarrow> (int \<times> mlx5_qp) res option" where
  "cancel_loop wid idx n qp =
     (case head_at (sq qp) (unat idx) of
        Inl e \<Rightarrow> Some (Inl e)
      | Inr _ \<Rightarrow>
          (let hit = (wrid (sq qp) (unat idx) = wid);
               r = (if hit then mlx5dv_qp_cancel_wr (unat idx) qp else (True, qp));
               n' = (if hit then n + 1 else n)
           in if \<not> fst r then Some (Inr (- 22, snd r))
              else case mlx5_qp_sq_next_idx (sq (snd r)) idx of
                     None \<Rightarrow> None
                   | Some (Inl e) \<Rightarrow> Some (Inl e)
                   | Some (Inr (e, i)) \<Rightarrow>
                       if e \<noteq> 0 then Some (Inr (n', snd r)) else cancel_loop wid i n' (snd r)))"

text \<open>
  \<open>query\<close> is the answer of the device: the error of the query, or the state and the counter of the
  descriptors it has processed.
\<close>

datatype sqd_answer = QueryError int | NotDrained | Drained u32

definition mlx5_qp_query_sqd :: "sqd_answer \<Rightarrow> mlx5_qp \<Rightarrow> int + u32" where
  "mlx5_qp_query_sqd query qp =
     (case query of
        QueryError e \<Rightarrow> Inl (- e)
      | NotDrained \<Rightarrow> Inl (- 22)
      | Drained c \<Rightarrow> Inr (c AND (wqe_cnt (sq qp) - 1)))"

definition mlx5dv_qp_cancel_posted_send_wrs :: "sqd_answer \<Rightarrow> u64 \<Rightarrow> mlx5_qp \<Rightarrow> (int \<times> mlx5_qp) res option" where
  "mlx5dv_qp_cancel_posted_send_wrs query wid qp =
     (case mlx5_qp_query_sqd query qp of
        Inl e \<Rightarrow> Some (Inr (e, qp))
      | Inr idx \<Rightarrow> if idx = cur_post (sq qp) then Some (Inr (0, qp)) else cancel_loop wid idx 0 qp)"

subsection \<open>The walk ends\<close>

lemma head_at_ok [simp]: "i < unat (wqe_cnt w) \<Longrightarrow> head_at w i = Inr (wqe_head w i)"
  by (simp add: head_at_def)

lemma ring_dist:
  assumes "i < c" "t < c" "i \<noteq> (t :: nat)"
  shows "(t + c - (i + 1) mod c) mod c < (t + c - i) mod c"
  using assms by (cases "i + 1 = c") (auto simp: mod_if)

lemma search_head_finds:
  assumes c: "wqe_cnt w = 2 ^ b" "b < 32" and t: "t < 2 ^ b" "wqe_head w t = nh" "\<forall>i < 2 ^ b. wqe_head w i = nh \<longrightarrow> i = t"
  shows "unat idx < 2 ^ b \<Longrightarrow> search_head w nh idx = Some (Inr (of_nat t))"
proof (induction "(t + 2 ^ b - unat idx) mod 2 ^ b" arbitrary: idx rule: less_induct)
  case less
  have cn: "unat (wqe_cnt w) = 2 ^ b" using c by (simp add: unat_pow2)
  show ?case
  proof (cases "unat idx = t")
    case True
    have "head_at w (unat idx) = Inr nh" using True t(2) less.prems cn by simp
    moreover have "of_nat t = idx" using True [symmetric] by simp
    ultimately show ?thesis by (subst search_head.simps) simp
  next
    case False
    let ?j = "(idx + 1) AND (wqe_cnt w - 1)"
    have j: "unat ?j = (unat idx + 1) mod 2 ^ b" using unat_mask_add [OF c, of idx 1] by simp
    have "search_head w nh ?j = Some (Inr (of_nat t))"
      by (rule less.hyps) (use ring_dist [OF less.prems t(1) False] in \<open>simp_all add: j\<close>)
    moreover have "wqe_head w (unat idx) \<noteq> nh" using t(3) less.prems False by blast
    moreover have "head_at w (unat idx) = Inr (wqe_head w (unat idx))" using less.prems cn by simp
    ultimately show ?thesis by (subst search_head.simps) simp
  qed
qed

text \<open>
  The descriptors \<open>i # is\<close> are those in flight, from request number \<open>h\<close> on: each is followed by the only
  one with the next number, the last is the newest request, and none but the last lies in the last
  slot of the ring.
\<close>

fun walk_ok :: "mlx5_wq \<Rightarrow> u32 \<Rightarrow> nat list \<Rightarrow> bool" where
  "walk_ok w h [] = False"
| "walk_ok w h [i] = (i < unat (wqe_cnt w) \<and> wqe_head w i = h \<and> h + 1 = wq_head w)"
| "walk_ok w h (i # j # is) =
     (i + 1 < unat (wqe_cnt w) \<and> wqe_head w i = h \<and> h + 1 \<noteq> wq_head w \<and>
      (\<forall>k < unat (wqe_cnt w). wqe_head w k = h + 1 \<longrightarrow> k = j) \<and> walk_ok w (h + 1) (j # is))"

lemma walk_ok_hd: "walk_ok w h (i # is) \<Longrightarrow> i < unat (wqe_cnt w) \<and> wqe_head w i = h"
  by (cases "is") auto

lemma next_idx_walk:
  assumes c: "wqe_cnt w = 2 ^ b" "b < 32" and ok: "walk_ok w h (i # is)"
  shows "mlx5_qp_sq_next_idx w (of_nat i) =
    Some (Inr (case is of [] \<Rightarrow> (ENOENT, of_nat i) | j # _ \<Rightarrow> (0, of_nat j)))"
proof -
  have cn: "unat (wqe_cnt w) = 2 ^ b" using c by (simp add: unat_pow2)
  have "(2 :: nat) ^ b < 2 ^ 32" using c(2) by (intro power_strict_increasing) simp_all
  then have u: "k \<le> 2 ^ b \<Longrightarrow> unat (of_nat k :: u32) = k" for k by (intro unat_of_nat_small) simp
  have i: "i < 2 ^ b" "wqe_head w i = h" using walk_ok_hd [OF ok] cn by simp_all
  show ?thesis
  proof (cases "is")
    case Nil
    with ok i cn show ?thesis by (simp add: mlx5_qp_sq_next_idx_def u)
  next
    case (Cons j js)
    with ok have w: "i + 1 < 2 ^ b" "h + 1 \<noteq> wq_head w" "\<forall>k < 2 ^ b. wqe_head w k = h + 1 \<longrightarrow> k = j"
      and j: "j < 2 ^ b" "wqe_head w j = h + 1" using walk_ok_hd [of w "h + 1" j js] by (simp_all add: cn)
    have "unat (of_nat i + 1 :: u32) < 2 ^ b" using u [of "i + 1"] w(1) by (simp add: add.commute)
    from search_head_finds [OF c j w(3) this] show ?thesis
      using i cn w(2) Cons by (simp add: mlx5_qp_sq_next_idx_def u)
  qed
qed

subsection \<open>Cancelling\<close>

text \<open>Opcode and index of the descriptor in slot \<open>i\<close>, and what they become.\<close>

definition op_at :: "mlx5_qp \<Rightarrow> nat \<Rightarrow> u32" where
  "op_at qp i = ld_be32 (mlx5_get_send_wqe i) (sq_mem qp)"

definition nop_of :: "u32 \<Rightarrow> u32" where
  "nop_of op = (op AND 0xffff00) OR MLX5_OPCODE_NOP"

definition cancellable :: "mlx5_qp \<Rightarrow> nat \<Rightarrow> bool" where
  "cancellable qp i \<longleftrightarrow> wr_data (sq qp) i = IBV_WC_DRIVER2 \<or> cancel_wr_data (op_at qp i AND 0xff) (wr_data (sq qp) i) \<noteq> None"

text \<open>The parts of a queue pair the walk depends on.\<close>

definition walk_part :: "mlx5_qp \<Rightarrow> (nat \<Rightarrow> u64) \<times> (nat \<Rightarrow> u32) \<times> u32 \<times> u32" where
  "walk_part qp = (wrid (sq qp), wqe_head (sq qp), wqe_cnt (sq qp), wq_head (sq qp))"

lemma walk_ok_part: "walk_part p = walk_part q \<Longrightarrow> walk_ok (sq p) h is = walk_ok (sq q) h is"
proof -
  assume "walk_part p = walk_part q"
  then show ?thesis by (induction "sq q" h "is" rule: walk_ok.induct) (auto simp: walk_part_def)
qed

lemma cancel_wr_effect:
  assumes "cancellable qp i" "mlx5dv_qp_cancel_wr i qp = (ok, q)"
  shows "ok \<and> walk_part q = walk_part qp \<and> op_at q i = nop_of (op_at qp i) \<and>
    (\<forall>j. j \<noteq> i \<longrightarrow> op_at q j = op_at qp j \<and> wr_data (sq q) j = wr_data (sq qp) j)"
proof -
  have o: "ld_be32 (mlx5_get_send_wqe j) (st_be32 (mlx5_get_send_wqe i) v m) = ld_be32 (mlx5_get_send_wqe j) m" if "j \<noteq> i" for j v m
    using that by (auto simp: mlx5_get_send_wqe_def st_be32_def intro!: ld_be32_store)
  from assms show ?thesis
    by (auto simp: mlx5dv_qp_cancel_wr_def cancellable_def op_at_def nop_of_def walk_part_def Let_def o ld_st_be32
        split: if_splits option.splits)
qed

lemma cancel_step:
  assumes c: "wqe_cnt (sq qp) = 2 ^ b" "b < 32" and ok: "walk_ok (sq qp) h (i # is)"
    and can: "wrid (sq qp) i = wid \<longrightarrow> cancellable qp i"
  shows "\<exists>q. cancel_loop wid (of_nat i) n qp =
      (let n' = (if wrid (sq qp) i = wid then n + 1 else n)
       in case is of [] \<Rightarrow> Some (Inr (n', q)) | j # _ \<Rightarrow> cancel_loop wid (of_nat j) n' q) \<and>
    walk_part q = walk_part qp \<and>
    op_at q i = (if wrid (sq qp) i = wid then nop_of (op_at qp i) else op_at qp i) \<and>
    (\<forall>j. j \<noteq> i \<longrightarrow> op_at q j = op_at qp j \<and> wr_data (sq q) j = wr_data (sq qp) j)"
proof -
  obtain b1 q1 where m: "mlx5dv_qp_cancel_wr i qp = (b1, q1)" by fastforce
  let ?hit = "wrid (sq qp) i = wid" let ?q = "if ?hit then q1 else qp"
  have e: "walk_part ?q = walk_part qp" "?hit \<Longrightarrow> b1"
    "op_at ?q i = (if ?hit then nop_of (op_at qp i) else op_at qp i)"
    "\<forall>j. j \<noteq> i \<longrightarrow> op_at ?q j = op_at qp j \<and> wr_data (sq ?q) j = wr_data (sq qp) j"
    using cancel_wr_effect [OF _ m] can by simp_all
  have "walk_ok (sq ?q) h (i # is)" "wqe_cnt (sq ?q) = 2 ^ b"
    using ok c walk_ok_part [OF e(1)] e(1) by (simp_all add: walk_part_def)
  then have x: "mlx5_qp_sq_next_idx (sq ?q) (of_nat i) = Some (Inr (case is of [] \<Rightarrow> (ENOENT, of_nat i) | j # _ \<Rightarrow> (0, of_nat j)))"
    using next_idx_walk c(2) by blast
  have "(2 :: nat) ^ b < 2 ^ 32" using c(2) by (intro power_strict_increasing) simp_all
  then have u: "unat (of_nat i :: u32) = i" "i < unat (wqe_cnt (sq qp))"
    using walk_ok_hd [OF ok] c by (simp_all add: unat_of_nat_small unat_pow2)
  have "cancel_loop wid (of_nat i) n qp = (let n' = (if ?hit then n + 1 else n)
       in case is of [] \<Rightarrow> Some (Inr (n', ?q)) | j # _ \<Rightarrow> cancel_loop wid (of_nat j) n' ?q)"
    using u e(2) x by (subst cancel_loop.simps) (auto simp: m Let_def split: list.split)
  with e show ?thesis by blast
qed

lemma cancel_loop_walk:
  assumes b: "b < 32"
  shows "walk_ok (sq qp) h (i # is) \<Longrightarrow> distinct (i # is) \<Longrightarrow> wqe_cnt (sq qp) = 2 ^ b \<Longrightarrow>
    \<forall>k \<in> set (i # is). wrid (sq qp) k = wid \<longrightarrow> cancellable qp k \<Longrightarrow>
    \<exists>q. cancel_loop wid (of_nat i) n qp = Some (Inr (n + int (length (filter (\<lambda>k. wrid (sq qp) k = wid) (i # is))), q)) \<and>
      (\<forall>k. op_at q k = (if k \<in> set (i # is) \<and> wrid (sq qp) k = wid then nop_of (op_at qp k) else op_at qp k))"
proof (induction "is" arbitrary: h i n qp)
  case Nil
  from cancel_step [OF Nil.prems(3) b Nil.prems(1), of wid n] Nil.prems(4) show ?case by (auto simp: Let_def)
next
  case (Cons j js)
  let ?hit = "wrid (sq qp) i = wid"
  obtain q where q: "cancel_loop wid (of_nat i) n qp = cancel_loop wid (of_nat j) (if ?hit then n + 1 else n) q"
    "walk_part q = walk_part qp" "op_at q i = (if ?hit then nop_of (op_at qp i) else op_at qp i)"
    "\<forall>k. k \<noteq> i \<longrightarrow> op_at q k = op_at qp k \<and> wr_data (sq q) k = wr_data (sq qp) k"
    using cancel_step [OF Cons.prems(3) b Cons.prems(1), of wid n] Cons.prems(4) by (auto simp: Let_def)
  have f: "wrid (sq q) = wrid (sq qp)" "wqe_cnt (sq q) = 2 ^ b" using q(2) Cons.prems(3) by (simp_all add: walk_part_def)
  have "walk_ok (sq q) (h + 1) (j # js)" using Cons.prems(1) walk_ok_part [OF q(2)] by simp
  moreover have "\<forall>k \<in> set (j # js). wrid (sq q) k = wid \<longrightarrow> cancellable q k"
  proof (intro ballI impI)
    fix k assume k: "k \<in> set (j # js)" "wrid (sq q) k = wid"
    then have "k \<noteq> i" using Cons.prems(2) by auto
    then have "cancellable q k = cancellable qp k" using q(4) by (simp add: cancellable_def)
    then show "cancellable q k" using Cons.prems(4) k f(1) by auto
  qed
  ultimately obtain q' where q': "cancel_loop wid (of_nat j) (if ?hit then n + 1 else n) q =
      Some (Inr ((if ?hit then n + 1 else n) + int (length (filter (\<lambda>k. wrid (sq qp) k = wid) (j # js))), q'))"
    "\<forall>k. op_at q' k = (if k \<in> set (j # js) \<and> wrid (sq qp) k = wid then nop_of (op_at q k) else op_at q k)"
    using Cons.IH [of q "h + 1" j "if ?hit then n + 1 else n"] Cons.prems(2) f unfolding f(1) by fastforce
  have "op_at q' k = (if k \<in> set (i # j # js) \<and> wrid (sq qp) k = wid then nop_of (op_at qp k) else op_at qp k)" for k
    using q'(2) q(3,4) Cons.prems(2) by (cases "k = i") auto
  moreover have "cancel_loop wid (of_nat i) n qp = Some (Inr (n + int (length (filter (\<lambda>k. wrid (sq qp) k = wid) (i # j # js))), q'))"
    using q(1) q'(1) by simp
  ultimately show ?case by blast
qed


text \<open>Two requests with the identifiers 5 and 6, of which the first is cancelled.\<close>

definition demo_sqd :: mlx5_qp where
  "demo_sqd = (demo_qp IBV_QPT_RC)\<lparr>
     sq := demo_wq\<lparr>wqe_cnt := 4, wq_head := 7, cur_post := 3, wrid := (\<lambda>i. if i = 1 then 5 else 6),
       wqe_head := (\<lambda>i. if i = 1 then 5 else if i = 2 then 6 else 0), wr_data := (\<lambda>_. IBV_WC_DRIVER2)\<rparr>\<rparr>"


text \<open>
  When a request in flight starts in the last slot of the ring and is not the newest, the walk reads
  \<open>wqe_head\<close> at the index \<open>wqe_cnt\<close>, one past its end: the index is reduced after the first
  comparison and not before it.
\<close>
theorem next_idx_reads_past_end:
  assumes "0 < wqe_cnt w" "wqe_head w (unat (wqe_cnt w) - 1) + 1 \<noteq> wq_head w"
  shows "mlx5_qp_sq_next_idx w (wqe_cnt w - 1) = Some (Inl OutOfBounds)"
proof -
  have c: "unat (wqe_cnt w - 1) = unat (wqe_cnt w) - 1" "0 < unat (wqe_cnt w)"
    using assms(1) by (simp_all add: unat_minus_one word_greater_zero_iff unat_gt_0)
  have "search_head w nh (wqe_cnt w) = Some (Inl OutOfBounds)" for nh
    by (subst search_head.simps) (simp add: head_at_def)
  with c assms(2) show ?thesis by (simp add: mlx5_qp_sq_next_idx_def)
qed

theorem next_idx_reads_past_end_witness:
  "mlx5_qp_sq_next_idx (demo_wq\<lparr>wqe_cnt := 4, wq_head := 7, wqe_head := (\<lambda>i. if i = 3 then 5 else 6)\<rparr>) 3
     = Some (Inl OutOfBounds)"
  using next_idx_reads_past_end [of "demo_wq\<lparr>wqe_cnt := 4, wq_head := 7, wqe_head := (\<lambda>i. if i = 3 then 5 else 6)\<rparr>"] by simp

end
