(* ===== verification/Send_Safety.thy ===== *)
theory Send_Safety
  imports Send_Queue
begin

text \<open>
  Safety of \<open>post_send\<close> on the connected and datagram queue pairs: no request makes it fault or write
  outside the send queue; the number of requests in flight never passes \<open>max_post\<close>; and a call that
  stops at a bad request has posted exactly the requests before it.  The relation \<open>stays\<close> carries the
  frame through the steps of a request.
\<close>

subsection \<open>What posting never changes\<close>

definition static_part :: "mlx5_qp \<Rightarrow> mlx5_qp" where
  "static_part qp = qp\<lparr>sq_mem := (\<lambda>_. 0), fm_cache := 0,
     sq := (sq qp)\<lparr>wrid := (\<lambda>_. 0), wqe_head := (\<lambda>_. 0), wr_data := (\<lambda>_. 0), cur_post := 0\<rparr>\<rparr>"

lemma static_part_upd [simp]:
  "static_part (qp\<lparr>sq_mem := m\<rparr>) = static_part qp"
  "static_part (qp\<lparr>fm_cache := f\<rparr>) = static_part qp"
  by (simp_all add: static_part_def)

lemma static_part_sq [simp]:
  "static_part (qp\<lparr>sq := (sq qp)\<lparr>wr_data := d\<rparr>\<rparr>) = static_part qp"
  by (simp add: static_part_def)

lemma static_fields:
  assumes "static_part p = static_part q"
  shows "qend (sq p) = qend (sq q)" "wqe_cnt (sq p) = wqe_cnt (sq q)" "max_post (sq p) = max_post (sq q)"
    "wq_head (sq p) = wq_head (sq q)" "wq_tail (sq p) = wq_tail (sq q)" "max_gs (sq p) = max_gs (sq q)"
    "ibqp p = ibqp q" "max_inline_data p = max_inline_data q" "qp_flags p = qp_flags q"
    "db_snd p = db_snd q" "mmio_log p = mmio_log q" "bf p = bf q"
proof -
  have "sq (static_part p) = sq (static_part q)" "ibqp (static_part p) = ibqp (static_part q)"
    "max_inline_data (static_part p) = max_inline_data (static_part q)"
    "qp_flags (static_part p) = qp_flags (static_part q)" "db_snd (static_part p) = db_snd (static_part q)"
    "mmio_log (static_part p) = mmio_log (static_part q)" "bf (static_part p) = bf (static_part q)"
    using assms by simp_all
  then show "ibqp p = ibqp q" "max_inline_data p = max_inline_data q" "qp_flags p = qp_flags q"
    "db_snd p = db_snd q" "mmio_log p = mmio_log q" "bf p = bf q"
    by (simp_all add: static_part_def)
  from \<open>sq (static_part p) = sq (static_part q)\<close>
  have s: "(sq p)\<lparr>wrid := (\<lambda>_. 0), wqe_head := (\<lambda>_. 0), wr_data := (\<lambda>_. 0), cur_post := 0\<rparr> =
      (sq q)\<lparr>wrid := (\<lambda>_. 0), wqe_head := (\<lambda>_. 0), wr_data := (\<lambda>_. 0), cur_post := 0\<rparr>"
    by (simp add: static_part_def)
  show "qend (sq p) = qend (sq q)" "wqe_cnt (sq p) = wqe_cnt (sq q)" "max_post (sq p) = max_post (sq q)"
    "wq_head (sq p) = wq_head (sq q)" "wq_tail (sq p) = wq_tail (sq q)" "max_gs (sq p) = max_gs (sq q)"
    using arg_cong [OF s, of qend] arg_cong [OF s, of wqe_cnt] arg_cong [OF s, of max_post]
      arg_cong [OF s, of wq_head] arg_cong [OF s, of wq_tail] arg_cong [OF s, of max_gs] by simp_all
qed

lemma sq_ok_static: "static_part p = static_part q \<Longrightarrow> sq_ok p = sq_ok q"
  using static_fields [of p q] by (simp add: sq_ok_def)

subsection \<open>Steps that stay in the queue\<close>

definition frame :: "build \<Rightarrow> build \<Rightarrow> bool" where
  "frame b b' \<longleftrightarrow> static_part (b_qp b') = static_part (b_qp b) \<and>
     keeps_outside 0 (qend (sq (b_qp b))) (b_mem b) (b_mem b') \<and>
     b_index b' = b_index b \<and> b_offset b' = b_offset b \<and> b_ctrl b' = b_ctrl b"

lemma frame_refl [simp]: "frame b b"
  by (simp add: frame_def)

lemma frame_trans: "frame b b' \<Longrightarrow> frame b' b'' \<Longrightarrow> frame b b''"
proof -
  assume f: "frame b b'" "frame b' b''"
  then have "qend (sq (b_qp b')) = qend (sq (b_qp b))" using static_fields [of "b_qp b'" "b_qp b"] by (simp add: frame_def)
  with f show ?thesis by (auto simp: frame_def intro: keeps_outside_trans)
qed

definition stays :: "(build \<Rightarrow> bool) \<Rightarrow> build \<Rightarrow> step \<Rightarrow> bool" where
  "stays Q b r \<longleftrightarrow> (\<exists>e b'. r = Inr (e, b') \<and> frame b b' \<and> (e = 0 \<longrightarrow> Q b'))"

lemma stays_ok: "frame b b' \<Longrightarrow> Q b' \<Longrightarrow> stays Q b (ok_step b')"
  by (simp add: stays_def ok_step_def)

lemma stays_err: "frame b b' \<Longrightarrow> e \<noteq> 0 \<Longrightarrow> stays Q b (Inr (e, b'))"
  by (simp add: stays_def)

lemma stays_and_then:
  assumes "stays Q b r" "\<And>b'. frame b b' \<Longrightarrow> Q b' \<Longrightarrow> stays R b' (f b')"
  shows "stays R b (and_then r f)"
proof -
  obtain e b' where r: "r = Inr (e, b')" "frame b b'" "e = 0 \<longrightarrow> Q b'"
    using assms(1) by (auto simp: stays_def)
  show ?thesis
  proof (cases "e = 0")
    case False
    with r show ?thesis by (simp add: and_then_def stays_def)
  next
    case True
    with r assms(2) [of b'] obtain e' b'' where f: "f b' = Inr (e', b'')" "frame b' b''" "e' = 0 \<longrightarrow> R b''"
      by (auto simp: stays_def)
    from f(2) r(2) have "frame b b''" by (rule frame_trans [rotated])
    with f r True show ?thesis by (simp add: and_then_def stays_def)
  qed
qed

text \<open>A position in the queue at which a segment may start, or the end of the queue.\<close>

definition seg_at :: "mlx5_qp \<Rightarrow> nat \<Rightarrow> bool" where
  "seg_at qp s \<longleftrightarrow> 16 dvd s \<and> s \<le> qend (sq qp)"

definition seg_in :: "mlx5_qp \<Rightarrow> nat \<Rightarrow> bool" where
  "seg_in qp s \<longleftrightarrow> 16 dvd s \<and> s < qend (sq qp)"

lemma seg_in_room: "sq_ok qp \<Longrightarrow> seg_in qp s \<Longrightarrow> s + 16 \<le> qend (sq qp)"
  by (auto simp: seg_in_def sq_ok_def dvd_def)

lemma sq_ok_pos: "sq_ok qp \<Longrightarrow> 0 < qend (sq qp)"
  using sq_idx_less [of qp] by (auto simp: sq_ok_def)

lemma seg_at_wrap: "sq_ok qp \<Longrightarrow> seg_at qp s \<Longrightarrow> seg_in qp (wrap_at (qend (sq qp)) s)"
  using sq_ok_pos [of qp] by (auto simp: seg_at_def seg_in_def wrap_at_def)

lemma seg_in_at: "seg_in qp s \<Longrightarrow> seg_at qp s"
  by (simp add: seg_in_def seg_at_def)

lemma seg_in_next: "sq_ok qp \<Longrightarrow> seg_in qp s \<Longrightarrow> seg_at qp (s + 16)"
  using seg_in_room [of qp s] by (simp add: seg_in_def seg_at_def)

lemma seg_static: "static_part p = static_part q \<Longrightarrow> seg_at p s = seg_at q s"
    "static_part p = static_part q \<Longrightarrow> seg_in p s = seg_in q s"
  using static_fields [of p q] by (simp_all add: seg_at_def seg_in_def)

text \<open>A step that stores inside the queue.\<close>

lemma frame_mem:
  assumes "keeps_outside 0 (qend (sq (b_qp b))) (b_mem b) (f (b_mem b))"
  shows "frame b (on_mem f b)" "frame b (advance n (on_mem f b))"
  using assms by (simp_all add: frame_def on_mem_def put_mem_def advance_def)

lemma keeps_st:
  "p + 8 \<le> hi \<Longrightarrow> keeps_outside 0 hi m m' \<Longrightarrow> keeps_outside 0 hi m (st_be64 p v64 m')"
  "p + 4 \<le> hi \<Longrightarrow> keeps_outside 0 hi m m' \<Longrightarrow> keeps_outside 0 hi m (st_be32 p v32 m')"
  "p + 2 \<le> hi \<Longrightarrow> keeps_outside 0 hi m m' \<Longrightarrow> keeps_outside 0 hi m (st_be16 p v16 m')"
  "p + 1 \<le> hi \<Longrightarrow> keeps_outside 0 hi m m' \<Longrightarrow> keeps_outside 0 hi m (st8 p v8 m')"
  "p + k \<le> hi \<Longrightarrow> keeps_outside 0 hi m m' \<Longrightarrow> keeps_outside 0 hi m (memset0 p k m')"
  by (simp_all add: st_defs keeps_outside_store)

lemma keeps_segs:
  "p + 16 \<le> hi \<Longrightarrow> keeps_outside 0 hi m (set_raddr_seg p a k m)"
  "p + 16 \<le> hi \<Longrightarrow> keeps_outside 0 hi m (set_atomic_seg p op x y m)"
  "p + 48 \<le> hi \<Longrightarrow> keeps_outside 0 hi m (set_datagram_seg p av qpn qkey m)"
  "p + 16 \<le> hi \<Longrightarrow> keeps_outside 0 hi m (set_data_ptr_seg p sg off m)"
  "p + 16 \<le> hi \<Longrightarrow> keeps_outside 0 hi m (set_data_ptr_seg_atomic p sg m)"
  "p + 48 \<le> hi \<Longrightarrow> keeps_outside 0 hi m (set_umr_control_seg type bi p m)"
  "p + 64 \<le> hi \<Longrightarrow> keeps_outside 0 hi m (set_umr_mkey_seg type rkey bi qn p m)"
  "p + 64 \<le> hi \<Longrightarrow> keeps_outside 0 hi m (set_umr_data_seg bi p m)"
  by (simp_all add: set_raddr_seg_def set_atomic_seg_def set_datagram_seg_def set_data_ptr_seg_def
      set_data_ptr_seg_atomic_def set_umr_control_seg_def set_umr_mkey_seg_def set_umr_data_seg_def Let_def
      keeps_st keeps_outside_store)


subsection \<open>Payload\<close>

text \<open>The entries that the request counts exist; for inline data each is below 2 GB.\<close>

definition sges_valid :: "ibv_send_wr \<Rightarrow> bool" where
  "sges_valid wr \<longleftrightarrow> num_sge wr \<le> 0 \<or> (\<exists>xs. sg_list wr = Some xs \<and> num_sge wr \<le> int (length xs))"

definition short_sges :: "ibv_send_wr \<Rightarrow> bool" where
  "short_sges wr \<longleftrightarrow> (\<forall>xs. sg_list wr = Some xs \<longrightarrow> (\<forall>s \<in> set xs. unat (sge_length s) < 2 ^ 31))"

lemma wr_sge_valid:
  assumes "sges_valid wr" "int i < num_sge wr"
  obtains sg where "wr_sge wr (int i) = Inr sg" "short_sges wr \<longrightarrow> unat (sge_length sg) < 2 ^ 31"
proof -
  from assms obtain xs where xs: "sg_list wr = Some xs" "i < length xs" by (auto simp: sges_valid_def)
  show thesis
  proof (rule that)
    show "wr_sge wr (int i) = Inr (xs ! i)" using xs by (simp add: wr_sge_def)
    show "short_sges wr \<longrightarrow> unat (sge_length (xs ! i)) < 2 ^ 31" using xs by (auto simp: short_sges_def)
  qed
qed

lemma data_segs_stays:
  assumes "sges_valid wr"
  shows "int (i + n) \<le> num_sge wr \<or> n = 0 \<Longrightarrow> b_offset b = 0 \<Longrightarrow> sq_ok (b_qp b) \<Longrightarrow> seg_at (b_qp b) (b_seg b) \<Longrightarrow>
    stays (\<lambda>_. True) b (data_segs wr n (int i) tso b)"
proof (induction n arbitrary: i tso b)
  case 0
  then show ?case by (simp add: stays_ok)
next
  case (Suc n)
  let ?s = "wrap_end (b_qp b) (b_seg b)"
  have ii: "int i + 1 = int (Suc i)" by simp
  from Suc.prems assms obtain sg where g: "wr_sge wr (int i) = Inr sg"
    by (auto elim!: wr_sge_valid [where i = i])
  have si: "seg_in (b_qp b) ?s" using Suc.prems by (simp add: wrap_end_at seg_at_wrap)
  have r: "?s + 16 \<le> qend (sq (b_qp b))" using seg_in_room Suc.prems(3) si by blast
  define b1 where "b1 = b\<lparr>b_seg := ?s\<rparr>"
  have f1: "frame b b1" by (simp add: b1_def frame_def)
  have next_stays: "stays (\<lambda>_. True) b (data_segs wr n (int (Suc i)) tso' b')"
    if f: "frame b b'" and s: "seg_at (b_qp b') (b_seg b')" for tso' b'
  proof -
    have st: "static_part (b_qp b') = static_part (b_qp b)" using f by (simp add: frame_def)
    have "stays (\<lambda>_. True) b' (data_segs wr n (int (Suc i)) tso' b')"
    proof (rule Suc.IH)
      show "int (Suc i + n) \<le> num_sge wr \<or> n = 0" using Suc.prems(1) by auto
      show "b_offset b' = 0" using f Suc.prems(2) by (simp add: frame_def)
      show "sq_ok (b_qp b')" using Suc.prems(3) sq_ok_static [OF st] by simp
    qed (rule s)
    with f show ?thesis by (auto simp: stays_def intro: frame_trans)
  qed
  have adv: "frame b (advance 16 (on_mem f (b1\<lparr>b_offset := 0\<rparr>)))
      \<and> seg_at (b_qp (advance 16 (on_mem f (b1\<lparr>b_offset := 0\<rparr>)))) (b_seg (advance 16 (on_mem f (b1\<lparr>b_offset := 0\<rparr>))))"
    if "keeps_outside 0 (qend (sq (b_qp b))) (b_mem b) (f (b_mem b))" for f
  proof
    have o: "b1\<lparr>b_offset := 0\<rparr> = b1" using Suc.prems(2) by (simp add: b1_def offset_id)
    show "frame b (advance 16 (on_mem f (b1\<lparr>b_offset := 0\<rparr>)))"
      unfolding o by (rule frame_trans [OF f1 frame_mem(2)]) (use that in \<open>simp add: b1_def\<close>)
    show "seg_at (b_qp (advance 16 (on_mem f (b1\<lparr>b_offset := 0\<rparr>)))) (b_seg (advance 16 (on_mem f (b1\<lparr>b_offset := 0\<rparr>))))"
      using seg_in_next [OF Suc.prems(3) si]
      by (simp add: b1_def advance_def on_mem_def put_mem_def seg_at_def)
  qed
  have sat: "seg_at (b_qp b1) (b_seg b1)" using seg_in_at [OF si] by (simp add: b1_def)
  consider (z) "sge_length sg = 0"
    | (at) "sge_length sg \<noteq> 0" "opcode wr = IBV_WR_ATOMIC_CMP_AND_SWP \<or> opcode wr = IBV_WR_ATOMIC_FETCH_AND_ADD"
    | (er) "sge_length sg \<noteq> 0" "opcode wr = IBV_WR_TSO" "tso < sge_length sg"
    | (pl) "sge_length sg \<noteq> 0" "\<not> (opcode wr = IBV_WR_ATOMIC_CMP_AND_SWP \<or> opcode wr = IBV_WR_ATOMIC_FETCH_AND_ADD)"
        "\<not> (opcode wr = IBV_WR_TSO \<and> tso < sge_length sg)" by blast
  then show ?case
  proof cases
    case z
    then show ?thesis using next_stays [OF f1 sat] by (simp add: g Let_def b1_def [symmetric] ii del: of_nat_Suc)
  next
    case at
    have "data_segs wr (Suc n) (int i) tso b =
        data_segs wr n (int (Suc i)) tso (advance 16 (on_mem (set_data_ptr_seg_atomic ?s sg) (b1\<lparr>b_offset := 0\<rparr>)))"
      using at by (simp add: g Let_def b1_def [symmetric] ii del: of_nat_Suc)
    with adv [of "set_data_ptr_seg_atomic ?s sg"] next_stays keeps_segs(5) [OF r] show ?thesis by simp
  next
    case er
    then show ?thesis using f1 by (simp add: g Let_def b1_def [symmetric] stays_err)
  next
    case pl
    have "data_segs wr (Suc n) (int i) tso b =
        data_segs wr n (int (Suc i)) (if opcode wr = IBV_WR_TSO then tso - sge_length sg else tso)
          (advance 16 (on_mem (set_data_ptr_seg ?s sg (b_offset b1)) (b1\<lparr>b_offset := 0\<rparr>)))"
      using pl by (auto simp: g Let_def b1_def [symmetric] ii simp del: of_nat_Suc)
    with adv [of "set_data_ptr_seg ?s sg (b_offset b1)"] next_stays keeps_segs(4) [OF r] show ?thesis by simp
  qed
qed

lemma inl_copy_stays:
  assumes "sges_valid wr" "short_sges wr" "maxi \<le> int qe"
  shows "int (i + n) \<le> num_sge wr \<or> n = 0 \<Longrightarrow> wqe \<le> qe \<Longrightarrow> 0 \<le> inl \<Longrightarrow>
    \<exists>e wqe' inl' m'. inl_copy um qe maxi wr n (int i) 0 (wqe, inl, m) = Inr (e, wqe', inl', m') \<and>
      keeps_outside 0 qe m m' \<and> 0 \<le> inl'"
proof (induction n arbitrary: i wqe inl m)
  case (Suc n)
  have ii: "int i + 1 = int (Suc i)" by simp
  from Suc.prems assms obtain sg where g: "wr_sge wr (int i) = Inr sg" "unat (sge_length sg) < 2 ^ 31"
    by (auto elim!: wr_sge_valid [where i = i])
  define len where "len = sint (sge_length sg)"
  have l: "len = int (unat (sge_length sg))"
    unfolding len_def using g(2) by (rule sint_small)
  then have l0: "0 \<le> len" by simp
  show ?case
  proof (cases "maxi < inl + len")
    case True
    with Suc.prems(3) l show ?thesis by (simp add: g(1) len_def [symmetric] Let_def)
  next
    case False
    define bs where "bs = user_bytes um (sge_addr sg) (nat len)"
    have "nat len \<le> qe" using False Suc.prems(3) assms(3) by linarith
    then have lb: "length bs \<le> qe" by (simp add: bs_def user_bytes_def)
    obtain wqe' m1 where c: "copy_wrap qe wqe bs m = (wqe', m1)" by fastforce
    have k: "keeps_outside 0 qe m m1" "wqe' \<le> qe"
      using copy_wrap_keeps [OF Suc.prems(2) lb, of m] copy_wrap_end [OF Suc.prems(2) lb, of m] c by simp_all
    have "inl_copy um qe maxi wr (Suc n) (int i) 0 (wqe, inl, m) =
        inl_copy um qe maxi wr n (int (Suc i)) 0 (wqe', inl + len, m1)"
      using False l0 Suc.prems(2) c
      by (simp add: g(1) len_def [symmetric] Let_def memcpy_to_wqe_and_update_def bs_def [symmetric] ii del: of_nat_Suc)
    moreover have "int (Suc i + n) \<le> num_sge wr \<or> n = 0" using Suc.prems(1) by auto
    ultimately show ?thesis
      using Suc.IH [of "Suc i" wqe' "inl + len" m1] k l Suc.prems(3)
      by (auto intro: keeps_outside_trans)
  qed
qed simp

lemma set_data_inl_seg_stays:
  assumes "sges_valid wr" "short_sges wr" "max_inline_data (b_qp b) \<le> int (qend (sq (b_qp b)))"
    "sq_ok (b_qp b)" "seg_in (b_qp b) (b_seg b)" "b_index b = 0" "b_offset b = 0"
  shows "stays (\<lambda>_. True) b (set_data_inl_seg um wr b)"
proof -
  let ?qe = "qend (sq (b_qp b))"
  have r: "b_seg b + 16 \<le> ?qe" using assms seg_in_room by blast
  have v: "int (0 + nat (num_sge wr)) \<le> num_sge wr \<or> nat (num_sge wr) = 0" by auto
  obtain e wqe' inl' m' where i: "inl_copy um ?qe (max_inline_data (b_qp b)) wr (nat (num_sge wr)) (int 0) 0
      (b_seg b + 4, 0, b_mem b) = Inr (e, wqe', inl', m')" "keeps_outside 0 ?qe (b_mem b) m'"
    using inl_copy_stays [OF assms(1-3) v, of "b_seg b + 4" 0 um "b_mem b"] r by auto
  have "keeps_outside 0 ?qe (b_mem b) (st_be32 (b_seg b) v32 m')" for v32
    using keeps_st(2) [OF _ i(2)] r by simp
  with i assms(6,7) show ?thesis
    by (auto simp: set_data_inl_seg_def stays_def ok_step_def frame_def put_mem_def)
qed


subsection \<open>Transports\<close>

text \<open>Inline data is allowed for sends and RDMA writes.\<close>

definition inline_op :: "ibv_wr_opcode \<Rightarrow> bool" where
  "inline_op op \<longleftrightarrow> op \<in> {IBV_WR_SEND, IBV_WR_SEND_WITH_IMM, IBV_WR_SEND_WITH_INV, IBV_WR_RDMA_WRITE,
     IBV_WR_RDMA_WRITE_WITH_IMM}"

definition placed :: "ibv_send_wr \<Rightarrow> build \<Rightarrow> bool" where
  "placed wr b \<longleftrightarrow> seg_at (b_qp b) (b_seg b) \<and> (inline_op (opcode wr) \<longrightarrow> seg_in (b_qp b) (b_seg b))"

text \<open>A descriptor that starts at a block of the queue.\<close>

definition block_at :: "build \<Rightarrow> bool" where
  "block_at b \<longleftrightarrow> sq_ok (b_qp b) \<and> 64 dvd b_ctrl b \<and> b_ctrl b + 64 \<le> qend (sq (b_qp b))"

lemma set_bind_wr_stays:
  assumes ok: "sq_ok qp" and c: "64 dvd c" "c + 64 \<le> qend (sq qp)"
    and r: "set_bind_wr qp type rkey bi qn (c + 16, sz, m) = (e, seg, sz', m')"
  shows "keeps_outside 0 (qend (sq qp)) m m' \<and> (e = 0 \<longrightarrow> seg_at qp seg)"
proof -
  let ?qe = "qend (sq qp)"
  have q: "64 dvd ?qe" using ok by (simp add: sq_ok_def)
  have w: "wrap_end qp s + 64 \<le> ?qe \<and> 64 dvd wrap_end qp s" if "64 dvd s" "s \<le> ?qe" for s
    using that q sq_ok_pos [OF ok] by (auto simp: wrap_end_at wrap_at_def dvd_def)
  define s1 where "s1 = wrap_end qp (c + 64)"
  have s1: "s1 + 64 \<le> ?qe" "64 dvd s1" using w [of "c + 64"] c by (auto simp: s1_def)
  define s2 where "s2 = wrap_end qp (s1 + 64)"
  have s2: "s2 + 64 \<le> ?qe" "64 dvd s2" using w [of "s1 + 64"] s1 by (auto simp: s2_def)
  have k1: "keeps_outside 0 ?qe m (set_umr_mkey_seg type rkey bi qn s1 (set_umr_control_seg type bi (c + 16) m))"
    by (rule keeps_outside_trans [OF keeps_segs(6) keeps_segs(7) [OF s1(1)]]) (use c in simp)
  have k2: "keeps_outside 0 ?qe m (set_umr_data_seg bi s2 (set_umr_mkey_seg type rkey bi qn s1 (set_umr_control_seg type bi (c + 16) m)))"
    using k1 keeps_segs(8) [OF s2(1)] by (rule keeps_outside_trans)
  have a: "seg_at qp (s1 + 64)" "seg_at qp (s2 + 64)"
    using s1 s2 by (auto simp: seg_at_def intro: dvd_trans [of 16 64])
  from r k1 k2 a show ?thesis
    by (auto simp: set_bind_wr_def Let_def s1_def [symmetric] s2_def [symmetric] add.assoc split: if_splits)
qed

lemma bind_step_stays:
  assumes "block_at b" "b_seg b = b_ctrl b + 16" "\<not> inline_op (opcode wr)"
  shows "stays (placed wr) b (bind_step idx type rkey bi imm wc b)"
proof -
  define b1 where "b1 = on_mem (st_be32 (b_ctrl b + 12) imm) (b\<lparr>b_next_fence := MLX5_WQE_CTRL_INITIATOR_SMALL_FENCE\<rparr>)"
  have k: "keeps_outside 0 (qend (sq (b_qp b))) (b_mem b) (b_mem b1)"
    using assms(1) by (simp add: b1_def on_mem_def put_mem_def block_at_def keeps_st)
  have f1: "frame b b1" using k by (simp add: frame_def b1_def on_mem_def put_mem_def)
  have q: "sq (b_qp b1) = sq (b_qp b)" "b_seg b1 = b_seg b" "sq_ok (b_qp b1)"
    using assms(1) by (simp_all add: b1_def on_mem_def put_mem_def block_at_def sq_ok_def)
  obtain e seg sz m where r: "set_bind_wr (b_qp b1) type rkey bi (qp_num (ibqp (b_qp b1)))
      (b_ctrl b + 16, b_size b1, b_mem b1) = (e, seg, sz, m)" by (metis prod_cases4)
  have s: "keeps_outside 0 (qend (sq (b_qp b1))) (b_mem b1) m \<and> (e = 0 \<longrightarrow> seg_at (b_qp b1) seg)"
    using set_bind_wr_stays [OF q(3) _ _ r] assms(1) q(1) by (simp add: block_at_def)
  define b2 where "b2 = put_mem m (b1\<lparr>b_seg := seg, b_size := sz\<rparr>)"
  have f2: "frame b b2"
    by (rule frame_trans [OF f1]) (use s in \<open>simp add: b2_def frame_def put_mem_def\<close>)
  define b3 where "b3 = b2\<lparr>b_qp := (b_qp b2)\<lparr>sq := (sq (b_qp b2))\<lparr>wr_data := (wr_data (sq (b_qp b2)))(idx := wc)\<rparr>\<rparr>\<rparr>"
  have f3: "frame b b3"
    by (rule frame_trans [OF f2]) (simp add: b3_def frame_def)
  have p: "placed wr b3" if "e = 0"
    using s that assms(3) by (simp add: placed_def b3_def b2_def put_mem_def seg_at_def)
  have "bind_step idx type rkey bi imm wc b = (if e \<noteq> 0 then Inr (e, b2) else ok_step b3)"
    using r by (simp add: bind_step_def b1_def [symmetric] b2_def [symmetric] b3_def [symmetric] Let_def q(2) assms(2))
  with f2 f3 p show ?thesis by (auto intro: stays_ok stays_err)
qed


lemma raddr_step_frame:
  assumes "sq_ok (b_qp b)" "seg_in (b_qp b) (b_seg b)"
  shows "frame b (raddr_step a k b)" "b_seg (raddr_step a k b) = b_seg b + 16" "seg_at (b_qp (raddr_step a k b)) (b_seg b + 16)"
proof -
  have r: "b_seg b + 16 \<le> qend (sq (b_qp b))" using assms seg_in_room by blast
  show "frame b (raddr_step a k b)" unfolding raddr_step_def by (rule frame_mem(2)) (rule keeps_segs(1) [OF r])
  show "b_seg (raddr_step a k b) = b_seg b + 16" by (simp add: raddr_step_def advance_def on_mem_def put_mem_def)
  show "seg_at (b_qp (raddr_step a k b)) (b_seg b + 16)"
    using seg_in_next [OF assms] by (simp add: raddr_step_def advance_def on_mem_def put_mem_def seg_at_def)
qed

text \<open>The segments before the data fit into the first block of the descriptor.\<close>

lemma rdma_stays:
  assumes "block_at b" "b_seg b = b_ctrl b + 16 \<or> b_seg b = b_ctrl b + 32"
  shows "stays (placed wr) b (ok_step (raddr_step a k b))"
proof -
  have i: "sq_ok (b_qp b)" "seg_in (b_qp b) (b_seg b)" "seg_in (b_qp b) (b_seg b + 16)"
    using assms by (auto simp: block_at_def seg_in_def intro: dvd_trans [of 16 64])
  note f = raddr_step_frame [OF i(1,2), of a k]
  have "seg_in (b_qp (raddr_step a k b)) (b_seg b + 16)"
    using i(3) f(1) seg_static(2) [of "b_qp (raddr_step a k b)" "b_qp b"] by (simp add: frame_def)
  with f show ?thesis by (intro stays_ok) (auto simp: placed_def)
qed

lemma rc_step_stays:
  assumes b: "block_at b" and s: "b_seg b = b_ctrl b + 16 \<or>
      b_seg b = b_ctrl b + 32 \<and> opcode wr \<noteq> IBV_WR_BIND_MW \<and> opcode wr \<noteq> IBV_WR_LOCAL_INV"
  shows "stays (placed wr) b (rc_step idx wr b)"
proof -
  have i: "sq_ok (b_qp b)" "seg_in (b_qp b) (b_seg b)" "seg_in (b_qp b) (b_seg b + 16)"
    using b s by (auto simp: block_at_def seg_in_def intro: dvd_trans [of 16 64])
  have plain: "stays (placed wr) b (ok_step b)"
    by (rule stays_ok) (use i in \<open>auto simp: placed_def seg_in_at\<close>)
  have rdma: "stays (placed wr) b (ok_step (raddr_step a k b))" for a k
    by (rule rdma_stays [OF b]) (use s in auto)
  have atomic: "stays (placed wr) b
      (let b1 = raddr_step a k b in ok_step (advance 16 (on_mem (set_atomic_seg (b_seg b1) op x y) b1)))"
    if o: "\<not> inline_op (opcode wr)" for a k op x y
  proof -
    define b1 where "b1 = raddr_step a k b"
    note f = raddr_step_frame [OF i(1,2), of a k, folded b1_def]
    have st: "static_part (b_qp b1) = static_part (b_qp b)" using f(1) by (simp add: frame_def)
    have r: "b_seg b1 + 16 \<le> qend (sq (b_qp b1))"
      using seg_in_room [OF i(1,3)] f(2) static_fields(1) [OF st] by simp
    have "frame b (advance 16 (on_mem (set_atomic_seg (b_seg b1) op x y) b1))"
      by (rule frame_trans [OF f(1) frame_mem(2)]) (rule keeps_segs(2) [OF r])
    moreover have "placed wr (advance 16 (on_mem (set_atomic_seg (b_seg b1) op x y) b1))"
      using o r f(3) by (simp add: placed_def advance_def on_mem_def put_mem_def seg_at_def f(2))
    ultimately show ?thesis by (simp add: b1_def [symmetric] stays_ok Let_def)
  qed
  show ?thesis
  proof (cases "opcode wr")
    case IBV_WR_BIND_MW
    with bind_step_stays [OF b, of wr] s show ?thesis by (auto simp: rc_step_def inline_op_def)
  next
    case IBV_WR_LOCAL_INV
    with bind_step_stays [OF b, of wr] s show ?thesis by (auto simp: rc_step_def inline_op_def)
  next
    case IBV_WR_ATOMIC_CMP_AND_SWP
    with atomic show ?thesis by (auto simp: rc_step_def inline_op_def intro: stays_err)
  next
    case IBV_WR_ATOMIC_FETCH_AND_ADD
    with atomic show ?thesis by (auto simp: rc_step_def inline_op_def intro: stays_err)
  qed (simp_all add: rc_step_def rdma plain)
qed

lemma uc_step_stays:
  assumes b: "block_at b" and s: "b_seg b = b_ctrl b + 16"
  shows "stays (placed wr) b (uc_step idx wr b)"
proof -
  have i: "seg_in (b_qp b) (b_seg b)"
    using b s by (auto simp: block_at_def seg_in_def intro: dvd_trans [of 16 64])
  have plain: "stays (placed wr) b (ok_step b)"
    by (rule stays_ok) (use i in \<open>auto simp: placed_def seg_in_at\<close>)
  have rdma: "stays (placed wr) b (ok_step (raddr_step a k b))" for a k
    by (rule rdma_stays [OF b]) (use s in auto)
  show ?thesis
  proof (cases "opcode wr")
    case IBV_WR_BIND_MW
    with bind_step_stays [OF b s, of wr] show ?thesis by (auto simp: uc_step_def inline_op_def)
  next
    case IBV_WR_LOCAL_INV
    with bind_step_stays [OF b s, of wr] show ?thesis by (auto simp: uc_step_def inline_op_def)
  qed (simp_all add: uc_step_def rdma plain)
qed

lemma ud_step_stays:
  assumes b: "block_at b" and s: "b_seg b = b_ctrl b + 16"
    and u: "\<not> has_flag (qp_flags (b_qp b)) MLX5_QP_FLAGS_USE_UNDERLAY"
  shows "stays (placed wr) b (ud_step um wr b)"
proof -
  define b1 where "b1 = advance 48 (on_mem (set_datagram_seg (b_seg b) (ud_av wr) (ud_remote_qpn wr) (ud_remote_qkey wr)) b)"
  define b2 where "b2 = b1\<lparr>b_seg := wrap_end (b_qp b1) (b_seg b1)\<rparr>"
  have r: "b_seg b + 48 \<le> qend (sq (b_qp b))" "sq_ok (b_qp b)" "seg_at (b_qp b) (b_seg b + 48)"
    using b s by (auto simp: block_at_def seg_at_def intro: dvd_trans [of 16 64])
  have f1: "frame b b1" unfolding b1_def by (rule frame_mem(2)) (rule keeps_segs(3) [OF r(1)])
  have q: "sq (b_qp b1) = sq (b_qp b)" "b_seg b1 = b_seg b + 48" "qp_flags (b_qp b1) = qp_flags (b_qp b)"
    by (simp_all add: b1_def advance_def on_mem_def put_mem_def)
  have "seg_in (b_qp b2) (b_seg b2)"
    using seg_at_wrap [OF r(2,3)] by (simp add: b2_def wrap_end_at q seg_in_def)
  moreover have "frame b b2" by (rule frame_trans [OF f1]) (simp add: b2_def frame_def)
  moreover have "ud_step um wr b = ok_step b2"
    using u q by (simp add: ud_step_def b1_def [symmetric] b2_def Let_def)
  ultimately show ?thesis by (simp add: stays_ok placed_def seg_in_at)
qed


subsection \<open>Requests\<close>

definition plain_queue :: "mlx5_qp \<Rightarrow> bool" where
  "plain_queue qp \<longleftrightarrow> sq_ok qp \<and> qp_type (ibqp qp) \<in> {IBV_QPT_RC, IBV_QPT_UC, IBV_QPT_XRC_SEND, IBV_QPT_UD} \<and>
     \<not> has_flag (qp_flags qp) MLX5_QP_FLAGS_USE_UNDERLAY \<and> max_inline_data qp \<le> int (qend (sq qp))"

definition safe_wr :: "ibv_send_wr \<Rightarrow> bool" where
  "safe_wr wr \<longleftrightarrow> sges_valid wr \<and> (has_flag (send_flags wr) IBV_SEND_INLINE \<longrightarrow> inline_op (opcode wr) \<and> short_sges wr)"

lemma plain_queue_static:
  assumes "static_part p = static_part q"
  shows "plain_queue p = plain_queue q"
  using static_fields [OF assms] sq_ok_static [OF assms] by (simp add: plain_queue_def)

definition loop_frame :: "build \<Rightarrow> build \<Rightarrow> bool" where
  "loop_frame b b' \<longleftrightarrow> static_part (b_qp b') = static_part (b_qp b) \<and>
     keeps_outside 0 (qend (sq (b_qp b))) (b_mem b) (b_mem b') \<and> b_index b' = b_index b \<and> b_offset b' = b_offset b"

lemma frame_loop_frame: "frame b b' \<Longrightarrow> loop_frame b b'"
  by (simp add: frame_def loop_frame_def)

lemma loop_frame_trans: "loop_frame b b' \<Longrightarrow> loop_frame b' b'' \<Longrightarrow> loop_frame b b''"
proof -
  assume f: "loop_frame b b'" "loop_frame b' b''"
  then have "qend (sq (b_qp b')) = qend (sq (b_qp b))"
    using static_fields [of "b_qp b'" "b_qp b"] by (simp add: loop_frame_def)
  with f show ?thesis by (auto simp: loop_frame_def intro: keeps_outside_trans)
qed

lemma ctrl_start_block:
  fixes b :: build and wr :: ibv_send_wr
  assumes "sq_ok (b_qp b)"
  defines "b1 \<equiv> ctrl_start (sq_idx (b_qp b)) wr b"
  shows "loop_frame b b1" "block_at b1" "b_seg b1 = b_ctrl b1 + 16"
proof -
  let ?c = "mlx5_get_send_wqe (sq_idx (b_qp b))"
  have c: "?c + 64 \<le> qend (sq (b_qp b))" using ctrl_in_queue [OF assms(1)] .
  have l: "length (send_ieth wr) = 4" by (simp add: send_ieth_def split: ibv_wr_opcode.split)
  have k: "keeps_outside 0 (qend (sq (b_qp b))) (b_mem b) (b_mem b1)"
    using c l by (simp add: b1_def ctrl_start_def Let_def keeps_st keeps_outside_store)
  have st: "static_part (b_qp b1) = static_part (b_qp b)"
    by (simp add: b1_def ctrl_start_def Let_def static_part_def)
  show "loop_frame b b1" using k st by (simp add: loop_frame_def) (simp add: b1_def ctrl_start_def Let_def)
  show "block_at b1" using c sq_ok_static [OF st] assms(1)
    by (simp add: block_at_def) (simp add: b1_def ctrl_start_def Let_def mlx5_get_send_wqe_def)
  show "b_seg b1 = b_ctrl b1 + 16" by (simp add: b1_def ctrl_start_def Let_def)
qed

lemma transport_step_stays:
  assumes b: "block_at b" and s: "b_seg b = b_ctrl b + 16" and q: "plain_queue (b_qp b)"
  shows "stays (placed wr) b (transport_step um idx wr b)"
proof -
  consider (rc) "qp_type (ibqp (b_qp b)) = IBV_QPT_RC" | (uc) "qp_type (ibqp (b_qp b)) = IBV_QPT_UC"
    | (xrc) "qp_type (ibqp (b_qp b)) = IBV_QPT_XRC_SEND" | (ud) "qp_type (ibqp (b_qp b)) = IBV_QPT_UD"
    using q by (auto simp: plain_queue_def)
  then show ?thesis
  proof cases
    case rc
    then show ?thesis using rc_step_stays [OF b, of wr] s by (simp add: transport_step_def)
  next
    case uc
    then show ?thesis using uc_step_stays [OF b s] by (simp add: transport_step_def)
  next
    case ud
    then show ?thesis using ud_step_stays [OF b s] q by (simp add: transport_step_def plain_queue_def)
  next
    case xrc
    define b1 where "b1 = xrc_step wr b"
    have k: "keeps_outside 0 (qend (sq (b_qp b))) (b_mem b) (st_be32 (b_seg b) (xrc_remote_srqn wr) (b_mem b))"
      using b s by (simp add: block_at_def keeps_st)
    have f: "frame b b1"
      using frame_mem(2) [of b "st_be32 (b_seg b) (xrc_remote_srqn wr)", OF k, of 16] by (simp add: b1_def xrc_step_def)
    have "sq (b_qp b1) = sq (b_qp b)" "b_ctrl b1 = b_ctrl b"
      by (simp_all add: b1_def xrc_step_def advance_def on_mem_def put_mem_def)
    with b have "block_at b1" by (simp add: block_at_def sq_ok_def)
    moreover have "b_seg b1 = b_ctrl b1 + 16 \<or>
        b_seg b1 = b_ctrl b1 + 32 \<and> opcode wr \<noteq> IBV_WR_BIND_MW \<and> opcode wr \<noteq> IBV_WR_LOCAL_INV"
      using s by (auto simp: b1_def xrc_step_def advance_def on_mem_def put_mem_def)
    ultimately have "stays (placed wr) b1 (rc_step idx wr b1)" by (rule rc_step_stays)
    with f xrc show ?thesis
      by (auto simp: transport_step_def b1_def [symmetric] stays_def intro: frame_trans)
  qed
qed

lemma payload_step_stays:
  assumes w: "safe_wr wr" and q: "plain_queue (b_qp b)" and p: "placed wr b" and z: "b_index b = 0" "b_offset b = 0"
  shows "stays (\<lambda>_. True) b (payload_step um wr b)"
proof (cases "has_flag (send_flags wr) IBV_SEND_INLINE \<and> num_sge wr \<noteq> 0")
  case True
  have "stays (\<lambda>_. True) b (set_data_inl_seg um wr b)"
    by (rule set_data_inl_seg_stays) (use True w q p z in \<open>auto simp: safe_wr_def plain_queue_def placed_def\<close>)
  then have "stays (\<lambda>_. True) b (and_then (set_data_inl_seg um wr b) (\<lambda>b1. ok_step (b1\<lparr>b_inl := True\<rparr>)))"
    by (rule stays_and_then) (simp add: stays_ok frame_def)
  with True show ?thesis by (simp add: payload_step_def)
next
  case False
  have v: "int (0 + nat (num_sge wr)) \<le> num_sge wr \<or> nat (num_sge wr) = 0" by auto
  from data_segs_stays [OF _ v, of b] w q p z False show ?thesis
    by (auto simp: payload_step_def safe_wr_def plain_queue_def placed_def)
qed

lemma ctrl_finish_frame:
  assumes "block_at b"
  shows "loop_frame b (ctrl_finish n idx op wr b)"
proof -
  have c: "b_ctrl b + 64 \<le> qend (sq (b_qp b))" using assms by (simp add: block_at_def)
  then have "keeps_outside 0 (qend (sq (b_qp b))) (b_mem b) (b_mem (ctrl_finish n idx op wr b))"
    by (simp add: ctrl_finish_def Let_def keeps_st)
  moreover have "static_part (b_qp (ctrl_finish n idx op wr b)) = static_part (b_qp b)"
    by (simp add: ctrl_finish_def Let_def static_part_def)
  ultimately show ?thesis by (simp add: loop_frame_def) (simp add: ctrl_finish_def Let_def)
qed

lemma post_one_safe:
  assumes w: "safe_wr wr" and q: "plain_queue (b_qp b)" and z: "b_index b = 0" "b_offset b = 0"
  shows "\<exists>e b'. post_one um n wr b = Inr (e, b') \<and> loop_frame b b' \<and> (e = 0 \<longrightarrow> \<not> mlx5_wq_overflow (sq (b_qp b)) n)"
proof (cases "mlx5_ib_opcode (opcode wr) = None \<or> mlx5_wq_overflow (sq (b_qp b)) n \<or> max_gs (sq (b_qp b)) < num_sge wr")
  case True
  then show ?thesis by (auto simp: post_one_def loop_frame_def split: option.splits)
next
  case False
  then obtain op where op: "mlx5_ib_opcode (opcode wr) = Some op" by auto
  let ?idx = "sq_idx (b_qp b)"
  define b1 where "b1 = ctrl_start ?idx wr b"
  have ok: "sq_ok (b_qp b)" using q by (simp add: plain_queue_def)
  note c = ctrl_start_block [OF ok, of wr, folded b1_def]
  have st1: "static_part (b_qp b1) = static_part (b_qp b)" and z1: "b_index b1 = 0" "b_offset b1 = 0"
    using c(1) z by (simp_all add: loop_frame_def)
  have q1: "plain_queue (b_qp b1)" using plain_queue_static [OF st1] q by simp
  have t: "stays (placed wr) b1 (transport_step um ?idx wr b1)" by (rule transport_step_stays [OF c(2,3) q1])
  have "stays (\<lambda>b'. block_at b') b1 (and_then (transport_step um ?idx wr b1) (payload_step um wr))"
  proof (rule stays_and_then [OF t])
    fix b2 assume f: "frame b1 b2" and p: "placed wr b2"
    have st2: "static_part (b_qp b2) = static_part (b_qp b1)" using f by (simp add: frame_def)
    have "stays (\<lambda>_. True) b2 (payload_step um wr b2)"
      by (rule payload_step_stays [OF w _ p]) (use f z1 plain_queue_static [OF st2] q1 in \<open>auto simp: frame_def\<close>)
    moreover have "block_at b3" if "frame b2 b3" for b3
    proof -
      have st3: "static_part (b_qp b3) = static_part (b_qp b1)" "b_ctrl b3 = b_ctrl b1"
        using that f st2 by (simp_all add: frame_def)
      then show ?thesis using c(2) sq_ok_static [OF st3(1)] static_fields(1) [OF st3(1)] by (simp add: block_at_def)
    qed
    ultimately show "stays block_at b2 (payload_step um wr b2)" by (auto simp: stays_def)
  qed
  then obtain e b3 where r: "and_then (transport_step um ?idx wr b1) (payload_step um wr) = Inr (e, b3)"
    "frame b1 b3" "e = 0 \<longrightarrow> block_at b3" by (auto simp: stays_def)
  have one: "post_one um n wr b = and_then (and_then (transport_step um ?idx wr b1) (payload_step um wr))
      (\<lambda>b2. ok_step (ctrl_finish n ?idx op wr b2))"
    using False op by (auto simp: post_one_def b1_def and_then_def Let_def bind_res_def split: sum.splits)
  show ?thesis
  proof (cases "e = 0")
    case True
    have "loop_frame b (ctrl_finish n ?idx op wr b3)"
      using c(1) frame_loop_frame [OF r(2)] ctrl_finish_frame [of b3] r(3) True by (blast intro: loop_frame_trans)
    then show ?thesis using one r(1) True False by (simp add: and_then_def ok_step_def)
  next
    case False
    then show ?thesis using one r c(1) frame_loop_frame [OF r(2)] loop_frame_trans by (auto simp: and_then_def)
  qed
qed


lemma overflow_static:
  "static_part p = static_part q \<Longrightarrow> mlx5_wq_overflow (sq p) n = mlx5_wq_overflow (sq q) n"
  using static_fields [of p q] by (simp add: mlx5_wq_overflow_def)

text \<open>A request that is not refused for lack of room leaves the number in flight within \<open>max_post\<close>.\<close>

lemma no_overflow_room:
  assumes "unat (wq_head w - wq_tail w) + n \<le> unat (max_post w)" "\<not> mlx5_wq_overflow w n"
  shows "unat (wq_head w - wq_tail w) + Suc n \<le> unat (max_post w)"
proof -
  let ?c = "wq_head w - wq_tail w"
  have lt: "unat (max_post w) < 2 ^ 32" using unsigned_less [where ?'a = nat, of "max_post w"] by simp
  then have "unat (of_nat n :: u32) = n" using assms(1) by (intro unat_of_nat_small) simp
  moreover have "unat (?c + of_nat n) = unat ?c + unat (of_nat n :: u32)"
    using lt assms(1) calculation by (simp add: unat_word_ariths)
  moreover have "?c + of_nat n < max_post w" using assms(2) by (auto simp: mlx5_wq_overflow_def Let_def not_le split: if_splits)
  ultimately show ?thesis by (simp add: word_less_nat_alt)
qed

lemma post_loop_safe:
  "\<forall>wr \<in> set wrs. safe_wr wr \<Longrightarrow> plain_queue (b_qp b) \<Longrightarrow> b_index b = 0 \<Longrightarrow> b_offset b = 0 \<Longrightarrow>
   \<exists>e k b'. post_loop um n wrs b = Inr (e, k, b') \<and> loop_frame b b' \<and>
     (unat (wq_head (sq (b_qp b)) - wq_tail (sq (b_qp b))) + n \<le> unat (max_post (sq (b_qp b))) \<longrightarrow>
      unat (wq_head (sq (b_qp b)) - wq_tail (sq (b_qp b))) + k \<le> unat (max_post (sq (b_qp b))))"
proof (induction wrs arbitrary: n b)
  case Nil
  then show ?case by (simp add: loop_frame_def)
next
  case (Cons wr wrs)
  obtain e b1 where o: "post_one um n wr b = Inr (e, b1)" "loop_frame b b1"
    "e = 0 \<longrightarrow> \<not> mlx5_wq_overflow (sq (b_qp b)) n"
    using post_one_safe [of wr b um n] Cons.prems by auto
  show ?case
  proof (cases "e = 0")
    case False
    with o show ?thesis by simp
  next
    case True
    have st: "static_part (b_qp b1) = static_part (b_qp b)" using o(2) by (simp add: loop_frame_def)
    have z: "b_index b1 = 0" "b_offset b1 = 0" using o(2) Cons.prems by (simp_all add: loop_frame_def)
    obtain e' k b' where l: "post_loop um (Suc n) wrs b1 = Inr (e', k, b')" "loop_frame b1 b'"
      "unat (wq_head (sq (b_qp b1)) - wq_tail (sq (b_qp b1))) + Suc n \<le> unat (max_post (sq (b_qp b1))) \<longrightarrow>
       unat (wq_head (sq (b_qp b1)) - wq_tail (sq (b_qp b1))) + k \<le> unat (max_post (sq (b_qp b1)))"
      using Cons.IH [of b1 "Suc n"] Cons.prems plain_queue_static [OF st] z by auto
    have "loop_frame b b'" using o(2) l(2) by (rule loop_frame_trans)
    moreover have "unat (wq_head (sq (b_qp b)) - wq_tail (sq (b_qp b))) + n \<le> unat (max_post (sq (b_qp b))) \<longrightarrow>
        unat (wq_head (sq (b_qp b)) - wq_tail (sq (b_qp b))) + k \<le> unat (max_post (sq (b_qp b)))"
      using l(3) no_overflow_room [of "sq (b_qp b)" n] o(3) True static_fields [OF st] by simp
    ultimately show ?thesis using o(1) l(1) True by simp
  qed
qed

lemma post_requests_safe:
  assumes "plain_queue qp" "\<forall>wr \<in> set wrs. safe_wr wr"
  shows "\<exists>e n q. post_requests um wrs qp = Inr (e, n, q) \<and>
    keeps_outside 0 (qend (sq qp)) (sq_mem qp) (sq_mem q) \<and>
    wq_head (sq q) = wq_head (sq qp) + of_nat n \<and> wq_tail (sq q) = wq_tail (sq qp) \<and> max_post (sq q) = max_post (sq qp) \<and>
    (unat (wq_head (sq qp) - wq_tail (sq qp)) \<le> unat (max_post (sq qp)) \<longrightarrow>
     unat (wq_head (sq qp) - wq_tail (sq qp)) + n \<le> unat (max_post (sq qp)))"
proof -
  obtain e n b where l: "post_loop um 0 wrs (start_build qp) = Inr (e, n, b)" "loop_frame (start_build qp) b"
    "unat (wq_head (sq qp) - wq_tail (sq qp)) \<le> unat (max_post (sq qp)) \<longrightarrow>
     unat (wq_head (sq qp) - wq_tail (sq qp)) + n \<le> unat (max_post (sq qp))"
    using post_loop_safe [OF assms(2), of "start_build qp" um 0] assms(1) by (auto simp: start_build_def)
  have st: "static_part (b_qp b) = static_part qp" and k: "keeps_outside 0 (qend (sq qp)) (sq_mem qp) (b_mem b)"
    using l(2) by (simp_all add: loop_frame_def start_build_def)
  have "wq_head (sq (finish_post n b)) = wq_head (sq qp) + of_nat n" "wq_tail (sq (finish_post n b)) = wq_tail (sq qp)"
    "max_post (sq (finish_post n b)) = max_post (sq qp)" "sq_mem (finish_post n b) = b_mem b"
    using static_fields [OF st] by (simp_all add: finish_post_def post_send_db_def Let_def)
  with l k show ?thesis by (simp add: post_requests_def)
qed


text \<open>The demonstration queue pair and a request of each kind satisfy the conditions.\<close>

definition demo_wrs :: "ibv_send_wr list" where
  "demo_wrs =
     [zero_wr\<lparr>opcode := IBV_WR_SEND, send_flags := 8, sg_list := Some [\<lparr>sge_addr = 4096, sge_length = 10, sge_lkey = 5\<rparr>],
        num_sge := 1\<rparr>,
      zero_wr\<lparr>opcode := IBV_WR_ATOMIC_FETCH_AND_ADD, sg_list := Some [\<lparr>sge_addr = 64, sge_length = 8, sge_lkey = 5\<rparr>],
        num_sge := 1\<rparr>,
      zero_wr\<lparr>opcode := IBV_WR_LOCAL_INV, imm_data := 9\<rparr>]"

lemma demo_wrs_safe: "\<forall>wr \<in> set demo_wrs. safe_wr wr"
  by (auto simp: demo_wrs_def safe_wr_def sges_valid_def short_sges_def inline_op_def has_flag_def zero_wr_def)

lemma demo_plain: "t \<in> {IBV_QPT_RC, IBV_QPT_UC, IBV_QPT_XRC_SEND, IBV_QPT_UD} \<Longrightarrow> plain_queue (demo_qp t)"
proof -
  have "\<exists>b < 32. (4 :: u32) = 2 ^ b" by (rule exI [of _ 2]) simp
  then show "t \<in> {IBV_QPT_RC, IBV_QPT_UC, IBV_QPT_XRC_SEND, IBV_QPT_UD} \<Longrightarrow> plain_queue (demo_qp t)"
    by (simp add: plain_queue_def sq_ok_def demo_qp_def demo_wq_def has_flag_def)
qed


text \<open>
  C26. The number of requests in flight never exceeds \<open>max_post\<close>: a call of \<open>post_send\<close> advances the
  producer index by the number of requests it posted, and if the queue held at most \<open>max_post\<close>
  requests before, it does after, also when the 32-bit indices wrap.
\<close>
theorem post_send_in_flight_bounded:
  assumes "plain_queue qp" "\<forall>wr \<in> set wrs. safe_wr wr"
    "unat (wq_head (sq qp) - wq_tail (sq qp)) \<le> unat (max_post (sq qp))"
  shows "\<exists>e n q. post_requests um wrs qp = Inr (e, n, q) \<and> wq_head (sq q) = wq_head (sq qp) + of_nat n \<and>
    unat (wq_head (sq q) - wq_tail (sq q)) \<le> unat (max_post (sq q))"
proof -
  obtain e n q where r: "post_requests um wrs qp = Inr (e, n, q)" "wq_head (sq q) = wq_head (sq qp) + of_nat n"
    "wq_tail (sq q) = wq_tail (sq qp)" "max_post (sq q) = max_post (sq qp)"
    "unat (wq_head (sq qp) - wq_tail (sq qp)) + n \<le> unat (max_post (sq qp))"
    using post_requests_safe [OF assms(1,2), of um] assms(3) by auto
  have "unat (wq_head (sq q) - wq_tail (sq q)) = unat (wq_head (sq qp) - wq_tail (sq qp) + of_nat n)"
    by (simp add: r algebra_simps)
  also have "\<dots> \<le> unat (wq_head (sq qp) - wq_tail (sq qp)) + unat (of_nat n :: u32)"
    by (simp add: unat_word_ariths)
  also have "\<dots> \<le> unat (wq_head (sq qp) - wq_tail (sq qp)) + n"
    by (simp add: unsigned_of_nat take_bit_eq_mod)
  finally show ?thesis using r by (intro exI conjI) auto
qed

theorem post_send_in_flight_bounded_witness:
  "\<exists>e n q. post_requests (\<lambda>_. 1) demo_wrs (demo_qp IBV_QPT_RC) = Inr (e, n, q)
    \<and> unat (wq_head (sq q) - wq_tail (sq q)) \<le> unat (max_post (sq q))"
proof -
  have "plain_queue (demo_qp IBV_QPT_RC)" by (rule demo_plain) simp
  from post_send_in_flight_bounded [OF this demo_wrs_safe, of "\<lambda>_. 1"] show ?thesis
    by (auto simp: demo_qp_def demo_wq_def)
qed

end
