(* ===== verification/Send_Errors.thy ===== *)
theory Send_Errors
  imports Send_Safety
begin

text \<open>
  What the two posting interfaces do when a request is refused.  \<open>post_send\<close> keeps the requests before
  the bad one: the relation \<open>kept\<close> says that the steps of a descriptor leave the books of the queue
  (its indices and identifiers) alone.  A section of the extended interface keeps none: its calls are
  the steps of \<open>api_step\<close>, and completing a section with an error, or aborting it, puts the producer
  index and the fence back.  The last part shows two descriptors that come out wrong, at the end of
  the ring or at the size of the inline header.
\<close>

subsection \<open>The request that stops \<open>post_send\<close>\<close>

text \<open>
  The queue pair without the parts that an unfinished descriptor may have changed: the bytes of the ring, the completion to
  report for its slot and the fence.  \<open>books\<close> leaves out the bytes that went to the device, too.
\<close>

definition body :: "mlx5_qp \<Rightarrow> mlx5_qp" where
  "body qp = qp\<lparr>sq := (sq qp)\<lparr>wr_data := (\<lambda>_. 0)\<rparr>, sq_mem := (\<lambda>_. 0), fm_cache := 0\<rparr>"

definition books :: "mlx5_qp \<Rightarrow> mlx5_qp" where
  "books qp = (body qp)\<lparr>mmio_log := []\<rparr>"

lemma body_upd [simp]:
  "body (qp\<lparr>sq_mem := m\<rparr>) = body qp" "body (qp\<lparr>fm_cache := f\<rparr>) = body qp"
  "body (qp\<lparr>sq := (sq qp)\<lparr>wr_data := d\<rparr>\<rparr>) = body qp"
  by (simp_all add: body_def)

definition kept :: "build \<Rightarrow> step \<Rightarrow> bool" where
  "kept b r \<longleftrightarrow> (\<forall>e b'. r = Inr (e, b') \<longrightarrow> body (b_qp b') = body (b_qp b))"

lemma keptI: "(\<And>e b'. r = Inr (e, b') \<Longrightarrow> body (b_qp b') = body (b_qp b)) \<Longrightarrow> kept b r"
  by (simp add: kept_def)

lemma kept_ok: "body (b_qp b') = body (b_qp b) \<Longrightarrow> kept b (ok_step b')"
  by (simp add: kept_def ok_step_def)

lemma kept_Inr: "body (b_qp b') = body (b_qp b) \<Longrightarrow> kept b (Inr (e, b'))"
  by (simp add: kept_def)

lemma kept_bind: "(\<And>x. m = Inr x \<Longrightarrow> kept b (f x)) \<Longrightarrow> kept b (bind_res m f)"
  by (cases m) (simp_all add: kept_def)

lemma kept_and_then:
  assumes "kept b r" "\<And>b'. kept b' (f b')"
  shows "kept b (and_then r f)"
proof (rule keptI)
  fix e b' assume h: "and_then r f = Inr (e, b')"
  then obtain e1 b1 where r: "r = Inr (e1, b1)" by (cases r) (auto simp: and_then_def)
  with assms(1) have k: "body (b_qp b1) = body (b_qp b)" by (simp add: kept_def)
  show "body (b_qp b') = body (b_qp b)"
  proof (cases "e1 = 0")
    case True
    with h r have "f b1 = Inr (e, b')" by (simp add: and_then_def)
    with assms(2) [of b1] k show ?thesis by (simp add: kept_def)
  next
    case False
    with h r k show ?thesis by (simp add: and_then_def)
  qed
qed

lemma body_steps [simp]:
  "body (b_qp (put_mem m b)) = body (b_qp b)" "body (b_qp (on_mem f b)) = body (b_qp b)"
  "body (b_qp (advance n b)) = body (b_qp b)" "body (b_qp (raddr_step a k b)) = body (b_qp b)"
  "body (b_qp (xrc_step wr b)) = body (b_qp b)" "body (b_qp (ctrl_start idx wr b)) = body (b_qp b)"
  by (simp_all add: put_mem_def on_mem_def advance_def raddr_step_def xrc_step_def ctrl_start_def Let_def body_def)

lemma bind_step_kept: "kept b (bind_step idx t k bi imm wc b)"
  by (rule keptI) (auto simp: bind_step_def Let_def ok_step_def split: prod.splits if_splits)

lemma rc_step_kept: "kept b (rc_step idx wr b)"
  by (cases "opcode wr") (auto simp: rc_step_def Let_def bind_step_kept intro!: kept_ok kept_Inr)

lemma uc_step_kept: "kept b (uc_step idx wr b)"
  by (cases "opcode wr") (auto simp: uc_step_def bind_step_kept intro!: kept_ok)

lemma underlay_kept: "kept b (mlx5_post_send_underlay um wr b)"
  by (auto simp: mlx5_post_send_underlay_def Let_def intro!: kept_Inr kept_bind kept_ok)

lemma ud_step_kept: "kept b (ud_step um wr b)"
proof -
  define b2 where "b2 = (let b1 = advance 48 (on_mem (set_datagram_seg (b_seg b) (ud_av wr) (ud_remote_qpn wr) (ud_remote_qkey wr)) b)
    in b1\<lparr>b_seg := wrap_end (b_qp b1) (b_seg b1)\<rparr>)"
  have q: "body (b_qp b2) = body (b_qp b)" by (simp add: b2_def Let_def)
  have "ud_step um wr b = (if has_flag (qp_flags (b_qp b2)) MLX5_QP_FLAGS_USE_UNDERLAY then mlx5_post_send_underlay um wr b2 else ok_step b2)"
    by (simp add: ud_step_def b2_def Let_def)
  with underlay_kept [of b2 um wr] q show ?thesis by (auto simp: kept_def ok_step_def)
qed

lemma raw_step_kept: "kept b (raw_step um wr b)"
  by (auto simp: raw_step_def Let_def split: prod.split intro!: kept_Inr kept_bind kept_ok)

lemma transport_step_kept: "kept b (transport_step um idx wr b)"
proof -
  have "kept b (rc_step idx wr (xrc_step wr b))"
    using rc_step_kept [of "xrc_step wr b" idx wr] by (simp add: kept_def)
  then show ?thesis
    by (simp add: transport_step_def rc_step_kept uc_step_kept ud_step_kept raw_step_kept kept_ok split: ibv_qp_type.split)
qed

lemma data_segs_kept: "kept b (data_segs wr n i tso b)"
proof (induction n arbitrary: i tso b)
  case 0
  then show ?case by (simp add: kept_ok)
next
  case (Suc n)
  have step: "kept b (data_segs wr n i' tso' b')" if "body (b_qp b') = body (b_qp b)" for i' tso' b'
    using Suc [of b' i' tso'] that by (simp add: kept_def)
  show ?case by (auto simp: Let_def intro!: kept_bind step kept_Inr)
qed

lemma payload_step_kept: "kept b (payload_step um wr b)"
proof -
  have "kept b (set_data_inl_seg um wr b)"
    by (auto simp: set_data_inl_seg_def intro!: kept_bind kept_Inr kept_ok)
  then show ?thesis
    by (auto simp: payload_step_def data_segs_kept intro!: kept_and_then kept_ok)
qed

text \<open>A request that fails leaves the rest as it was.\<close>

lemma post_one_error_body:
  assumes "post_one um n wr b = Inr (e, b')" "e \<noteq> 0"
  shows "body (b_qp b') = body (b_qp b)"
proof -
  let ?r = "and_then (transport_step um (sq_idx (b_qp b)) wr (ctrl_start (sq_idx (b_qp b)) wr b)) (payload_step um wr)"
  have k: "kept (ctrl_start (sq_idx (b_qp b)) wr b) ?r"
    by (rule kept_and_then [OF transport_step_kept payload_step_kept])
  show ?thesis
  proof (cases "mlx5_ib_opcode (opcode wr) = None \<or> mlx5_wq_overflow (sq (b_qp b)) n \<or> max_gs (sq (b_qp b)) < num_sge wr")
    case True
    with assms show ?thesis by (auto simp: post_one_def split: option.splits if_splits)
  next
    case False
    then obtain op where "mlx5_ib_opcode (opcode wr) = Some op" by auto
    with False assms have "and_then ?r (\<lambda>b2. ok_step (ctrl_finish n (sq_idx (b_qp b)) op wr b2)) = Inr (e, b')"
      by (auto simp: post_one_def and_then_def Let_def bind_res_def split: sum.splits prod.splits if_splits)
    with assms(2) have "?r = Inr (e, b')" by (cases ?r) (auto simp: and_then_def ok_step_def split: if_splits)
    with k show ?thesis by (simp add: kept_def)
  qed
qed

lemma post_loop_prefix:
  "post_loop um n wrs b = Inr (e, k, b') \<Longrightarrow> e \<noteq> 0 \<Longrightarrow>
   \<exists>b1. n \<le> k \<and> k - n < length wrs \<and> post_loop um n (take (k - n) wrs) b = Inr (0, k, b1) \<and>
     post_one um k (wrs ! (k - n)) b1 = Inr (e, b')"
proof (induction wrs arbitrary: n b)
  case (Cons wr wrs)
  from Cons.prems obtain e1 b1 where o: "post_one um n wr b = Inr (e1, b1)" by (auto simp: bind_res_eq_Inr)
  show ?case
  proof (cases "e1 = 0")
    case False
    with Cons.prems o show ?thesis by auto
  next
    case True
    with Cons.prems o have "post_loop um (Suc n) wrs b1 = Inr (e, k, b')" by simp
    with Cons.IH Cons.prems(2) obtain b2 where i: "Suc n \<le> k" "k - Suc n < length wrs"
      "post_loop um (Suc n) (take (k - Suc n) wrs) b1 = Inr (0, k, b2)"
      "post_one um k (wrs ! (k - Suc n)) b2 = Inr (e, b')" by blast
    then obtain j where j: "k - n = Suc j" "k - Suc n = j" by (cases "k - n") auto
    with i o True show ?thesis by auto
  qed
qed simp

text \<open>The tests before the first write of a request, which depend on fields that no request changes.\<close>

definition limits :: "mlx5_qp \<Rightarrow> int \<times> u32 \<times> u32 \<times> u32" where
  "limits q = (max_gs (sq q), wq_head (sq q), wq_tail (sq q), max_post (sq q))"

definition refused_early :: "mlx5_qp \<Rightarrow> nat \<Rightarrow> ibv_send_wr \<Rightarrow> bool" where
  "refused_early q n wr \<longleftrightarrow> mlx5_ib_opcode (opcode wr) = None \<or> mlx5_wq_overflow (sq q) n \<or> max_gs (sq q) < num_sge wr"

lemma refused_early_limits: "limits q = limits q' \<Longrightarrow> refused_early q n wr = refused_early q' n wr"
  by (simp add: limits_def refused_early_def mlx5_wq_overflow_def)

lemma limits_body: "body q = body q' \<Longrightarrow> limits q = limits q'"
proof -
  assume "body q = body q'"
  then have "limits (body q) = limits (body q')" by simp
  then show ?thesis by (simp add: body_def limits_def)
qed

lemma and_then_ok: "and_then r f = Inr (0, b') \<longleftrightarrow> (\<exists>b. r = Inr (0, b) \<and> f b = Inr (0, b'))"
proof (cases r)
  case (Inr x)
  then show ?thesis by (cases x) (auto simp: and_then_def)
qed (simp add: and_then_def)

lemma post_one_limits:
  assumes "post_one um n wr b = Inr (0, b')"
  shows "limits (b_qp b') = limits (b_qp b)"
proof -
  let ?c = "ctrl_start (sq_idx (b_qp b)) wr b" and ?i = "sq_idx (b_qp b)"
  have k: "kept ?c (and_then (transport_step um ?i wr ?c) (payload_step um wr))"
    by (rule kept_and_then [OF transport_step_kept payload_step_kept])
  from assms obtain op where "and_then (transport_step um ?i wr ?c) (\<lambda>b1. and_then (payload_step um wr b1) (\<lambda>b2. ok_step (ctrl_finish n ?i op wr b2))) = Inr (0, b')"
    by (auto simp: post_one_def Let_def split: option.splits if_splits)
  then obtain b1 b2 where t: "transport_step um ?i wr ?c = Inr (0, b1)" "payload_step um wr b1 = Inr (0, b2)" "b' = ctrl_finish n ?i op wr b2"
    by (auto simp: and_then_ok ok_step_def)
  then have b2: "and_then (transport_step um ?i wr ?c) (payload_step um wr) = Inr (0, b2)" "b' = ctrl_finish n ?i op wr b2"
    by (simp_all add: and_then_def)
  have "limits (b_qp b2) = limits (b_qp ?c)" using k b2(1) by (intro limits_body) (simp add: kept_def)
  moreover have "limits (b_qp ?c) = limits (b_qp b)" by (intro limits_body) simp
  moreover have "limits (b_qp b') = limits (b_qp b2)" unfolding b2(2) by (simp add: ctrl_finish_def limits_def Let_def)
  ultimately show ?thesis by simp
qed

lemma post_loop_limits: "post_loop um n wrs b = Inr (0, k, b') \<Longrightarrow> limits (b_qp b') = limits (b_qp b)"
proof (induction wrs arbitrary: n b)
  case (Cons wr wrs)
  from Cons.prems obtain b1 where b1: "post_one um n wr b = Inr (0, b1)" "post_loop um (Suc n) wrs b1 = Inr (0, k, b')"
    by (auto simp: bind_res_eq_Inr split: if_splits)
  from Cons.IH [OF b1(2)] post_one_limits [OF b1(1)] show ?case by (rule trans)
qed simp

lemma finish_books:
  assumes "body (b_qp b) = body (b_qp b1)"
  shows "books (finish_post n b) = books (finish_post n b1)" "length (mmio_log (finish_post n b)) = length (mmio_log (finish_post n b1))"
proof -
  have f: "books (finish_post n c) = (let q = body (b_qp c) in if n = 0 then books q else
      q\<lparr>sq := (sq q)\<lparr>wq_head := wq_head (sq q) + of_nat n\<rparr>, db_snd := cur_post (sq q) AND 0xffff, mmio_log := [],
        bf := (bf q)\<lparr>bf_offset := bf_offset (bf q) XOR bf_buf_size (bf q)\<rparr>\<rparr>)"
    and l: "length (mmio_log (finish_post n c)) = length (mmio_log (body (b_qp c))) + (if n = 0 then 0 else 1)" for c
    by (simp_all add: finish_post_def post_send_db_def books_def body_def Let_def)
  from assms show "books (finish_post n b) = books (finish_post n b1)" "length (mmio_log (finish_post n b)) = length (mmio_log (finish_post n b1))"
    by (simp_all only: f l)
qed



subsection \<open>Sections of the extended interface\<close>

text \<open>What the calls between the start and the end of a section leave alone; the first error stays.\<close>

definition section_frame ::
    "mlx5_qp \<Rightarrow> u32 \<times> u8 \<times> u32 \<times> u32 \<times> mmio list \<times> u32 \<times> mlx5_bf" where
  "section_frame q = (cur_post_rb q, fm_cache_rb q, wq_head (sq q), wq_tail (sq q), mmio_log q, db_snd q, bf q)"

definition sect :: "mlx5_qp \<Rightarrow> mlx5_qp \<Rightarrow> bool" where
  "sect q q' \<longleftrightarrow> section_frame q' = section_frame q \<and> (qp_err q \<noteq> 0 \<longrightarrow> qp_err q' = qp_err q)"

lemma sect_refl [simp]: "sect q q"
  by (simp add: sect_def)

lemma sect_trans: "sect q q' \<Longrightarrow> sect q' q'' \<Longrightarrow> sect q q''"
  by (auto simp: sect_def)

lemma sect_upd [simp]:
  "sect q (q'\<lparr>sq_mem := m\<rparr>) = sect q q'" "sect q (q'\<lparr>cur_size := n\<rparr>) = sect q q'" "sect q (q'\<lparr>cur_data := n\<rparr>) = sect q q'"
  "sect q (q'\<lparr>nreq := n\<rparr>) = sect q q'" "sect q (q'\<lparr>cur_setters_cnt := n\<rparr>) = sect q q'" "sect q (q'\<lparr>cur_eth := oe\<rparr>) = sect q q'"
  "sect q (q'\<lparr>inl_wqe := t\<rparr>) = sect q q'" "sect q (q'\<lparr>fm_cache := f\<rparr>) = sect q q'" "sect q (q'\<lparr>cur_ctrl := n\<rparr>) = sect q q'"
  by (simp_all add: sect_def section_frame_def)

lemma sect_helpers [simp]:
  "sect q q' \<Longrightarrow> sect q (set_err e q')" "sect q (upd_mem f q') = sect q q'"
  by (simp_all add: sect_def section_frame_def set_err_def upd_mem_def)

lemma sect_init: "sect q (common_wqe_init_op ib op q)" "sect q (common_wqe_init ib' q)" "sect q (raw_wqe_init q)"
  by (auto simp: sect_def section_frame_def common_wqe_init_def common_wqe_init_op_def raw_wqe_init_def set_err_def Let_def)

lemma sect_finalize: "sect q (wqe_finalize q)" "sect q (common_wqe_finalize q)" "sect q (second_setter q)"
  by (simp_all add: sect_def section_frame_def wqe_finalize_def common_wqe_finalize_def second_setter_def upd_mem_def Let_def)

lemma sect_builders:
  "sect q (mlx5_send_wr_send ib q)" "sect q (mlx5_send_wr_rdma rk ra ib q)" "sect q (mlx5_send_wr_atomic rk ra x y ib q)"
  using sect_init(2) [of q ib]
  by (simp_all add: mlx5_send_wr_send_def mlx5_send_wr_rdma_def mlx5_send_wr_atomic_def Let_def)

lemma sect_send_eth: "sect q (mlx5_send_wr_send_eth q)" "sect q (mlx5_send_wr_send_tso um h hs ms q)"
proof -
  show "sect q (mlx5_send_wr_send_eth q)"
    using sect_init(2) [of q IBV_WR_SEND] by (simp add: mlx5_send_wr_send_eth_def Let_def)
  show "sect q (mlx5_send_wr_send_tso um h hs ms q)"
    using sect_init(2) [of q IBV_WR_TSO] by (simp add: mlx5_send_wr_send_tso_def Let_def split: prod.split)
qed

lemma sect_umr: "sect q (build_umr_wqe ok nk bi ib q)"
proof -
  have f: "sect q q' \<Longrightarrow> sect q (common_wqe_finalize q')" for q' by (rule sect_trans [OF _ sect_finalize(2)])
  show ?thesis using sect_init(2) [of q ib] by (auto simp: build_umr_wqe_def Let_def split: prod.split intro!: f)
qed

lemma sect_set_sge: "sect q (mlx5_send_wr_set_sge k a n q)"
  by (simp add: mlx5_send_wr_set_sge_def)

lemma sect_raw: "sect q (mlx5_wr_raw_wqe w q)" "sect q (mlx5_wr_memcpy mx ok ob dk da sk sa n q)"
proof -
  show "sect q (mlx5_wr_raw_wqe w q)"
    unfolding mlx5_wr_raw_wqe_def Let_def by (rule sect_trans [OF _ sect_finalize(1)]) (simp add: sect_init)
  show "sect q (mlx5_wr_memcpy mx ok ob dk da sk sa n q)"
    by (auto simp: mlx5_wr_memcpy_def Let_def intro!: sect_trans [OF _ sect_finalize(2)] sect_init)
qed

text \<open>Setters that read memory of the application may fault; otherwise they keep the frame too.\<close>

definition sect_res :: "mlx5_qp \<Rightarrow> mlx5_qp res \<Rightarrow> bool" where
  "sect_res q r \<longleftrightarrow> (\<forall>q'. r = Inr q' \<longrightarrow> sect q q')"

lemma sect_res_simps [simp]: "sect_res q (Inr q') = sect q q'" "sect_res q (Inl f)"
  by (simp_all add: sect_res_def)

lemma sect_res_bind:
  assumes "sect_res q r" "\<And>q'. sect q' (f q')"
  shows "sect_res q (bind_res r (\<lambda>q'. Inr (f q')))"
proof (cases r)
  case (Inr q1)
  with assms(1) have "sect q q1" by (simp add: sect_res_def)
  from sect_trans [OF this assms(2)] Inr show ?thesis by (simp add: sect_res_def)
qed (simp add: sect_res_def)

lemma sge_list_loop_sect: "sect_res q0 (sge_list_loop xs n i d q)" if "sect q0 q"
  using that
proof (induction n arbitrary: i d q)
  case (Suc n)
  then show ?case by (cases "arr xs i") (auto simp: Let_def intro!: Suc.IH)
qed simp

lemma sge_list_eth_loop_sect: "sect_res q0 (sge_list_eth_loop xs n i off d q)" if "sect q0 q"
  using that
proof (induction n arbitrary: i off d q)
  case (Suc n)
  then show ?case by (cases "arr xs i") (auto simp: Let_def intro!: Suc.IH)
qed simp

lemma set_sge_list_sect: "sect_res q (mlx5_send_wr_set_sge_list n xs q)"
  by (auto simp: mlx5_send_wr_set_sge_list_def sge_list_loop_sect)

lemma set_inline_sect: "sect_res q (mlx5_send_wr_set_inline_data um a n q)"
  by (auto simp: mlx5_send_wr_set_inline_data_def Let_def sect_res_def bind_res_eq_Inr split: if_splits)

lemma inline_header_sect [simp]: "sect q (inline_header d n q') = sect q q'"
  by (simp add: inline_header_def)

lemma set_inline_list_sect: "sect_res q (mlx5_send_wr_set_inline_data_list um n bs q)"
  by (auto simp: mlx5_send_wr_set_inline_data_list_def Let_def sect_res_def bind_res_eq_Inr split: if_splits)

lemma eth_headers_sect: "eth_headers um get n q = Inr (k, p, q') \<Longrightarrow> sect q q'"
  by (auto simp: eth_headers_def Let_def bind_res_eq_Inr split: option.splits if_splits)

lemma set_sge_eth_sect: "sect_res q (mlx5_send_wr_set_sge_eth um k a n q)"
proof -
  have f: "sect q (common_wqe_finalize (mlx5_send_wr_set_sge k' a' n' q'))" if "sect q q'" for k' a' n' q'
    using sect_trans [OF that sect_trans [OF sect_set_sge sect_finalize(2)]] .
  show ?thesis
    by (auto simp: mlx5_send_wr_set_sge_eth_def sect_res_def bind_res_eq_Inr f split: if_splits dest!: eth_headers_sect)
qed

lemma set_sge_list_eth_sect: "sect_res q (mlx5_send_wr_set_sge_list_eth um n xs q)"
proof (cases "as_size_t (max_gs (sq q)) < n")
  case False
  show ?thesis
  proof (cases "eth_headers um (sges_buf xs) n q")
    case (Inr r)
    obtain ok i off q' where r: "r = (ok, (i, off), q')" by (metis prod.exhaust)
    from Inr r have "sect q q'" by (simp add: eth_headers_sect)
    from sge_list_eth_loop_sect [OF this] False Inr r show ?thesis
      by (auto simp: mlx5_send_wr_set_sge_list_eth_def \<open>sect q q'\<close> intro!: sect_res_bind sect_finalize(2))
  qed (simp add: mlx5_send_wr_set_sge_list_eth_def False)
qed (simp add: mlx5_send_wr_set_sge_list_eth_def)

lemma set_inline_eth_sect: "sect_res q (mlx5_send_wr_set_inline_data_eth um a n q)"
proof (cases "eth_headers um (one_buf a n) 1 q")
  case (Inr r)
  obtain ok i off q' where r: "r = (ok, (i, off), q')" by (metis prod.exhaust)
  from Inr r have "sect q q'" by (simp add: eth_headers_sect)
  then have "sect_res q (mlx5_send_wr_set_inline_data um a' n' q')" for a' n'
    using set_inline_sect [of q' um a' n'] by (auto simp: sect_res_def intro: sect_trans)
  then show ?thesis using Inr r \<open>sect q q'\<close>
    by (simp add: mlx5_send_wr_set_inline_data_eth_def sect_res_bind sect_finalize(2))
qed (simp add: mlx5_send_wr_set_inline_data_eth_def)

lemma set_inline_list_eth_sect: "sect_res q (mlx5_send_wr_set_inline_data_list_eth um n bs q)"
proof -
  have f: "sect q q' \<Longrightarrow> sect q (common_wqe_finalize q')" for q' by (rule sect_trans [OF _ sect_finalize(2)])
  show ?thesis
    by (auto simp: mlx5_send_wr_set_inline_data_list_eth_def sect_res_def bind_res_eq_Inr Let_def
        split: if_splits intro!: f dest!: eth_headers_sect)
qed

text \<open>The calls an application makes inside a section.\<close>

inductive api_step :: "mlx5_qp \<Rightarrow> mlx5_qp \<Rightarrow> bool" where
  wr_fields: "api_step q (q\<lparr>ex_wr_id := i, ex_wr_flags := fl\<rparr>)"
| send_other: "api_step q (mlx5_send_wr_send_other q)"
| send_imm: "api_step q (mlx5_send_wr_send_imm imm q)"
| send_inv: "api_step q (mlx5_send_wr_send_inv rk q)"
| send_eth: "api_step q (mlx5_send_wr_send_eth q)"
| send_tso: "api_step q (mlx5_send_wr_send_tso um h hs ms q)"
| rdma_write: "api_step q (mlx5_send_wr_rdma_write rk ra q)"
| rdma_write_imm: "api_step q (mlx5_send_wr_rdma_write_imm rk ra imm q)"
| rdma_read: "api_step q (mlx5_send_wr_rdma_read rk ra q)"
| cmp_swp: "api_step q (mlx5_send_wr_atomic_cmp_swp rk ra c w q)"
| fetch_add: "api_step q (mlx5_send_wr_atomic_fetch_add rk ra c q)"
| bind_mw: "api_step q (mlx5_send_wr_bind_mw ok nk bi q)"
| local_inv: "api_step q (mlx5_send_wr_local_inv rk q)"
| raw_wqe: "api_step q (mlx5_wr_raw_wqe w q)"
| memcpy: "api_step q (mlx5_wr_memcpy mx ol ob dk da sk sa n q)"
| sge_rc: "api_step q (mlx5_send_wr_set_sge_rc_uc k a n q)"
| sge_ud: "api_step q (mlx5_send_wr_set_sge_ud_xrc_dc k a n q)"
| sge_eth: "mlx5_send_wr_set_sge_eth um k a n q = Inr q' \<Longrightarrow> api_step q q'"
| sges_rc: "mlx5_send_wr_set_sge_list_rc_uc n xs q = Inr q' \<Longrightarrow> api_step q q'"
| sges_ud: "mlx5_send_wr_set_sge_list_ud_xrc_dc n xs q = Inr q' \<Longrightarrow> api_step q q'"
| sges_eth: "mlx5_send_wr_set_sge_list_eth um n xs q = Inr q' \<Longrightarrow> api_step q q'"
| inl_rc: "mlx5_send_wr_set_inline_data_rc_uc um a n q = Inr q' \<Longrightarrow> api_step q q'"
| inl_ud: "mlx5_send_wr_set_inline_data_ud_xrc_dc um a n q = Inr q' \<Longrightarrow> api_step q q'"
| inl_eth: "mlx5_send_wr_set_inline_data_eth um a n q = Inr q' \<Longrightarrow> api_step q q'"
| inls_rc: "mlx5_send_wr_set_inline_data_list_rc_uc um n bs q = Inr q' \<Longrightarrow> api_step q q'"
| inls_ud: "mlx5_send_wr_set_inline_data_list_ud_xrc_dc um n bs q = Inr q' \<Longrightarrow> api_step q q'"
| inls_eth: "mlx5_send_wr_set_inline_data_list_eth um n bs q = Inr q' \<Longrightarrow> api_step q q'"
| ud_addr: "api_step q (mlx5_send_wr_set_ud_addr av rqn qk q)"
| xrc_srqn: "api_step q (mlx5_send_wr_set_xrc_srqn sn q)"
| dc_addr: "api_step q (mlx5_send_wr_set_dc_addr av dn dk q)"
| dc_stream: "api_step q (mlx5_send_wr_set_dc_addr_stream av dn dk sid q)"

lemma sect_setters:
  "sect q (mlx5_send_wr_set_sge_rc_uc k a n q)" "sect q (mlx5_send_wr_set_sge_ud_xrc_dc k a n q)"
  "sect q (mlx5_send_wr_set_ud_addr av rqn qk q)" "sect q (mlx5_send_wr_set_xrc_srqn sn q)"
  "sect q (mlx5_send_wr_set_dc_addr av dn dk q)" "sect q (mlx5_send_wr_set_dc_addr_stream av dn dk sid q)"
  by (auto simp: mlx5_send_wr_set_sge_rc_uc_def mlx5_send_wr_set_sge_ud_xrc_dc_def mlx5_send_wr_set_ud_addr_def
      mlx5_send_wr_set_xrc_srqn_def mlx5_send_wr_set_dc_addr_def mlx5_send_wr_set_dc_addr_stream_def sect_set_sge
      intro!: sect_trans [OF _ sect_finalize(2)] sect_trans [OF _ sect_finalize(3)])

lemma sect_named_builders:
  "sect q (mlx5_send_wr_send_other q)" "sect q (mlx5_send_wr_send_imm imm q)" "sect q (mlx5_send_wr_send_inv rk q)"
  "sect q (mlx5_send_wr_rdma_write rk ra q)" "sect q (mlx5_send_wr_rdma_write_imm rk ra imm q)"
  "sect q (mlx5_send_wr_rdma_read rk ra q)" "sect q (mlx5_send_wr_atomic_cmp_swp rk ra c w q)"
  "sect q (mlx5_send_wr_atomic_fetch_add rk ra c q)" "sect q (mlx5_send_wr_bind_mw rk nk bi q)"
  "sect q (mlx5_send_wr_local_inv rk q)"
  by (simp_all add: mlx5_send_wr_send_other_def mlx5_send_wr_send_imm_def mlx5_send_wr_send_inv_def
      mlx5_send_wr_rdma_write_def mlx5_send_wr_rdma_write_imm_def mlx5_send_wr_rdma_read_def
      mlx5_send_wr_atomic_cmp_swp_def mlx5_send_wr_atomic_fetch_add_def mlx5_send_wr_bind_mw_def
      mlx5_send_wr_local_inv_def sect_builders sect_umr Let_def)

lemma sect_res_setters:
  "sect_res q (mlx5_send_wr_set_sge_list_rc_uc n xs q)" "sect_res q (mlx5_send_wr_set_sge_list_ud_xrc_dc n xs q)"
  "sect_res q (mlx5_send_wr_set_inline_data_rc_uc um a n q)" "sect_res q (mlx5_send_wr_set_inline_data_ud_xrc_dc um a n q)"
  "sect_res q (mlx5_send_wr_set_inline_data_list_rc_uc um n bs q)"
  "sect_res q (mlx5_send_wr_set_inline_data_list_ud_xrc_dc um n bs q)"
  by (simp_all add: mlx5_send_wr_set_sge_list_rc_uc_def mlx5_send_wr_set_sge_list_ud_xrc_dc_def
      mlx5_send_wr_set_inline_data_rc_uc_def mlx5_send_wr_set_inline_data_ud_xrc_dc_def
      mlx5_send_wr_set_inline_data_list_rc_uc_def mlx5_send_wr_set_inline_data_list_ud_xrc_dc_def
      sect_res_bind set_sge_list_sect set_inline_sect set_inline_list_sect sect_finalize)

lemmas sect_calls = sect_setters sect_named_builders sect_send_eth sect_raw
lemmas sect_res_calls =
  sect_res_setters set_sge_eth_sect set_sge_list_eth_sect set_inline_eth_sect set_inline_list_eth_sect

lemma api_step_sect: "api_step q q' \<Longrightarrow> sect q q'"
proof (induction rule: api_step.induct)
  case (wr_fields q i fl)
  show ?case by (simp add: sect_def section_frame_def)
qed (use sect_res_calls in \<open>auto simp: sect_calls sect_res_def\<close>)

lemma section_sect: "api_step\<^sup>*\<^sup>* q q' \<Longrightarrow> sect q q'"
proof (induction rule: rtranclp_induct)
  case (step q1 q2)
  with api_step_sect show ?case by (blast intro: sect_trans)
qed simp

text \<open>
  C14. A section of the extended interface is all or nothing.  Whatever calls it makes, if one of them
  fails then the first error is what \<open>mlx5_send_wr_complete\<close> returns, no matter what follows; the
  producer index and the pending fence are those from before \<open>mlx5_send_wr_start\<close>, and neither the
  indices of the device, nor its doorbell, nor the registers have seen any of the requests.
\<close>
theorem failed_section_rolls_back:
  assumes "api_step\<^sup>*\<^sup>* (mlx5_send_wr_start q) q1" "qp_err q1 \<noteq> 0" "api_step\<^sup>*\<^sup>* q1 q2"
    "mlx5_send_wr_complete q2 = (e, q3)"
  shows "e = qp_err q1 \<and> cur_post (sq q3) = cur_post (sq q) \<and> fm_cache q3 = fm_cache q
    \<and> wq_head (sq q3) = wq_head (sq q) \<and> wq_tail (sq q3) = wq_tail (sq q) \<and> db_snd q3 = db_snd q
    \<and> mmio_log q3 = mmio_log q \<and> mlx5_send_wr_abort q2 = q3"
proof -
  from section_sect [OF assms(1)] section_sect [OF assms(3)] assms(2)
  have "sect (mlx5_send_wr_start q) q2" and e: "qp_err q2 = qp_err q1" "qp_err q2 \<noteq> 0"
    by (auto simp: sect_def)
  then have s: "section_frame q2 = section_frame (mlx5_send_wr_start q)" by (simp add: sect_def)
  from assms(4) e have "q3 = roll_back q2" "e = qp_err q1" by (auto simp: mlx5_send_wr_complete_def)
  with s show ?thesis
    by (simp add: section_frame_def roll_back_def mlx5_send_wr_start_def mlx5_send_wr_abort_def)
qed

text \<open>A copy by the device of length 0 is refused; the send that follows it is not posted either.\<close>

definition bad_section :: mlx5_qp where
  "bad_section = mlx5_wr_memcpy 4096 0 0 0 0 0 0 0 (mlx5_send_wr_start (demo_qp IBV_QPT_RC))"

theorem failed_section_rolls_back_witness:
  "fst (mlx5_send_wr_complete (mlx5_send_wr_send_other bad_section)) = EINVAL
    \<and> mmio_log (snd (mlx5_send_wr_complete (mlx5_send_wr_send_other bad_section))) = mmio_log (demo_qp IBV_QPT_RC)"
proof -
  let ?q2 = "mlx5_send_wr_send_other bad_section"
  have e: "qp_err bad_section = EINVAL"
    by (simp add: bad_section_def mlx5_wr_memcpy_def set_err_def mlx5_send_wr_start_def)
  have 1: "api_step\<^sup>*\<^sup>* (mlx5_send_wr_start (demo_qp IBV_QPT_RC)) bad_section"
    unfolding bad_section_def by (rule r_into_rtranclp) (rule api_step.memcpy)
  have 2: "api_step\<^sup>*\<^sup>* bad_section ?q2" by (rule r_into_rtranclp) (rule api_step.send_other)
  show ?thesis
    using failed_section_rolls_back [OF 1 _ 2 surjective_pairing [of "mlx5_send_wr_complete ?q2"]] e
    by simp
qed

subsection \<open>Descriptors of Ethernet packets that come out wrong\<close>

lemma eth_headers_exact:
  assumes "cur_eth q = Some eseg" "18 \<le> eth_min_inline_size q" "n \<noteq> 0" "get 0 = Inr (a, eth_min_inline_size q)"
  shows "\<exists>m. eth_headers um get n q = Inr (True, (1, 0), q\<lparr>sq_mem := m\<rparr>)"
  using assms by (auto simp: eth_headers_def copy_eth_inline_headers_def eth_headers_done_def)

text \<open>
  A packet whose only buffer is as long as the inline header: the setter of one entry copies it into the
  header and then adds it as data as well, because it looks at the offset of the position after the
  header and not at its index.  The setter of a list, given the same buffer, does not.
\<close>
theorem sge_eth_sends_header_twice:
  assumes e: "cur_eth q = Some eseg" "18 \<le> eth_min_inline_size q" "unat len = eth_min_inline_size q"
    and g: "as_size_t (max_gs (sq q)) \<ge> 1" and s: "sge = \<lparr>sge_addr = addr, sge_length = len, sge_lkey = lkey\<rparr>"
  shows "\<exists>m. mlx5_send_wr_set_sge_list_eth um 1 [sge] q = Inr (common_wqe_finalize (q\<lparr>sq_mem := m\<rparr>))
    \<and> mlx5_send_wr_set_sge_eth um lkey addr len q
        = Inr (common_wqe_finalize (mlx5_send_wr_set_sge lkey addr len (q\<lparr>sq_mem := m\<rparr>)))"
proof -
  have get: "sges_buf [sge] 0 = Inr (addr, eth_min_inline_size q)" "one_buf addr (unat len) 0 = Inr (addr, eth_min_inline_size q)"
    using e s by (simp_all add: sges_buf_def arr_def one_buf_def)
  have "eth_headers um (sges_buf [sge]) 1 q = eth_headers um (one_buf addr (unat len)) 1 q"
    using e get by (simp add: eth_headers_def copy_eth_inline_headers_def)
  moreover obtain m where "eth_headers um (one_buf addr (unat len)) 1 q = Inr (True, (1, 0), q\<lparr>sq_mem := m\<rparr>)"
    using eth_headers_exact [where n = 1, OF e(1,2) one_neq_zero, of "one_buf addr (unat len)"] get(2) by blast
  ultimately show ?thesis using g
    by (auto simp: mlx5_send_wr_set_sge_list_eth_def mlx5_send_wr_set_sge_eth_def)
qed

text \<open>
  A segmented packet whose descriptor is in the last block of the ring and whose header does not fit
  there: the rest of the header is copied to the start of the ring, the size counts the blocks up to its
  end, and the data segments are written 32 bytes after it.
\<close>
theorem tso_wrapped_header_gap:
  assumes fits: "14 \<le> hdr_sz" "hdr_sz \<le> max_tso_header q" and last: "ctrl + 64 = qend (sq q)" and split: "34 < unat hdr_sz"
  shows "\<exists>seg sz m'. set_tso_eth_seg um hdr hdr_sz mss q (ctrl + 16, 0, m) = (0, seg, sz, m')
    \<and> ctrl + 16 * (sz + 3) = qend (sq q) + seg \<and> seg = align (unat hdr_sz - 34) 16"
proof -
  have a: "align 32 16 = 32" "16 dvd align (unat hdr_sz - 34) 16" by (simp_all add: align_def)
  have "qend (sq q) - (ctrl + 16 + 14) = 34" using last by simp
  with a fits split last show ?thesis
    by (auto simp: set_tso_eth_seg_def Let_def not_less dest!: dvd_div_mult_self)
qed

end
