(* ===== verification/Tag_Match.thy ===== *)
theory Tag_Match
  imports Srq_Lists Post_Send
begin

text \<open>
  Tag matching: \<open>mlx5_post_srq_ops\<close> of \<open>qp.c\<close> adds and removes tags through the command queue pair of a
  shared receive queue, and \<open>handle_tag_matching\<close> of \<open>cq.c\<close> processes the completions.  A tag counts
  the completions it still expects; when the count reaches zero it joins the end of the queue of free
  tags, whose links are \<open>next\<close> pointers, here indices of \<open>tm_list\<close>.  The theory also has \<open>mlx5_bind_mw\<close>.
\<close>

subsection \<open>Constants and types\<close>

abbreviation (input) IBV_OPS_SIGNALED :: u32 where "IBV_OPS_SIGNALED \<equiv> 1"
abbreviation (input) IBV_OPS_TM_SYNC :: u32 where "IBV_OPS_TM_SYNC \<equiv> 2"
abbreviation (input) MLX5_TM_OPCODE_NOP :: u8 where "MLX5_TM_OPCODE_NOP \<equiv> 0"
abbreviation (input) MLX5_TM_OPCODE_APPEND :: u8 where "MLX5_TM_OPCODE_APPEND \<equiv> 1"
abbreviation (input) MLX5_TM_OPCODE_REMOVE :: u8 where "MLX5_TM_OPCODE_REMOVE \<equiv> 2"
abbreviation (input) MLX5_SRQ_FLAG_TM_SW_CNT :: u8 where "MLX5_SRQ_FLAG_TM_SW_CNT \<equiv> 64"
abbreviation (input) MLX5_SRQ_FLAG_TM_CQE_REQ :: u8 where "MLX5_SRQ_FLAG_TM_CQE_REQ \<equiv> 128"
abbreviation (input) MLX5_TMC_SUCCESS :: u32 where "MLX5_TMC_SUCCESS \<equiv> 0x80000000"
abbreviation (input) MLX5_INLINE_SCATTER_32 :: u8 where "MLX5_INLINE_SCATTER_32 \<equiv> 4"
abbreviation (input) MLX5_INLINE_SCATTER_64 :: u8 where "MLX5_INLINE_SCATTER_64 \<equiv> 8"
abbreviation (input) MLX5_TM_MAX_SYNC_DIFF :: int where "MLX5_TM_MAX_SYNC_DIFF \<equiv> 0x3fff"
abbreviation (input) IBV_WC_TM_ERR :: nat where "IBV_WC_TM_ERR \<equiv> 22"
abbreviation (input) IBV_WC_TM_RNDV_INCOMPLETE :: nat where "IBV_WC_TM_RNDV_INCOMPLETE \<equiv> 23"

datatype ibv_ops_wr_opcode = IBV_WR_TAG_ADD | IBV_WR_TAG_DEL | IBV_WR_TAG_SYNC | IBV_WR_OPS_OTHER int

record ibv_ops_wr =
  ow_id :: u64
  ow_opcode :: ibv_ops_wr_opcode
  ow_flags :: u32
  unexpected_cnt :: u32
  ow_handle :: u32
  recv_wr_id :: u64
  add_sg_list :: "ibv_sge list option"
  add_num_sge :: int
  ow_tag :: u64
  ow_mask :: u64

record mlx5_tag_entry =
  tg_next :: "nat option"
  tg_wr_id :: u64
  phase_cnt :: int
  tg_ptr :: u64
  tg_size :: u32
  expect_cqe :: u8

record mlx5_srq_op =
  op_tag :: "nat option"
  op_wr_id :: u64
  op_wqe_head :: u32

text \<open>The tag-matching part of \<open>struct mlx5_srq\<close>; \<open>tm_num\<close> is the number of elements of \<open>tm_list\<close>.\<close>

record tm_srq =
  tm_base :: mlx5_srq
  cmd_qp :: "mlx5_qp option"
  tm_num :: nat
  tm_list :: "nat \<Rightarrow> mlx5_tag_entry"
  tm_head :: nat
  tm_tail :: nat
  srq_op :: "nat \<Rightarrow> mlx5_srq_op"
  op_head :: u32
  op_tail :: u32
  unexp_in :: int
  unexp_out :: int

subsection \<open>Posting\<close>

definition upd_tag :: "nat \<Rightarrow> (mlx5_tag_entry \<Rightarrow> mlx5_tag_entry) \<Rightarrow> tm_srq \<Rightarrow> tm_srq" where
  "upd_tag i f s = s\<lparr>tm_list := (tm_list s)(i := f (tm_list s i))\<rparr>"

definition mlx5_tm_release_tag :: "nat \<Rightarrow> tm_srq \<Rightarrow> tm_srq" where
  "mlx5_tm_release_tag i s =
     (let s1 = upd_tag i (\<lambda>t. t\<lparr>expect_cqe := expect_cqe t - 1\<rparr>) s
      in if expect_cqe (tm_list s1 i) \<noteq> 0 then s1
         else
           (upd_tag (tm_tail s1) (\<lambda>t. t\<lparr>tg_next := Some i\<rparr>) (upd_tag i (\<lambda>t. t\<lparr>tg_next := None\<rparr>) s1))
             \<lparr>tm_tail := i\<rparr>)"

definition mlx5_tm_add_op :: "nat option \<Rightarrow> u64 \<Rightarrow> nat \<Rightarrow> mlx5_qp \<Rightarrow> tm_srq \<Rightarrow> tm_srq" where
  "mlx5_tm_add_op tag wid n qp s =
     (let s1 = s\<lparr>srq_op := (srq_op s)(unat (op_tail s AND (wqe_cnt (sq qp) - 1)) :=
                   \<lparr>op_tag = tag, op_wr_id = wid, op_wqe_head = wq_head (sq qp) + of_nat n\<rparr>),
                 op_tail := op_tail s + 1\<rparr>
      in case tag of None \<Rightarrow> s1 | Some i \<Rightarrow> upd_tag i (\<lambda>t. t\<lparr>expect_cqe := expect_cqe t + 1\<rparr>) s1)"

definition set_tm_seg :: "nat \<Rightarrow> u8 \<Rightarrow> ibv_ops_wr \<Rightarrow> u16 \<Rightarrow> mem \<Rightarrow> mem" where
  "set_tm_seg seg op wr index m =
     (let sync = has_flag (ow_flags wr) IBV_OPS_TM_SYNC;
          flags = (if has_flag (ow_flags wr) IBV_OPS_SIGNALED then MLX5_SRQ_FLAG_TM_CQE_REQ else 0) OR
                  (if sync then MLX5_SRQ_FLAG_TM_SW_CNT else 0);
          m1 = st8 (seg + 1) flags m;
          m2 = (if sync then st_be16 (seg + 6) (ucast (unexpected_cnt wr)) m1 else m1);
          m3 = st8 seg (push_bit 4 op) m2;
          m4 = st_be16 (seg + 2) index m3
      in if op = MLX5_TM_OPCODE_NOP then m3
         else if op = MLX5_TM_OPCODE_REMOVE then m4
         else st_be64 (seg + 24) (ow_mask wr) (st_be64 (seg + 16) (ow_tag wr) m4))"

definition first_sge :: "ibv_ops_wr \<Rightarrow> ibv_sge res" where
  "first_sge wr =
     (case add_sg_list wr of None \<Rightarrow> Inl Segfault | Some [] \<Rightarrow> Inl OutOfBounds | Some (sg # _) \<Rightarrow> Inr sg)"

text \<open>
  One request: the error, the handle it returns, the size of the descriptor and the new state.  \<open>seg\<close> is
  the position after the control segment.
\<close>

definition tag_add :: "nat \<Rightarrow> ibv_ops_wr \<Rightarrow> nat \<Rightarrow> mlx5_qp \<Rightarrow> tm_srq \<Rightarrow> (nat \<times> u32 \<times> nat \<times> mlx5_qp \<times> tm_srq) res" where
  "tag_add n wr seg qp s =
     (let h = tm_head s
      in case tg_next (tm_list s h) of
           None \<Rightarrow> Inr (ENOMEM, ow_handle wr, 1, qp, s)
         | Some nx \<Rightarrow>
             let m1 = set_tm_seg seg MLX5_TM_OPCODE_APPEND wr (of_nat nx) (sq_mem qp);
                 uo = (if has_flag (ow_flags wr) IBV_OPS_TM_SYNC then sint (unexpected_cnt wr) else unexp_out s);
                 s1 = upd_tag h (\<lambda>t. t\<lparr>tg_next := None, tg_wr_id := recv_wr_id wr, phase_cnt := uo,
                                        expect_cqe := expect_cqe t + 1\<rparr>) (s\<lparr>tm_head := nx, unexp_out := uo\<rparr>);
                 s2 = (if has_flag (ow_flags wr) IBV_OPS_SIGNALED then mlx5_tm_add_op (Some h) (ow_id wr) n qp s1 else s1);
                 d = wrap_end qp (seg + 32)
             in if add_num_sge wr = 0 then Inr (0, of_nat h, 4, qp\<lparr>sq_mem := set_data_ptr_seg_end d m1\<rparr>, s2)
                else bind_res (first_sge wr) (\<lambda>sg.
                  if sge_length sg = 0 then Inr (0, of_nat h, 4, qp\<lparr>sq_mem := set_data_ptr_seg_end d m1\<rparr>, s2)
                  else Inr (0, of_nat h, 4, qp\<lparr>sq_mem := set_data_ptr_seg d sg 0 m1\<rparr>,
                            upd_tag h (\<lambda>t. t\<lparr>tg_ptr := sge_addr sg, tg_size := sge_length sg\<rparr>) s2)))"

definition tag_del :: "nat \<Rightarrow> ibv_ops_wr \<Rightarrow> nat \<Rightarrow> mlx5_qp \<Rightarrow> tm_srq \<Rightarrow> (nat \<times> u32 \<times> nat \<times> mlx5_qp \<times> tm_srq) res" where
  "tag_del n wr seg qp s =
     (let i = unat (ow_handle wr)
      in if tm_num s \<le> i then Inl OutOfBounds
         else Inr (0, ow_handle wr, 3, qp\<lparr>sq_mem := set_tm_seg seg MLX5_TM_OPCODE_REMOVE wr (ucast (ow_handle wr)) (sq_mem qp)\<rparr>,
                if has_flag (ow_flags wr) IBV_OPS_SIGNALED then mlx5_tm_add_op (Some i) (ow_id wr) n qp s
                else mlx5_tm_release_tag i s))"

definition tag_sync :: "nat \<Rightarrow> ibv_ops_wr \<Rightarrow> nat \<Rightarrow> mlx5_qp \<Rightarrow> tm_srq \<Rightarrow> (nat \<times> u32 \<times> nat \<times> mlx5_qp \<times> tm_srq) res" where
  "tag_sync n wr seg qp s =
     Inr (0, ow_handle wr, 3, qp\<lparr>sq_mem := set_tm_seg seg MLX5_TM_OPCODE_NOP wr 0 (sq_mem qp)\<rparr>,
       if has_flag (ow_flags wr) IBV_OPS_SIGNALED then mlx5_tm_add_op None (ow_id wr) n qp s else s)"

definition tag_op :: "nat \<Rightarrow> ibv_ops_wr \<Rightarrow> nat \<Rightarrow> mlx5_qp \<Rightarrow> tm_srq \<Rightarrow> (nat \<times> u32 \<times> nat \<times> mlx5_qp \<times> tm_srq) res" where
  "tag_op n wr seg qp s =
     (case ow_opcode wr of
        IBV_WR_TAG_ADD \<Rightarrow> tag_add n wr seg qp s
      | IBV_WR_TAG_DEL \<Rightarrow> tag_del n wr seg qp s
      | IBV_WR_TAG_SYNC \<Rightarrow> tag_sync n wr seg qp s
      | IBV_WR_OPS_OTHER _ \<Rightarrow> Inr (EINVAL, ow_handle wr, 1, qp, s))"

text \<open>The end of a descriptor: its control segment and the producer index.\<close>

definition tag_finish :: "nat \<Rightarrow> nat \<Rightarrow> mlx5_qp \<Rightarrow> mlx5_qp" where
  "tag_finish ctrl sz qp =
     (let w = sq qp;
          m1 = st_be32 ctrl (MLX5_OPCODE_TAG_MATCHING OR push_bit 8 (cur_post w AND 0xffff)) (sq_mem qp);
          m2 = st_be32 (ctrl + 4) (of_nat sz OR push_bit 8 (qp_num (ibqp qp))) m1
      in qp\<lparr>sq_mem := (if wq_sig qp then st8 (ctrl + 8) (wqe_sig ctrl m2) m2 else m2),
            sq := w\<lparr>cur_post := cur_post w + of_nat ((sz * 16 + 63) div 64)\<rparr>\<rparr>)"

text \<open>
  The loop: the error, the handles of the requests that were posted, and the state with the control
  segment and the size that the doorbell will use.
\<close>

fun ops_loop ::
    "nat \<Rightarrow> ibv_ops_wr list \<Rightarrow> nat \<times> nat \<Rightarrow> mlx5_qp \<Rightarrow> tm_srq \<Rightarrow>
     (nat \<times> u32 list \<times> (nat \<times> nat) \<times> mlx5_qp \<times> tm_srq) res" where
  "ops_loop n [] c qp s = Inr (0, [], c, qp, s)"
| "ops_loop n (wr # wrs) c qp s =
     (if mlx5_wq_overflow (sq qp) n then Inr (ENOMEM, [], c, qp, s)
      else
        let ctrl = mlx5_get_send_wqe (sq_idx qp);
            qp0 = qp\<lparr>sq_mem := memset0 (ctrl + 8) 8 (sq_mem qp)\<rparr>
        in bind_res (tag_op n wr (ctrl + 16) qp0 s) (\<lambda>(e, hd, sz, qp1, s1).
             if e \<noteq> 0 then Inr (e, [], (ctrl, 1), qp1, s1)
             else bind_res (ops_loop (Suc n) wrs (ctrl, sz) (tag_finish ctrl sz qp1) s1) (\<lambda>(e', hs, c', r).
                    Inr (e', hd # hs, c', r))))"

definition mlx5_post_srq_ops :: "ibv_ops_wr list \<Rightarrow> tm_srq \<Rightarrow> (nat \<times> u32 list \<times> tm_srq) res" where
  "mlx5_post_srq_ops wrs s =
     (case cmd_qp s of
        None \<Rightarrow> Inr (EINVAL, [], s)
      | Some qp \<Rightarrow>
          bind_res (ops_loop 0 wrs (0, 0) qp s) (\<lambda>(e, hs, (ctrl, sz), qp1, s1).
            Inr (e, hs, s1\<lparr>cmd_qp := Some (post_send_db (length hs) False sz ctrl (qp1\<lparr>fm_cache := 0\<rparr>))\<rparr>)))"

subsection \<open>Completions\<close>

text \<open>
  The fields of a completion entry; \<open>cqe_data32\<close> and \<open>cqe_data64\<close> are the bytes from its start and from
  the 64 bytes before it.
\<close>

record tm_cqe =
  app_op :: u8
  app_info :: u16
  op_own :: u8
  byte_cnt :: u32
  tm_success :: u32
  hw_phase_cnt :: u16
  wqe_counter :: u16
  cqe_data32 :: "u8 list"
  cqe_data64 :: "u8 list"

record tm_cq =
  cq_status :: nat
  cq_wr_id :: u64
  tm_sync_req :: bool

abbreviation (input) TM_CONSUMED :: u8 where "TM_CONSUMED \<equiv> 1"
abbreviation (input) TM_EXPECTED :: u8 where "TM_EXPECTED \<equiv> 2"
abbreviation (input) TM_UNEXPECTED :: u8 where "TM_UNEXPECTED \<equiv> 3"
abbreviation (input) TM_NO_TAG :: u8 where "TM_NO_TAG \<equiv> 4"
abbreviation (input) TM_APPEND :: u8 where "TM_APPEND \<equiv> 5"
abbreviation (input) TM_REMOVE :: u8 where "TM_REMOVE \<equiv> 6"
abbreviation (input) TM_NOOP :: u8 where "TM_NOOP \<equiv> 7"
abbreviation (input) TM_CONSUMED_SW_RDNV :: u8 where "TM_CONSUMED_SW_RDNV \<equiv> 9"
abbreviation (input) TM_CONSUMED_MSG :: u8 where "TM_CONSUMED_MSG \<equiv> 10"
abbreviation (input) TM_CONSUMED_MSG_SW_RDNV :: u8 where "TM_CONSUMED_MSG_SW_RDNV \<equiv> 11"
abbreviation (input) TM_MSG_COMPLETION_CANCELED :: u8 where "TM_MSG_COMPLETION_CANCELED \<equiv> 12"

definition mlx5_cqe_app_op_tm_is_complete :: "u8 \<Rightarrow> bool" where
  "mlx5_cqe_app_op_tm_is_complete op \<longleftrightarrow> op \<noteq> TM_CONSUMED \<and> op \<noteq> TM_CONSUMED_SW_RDNV"

definition rndv_op :: "u8 \<Rightarrow> bool" where
  "rndv_op op \<longleftrightarrow> op = TM_CONSUMED_MSG_SW_RDNV \<or> op = TM_CONSUMED_SW_RDNV \<or> op = TM_MSG_COMPLETION_CANCELED"

definition consume_op :: "u8 \<Rightarrow> bool" where
  "consume_op op \<longleftrightarrow> rndv_op op \<or> op = TM_CONSUMED_MSG \<or> op = TM_CONSUMED \<or> op = TM_EXPECTED"

definition list_op :: "u8 \<Rightarrow> bool" where
  "list_op op \<longleftrightarrow> op = TM_REMOVE \<or> op = TM_APPEND \<or> op = TM_NOOP"

definition tm_consumed :: "tm_cqe \<Rightarrow> tm_cq \<Rightarrow> tm_srq \<times> user_mem \<Rightarrow> (int \<times> tm_cq \<times> tm_srq \<times> user_mem) res" where
  "tm_consumed c cq st =
     (case st of (s, um) \<Rightarrow>
        let i = unat (app_info c); t = tm_list s i;
            cq1 = cq\<lparr>cq_status := (if rndv_op (app_op c) then IBV_WC_TM_RNDV_INCOMPLETE else IBV_WC_SUCCESS)\<rparr>
        in if tm_num s \<le> i then Inl OutOfBounds
           else if expect_cqe t = 0 then Inr (0, cq1\<lparr>cq_status := IBV_WC_GENERAL_ERR\<rparr>, s, um)
           else
             let cq2 = cq1\<lparr>cq_wr_id := tg_wr_id t\<rparr>;
                 s1 = (if mlx5_cqe_app_op_tm_is_complete (app_op c) then mlx5_tm_release_tag i s else s)
             in if op_own c AND MLX5_INLINE_SCATTER_64 = 0 then Inr (0, cq2, s1, um)
                else if tg_size (tm_list s1 i) < byte_cnt c then Inr (0, cq2\<lparr>cq_status := IBV_WC_LOC_LEN_ERR\<rparr>, s1, um)
                else Inr (0, cq2, s1, user_store (tg_ptr (tm_list s1 i)) (take (unat (byte_cnt c)) (cqe_data64 c)) um))"

definition tm_list_op :: "tm_cqe \<Rightarrow> tm_cq \<Rightarrow> tm_srq \<Rightarrow> (int \<times> tm_cq \<times> tm_srq) res" where
  "tm_list_op c cq s =
     (case cmd_qp s of
        None \<Rightarrow> Inl Segfault
      | Some qp \<Rightarrow>
          let ok = (app_op c \<noteq> TM_REMOVE \<or> tm_success c AND MLX5_TMC_SUCCESS \<noteq> 0);
              cq1 = cq\<lparr>cq_status := (if ok then IBV_WC_SUCCESS else IBV_WC_TM_ERR)\<rparr>;
              op = srq_op s (unat (op_head s AND (wqe_cnt (sq qp) - 1)));
              s1 = s\<lparr>op_head := op_head s + 1\<rparr>;
              s2 = (case op_tag op of
                      None \<Rightarrow> s1
                    | Some i \<Rightarrow>
                        let s' = mlx5_tm_release_tag i s1
                        in if app_op c = TM_REMOVE \<and> ok then mlx5_tm_release_tag i s' else s');
              cq2 = (case op_tag op of
                       None \<Rightarrow> cq1
                     | Some i \<Rightarrow> if int (unat (hw_phase_cnt c)) \<noteq> phase_cnt (tm_list s2 i) then cq1\<lparr>tm_sync_req := True\<rparr> else cq1)
          in Inr (0, cq2\<lparr>cq_wr_id := op_wr_id op\<rparr>,
                  s2\<lparr>cmd_qp := Some (qp\<lparr>sq := (sq qp)\<lparr>wq_tail := op_wqe_head op + 1\<rparr>\<rparr>)\<rparr>))"

definition tm_untagged :: "tm_cqe \<Rightarrow> tm_cq \<Rightarrow> tm_srq \<times> user_mem \<Rightarrow> (int \<times> tm_cq \<times> tm_srq \<times> user_mem) res" where
  "tm_untagged c cq st =
     (case st of (s, um) \<Rightarrow>
        let un = (app_op c = TM_UNEXPECTED);
            s1 = (if un then s\<lparr>unexp_in := unexp_in s + 1\<rparr> else s);
            cq1 = cq\<lparr>cq_status := IBV_WC_SUCCESS,
                     tm_sync_req := tm_sync_req cq \<or> un \<and> MLX5_TM_MAX_SYNC_DIFF < unexp_in s1 - unexp_out s1\<rparr>;
            i = unat (wqe_counter c); b = tm_base s1; b1 = mlx5_free_srq_wqe i b;
            s2 = s1\<lparr>tm_base := b1\<rparr>; cq2 = cq1\<lparr>cq_wr_id := srq_wrid b i\<rparr>; n = unat (byte_cnt c)
        in if srq_max b \<le> i then Inl OutOfBounds
           else if op_own c AND MLX5_INLINE_SCATTER_32 \<noteq> 0 then
             (case mlx5_copy_to_recv_srq b1 i (take n (cqe_data32 c)) um of (r, um1) \<Rightarrow> Inr (int r, cq2, s2, um1))
           else if op_own c AND MLX5_INLINE_SCATTER_64 \<noteq> 0 then
             (case mlx5_copy_to_recv_srq b1 i (take n (cqe_data64 c)) um of (r, um1) \<Rightarrow> Inr (int r, cq2, s2, um1))
           else Inr (0, cq2, s2, um))"

definition handle_tag_matching :: "tm_cqe \<Rightarrow> tm_cq \<Rightarrow> tm_srq \<times> user_mem \<Rightarrow> (int \<times> tm_cq \<times> tm_srq \<times> user_mem) res" where
  "handle_tag_matching c cq st =
     (if consume_op (app_op c) then tm_consumed c cq st
      else if list_op (app_op c) then
        bind_res (tm_list_op c cq (fst st)) (\<lambda>(r, cq', s'). Inr (r, cq', s', snd st))
      else if app_op c = TM_UNEXPECTED \<or> app_op c = TM_NO_TAG then tm_untagged c cq st
      else Inr (0, cq\<lparr>cq_status := IBV_WC_SUCCESS\<rparr>, st))"

text \<open>The tags of a new queue: a list of \<open>num + 1\<close> entries of which one always stays free.\<close>

definition zero_tag :: mlx5_tag_entry where
  "zero_tag = \<lparr>tg_next = None, tg_wr_id = 0, phase_cnt = 0, tg_ptr = 0, tg_size = 0, expect_cqe = 0\<rparr>"

definition init_tags :: "nat \<Rightarrow> mlx5_qp \<Rightarrow> mlx5_srq \<Rightarrow> tm_srq" where
  "init_tags num qp b =
     \<lparr>tm_base = b, cmd_qp = Some qp, tm_num = num + 1,
      tm_list = (\<lambda>i. zero_tag\<lparr>tg_next := (if i < num then Some (i + 1) else None)\<rparr>),
      tm_head = 0, tm_tail = num, srq_op = (\<lambda>_. \<lparr>op_tag = None, op_wr_id = 0, op_wqe_head = 0\<rparr>),
      op_head = 0, op_tail = 0, unexp_in = 0, unexp_out = 0\<rparr>"

subsection \<open>Memory windows\<close>

definition ibv_inc_rkey :: "u32 \<Rightarrow> u32" where
  "ibv_inc_rkey rkey = (rkey AND NOT 0xff) OR ((rkey + 1) AND 0xff)"

record ibv_mw_bind =
  mwb_wr_id :: u64
  mwb_send_flags :: u32
  mwb_info :: ibv_mw_bind_info

text \<open>
  \<open>mr\<close> is what the code reads of the memory region of the binding, if there is one: whether it is a
  plain region, and its allocation flags.  The result has the error, the key of the window and the state.
\<close>

definition mlx5_bind_mw ::
    "(ibv_qp \<Rightarrow> qp_attr) \<Rightarrow> (u8 list \<Rightarrow> string) \<Rightarrow> bool \<Rightarrow> int \<Rightarrow> int \<Rightarrow> user_mem \<Rightarrow> (bool \<times> u32) option \<Rightarrow> ibv_mw_type \<Rightarrow>
     ibv_mw_bind \<Rightarrow> u32 \<Rightarrow> mlx5_qp \<times> SHM \<Rightarrow> (nat \<times> u32 \<times> mlx5_qp \<times> SHM) res" where
  "mlx5_bind_mw query ntop att sec nsec um mr mw_type b rkey s =
     (if has_flag (bi_access (mwb_info b)) IBV_ACCESS_ZERO_BASED then Inr (EINVAL, rkey, s)
      else if (case mr of None \<Rightarrow> False | Some (plain, _) \<Rightarrow> \<not> plain) then Inr (EOPNOTSUPP, rkey, s)
      else if (case mr of None \<Rightarrow> False | Some (_, fl) \<Rightarrow> has_flag fl IBV_ACCESS_ZERO_BASED) then Inr (EINVAL, rkey, s)
      else
        let wr = zero_wr\<lparr>opcode := IBV_WR_BIND_MW, wr_id := mwb_wr_id b, send_flags := mwb_send_flags b,
                          bind_info := mwb_info b, bind_mw_rkey := rkey, bind_mw_type := mw_type,
                          bind_rkey := ibv_inc_rkey rkey\<rparr>
        in bind_res (mlx5_post_send query ntop att sec nsec um [wr] s) (\<lambda>(e, n, s').
             Inr (e, if e = 0 then ibv_inc_rkey rkey else rkey, s')))"

subsection \<open>The queue of free tags\<close>

text \<open>
  The queue holds \<open>fr\<close> and tag \<open>i\<close> expects \<open>exp i\<close> completions: the free tags are exactly the ones that
  expect none, and only the last one has no successor.
\<close>

definition tag_queue :: "nat list \<Rightarrow> (nat \<Rightarrow> nat) \<Rightarrow> tm_srq \<Rightarrow> bool" where
  "tag_queue fr exp s \<longleftrightarrow>
     ends (\<lambda>i. the (tg_next (tm_list s i))) (tm_head s) (tm_tail s) fr \<and> distinct fr \<and>
     (\<forall>i \<in> set fr. tg_next (tm_list s i) = None \<longleftrightarrow> i = tm_tail s) \<and>
     (\<forall>i. i \<in> set fr \<longleftrightarrow> i < tm_num s \<and> exp i = 0) \<and>
     (\<forall>i. expect_cqe (tm_list s i) = of_nat (exp i) \<and> exp i < 256)"

lemma upd_tag_fields [simp]:
  "tm_list (upd_tag i f s) = (tm_list s)(i := f (tm_list s i))" "tm_head (upd_tag i f s) = tm_head s"
  "tm_tail (upd_tag i f s) = tm_tail s" "tm_num (upd_tag i f s) = tm_num s" "srq_op (upd_tag i f s) = srq_op s"
  "op_head (upd_tag i f s) = op_head s" "op_tail (upd_tag i f s) = op_tail s" "tm_base (upd_tag i f s) = tm_base s"
  "cmd_qp (upd_tag i f s) = cmd_qp s"
  by (simp_all add: upd_tag_def)

lemma tag_queue_cong:
  assumes "tag_queue fr exp s" "tm_head s' = tm_head s" "tm_tail s' = tm_tail s" "tm_num s' = tm_num s"
    and "\<And>i. tg_next (tm_list s' i) = tg_next (tm_list s i)" "\<And>i. expect_cqe (tm_list s' i) = expect_cqe (tm_list s i)"
  shows "tag_queue fr exp s'"
  using assms by (simp add: tag_queue_def)

lemma of_nat_u8_eq: "(of_nat k :: u8) = 0 \<longleftrightarrow> k = 0" if "k < 256" for k
  using that unat_of_nat_small [of k, where ?'a = 8] by (auto simp: unat_eq_zero [symmetric])

lemma tag_queue_incr:
  assumes q: "tag_queue fr exp s" and i: "i < tm_num s" "0 < exp i" "exp i < 255"
  shows "tag_queue fr (exp(i := Suc (exp i))) (upd_tag i (\<lambda>t. t\<lparr>expect_cqe := expect_cqe t + 1\<rparr>) s)"
proof -
  have "(\<lambda>j. the (tg_next (tm_list (upd_tag i (\<lambda>t. t\<lparr>expect_cqe := expect_cqe t + 1\<rparr>) s) j))) = (\<lambda>j. the (tg_next (tm_list s j)))"
    by (auto simp: fun_eq_iff)
  with q i show ?thesis unfolding tag_queue_def by (auto simp: add.commute)
qed

lemma tag_queue_push:
  assumes q: "tag_queue fr exp s" and i: "i < tm_num s" "exp i = 1"
  shows "tag_queue (fr @ [i]) (exp(i := 0)) (mlx5_tm_release_tag i s)"
proof -
  let ?nx = "\<lambda>j. the (tg_next (tm_list s j))"
  have n: "i \<notin> set fr" and e: "ends ?nx (tm_head s) (tm_tail s) fr" and d: "distinct fr"
    using q i by (auto simp: tag_queue_def)
  have t: "tm_tail s \<in> set fr" using ends_in [OF e] by simp
  then have ti: "tm_tail s \<noteq> i" using n by auto
  have x: "expect_cqe (tm_list s i) = 1" using q i by (simp add: tag_queue_def)
  let ?s = "mlx5_tm_release_tag i s"
  have l: "tm_list ?s = (tm_list s)(i := (tm_list s i)\<lparr>expect_cqe := 0, tg_next := None\<rparr>,
             tm_tail s := (tm_list s (tm_tail s))\<lparr>tg_next := Some i\<rparr>)"
    and f: "tm_head ?s = tm_head s" "tm_tail ?s = i" "tm_num ?s = tm_num s"
    using x ti by (auto simp: mlx5_tm_release_tag_def Let_def fun_eq_iff)
  have "(\<lambda>j. the (tg_next (tm_list ?s j))) = (?nx(i := the None))(tm_tail s := i)"
    using ti by (auto simp: l fun_eq_iff)
  moreover have "ends ((?nx(i := the None))(tm_tail s := i)) (tm_head s) i (fr @ [i])"
    by (rule ends_push [OF ends_other [OF e n] d])
  ultimately have "ends (\<lambda>j. the (tg_next (tm_list ?s j))) (tm_head ?s) (tm_tail ?s) (fr @ [i])" by (simp add: f)
  moreover have "\<forall>j \<in> set (fr @ [i]). tg_next (tm_list ?s j) = None \<longleftrightarrow> j = tm_tail ?s"
    using q n ti by (auto simp: l f tag_queue_def)
  moreover have "\<forall>j. j \<in> set (fr @ [i]) \<longleftrightarrow> j < tm_num ?s \<and> (exp(i := 0)) j = 0"
    using q i by (auto simp: f tag_queue_def)
  moreover have "\<forall>j. expect_cqe (tm_list ?s j) = of_nat ((exp(i := 0)) j) \<and> (exp(i := 0)) j < 256"
    using q ti by (auto simp: l tag_queue_def)
  ultimately show ?thesis using d n by (simp add: tag_queue_def)
qed

lemma tag_queue_decr:
  assumes q: "tag_queue fr exp s" and i: "exp i = Suc k" "0 < k"
  shows "tag_queue fr (exp(i := k)) (mlx5_tm_release_tag i s)"
proof -
  have "exp i < 256" "expect_cqe (tm_list s i) = of_nat (exp i)" using q by (simp_all add: tag_queue_def)
  then have x: "expect_cqe (tm_list s i) = of_nat k + 1" "Suc k < 256" using i(1) by simp_all
  then have "(of_nat k :: u8) \<noteq> 0" using i(2) of_nat_u8_eq [of k] by simp
  then have r: "mlx5_tm_release_tag i s = upd_tag i (\<lambda>t. t\<lparr>expect_cqe := of_nat k\<rparr>) s"
    using x by (simp add: mlx5_tm_release_tag_def upd_tag_def Let_def)
  have "(\<lambda>j. the (tg_next (tm_list (upd_tag i (\<lambda>t. t\<lparr>expect_cqe := of_nat k\<rparr>) s) j))) = (\<lambda>j. the (tg_next (tm_list s j)))"
    by (auto simp: fun_eq_iff)
  with q i x(2) show ?thesis unfolding tag_queue_def r by auto
qed

lemma tag_queue_release:
  assumes q: "tag_queue fr exp s" and i: "i < tm_num s" "exp i = Suc k"
  shows "tag_queue (if k = 0 then fr @ [i] else fr) (exp(i := k)) (mlx5_tm_release_tag i s)"
  using tag_queue_push [OF q i(1)] tag_queue_decr [OF q i(2)] i(2) by simp

text \<open>Taking the first free tag, as \<open>IBV_WR_TAG_ADD\<close> does.\<close>

lemma tag_queue_take:
  assumes q: "tag_queue fr exp s" and t: "tl fr \<noteq> []"
    and s': "tm_list s' = (tm_list s)(tm_head s := te)" "tm_head s' = the (tg_next (tm_list s (tm_head s)))"
      "tm_tail s' = tm_tail s" "tm_num s' = tm_num s" "expect_cqe te = 1"
  shows "tag_queue (tl fr) (exp(tm_head s := 1)) s'"
proof -
  let ?nx = "\<lambda>j. the (tg_next (tm_list s j))" and ?h = "tm_head s"
  have e: "ends ?nx ?h (tm_tail s) fr" and d: "distinct fr" using q by (auto simp: tag_queue_def)
  then obtain xs where fr: "fr = ?h # xs" "xs \<noteq> []" "?h \<notin> set xs" using t by (cases fr) (auto simp: ends_def)
  have "(\<lambda>j. the (tg_next (tm_list s' j))) = ?nx(?h := the (tg_next te))" by (auto simp: s' fun_eq_iff)
  moreover have "ends (?nx(?h := the (tg_next te))) (?nx ?h) (tm_tail s) xs"
    using ends_other [OF ends_pop [OF e t]] fr by (metis list.sel(3))
  moreover have "\<forall>i. i \<in> set xs \<longleftrightarrow> i < tm_num s \<and> (exp(?h := 1)) i = 0"
    using q fr by (auto simp: tag_queue_def)
  ultimately show ?thesis using q fr d by (auto simp: tag_queue_def s')
qed

lemma tag_queue_last: "tag_queue fr exp s \<Longrightarrow> tg_next (tm_list s (tm_head s)) = None \<longleftrightarrow> tl fr = []"
  using ends_in [of _ "tm_head s" "tm_tail s" fr] ends_same [of _ "tm_head s" "tm_tail s" fr]
  unfolding tag_queue_def by blast

end
