(* ===== verification/Tag_Spec.thy ===== *)
theory Tag_Spec
  imports Tag_Match
begin

text \<open>
  The tag list of a shared receive queue as its users see it: a queue of free tags, the tags the adapter
  holds, and the list operations whose completions have not been polled.  The relation \<open>tm_rel\<close>
  connects it with the entries, the ring of pending operations and the command queue of
  \<open>mlx5_post_srq_ops\<close> and \<open>handle_tag_matching\<close>, and \<open>simulation\<close> lifts the refinement of single
  operations to sequences of posts and completions.
\<close>

subsection \<open>The abstract tag list\<close>

text \<open>
  The sizes of a queue: the logarithm of the number of descriptors of the command queue, the number of
  requests it takes, the number of tags, and the number of receive descriptors with their identifiers.
\<close>

record tm_cfg =
  cfg_bits :: nat
  cfg_post :: nat
  cfg_tags :: nat
  cfg_srq :: nat
  cfg_wrid :: "nat \<Rightarrow> u64"

text \<open>
  A pending operation is its tag, its identifier and the number of its request.  \<open>q_head\<close> counts the
  requests posted, \<open>q_tail\<close> the ones completed, \<open>q_op\<close> the list operations completed.
\<close>

record tm_abs =
  q_free :: "nat list"
  q_live :: "nat set"
  q_recv :: "nat \<Rightarrow> u64"
  q_buf :: "nat \<Rightarrow> u64 \<times> u32"
  q_pend :: "(nat option \<times> u64 \<times> nat) list"
  q_op :: nat
  q_head :: nat
  q_tail :: nat

text \<open>The completions a tag still expects.\<close>

definition expected :: "tm_abs \<Rightarrow> nat \<Rightarrow> nat" where
  "expected a i = (if i \<in> q_live a then 1 else 0) + length (filter (\<lambda>p. fst p = Some i) (q_pend a))"

definition q_post :: "ibv_ops_wr \<Rightarrow> nat option \<Rightarrow> tm_abs \<Rightarrow> tm_abs" where
  "q_post wr t a =
     a\<lparr>q_pend := q_pend a @ (if has_flag (ow_flags wr) IBV_OPS_SIGNALED then [(t, ow_id wr, q_head a)] else []),
       q_head := Suc (q_head a)\<rparr>"

text \<open>The tag leaves the adapter; it becomes free when it expects nothing else.\<close>

definition q_drop :: "nat \<Rightarrow> tm_abs \<Rightarrow> tm_abs" where
  "q_drop i a =
     a\<lparr>q_live := q_live a - {i}, q_free := (if expected a i = 1 then q_free a @ [i] else q_free a)\<rparr>"

definition sge_given :: "ibv_ops_wr \<Rightarrow> bool" where
  "sge_given wr \<longleftrightarrow> add_num_sge wr = 0 \<or> (case add_sg_list wr of None \<Rightarrow> False | Some xs \<Rightarrow> xs \<noteq> [])"

text \<open>
  The buffer of a tag, its address and length.  As in the code a request with an empty scatter list leaves that of
  the previous use of the tag.
\<close>

definition buf_of :: "ibv_ops_wr \<Rightarrow> u64 \<times> u32 \<Rightarrow> u64 \<times> u32" where
  "buf_of wr old =
     (if add_num_sge wr = 0 then old
      else case add_sg_list wr of
             Some (sg # _) \<Rightarrow> if sge_length sg = 0 then old else (sge_addr sg, sge_length sg)
           | _ \<Rightarrow> old)"

text \<open>
  One request.  \<open>None\<close> when the caller breaks the contract: a scatter list that is missing, or a tag to
  remove that the adapter does not hold or that has more operations pending than its counter holds.
\<close>

definition q_tag_op :: "ibv_ops_wr \<Rightarrow> tm_abs \<Rightarrow> (nat \<times> u32 \<times> tm_abs) option" where
  "q_tag_op wr a =
     (case ow_opcode wr of
        IBV_WR_TAG_ADD \<Rightarrow>
          if tl (q_free a) = [] then Some (ENOMEM, ow_handle wr, a)
          else if \<not> sge_given wr then None
          else
            let h = hd (q_free a)
            in Some (0, of_nat h, q_post wr (Some h)
                 (a\<lparr>q_free := tl (q_free a), q_live := insert h (q_live a), q_recv := (q_recv a)(h := recv_wr_id wr),
                     q_buf := (q_buf a)(h := buf_of wr (q_buf a h))\<rparr>))
      | IBV_WR_TAG_DEL \<Rightarrow>
          let i = unat (ow_handle wr)
          in if i \<notin> q_live a \<or> 255 \<le> expected a i then None
             else if has_flag (ow_flags wr) IBV_OPS_SIGNALED then Some (0, ow_handle wr, q_post wr (Some i) a)
             else Some (0, ow_handle wr, q_post wr (Some i) (q_drop i a))
      | IBV_WR_TAG_SYNC \<Rightarrow> Some (0, ow_handle wr, q_post wr None a)
      | IBV_WR_OPS_OTHER _ \<Rightarrow> Some (EINVAL, ow_handle wr, a))"

fun q_ops :: "nat \<Rightarrow> ibv_ops_wr list \<Rightarrow> tm_abs \<Rightarrow> (nat \<times> u32 list \<times> tm_abs) option" where
  "q_ops mp [] a = Some (0, [], a)"
| "q_ops mp (wr # wrs) a =
     (if mp \<le> q_head a - q_tail a then Some (ENOMEM, [], a)
      else case q_tag_op wr a of
             None \<Rightarrow> None
           | Some (e, h, a1) \<Rightarrow>
               if e \<noteq> 0 then Some (e, [], a1)
               else (case q_ops mp wrs a1 of None \<Rightarrow> None | Some (e', hs, a2) \<Rightarrow> Some (e', h # hs, a2)))"

text \<open>
  Completions: the status and the identifier they report.  A message that comes with the completion of its tag must
  fit the buffer of the tag.  \<open>None\<close> when the adapter breaks its contract:
  it consumes a tag it does not hold, completes an operation nobody posted, removes a tag it has
  already consumed, names a receive descriptor that does not exist or an operation the interface does not have.
\<close>

definition q_consumed :: "tm_cqe \<Rightarrow> tm_abs \<Rightarrow> ((nat \<times> u64) \<times> tm_abs) option" where
  "q_consumed c a =
     (let i = unat (app_info c)
      in if i \<notin> q_live a then None
         else Some ((if op_own c AND MLX5_INLINE_SCATTER_64 \<noteq> 0 \<and> snd (q_buf a i) < byte_cnt c then IBV_WC_LOC_LEN_ERR
                     else if rndv_op (app_op c) then IBV_WC_TM_RNDV_INCOMPLETE else IBV_WC_SUCCESS, q_recv a i),
                    if mlx5_cqe_app_op_tm_is_complete (app_op c) then q_drop i a else a))"

definition q_pop :: "tm_abs \<Rightarrow> tm_abs" where
  "q_pop a =
     (case q_pend a of
        [] \<Rightarrow> a
      | (t, w, p) # ps \<Rightarrow>
          a\<lparr>q_pend := ps, q_op := Suc (q_op a), q_tail := Suc p,
            q_free := (case t of None \<Rightarrow> q_free a | Some i \<Rightarrow> if expected a i = 1 then q_free a @ [i] else q_free a)\<rparr>)"

definition q_list_op :: "tm_cqe \<Rightarrow> tm_abs \<Rightarrow> ((nat \<times> u64) \<times> tm_abs) option" where
  "q_list_op c a =
     (case q_pend a of
        [] \<Rightarrow> None
      | (t, w, p) # ps \<Rightarrow>
          if app_op c \<noteq> TM_REMOVE then Some ((IBV_WC_SUCCESS, w), q_pop a)
          else if tm_success c AND MLX5_TMC_SUCCESS = 0 then Some ((IBV_WC_TM_ERR, w), q_pop a)
          else (case t of
                  None \<Rightarrow> Some ((IBV_WC_SUCCESS, w), q_pop a)
                | Some i \<Rightarrow> if i \<in> q_live a then Some ((IBV_WC_SUCCESS, w), q_drop i (q_pop a)) else None))"

definition q_cqe :: "tm_cfg \<Rightarrow> tm_cqe \<Rightarrow> tm_abs \<Rightarrow> ((nat \<times> u64) \<times> tm_abs) option" where
  "q_cqe cfg c a =
     (if consume_op (app_op c) then q_consumed c a
      else if list_op (app_op c) then q_list_op c a
      else if app_op c = TM_UNEXPECTED \<or> app_op c = TM_NO_TAG then
        if unat (wqe_counter c) < cfg_srq cfg then Some ((IBV_WC_SUCCESS, cfg_wrid cfg (unat (wqe_counter c))), a) else None
      else None)"

datatype tm_event = TmPost "ibv_ops_wr list" | TmCqe tm_cqe

datatype tm_out = Posted nat "u32 list" | Polled nat u64

definition tm_spec :: "tm_cfg \<Rightarrow> tm_event \<Rightarrow> tm_abs \<Rightarrow> (tm_out \<times> tm_abs) option" where
  "tm_spec cfg ev a =
     (case ev of
        TmPost wrs \<Rightarrow> (case q_ops (cfg_post cfg) wrs a of None \<Rightarrow> None | Some (e, hs, a') \<Rightarrow> Some (Posted e hs, a'))
      | TmCqe c \<Rightarrow> (case q_cqe cfg c a of None \<Rightarrow> None | Some ((st, w), a') \<Rightarrow> Some (Polled st w, a')))"

definition new_cq :: tm_cq where
  "new_cq = \<lparr>cq_status = IBV_WC_SUCCESS, cq_wr_id = 0, tm_sync_req = False\<rparr>"

definition tm_exec :: "tm_event \<Rightarrow> tm_srq \<times> user_mem \<Rightarrow> (tm_out \<times> tm_srq \<times> user_mem) res" where
  "tm_exec ev st =
     (case ev of
        TmPost wrs \<Rightarrow> bind_res (mlx5_post_srq_ops wrs (fst st)) (\<lambda>(e, hs, s'). Inr (Posted e hs, s', snd st))
      | TmCqe c \<Rightarrow> bind_res (handle_tag_matching c new_cq st) (\<lambda>(r, cq, st'). Inr (Polled (cq_status cq) (cq_wr_id cq), st')))"

subsection \<open>The ring of pending operations\<close>

definition op_entry :: "nat option \<times> u64 \<times> nat \<Rightarrow> mlx5_srq_op" where
  "op_entry p = (case p of (t, w, k) \<Rightarrow> \<lparr>op_tag = t, op_wr_id = w, op_wqe_head = of_nat k\<rparr>)"

definition op_ring :: "nat \<Rightarrow> (nat option \<times> u64 \<times> nat) list \<Rightarrow> nat \<Rightarrow> tm_srq \<Rightarrow> bool" where
  "op_ring b ps k s \<longleftrightarrow>
     op_head s = of_nat k \<and> op_tail s = of_nat (k + length ps) \<and>
     (\<forall>j < length ps. srq_op s ((k + j) mod 2 ^ b) = op_entry (ps ! j))"

definition in_window :: "(nat option \<times> u64 \<times> nat) list \<Rightarrow> nat \<Rightarrow> nat \<Rightarrow> bool" where
  "in_window ps t h \<longleftrightarrow> sorted_wrt (<) (map (snd \<circ> snd) ps) \<and> (\<forall>p \<in> set ps. t \<le> snd (snd p) \<and> snd (snd p) < h)"

lemma op_index:
  assumes "c = 2 ^ b" "b < 32"
  shows "unat ((of_nat k :: u32) AND (c - 1)) = k mod 2 ^ b"
  using unat_mask_add [OF assms, of 0 k] by simp

lemma window_length:
  assumes "in_window ps t h"
  shows "length ps \<le> h - t"
proof -
  let ?ks = "map (snd \<circ> snd) ps"
  have "distinct ?ks" using assms strict_sorted_iff [of ?ks] by (simp only: in_window_def)
  then have "length ps = card (set ?ks)" using distinct_card [of ?ks] by simp
  also have "\<dots> \<le> card {t..<h}" by (rule card_mono) (use assms in \<open>auto simp: in_window_def\<close>)
  finally show ?thesis by simp
qed

lemma ring_slot:
  assumes "j < j'" "j' < j + 2 ^ b"
  shows "(k + j) mod 2 ^ b \<noteq> (k + j') mod (2 ^ b :: nat)"
proof
  assume "(k + j) mod 2 ^ b = (k + j') mod (2 ^ b :: nat)"
  then have "(2 ^ b :: nat) dvd (k + j') - (k + j)" using assms(1) by (metis mod_eq_dvd_iff_nat add_le_cancel_left less_imp_le)
  then show False using assms by (auto dest!: dvd_imp_le)
qed

lemma op_ring_push:
  assumes r: "op_ring b ps k s" and l: "length ps < 2 ^ b"
    and s': "op_head s' = op_head s" "op_tail s' = op_tail s + 1"
      "srq_op s' = (srq_op s)((k + length ps) mod 2 ^ b := op_entry p)"
  shows "op_ring b (ps @ [p]) k s'"
proof -
  have "srq_op s' ((k + j) mod 2 ^ b) = op_entry ((ps @ [p]) ! j)" if "j < Suc (length ps)" for j
  proof (cases "j = length ps")
    case False
    with that l have "(k + j) mod 2 ^ b \<noteq> (k + length ps) mod 2 ^ b" by (intro ring_slot) auto
    with r False that show ?thesis by (simp add: s' op_ring_def nth_append)
  qed (simp add: s')
  with r show ?thesis by (simp add: op_ring_def s' add.commute)
qed

lemma op_ring_pop:
  assumes "op_ring b (p # ps) k s" "op_head s' = op_head s + 1" "op_tail s' = op_tail s" "srq_op s' = srq_op s"
  shows "op_ring b ps (Suc k) s'"
  using assms by (fastforce simp: op_ring_def)

lemma window_push: "in_window ps t h \<Longrightarrow> t \<le> h \<Longrightarrow> in_window (ps @ [(x, w, h)]) t (Suc h)"
  by (auto simp: in_window_def sorted_wrt_append)

lemma window_mono: "in_window ps t h \<Longrightarrow> in_window ps t (Suc h)"
  by (auto simp: in_window_def)

lemma window_pop: "in_window ((x, w, p) # ps) t h \<Longrightarrow> in_window ps (Suc p) h \<and> t \<le> p \<and> p < h"
  by (auto simp: in_window_def)

subsection \<open>The relation\<close>

definition cmd_rel :: "tm_cfg \<Rightarrow> nat \<Rightarrow> mlx5_qp \<Rightarrow> tm_abs \<Rightarrow> bool" where
  "cmd_rel cfg n qp a \<longleftrightarrow>
     cfg_bits cfg < 32 \<and> cfg_post cfg \<le> 2 ^ cfg_bits cfg \<and> wqe_cnt (sq qp) = 2 ^ cfg_bits cfg \<and>
     max_post (sq qp) = of_nat (cfg_post cfg) \<and> wq_head (sq qp) + of_nat n = of_nat (q_head a) \<and>
     wq_tail (sq qp) = of_nat (q_tail a) \<and> q_tail a \<le> q_head a \<and> q_head a \<le> q_tail a + cfg_post cfg"

definition list_rel :: "tm_cfg \<Rightarrow> tm_srq \<Rightarrow> tm_abs \<Rightarrow> bool" where
  "list_rel cfg s a \<longleftrightarrow>
     tm_num s = cfg_tags cfg + 1 \<and> srq_max (tm_base s) = cfg_srq cfg \<and> srq_wrid (tm_base s) = cfg_wrid cfg \<and>
     tag_queue (q_free a) (expected a) s \<and>
     (\<forall>i \<in> q_live a. i < tm_num s \<and> tg_wr_id (tm_list s i) = q_recv a i) \<and>
     (\<forall>i. q_buf a i = (tg_ptr (tm_list s i), tg_size (tm_list s i))) \<and>
     (\<forall>p \<in> set (q_pend a). \<forall>i. fst p = Some i \<longrightarrow> i < tm_num s) \<and>
     op_ring (cfg_bits cfg) (q_pend a) (q_op a) s \<and> in_window (q_pend a) (q_tail a) (q_head a)"

definition tm_rel :: "tm_cfg \<Rightarrow> tm_srq \<times> user_mem \<Rightarrow> tm_abs \<Rightarrow> bool" where
  "tm_rel cfg st a \<longleftrightarrow> (\<exists>qp. cmd_qp (fst st) = Some qp \<and> cmd_rel cfg 0 qp a \<and> list_rel cfg (fst st) a)"

lemma overflow_iff:
  assumes "cmd_rel cfg n qp a"
  shows "mlx5_wq_overflow (sq qp) n \<longleftrightarrow> cfg_post cfg \<le> q_head a - q_tail a"
proof -
  have b: "(2 :: nat) ^ cfg_bits cfg < 2 ^ 32" using assms by (intro power_strict_increasing) (auto simp: cmd_rel_def)
  have c: "wq_head (sq qp) - wq_tail (sq qp) + of_nat n = of_nat (q_head a - q_tail a)"
    using assms by (auto simp: cmd_rel_def of_nat_diff algebra_simps)
  have "q_head a - q_tail a < 2 ^ 32" "cfg_post cfg < 2 ^ 32" using assms b by (auto simp: cmd_rel_def)
  then have "unat (of_nat (q_head a - q_tail a) :: u32) = q_head a - q_tail a" "unat (of_nat (cfg_post cfg) :: u32) = cfg_post cfg"
    by (simp_all add: unat_of_nat_small)
  moreover have "max_post (sq qp) = of_nat (cfg_post cfg)" using assms by (simp add: cmd_rel_def)
  ultimately show ?thesis
    unfolding mlx5_wq_overflow_def Let_def c word_less_nat_alt word_le_nat_alt by auto
qed

lemma expected_simps [simp]:
  "expected (a\<lparr>q_free := f\<rparr>) = expected a" "expected (a\<lparr>q_recv := r\<rparr>) = expected a" "expected (a\<lparr>q_buf := u\<rparr>) = expected a" "expected (a\<lparr>q_head := h\<rparr>) = expected a"
  "expected (a\<lparr>q_tail := t\<rparr>) = expected a" "expected (a\<lparr>q_op := k\<rparr>) = expected a"
  by (simp_all add: expected_def fun_eq_iff)

lemma expected_live: "i \<notin> q_live a \<Longrightarrow> expected (a\<lparr>q_live := insert i (q_live a)\<rparr>) = (expected a)(i := Suc (expected a i))"
  by (auto simp: expected_def fun_eq_iff)

lemma expected_dead: "i \<in> q_live a \<Longrightarrow> expected (a\<lparr>q_live := q_live a - {i}\<rparr>) = (expected a)(i := expected a i - 1)"
  by (auto simp: expected_def fun_eq_iff)

lemma expected_push:
  "expected (a\<lparr>q_pend := q_pend a @ [(t, w, p)]\<rparr>) =
     (case t of None \<Rightarrow> expected a | Some i \<Rightarrow> (expected a)(i := Suc (expected a i)))"
  by (auto simp: expected_def fun_eq_iff split: option.split)

lemma expected_tl:
  "q_pend a = (t, w, p) # ps \<Longrightarrow> expected (a\<lparr>q_pend := ps\<rparr>) =
     (case t of None \<Rightarrow> expected a | Some i \<Rightarrow> (expected a)(i := expected a i - 1))"
  by (auto simp: expected_def fun_eq_iff split: option.split)

lemma expected_pos: "i \<in> q_live a \<Longrightarrow> 0 < expected a i" "(Some i, w, p) \<in> set (q_pend a) \<Longrightarrow> 0 < expected a i"
  by (auto simp: expected_def filter_empty_conv intro!: bexI [of _ "(Some i, w, p)"])

text \<open>Steps that leave the list alone.\<close>

lemma list_rel_cong:
  assumes "list_rel cfg s a" "tm_head s' = tm_head s" "tm_tail s' = tm_tail s" "tm_num s' = tm_num s"
    "\<And>i. (tg_next (tm_list s' i), expect_cqe (tm_list s' i), tg_wr_id (tm_list s' i), tg_ptr (tm_list s' i), tg_size (tm_list s' i)) =
         (tg_next (tm_list s i), expect_cqe (tm_list s i), tg_wr_id (tm_list s i), tg_ptr (tm_list s i), tg_size (tm_list s i))"
    "srq_op s' = srq_op s" "op_head s' = op_head s" "op_tail s' = op_tail s"
    "srq_max (tm_base s') = srq_max (tm_base s)" "srq_wrid (tm_base s') = srq_wrid (tm_base s)"
  shows "list_rel cfg s' a"
  using assms tag_queue_cong [of "q_free a" "expected a" s s'] by (auto simp: list_rel_def op_ring_def)

lemma release_fields [simp]:
  "srq_op (mlx5_tm_release_tag i s) = srq_op s" "op_head (mlx5_tm_release_tag i s) = op_head s"
  "op_tail (mlx5_tm_release_tag i s) = op_tail s" "tm_num (mlx5_tm_release_tag i s) = tm_num s"
  "tm_base (mlx5_tm_release_tag i s) = tm_base s" "cmd_qp (mlx5_tm_release_tag i s) = cmd_qp s"
  "tg_wr_id (tm_list (mlx5_tm_release_tag i s) j) = tg_wr_id (tm_list s j)"
  "phase_cnt (tm_list (mlx5_tm_release_tag i s) j) = phase_cnt (tm_list s j)"
  "tg_ptr (tm_list (mlx5_tm_release_tag i s) j) = tg_ptr (tm_list s j)"
  "tg_size (tm_list (mlx5_tm_release_tag i s) j) = tg_size (tm_list s j)"
  by (simp_all add: mlx5_tm_release_tag_def Let_def)

lemma add_op_fields [simp]:
  "tm_num (mlx5_tm_add_op t w n qp s) = tm_num s" "tm_base (mlx5_tm_add_op t w n qp s) = tm_base s"
  "cmd_qp (mlx5_tm_add_op t w n qp s) = cmd_qp s" "tg_wr_id (tm_list (mlx5_tm_add_op t w n qp s) j) = tg_wr_id (tm_list s j)"
  "tg_ptr (tm_list (mlx5_tm_add_op t w n qp s) j) = tg_ptr (tm_list s j)" "tg_size (tm_list (mlx5_tm_add_op t w n qp s) j) = tg_size (tm_list s j)"
  by (simp_all add: mlx5_tm_add_op_def Let_def split: option.split)

lemma drop_rel:
  assumes r: "list_rel cfg s a" and i: "i \<in> q_live a"
  shows "list_rel cfg (mlx5_tm_release_tag i s) (q_drop i a)"
proof -
  obtain k where k: "expected a i = Suc k" using expected_pos(1) [OF i] gr0_conv_Suc by blast
  have "tag_queue (if k = 0 then q_free a @ [i] else q_free a) ((expected a)(i := k)) (mlx5_tm_release_tag i s)"
    by (rule tag_queue_release) (use r i k in \<open>auto simp: list_rel_def\<close>)
  moreover have "expected (q_drop i a) = (expected a)(i := k)" using expected_dead [OF i] k by (simp add: q_drop_def)
  ultimately show ?thesis using r k by (auto simp: list_rel_def q_drop_def op_ring_def)
qed

lemma add_op_queue:
  assumes q: "tag_queue fr exp s" and t: "\<And>i. t = Some i \<Longrightarrow> i < tm_num s \<and> 0 < exp i \<and> exp i < 255"
  shows "tag_queue fr (case t of None \<Rightarrow> exp | Some i \<Rightarrow> exp(i := Suc (exp i))) (mlx5_tm_add_op t w n qp s)"
proof (cases t)
  case None
  show ?thesis by (rule tag_queue_cong [where s = s]) (use q None in \<open>simp_all add: mlx5_tm_add_op_def Let_def\<close>)
next
  case (Some i)
  let ?s = "upd_tag i (\<lambda>t. t\<lparr>expect_cqe := expect_cqe t + 1\<rparr>) s"
  have "tag_queue fr (exp(i := Suc (exp i))) ?s" using tag_queue_incr [OF q] t [OF Some] by blast
  then have "tag_queue fr (exp(i := Suc (exp i))) (mlx5_tm_add_op t w n qp s)"
    by (rule tag_queue_cong) (simp_all add: mlx5_tm_add_op_def Some Let_def)
  with Some show ?thesis by simp
qed

lemma add_op_ring:
  assumes "cmd_rel cfg n qp a" "op_ring (cfg_bits cfg) ps k s" "length ps < 2 ^ cfg_bits cfg"
  shows "op_ring (cfg_bits cfg) (ps @ [(t, w, q_head a)]) k (mlx5_tm_add_op t w n qp s)"
proof (rule op_ring_push [OF assms(2,3)])
  have "op_tail s = of_nat (k + length ps)" using assms(2) by (simp add: op_ring_def)
  then have "unat (op_tail s AND (wqe_cnt (sq qp) - 1)) = (k + length ps) mod 2 ^ cfg_bits cfg"
    using op_index [of "wqe_cnt (sq qp)" "cfg_bits cfg" "k + length ps"] assms(1) by (simp add: cmd_rel_def)
  then show "srq_op (mlx5_tm_add_op t w n qp s) = (srq_op s)((k + length ps) mod 2 ^ cfg_bits cfg := op_entry (t, w, q_head a))"
    using assms(1) by (auto simp: mlx5_tm_add_op_def op_entry_def cmd_rel_def Let_def split: option.split)
qed (simp_all add: mlx5_tm_add_op_def Let_def split: option.split)

text \<open>A request that fits is recorded when it asks for a completion.\<close>

lemma post_rel:
  assumes c: "cmd_rel cfg n qp a" and r: "list_rel cfg s a" and room: "q_head a - q_tail a < cfg_post cfg"
    and t: "\<And>i. t = Some i \<Longrightarrow> has_flag (ow_flags wr) IBV_OPS_SIGNALED \<Longrightarrow> i < tm_num s \<and> 0 < expected a i \<and> expected a i < 255"
  shows "list_rel cfg (if has_flag (ow_flags wr) IBV_OPS_SIGNALED then mlx5_tm_add_op t (ow_id wr) n qp s else s) (q_post wr t a)"
proof (cases "has_flag (ow_flags wr) IBV_OPS_SIGNALED")
  case True
  let ?s = "mlx5_tm_add_op t (ow_id wr) n qp s" and ?p = "(t, ow_id wr, q_head a)"
  have w: "in_window (q_pend a) (q_tail a) (q_head a)" "op_ring (cfg_bits cfg) (q_pend a) (q_op a) s"
    and le: "q_tail a \<le> q_head a" "cfg_post cfg \<le> 2 ^ cfg_bits cfg" using r c by (simp_all add: list_rel_def cmd_rel_def)
  have "length (q_pend a) < 2 ^ cfg_bits cfg" using window_length [OF w(1)] room le(2) by linarith
  from add_op_ring [OF c w(2) this] have ring: "op_ring (cfg_bits cfg) (q_pend a @ [?p]) (q_op a) ?s" .
  have "tag_queue (q_free a) (case t of None \<Rightarrow> expected a | Some i \<Rightarrow> (expected a)(i := Suc (expected a i))) ?s"
    by (rule add_op_queue) (use r t True in \<open>auto simp: list_rel_def\<close>)
  then have "tag_queue (q_free a) (expected (q_post wr t a)) ?s" using True by (simp add: q_post_def expected_push)
  with ring window_push [OF w(1) le(1)] r t True show ?thesis by (auto simp: list_rel_def q_post_def)
next
  case False
  with r show ?thesis by (auto simp: list_rel_def q_post_def window_mono)
qed

lemma post_cmd:
  assumes "cmd_rel cfg n qp a" "q_head a - q_tail a < cfg_post cfg"
    "wqe_cnt (sq qp') = wqe_cnt (sq qp)" "max_post (sq qp') = max_post (sq qp)" "wq_head (sq qp') = wq_head (sq qp)"
    "wq_tail (sq qp') = wq_tail (sq qp)" "q_head a' = q_head a" "q_tail a' = q_tail a"
  shows "cmd_rel cfg (Suc n) qp' (q_post wr t a')"
  using assms by (auto simp: cmd_rel_def q_post_def algebra_simps)

lemma pop_rel:
  assumes r: "list_rel cfg s a" and p: "q_pend a = (t, w, p) # ps"
    and s1: "s1 = s\<lparr>op_head := op_head s + 1\<rparr>"
  shows "list_rel cfg (case t of None \<Rightarrow> s1 | Some i \<Rightarrow> mlx5_tm_release_tag i s1) (q_pop a)"
proof -
  let ?s = "case t of None \<Rightarrow> s1 | Some i \<Rightarrow> mlx5_tm_release_tag i s1"
  have q: "tag_queue (q_free a) (expected a) s1"
    by (rule tag_queue_cong [where s = s]) (use r in \<open>simp_all add: list_rel_def s1\<close>)
  have "tag_queue (q_free (q_pop a)) (expected (q_pop a)) ?s"
  proof (cases t)
    case (Some i)
    have "0 < expected a i" using expected_pos(2) [of i w p a] p Some by simp
    then obtain k where k: "expected a i = Suc k" using gr0_conv_Suc by blast
    have "i < tm_num s1" using r p Some by (auto simp: list_rel_def s1)
    from tag_queue_release [OF q this k] k show ?thesis using expected_tl [OF p] p Some by (simp add: q_pop_def)
  qed (use q p expected_tl [OF p] in \<open>simp add: q_pop_def\<close>)
  moreover have "op_ring (cfg_bits cfg) ps (Suc (q_op a)) ?s"
    by (rule op_ring_pop [of _ "(t, w, p)" _ _ s]) (use r p in \<open>auto simp: list_rel_def s1 split: option.split\<close>)
  moreover have "in_window ps (Suc p) (q_head a)" using r p window_pop by (auto simp: list_rel_def)
  ultimately show ?thesis using r p by (auto simp: list_rel_def q_pop_def s1 split: option.split)
qed

subsection \<open>Refinement\<close>

lemma tag_take_rel:
  assumes r: "list_rel cfg s a" and t: "tl (q_free a) \<noteq> []"
    and h: "h = tm_head s" and n: "tg_next (tm_list s h) = Some nx"
    and s1: "s1 = upd_tag h (\<lambda>t. t\<lparr>tg_next := None, tg_wr_id := w, phase_cnt := u, expect_cqe := expect_cqe t + 1\<rparr>)
                    (s\<lparr>tm_head := nx, unexp_out := u\<rparr>)"
    and a1: "a1 = a\<lparr>q_free := tl (q_free a), q_live := insert h (q_live a), q_recv := (q_recv a)(h := w)\<rparr>"
  shows "list_rel cfg s1 a1" "hd (q_free a) = h" "h < tm_num s1" "expected a1 h = 1"
proof -
  have q: "tag_queue (q_free a) (expected a) s" using r by (simp add: list_rel_def)
  then have e: "ends (\<lambda>i. the (tg_next (tm_list s i))) h (tm_tail s) (q_free a)" by (simp add: tag_queue_def h)
  then have hd: "hd (q_free a) = h" and "h \<in> set (q_free a)" using ends_in [OF e] by (auto simp: ends_def)
  then have x: "h < tm_num s" "expected a h = 0" "expect_cqe (tm_list s h) = 0"
    using q unfolding tag_queue_def by auto
  then have l: "h \<notin> q_live a" using expected_pos(1) [of h a] by auto
  have "expected a1 = expected (a\<lparr>q_live := insert h (q_live a)\<rparr>)" by (auto simp: a1 expected_def fun_eq_iff)
  then have x1: "expected a1 = (expected a)(h := 1)" using x expected_live [OF l] by simp
  have "tag_queue (tl (q_free a)) ((expected a)(tm_head s := 1)) s1"
    by (rule tag_queue_take [OF q t, where te = "(tm_list s h)\<lparr>tg_next := None, tg_wr_id := w, phase_cnt := u, expect_cqe := 1\<rparr>"])
      (use x n in \<open>simp_all add: s1 h\<close>)
  with r x(1) x1 show "list_rel cfg s1 a1" by (auto simp: list_rel_def a1 s1 h op_ring_def)
  show "hd (q_free a) = h" "h < tm_num s1" "expected a1 h = 1" using hd x x1 by (simp_all add: s1)
qed

lemma list_rel_buf:
  assumes "list_rel cfg s a"
  shows "list_rel cfg (upd_tag h (\<lambda>t. t\<lparr>tg_ptr := p, tg_size := z\<rparr>) s) (a\<lparr>q_buf := (q_buf a)(h := (p, z))\<rparr>)"
proof -
  let ?s = "upd_tag h (\<lambda>t. t\<lparr>tg_ptr := p, tg_size := z\<rparr>) s"
  have "tag_queue (q_free a) (expected a) ?s"
    by (rule tag_queue_cong [where s = s]) (use assms in \<open>simp_all add: list_rel_def\<close>)
  with assms show ?thesis by (auto simp: list_rel_def op_ring_def)
qed

lemma post_buf: "q_post wr t (a\<lparr>q_buf := u\<rparr>) = (q_post wr t a)\<lparr>q_buf := u\<rparr>" "q_buf (q_post wr t a) = q_buf a"
  by (simp_all add: q_post_def)

lemma tag_add_rel:
  assumes c: "cmd_rel cfg n qp a" and r: "list_rel cfg s a" and room: "q_head a - q_tail a < cfg_post cfg"
    and o: "ow_opcode wr = IBV_WR_TAG_ADD" and q: "q_tag_op wr a = Some (e, hn, a')"
  shows "\<exists>sz qp' s'. tag_add n wr seg qp s = Inr (e, hn, sz, qp', s') \<and> sq qp' = sq qp \<and> list_rel cfg s' a' \<and>
           cmd_qp s' = cmd_qp s \<and> (if e = 0 then cmd_rel cfg (Suc n) qp' a' else a' = a)"
proof (cases "tl (q_free a) = []")
  case True
  then have "tg_next (tm_list s (tm_head s)) = None"
    using r tag_queue_last [of "q_free a" "expected a" s] by (simp add: list_rel_def)
  with True o q r show ?thesis by (auto simp: tag_add_def q_tag_op_def Let_def)
next
  case False
  define h where "h = tm_head s"
  from False r obtain nx where n: "tg_next (tm_list s h) = Some nx"
    using tag_queue_last [of "q_free a" "expected a" s] by (auto simp: list_rel_def h_def)
  define u where "u = (if has_flag (ow_flags wr) IBV_OPS_TM_SYNC then sint (unexpected_cnt wr) else unexp_out s)"
  define s1 where "s1 = upd_tag h (\<lambda>t. t\<lparr>tg_next := None, tg_wr_id := recv_wr_id wr, phase_cnt := u,
      expect_cqe := expect_cqe t + 1\<rparr>) (s\<lparr>tm_head := nx, unexp_out := u\<rparr>)"
  define a1 where "a1 = a\<lparr>q_free := tl (q_free a), q_live := insert h (q_live a), q_recv := (q_recv a)(h := recv_wr_id wr)\<rparr>"
  define s2 where "s2 = (if has_flag (ow_flags wr) IBV_OPS_SIGNALED then mlx5_tm_add_op (Some h) (ow_id wr) n qp s1 else s1)"
  note t = tag_take_rel [OF r False h_def n s1_def a1_def]
  have g: "sge_given wr" and a': "e = 0" "hn = of_nat h" "a' = (q_post wr (Some h) a1)\<lparr>q_buf := (q_buf a)(h := buf_of wr (q_buf a h))\<rparr>"
    using q False o t(2) by (auto simp: q_tag_op_def a1_def Let_def post_buf simp flip: post_buf split: if_splits)
  have q1: "q_head a1 = q_head a" "q_tail a1 = q_tail a" by (simp_all add: a1_def)
  have c1: "cmd_rel cfg n qp a1" using c by (simp add: cmd_rel_def q1)
  have p: "list_rel cfg s2 (q_post wr (Some h) a1)" unfolding s2_def
    by (rule post_rel [OF c1 t(1)]) (use room t(3,4) q1 in auto)
  have b: "q_buf (q_post wr (Some h) a1) = q_buf a" by (simp add: post_buf a1_def)
  have "x\<lparr>q_buf := q_buf x\<rparr> = x" for x :: tm_abs by simp
  from this [of "q_post wr (Some h) a1"] have l: "list_rel cfg s2 a'" if "buf_of wr (q_buf a h) = q_buf a h"
    using p that a'(3) unfolding b by simp
  have l': "list_rel cfg (upd_tag h (\<lambda>t. t\<lparr>tg_ptr := x, tg_size := z\<rparr>) s2) a'" if "buf_of wr (q_buf a h) = (x, z)" for x z
    using list_rel_buf [OF p, where h = h and p = x and z = z] that b a'(3) by simp
  have cq: "cmd_qp s2 = cmd_qp s" by (simp add: s2_def s1_def)
  have cr: "cmd_rel cfg (Suc n) (qp\<lparr>sq_mem := m\<rparr>) a'" for m unfolding a' post_buf(1) [symmetric]
    by (rule post_cmd [OF c room]) (simp_all add: q1)
  let ?m = "set_tm_seg seg MLX5_TM_OPCODE_APPEND wr (of_nat nx) (sq_mem qp)" and ?d = "wrap_end qp (seg + 32)"
  have eq: "tag_add n wr seg qp s =
      (if add_num_sge wr = 0 then Inr (0, of_nat h, 4, qp\<lparr>sq_mem := set_data_ptr_seg_end ?d ?m\<rparr>, s2)
       else bind_res (first_sge wr) (\<lambda>sg.
         if sge_length sg = 0 then Inr (0, of_nat h, 4, qp\<lparr>sq_mem := set_data_ptr_seg_end ?d ?m\<rparr>, s2)
         else Inr (0, of_nat h, 4, qp\<lparr>sq_mem := set_data_ptr_seg ?d sg 0 ?m\<rparr>,
                   upd_tag h (\<lambda>t. t\<lparr>tg_ptr := sge_addr sg, tg_size := sge_length sg\<rparr>) s2)))"
    unfolding tag_add_def Let_def h_def [symmetric] n option.case u_def [symmetric] s1_def [symmetric] s2_def [symmetric] ..
  have "\<exists>m s'. tag_add n wr seg qp s = Inr (0, of_nat h, 4, qp\<lparr>sq_mem := m\<rparr>, s') \<and> list_rel cfg s' a' \<and> cmd_qp s' = cmd_qp s"
    unfolding eq using g l l' cq by (cases "add_sg_list wr") (auto simp: first_sge_def sge_given_def buf_of_def split: list.splits)
  then show ?thesis using cr a' by fastforce
qed

lemma tag_op_rel:
  assumes c: "cmd_rel cfg n qp a" and r: "list_rel cfg s a" and room: "q_head a - q_tail a < cfg_post cfg"
    and q: "q_tag_op wr a = Some (e, hn, a')"
  shows "\<exists>sz qp' s'. tag_op n wr seg qp s = Inr (e, hn, sz, qp', s') \<and> sq qp' = sq qp \<and> list_rel cfg s' a' \<and>
           cmd_qp s' = cmd_qp s \<and> (if e = 0 then cmd_rel cfg (Suc n) qp' a' else a' = a)"
proof (cases "ow_opcode wr")
  case IBV_WR_TAG_ADD
  with tag_add_rel [OF c r room _ q] show ?thesis by (simp add: tag_op_def)
next
  case IBV_WR_TAG_DEL
  let ?i = "unat (ow_handle wr)"
  have i: "?i \<in> q_live a" "expected a ?i < 255" using q IBV_WR_TAG_DEL by (auto simp: q_tag_op_def Let_def split: if_splits)
  have b: "?i < tm_num s" using r i(1) by (auto simp: list_rel_def)
  have cr: "cmd_rel cfg (Suc n) (qp\<lparr>sq_mem := m\<rparr>) (q_post wr (Some ?i) a)"
      "cmd_rel cfg (Suc n) (qp\<lparr>sq_mem := m\<rparr>) (q_post wr (Some ?i) (q_drop ?i a))" for m
    by (rule post_cmd [OF c room]; simp add: q_drop_def)+
  have l: "list_rel cfg (mlx5_tm_add_op (Some ?i) (ow_id wr) n qp s) (q_post wr (Some ?i) a)"
    if "has_flag (ow_flags wr) IBV_OPS_SIGNALED"
    using post_rel [OF c r room, of "Some ?i" wr] i b expected_pos(1) that by simp
  have cd: "cmd_rel cfg n qp (q_drop ?i a)" using c by (simp add: cmd_rel_def q_drop_def)
  have "q_head (q_drop ?i a) - q_tail (q_drop ?i a) < cfg_post cfg" using room by (simp add: q_drop_def)
  from post_rel [OF cd drop_rel [OF r i(1)] this, of "Some ?i" wr]
  have l': "list_rel cfg (mlx5_tm_release_tag ?i s) (q_post wr (Some ?i) (q_drop ?i a))"
    if "\<not> has_flag (ow_flags wr) IBV_OPS_SIGNALED" using that by simp
  from q IBV_WR_TAG_DEL i b l l' cr show ?thesis
    by (auto simp: tag_op_def tag_del_def q_tag_op_def Let_def split: if_splits)
next
  case IBV_WR_TAG_SYNC
  have "cmd_rel cfg (Suc n) (qp\<lparr>sq_mem := m\<rparr>) (q_post wr None a)" for m by (rule post_cmd [OF c room]) simp_all
  with q IBV_WR_TAG_SYNC post_rel [OF c r room, of None wr] show ?thesis
    by (auto simp: tag_op_def tag_sync_def q_tag_op_def split: if_splits)
next
  case (IBV_WR_OPS_OTHER k)
  with q r show ?thesis by (auto simp: tag_op_def q_tag_op_def)
qed

lemma cmd_rel_mem: "cmd_rel cfg n (qp\<lparr>sq_mem := m\<rparr>) a = cmd_rel cfg n qp a" "cmd_rel cfg n (tag_finish ctrl sz qp) a = cmd_rel cfg n qp a"
  by (simp_all add: cmd_rel_def tag_finish_def Let_def)

lemma ops_loop_rel:
  "cmd_rel cfg n qp a \<Longrightarrow> list_rel cfg s a \<Longrightarrow> q_ops (cfg_post cfg) wrs a = Some (e, hs, a') \<Longrightarrow>
   \<exists>c' qp' s'. ops_loop n wrs c qp s = Inr (e, hs, c', qp', s') \<and> list_rel cfg s' a' \<and> cmd_qp s' = cmd_qp s \<and>
     cmd_rel cfg (n + length hs) qp' a'"
proof (induction wrs arbitrary: n qp a s c hs)
  case (Cons wr wrs)
  note c = Cons.prems(1) and r = Cons.prems(2) and q = Cons.prems(3)
  show ?case
  proof (cases "cfg_post cfg \<le> q_head a - q_tail a")
    case True
    with q r c show ?thesis by (auto simp: overflow_iff [OF c])
  next
    case False
    define ctrl where "ctrl = mlx5_get_send_wqe (sq_idx qp)"
    define qp0 where "qp0 = qp\<lparr>sq_mem := memset0 (ctrl + 8) 8 (sq_mem qp)\<rparr>"
    have c0: "cmd_rel cfg n qp0 a" using c by (simp add: qp0_def cmd_rel_mem)
    from q False obtain e1 h a1 where op: "q_tag_op wr a = Some (e1, h, a1)" by (auto split: option.splits)
    from tag_op_rel [OF c0 r _ op, of "ctrl + 16"] False obtain sz qp1 s1 where
      t: "tag_op n wr (ctrl + 16) qp0 s = Inr (e1, h, sz, qp1, s1)" "sq qp1 = sq qp0" "list_rel cfg s1 a1" "cmd_qp s1 = cmd_qp s"
        "if e1 = 0 then cmd_rel cfg (Suc n) qp1 a1 else a1 = a" by auto
    show ?thesis
    proof (cases "e1 = 0")
      case True
      with q False op obtain hs' where qs: "q_ops (cfg_post cfg) wrs a1 = Some (e, hs', a')" "hs = h # hs'"
        by (auto split: option.splits)
      have "cmd_rel cfg (Suc n) (tag_finish ctrl sz qp1) a1" using t(5) True by (simp add: cmd_rel_mem)
      from Cons.IH [OF this t(3) qs(1), of "(ctrl, sz)"] obtain c' qp' s' where
        "ops_loop (Suc n) wrs (ctrl, sz) (tag_finish ctrl sz qp1) s1 = Inr (e, hs', c', qp', s')" "list_rel cfg s' a'"
        "cmd_qp s' = cmd_qp s1" "cmd_rel cfg (Suc n + length hs') qp' a'" by blast
      with t True False qs(2) show ?thesis
        by (simp add: overflow_iff [OF c] Let_def flip: ctrl_def qp0_def)
    next
      case ne: False
      have "cmd_rel cfg n qp1 a" using c0 t(2) by (simp add: cmd_rel_def)
      with t ne False q op show ?thesis by (auto simp: overflow_iff [OF c] Let_def simp flip: ctrl_def qp0_def)
    qed
  qed
qed auto

lemma db_rel: "cmd_rel cfg n qp a \<Longrightarrow> cmd_rel cfg 0 (post_send_db n inl sz ctrl (qp\<lparr>fm_cache := f\<rparr>)) a"
  by (auto simp: cmd_rel_def post_send_db_def Let_def)

lemma post_ops_rel:
  assumes "tm_rel cfg (s, um) a" "q_ops (cfg_post cfg) wrs a = Some (e, hs, a')"
  shows "\<exists>s'. mlx5_post_srq_ops wrs s = Inr (e, hs, s') \<and> tm_rel cfg (s', um) a'"
proof -
  from assms(1) obtain qp where qp: "cmd_qp s = Some qp" "cmd_rel cfg 0 qp a" "list_rel cfg s a" by (auto simp: tm_rel_def)
  from ops_loop_rel [OF qp(2,3) assms(2), of "(0, 0)"] obtain ctrl sz qp' s' where
    l: "ops_loop 0 wrs (0, 0) qp s = Inr (e, hs, (ctrl, sz), qp', s')" "list_rel cfg s' a'" "cmd_rel cfg (length hs) qp' a'"
    by auto
  have "list_rel cfg (s'\<lparr>cmd_qp := q\<rparr>) a'" for q by (rule list_rel_cong [OF l(2)]) simp_all
  with l qp(1) db_rel [OF l(3)] show ?thesis by (auto simp: mlx5_post_srq_ops_def tm_rel_def)
qed

lemma live_counts:
  assumes "list_rel cfg s a" "i \<in> q_live a"
  shows "i < tm_num s" "expect_cqe (tm_list s i) \<noteq> 0" "tg_wr_id (tm_list s i) = q_recv a i"
proof -
  have x: "expect_cqe (tm_list s i) = of_nat (expected a i)" "expected a i < 256"
    using assms(1) by (simp_all add: list_rel_def tag_queue_def)
  then show "expect_cqe (tm_list s i) \<noteq> 0" using expected_pos(1) [OF assms(2)] of_nat_u8_eq [of "expected a i"] by simp
  show "i < tm_num s" "tg_wr_id (tm_list s i) = q_recv a i" using assms by (auto simp: list_rel_def)
qed

lemma drop_cmd: "cmd_rel cfg n qp (q_drop i a) = cmd_rel cfg n qp a"
  by (simp add: cmd_rel_def q_drop_def)

lemma consumed_rel:
  assumes r: "tm_rel cfg (s, um) a" and q: "q_consumed c a = Some ((st, w), a')"
  shows "\<exists>k cq' s' um'. tm_consumed c cq (s, um) = Inr (k, cq', s', um') \<and> cq_status cq' = st \<and> cq_wr_id cq' = w \<and> tm_rel cfg (s', um') a'"
proof -
  let ?i = "unat (app_info c)"
  have i: "?i \<in> q_live a" and w: "w = q_recv a ?i"
    and st: "st = (if op_own c AND MLX5_INLINE_SCATTER_64 \<noteq> 0 \<and> snd (q_buf a ?i) < byte_cnt c then IBV_WC_LOC_LEN_ERR
        else if rndv_op (app_op c) then IBV_WC_TM_RNDV_INCOMPLETE else IBV_WC_SUCCESS)"
    and a': "a' = (if mlx5_cqe_app_op_tm_is_complete (app_op c) then q_drop ?i a else a)"
    using q by (auto simp: q_consumed_def Let_def split: if_splits)
  from r obtain qp where qp: "cmd_qp s = Some qp" "cmd_rel cfg 0 qp a" and l: "list_rel cfg s a" by (auto simp: tm_rel_def)
  have b: "snd (q_buf a ?i) = tg_size (tm_list s ?i)" using l by (simp add: list_rel_def)
  have "tm_rel cfg (if mlx5_cqe_app_op_tm_is_complete (app_op c) then mlx5_tm_release_tag ?i s else s, um') a'" for um'
    using qp l drop_rel [OF l i] by (auto simp: tm_rel_def a' drop_cmd)
  with live_counts [OF l i] w st b show ?thesis by (auto simp: tm_consumed_def Let_def)
qed

lemma pop_cmd:
  assumes c: "cmd_rel cfg 0 qp a" and p: "q_pend a = (t, w, p) # ps" and l: "list_rel cfg s a"
  shows "cmd_rel cfg 0 (qp\<lparr>sq := (sq qp)\<lparr>wq_tail := of_nat p + 1\<rparr>\<rparr>) (q_pop a)"
proof -
  have "q_tail a \<le> p" "p < q_head a" using l p window_pop by (auto simp: list_rel_def)
  with c p show ?thesis by (auto simp: cmd_rel_def q_pop_def add.commute)
qed

lemma list_op_rel:
  assumes r: "tm_rel cfg (s, um) a" and q: "q_list_op c a = Some ((st, w), a')"
  shows "\<exists>k cq' s'. tm_list_op c cq s = Inr (k, cq', s') \<and> cq_status cq' = st \<and> cq_wr_id cq' = w \<and> tm_rel cfg (s', um) a'"
proof -
  from r obtain qp where qp: "cmd_qp s = Some qp" "cmd_rel cfg 0 qp a" and l: "list_rel cfg s a" by (auto simp: tm_rel_def)
  from q obtain t p ps where p: "q_pend a = (t, w, p) # ps" by (auto simp: q_list_op_def split: list.splits if_splits option.splits)
  define s1 where "s1 = s\<lparr>op_head := op_head s + 1\<rparr>"
  define s2 where "s2 = (case t of None \<Rightarrow> s1 | Some i \<Rightarrow> mlx5_tm_release_tag i s1)"
  have ring: "op_ring (cfg_bits cfg) ((t, w, p) # ps) (q_op a) s" using l p by (simp add: list_rel_def)
  then have "op_head s = of_nat (q_op a)" by (simp add: op_ring_def)
  then have "unat (op_head s AND (wqe_cnt (sq qp) - 1)) = q_op a mod 2 ^ cfg_bits cfg"
    using op_index [of "wqe_cnt (sq qp)" "cfg_bits cfg" "q_op a"] qp(2) by (simp add: cmd_rel_def)
  moreover have "srq_op s (q_op a mod 2 ^ cfg_bits cfg) = op_entry (t, w, p)" using ring by (force simp: op_ring_def)
  ultimately have op: "srq_op s (unat (op_head s AND (wqe_cnt (sq qp) - 1))) = \<lparr>op_tag = t, op_wr_id = w, op_wqe_head = of_nat p\<rparr>"
    by (simp add: op_entry_def)
  have l2: "list_rel cfg s2 (q_pop a)" unfolding s2_def by (rule pop_rel [OF l p s1_def])
  let ?qp = "qp\<lparr>sq := (sq qp)\<lparr>wq_tail := of_nat p + 1\<rparr>\<rparr>"
  have fin: "tm_rel cfg (s'\<lparr>cmd_qp := Some ?qp\<rparr>, um) a''"
    if "list_rel cfg s' a''" "a'' = q_pop a \<or> a'' = q_drop i (q_pop a)" for s' a'' i
    using that pop_cmd [OF qp(2) p l] list_rel_cong [OF that(1), of "s'\<lparr>cmd_qp := Some ?qp\<rparr>"]
    by (auto simp: tm_rel_def drop_cmd)
  show ?thesis
  proof (cases "app_op c = TM_REMOVE \<and> tm_success c AND MLX5_TMC_SUCCESS \<noteq> 0 \<and> t \<noteq> None")
    case True
    then obtain i where i: "t = Some i" by auto
    then have d: "i \<in> q_live a" and a': "a' = q_drop i (q_pop a)" "st = IBV_WC_SUCCESS"
      using q p True by (auto simp: q_list_op_def split: if_splits)
    have "list_rel cfg (mlx5_tm_release_tag i s2) a'" unfolding a'
      by (rule drop_rel [OF l2]) (use d p in \<open>simp add: q_pop_def\<close>)
    from fin [OF this, of i] a' show ?thesis
      using qp(1) op i True by (auto simp: tm_list_op_def Let_def s2_def s1_def)
  next
    case False
    then have a': "a' = q_pop a" "st = (if app_op c \<noteq> TM_REMOVE \<or> tm_success c AND MLX5_TMC_SUCCESS \<noteq> 0 then IBV_WC_SUCCESS else IBV_WC_TM_ERR)"
      using q p by (auto simp: q_list_op_def split: if_splits option.splits)
    from fin [OF l2] a'(1) have "tm_rel cfg (s2\<lparr>cmd_qp := Some ?qp\<rparr>, um) a'" by blast
    with False show ?thesis using qp(1) op a'(2) by (cases t) (auto simp: tm_list_op_def Let_def s2_def s1_def)
  qed
qed

lemma untagged_rel:
  assumes r: "tm_rel cfg (s, um) a" and i: "unat (wqe_counter c) < cfg_srq cfg"
  shows "\<exists>k cq' st'. tm_untagged c cq (s, um) = Inr (k, cq', st') \<and> cq_status cq' = IBV_WC_SUCCESS \<and>
           cq_wr_id cq' = cfg_wrid cfg (unat (wqe_counter c)) \<and> tm_rel cfg st' a"
proof -
  from r obtain qp where qp: "cmd_qp s = Some qp" "cmd_rel cfg 0 qp a" and l: "list_rel cfg s a" by (auto simp: tm_rel_def)
  have "list_rel cfg (s\<lparr>unexp_in := u, tm_base := mlx5_free_srq_wqe j (tm_base s)\<rparr>) a"
    "list_rel cfg (s\<lparr>tm_base := mlx5_free_srq_wqe j (tm_base s)\<rparr>) a" for u j
    by (rule list_rel_cong [OF l]; simp add: mlx5_free_srq_wqe_def)+
  with i l qp show ?thesis
    by (auto simp: tm_untagged_def tm_rel_def list_rel_def Let_def split: prod.split)
qed

lemma tm_exec_refines:
  assumes r: "tm_rel cfg st a" and q: "tm_spec cfg ev a = Some (e, a')"
  shows "\<exists>st'. tm_exec ev st = Inr (e, st') \<and> tm_rel cfg st' a'"
proof (cases ev)
  case (TmPost wrs)
  with q obtain c hs where "q_ops (cfg_post cfg) wrs a = Some (c, hs, a')" "e = Posted c hs"
    by (auto simp: tm_spec_def split: option.splits)
  with post_ops_rel [of cfg "fst st" "snd st" a wrs c hs a'] r TmPost show ?thesis by (auto simp: tm_exec_def)
next
  case (TmCqe c)
  obtain s um where st: "st = (s, um)" by (cases st)
  from q TmCqe obtain x w where c: "q_cqe cfg c a = Some ((x, w), a')" "e = Polled x w"
    by (auto simp: tm_spec_def split: option.splits)
  have "\<exists>k cq st'. handle_tag_matching c new_cq (s, um) = Inr (k, cq, st') \<and> cq_status cq = x \<and> cq_wr_id cq = w \<and> tm_rel cfg st' a'"
    using c(1) r consumed_rel [of cfg s um a c x w a' new_cq] list_op_rel [of cfg s um a c x w a' new_cq]
      untagged_rel [of cfg s um a c new_cq] unfolding st
    by (auto simp: handle_tag_matching_def q_cqe_def split: if_splits)
  then show ?thesis using c(2) TmCqe st by (auto simp: tm_exec_def)
qed

interpretation tms: simulation "tm_rel cfg" tm_exec "tm_spec cfg" for cfg
  by unfold_locales (rule tm_exec_refines)

subsection \<open>A new list\<close>

definition new_tags :: "nat \<Rightarrow> tm_abs" where
  "new_tags num = \<lparr>q_free = [0..<num + 1], q_live = {}, q_recv = (\<lambda>_. 0), q_buf = (\<lambda>_. (0, 0)), q_pend = [], q_op = 0, q_head = 0, q_tail = 0\<rparr>"

lemma tag_chain_upt: "chain Suc [i..<j]"
proof (induction j)
  case (Suc j)
  then show ?case by (cases "i \<le> j") (auto simp: chain_snoc last_conv_nth)
qed simp

lemma init_queue: "tag_queue [0..<num + 1] (expected (new_tags num)) (init_tags num qp b)"
proof -
  have "chain (\<lambda>i. the (tg_next (tm_list (init_tags num qp b) i))) [0..<num + 1] = chain Suc [0..<num + 1]"
    by (rule chain_cong) (auto simp: init_tags_def zero_tag_def butlast_append)
  then have "chain (\<lambda>i. the (tg_next (tm_list (init_tags num qp b) i))) [0..<num + 1]" by (simp only: tag_chain_upt)
  then show ?thesis by (simp add: tag_queue_def ends_def init_tags_def zero_tag_def expected_def new_tags_def hd_append) auto
qed

definition cmd_new :: "tm_cfg \<Rightarrow> mlx5_qp \<Rightarrow> bool" where
  "cmd_new cfg qp \<longleftrightarrow>
     cfg_bits cfg < 32 \<and> cfg_post cfg \<le> 2 ^ cfg_bits cfg \<and> wqe_cnt (sq qp) = 2 ^ cfg_bits cfg \<and>
     max_post (sq qp) = of_nat (cfg_post cfg) \<and> wq_head (sq qp) = 0 \<and> wq_tail (sq qp) = 0"

lemma init_rel:
  assumes "cmd_new cfg qp" "srq_max b = cfg_srq cfg" "srq_wrid b = cfg_wrid cfg"
  shows "tm_rel cfg (init_tags (cfg_tags cfg) qp b, um) (new_tags (cfg_tags cfg))"
proof -
  have "cmd_rel cfg 0 qp (new_tags (cfg_tags cfg))" using assms(1) by (simp add: cmd_rel_def cmd_new_def new_tags_def)
  moreover have "list_rel cfg (init_tags (cfg_tags cfg) qp b) (new_tags (cfg_tags cfg))"
    using assms init_queue [of "cfg_tags cfg" qp b]
    by (simp add: list_rel_def op_ring_def in_window_def) (simp add: new_tags_def init_tags_def zero_tag_def)
  ultimately show ?thesis by (auto simp: tm_rel_def init_tags_def)
qed

lemma free_exact:
  assumes "tm_rel cfg st a"
  shows "distinct (q_free a)" "set (q_free a) = {i. i \<le> cfg_tags cfg \<and> expect_cqe (tm_list (fst st) i) = 0}"
proof -
  have q: "tag_queue (q_free a) (expected a) (fst st)" and n: "tm_num (fst st) = cfg_tags cfg + 1"
    using assms by (auto simp: tm_rel_def list_rel_def)
  then have "i \<in> set (q_free a) \<longleftrightarrow> i \<le> cfg_tags cfg \<and> expect_cqe (tm_list (fst st) i) = 0" for i
    using of_nat_u8_eq [of "expected a i"] unfolding tag_queue_def by auto
  then show "set (q_free a) = {i. i \<le> cfg_tags cfg \<and> expect_cqe (tm_list (fst st) i) = 0}" by blast
  show "distinct (q_free a)" using q by (simp add: tag_queue_def)
qed

text \<open>
  C6. Tag lists: any sequence of posts and completions that keeps the contract of the interface (\<open>q_tag_op\<close> and
  \<open>q_cqe\<close> say when it does not), with the message in the buffer of the adapter or in the completion, runs
  on a new tag list without a fault, with the errors, handles, statuses and identifiers of the abstract
  queue.  At every moment the free tags are exactly the entries that expect no completion: a tag is never
  handed out while the adapter or a pending operation still refers to it, and none is lost.
\<close>
theorem tag_list_refines:
  assumes "cmd_new cfg qp" and "srq_max b = cfg_srq cfg" and "srq_wrid b = cfg_wrid cfg"
    and "run_spec (tm_spec cfg) evs (new_tags (cfg_tags cfg)) = Some (outs, a)"
  shows "\<exists>st. run_ops tm_exec evs (init_tags (cfg_tags cfg) qp b, um) = Inr (outs, st) \<and> tm_rel cfg st a \<and>
           distinct (q_free a) \<and> set (q_free a) = {i. i \<le> cfg_tags cfg \<and> expect_cqe (tm_list (fst st) i) = 0}"
proof -
  from tms.runs [OF init_rel [OF assms(1-3)] assms(4)] obtain st where
    "run_ops tm_exec evs (init_tags (cfg_tags cfg) qp b, um) = Inr (outs, st)" "tm_rel cfg st a" by blast
  with free_exact show ?thesis by blast
qed

definition ex_cfg :: tm_cfg where
  "ex_cfg = \<lparr>cfg_bits = 2, cfg_post = 3, cfg_tags = 1, cfg_srq = 0, cfg_wrid = (\<lambda>_. 0)\<rparr>"

definition ex_ops_wr :: "ibv_ops_wr_opcode \<Rightarrow> u32 \<Rightarrow> ibv_ops_wr" where
  "ex_ops_wr op fl = \<lparr>ow_id = 7, ow_opcode = op, ow_flags = fl, unexpected_cnt = 0, ow_handle = 0, recv_wr_id = 9,
     add_sg_list = Some [\<lparr>sge_addr = 4096, sge_length = 64, sge_lkey = 5\<rparr>], add_num_sge = 1, ow_tag = 1, ow_mask = 1\<rparr>"

definition ex_cqe :: "u8 \<Rightarrow> tm_cqe" where
  "ex_cqe op = \<lparr>app_op = op, app_info = 0, op_own = 0, byte_cnt = 0, tm_success = 0, hw_phase_cnt = 0, wqe_counter = 0,
     cqe_data32 = [], cqe_data64 = []\<rparr>"

theorem tag_list_refines_witness:
  "\<exists>st. run_ops tm_exec
     [TmPost [ex_ops_wr IBV_WR_TAG_ADD 1, ex_ops_wr IBV_WR_TAG_ADD 0], TmCqe ((ex_cqe TM_CONSUMED_MSG)\<lparr>op_own := MLX5_INLINE_SCATTER_64, byte_cnt := 64\<rparr>), TmCqe (ex_cqe TM_APPEND),
      TmPost [ex_ops_wr IBV_WR_TAG_ADD 0]]
     (init_tags 1 (demo_qp IBV_QPT_RC) demo_srq, \<lambda>_. 0) =
       Inr ([Posted ENOMEM [0], Polled IBV_WC_SUCCESS 9, Polled IBV_WC_SUCCESS 7, Posted 0 [1]], st)"
proof -
  let ?evs = "[TmPost [ex_ops_wr IBV_WR_TAG_ADD 1, ex_ops_wr IBV_WR_TAG_ADD 0], TmCqe ((ex_cqe TM_CONSUMED_MSG)\<lparr>op_own := MLX5_INLINE_SCATTER_64, byte_cnt := 64\<rparr>), TmCqe (ex_cqe TM_APPEND),
      TmPost [ex_ops_wr IBV_WR_TAG_ADD 0]]"
  have "\<exists>a. run_spec (tm_spec ex_cfg) ?evs (new_tags (cfg_tags ex_cfg)) =
      Some ([Posted ENOMEM [0], Polled IBV_WC_SUCCESS 9, Polled IBV_WC_SUCCESS 7, Posted 0 [1]], a)"
    by (simp add: tm_spec_def q_tag_op_def q_post_def q_cqe_def q_consumed_def q_list_op_def q_drop_def q_pop_def expected_def
        ex_cfg_def ex_ops_wr_def ex_cqe_def new_tags_def sge_given_def buf_of_def consume_op_def list_op_def rndv_op_def
        mlx5_cqe_app_op_tm_is_complete_def has_flag_def Let_def)
  then obtain a where a: "run_spec (tm_spec ex_cfg) ?evs (new_tags (cfg_tags ex_cfg)) =
      Some ([Posted ENOMEM [0], Polled IBV_WC_SUCCESS 9, Polled IBV_WC_SUCCESS 7, Posted 0 [1]], a)" ..
  have "cmd_new ex_cfg (demo_qp IBV_QPT_RC)" "srq_max demo_srq = cfg_srq ex_cfg" "srq_wrid demo_srq = cfg_wrid ex_cfg"
    by (simp_all add: cmd_new_def ex_cfg_def demo_srq_def demo_qp_def demo_wq_def)
  from tag_list_refines [OF this a, of "\<lambda>_. 0"] show ?thesis by (auto simp: ex_cfg_def)
qed

text \<open>Free tags are handed out in the order in which they became free.\<close>

lemma q_ops_adds:
  "\<lbrakk>\<forall>wr \<in> set wrs. ow_opcode wr = IBV_WR_TAG_ADD \<and> sge_given wr; length wrs < length (q_free a);
    q_tail a \<le> q_head a; q_head a + length wrs \<le> q_tail a + mp\<rbrakk> \<Longrightarrow>
   \<exists>a'. q_ops mp wrs a = Some (0, map of_nat (take (length wrs) (q_free a)), a') \<and> set (take (length wrs) (q_free a)) \<subseteq> q_live a' \<and>
     q_live a \<subseteq> q_live a'"
proof (induction wrs arbitrary: a)
  case (Cons wr wrs)
  define a1 where "a1 = q_post wr (Some (hd (q_free a))) (a\<lparr>q_free := tl (q_free a), q_live := insert (hd (q_free a)) (q_live a),
      q_recv := (q_recv a)(hd (q_free a) := recv_wr_id wr), q_buf := (q_buf a)(hd (q_free a) := buf_of wr (q_buf a (hd (q_free a))))\<rparr>)"
  have f: "q_free a1 = tl (q_free a)" "q_head a1 = Suc (q_head a)" "q_tail a1 = q_tail a" "q_live a1 = insert (hd (q_free a)) (q_live a)"
    by (simp_all add: a1_def q_post_def)
  have t: "tl (q_free a) \<noteq> []" using Cons.prems(2) by (cases "q_free a") auto
  then have q: "q_tag_op wr a = Some (0, of_nat (hd (q_free a)), a1)" using Cons.prems(1) by (simp add: q_tag_op_def a1_def Let_def)
  have "length wrs < length (q_free a1)" using Cons.prems(2) by (simp add: f)
  from Cons.IH [OF _ this] Cons.prems obtain a' where
    "q_ops mp wrs a1 = Some (0, map of_nat (take (length wrs) (q_free a1)), a')" "set (take (length wrs) (q_free a1)) \<subseteq> q_live a'"
    "q_live a1 \<subseteq> q_live a'" by (auto simp: f)
  with q t Cons.prems(3,4) show ?case by (cases "q_free a") (auto simp: f)
qed simp

text \<open>
  C25. A free tag that is not the last one does not starve: as long as the command queue has room for them and fewer requests
  are posted than tags are free (the code never hands out the last free tag and answers ENOMEM), posting \<open>n\<close> requests to add a
  tag hands out the first \<open>n\<close> free tags in the order in which they became free, so a tag that \<open>k\<close> others
  precede and at least one follows is in use after \<open>k + 1\<close> requests.
\<close>
theorem free_tags_handed_out:
  assumes "tm_rel cfg (s, um) a" and "list_all (\<lambda>wr. ow_opcode wr = IBV_WR_TAG_ADD \<and> sge_given wr) wrs"
    and "length wrs < length (q_free a)" and "q_head a + length wrs \<le> q_tail a + cfg_post cfg"
  shows "\<exists>s' a'. mlx5_post_srq_ops wrs s = Inr (0, map of_nat (take (length wrs) (q_free a)), s') \<and> tm_rel cfg (s', um) a' \<and>
           (\<forall>k. k < length wrs \<longrightarrow> expect_cqe (tm_list s' (q_free a ! k)) \<noteq> 0)"
proof -
  have "q_tail a \<le> q_head a" using assms(1) by (auto simp: tm_rel_def cmd_rel_def)
  with q_ops_adds [of wrs a "cfg_post cfg"] assms(2-) obtain a' where
    q: "q_ops (cfg_post cfg) wrs a = Some (0, map of_nat (take (length wrs) (q_free a)), a')" "set (take (length wrs) (q_free a)) \<subseteq> q_live a'"
    by (auto simp: list_all_iff)
  from post_ops_rel [OF assms(1) q(1)] obtain s' where
    s': "mlx5_post_srq_ops wrs s = Inr (0, map of_nat (take (length wrs) (q_free a)), s')" "tm_rel cfg (s', um) a'" by blast
  have "q_free a ! k \<in> q_live a'" if "k < length wrs" for k
    using q(2) that assms(3) nth_mem [of k "take (length wrs) (q_free a)"] by auto
  with s' show ?thesis using live_counts(2) by (fastforce simp: tm_rel_def)
qed

theorem free_tags_handed_out_witness:
  "\<exists>s'. mlx5_post_srq_ops [ex_ops_wr IBV_WR_TAG_ADD 1] (init_tags 1 (demo_qp IBV_QPT_RC) demo_srq) = Inr (0, [0], s') \<and>
     expect_cqe (tm_list s' 0) \<noteq> 0"
proof -
  have n: "cmd_new ex_cfg (demo_qp IBV_QPT_RC)" "srq_max demo_srq = cfg_srq ex_cfg" "srq_wrid demo_srq = cfg_wrid ex_cfg"
    by (simp_all add: cmd_new_def ex_cfg_def demo_srq_def demo_qp_def demo_wq_def)
  have r: "tm_rel ex_cfg (init_tags 1 (demo_qp IBV_QPT_RC) demo_srq, \<lambda>_. 0) (new_tags 1)"
    using init_rel [OF n, of "\<lambda>_. 0"] by (simp add: ex_cfg_def)
  from free_tags_handed_out [OF r, of "[ex_ops_wr IBV_WR_TAG_ADD 1]"] show ?thesis
    by (auto simp: new_tags_def ex_cfg_def ex_ops_wr_def sge_given_def)
qed

subsection \<open>Buffers of tags\<close>

text \<open>A message that the adapter delivers inside the completion goes to the buffer of its tag.\<close>

theorem consumed_inline_delivers:
  assumes "i = unat (app_info c)" "i < tm_num s" "expect_cqe (tm_list s i) \<noteq> 0" "consume_op (app_op c)"
    and "op_own c AND MLX5_INLINE_SCATTER_64 \<noteq> 0" "byte_cnt c \<le> tg_size (tm_list s i)"
  shows "\<exists>cq' s'. handle_tag_matching c cq (s, um) =
           Inr (0, cq', s', user_store (tg_ptr (tm_list s i)) (take (unat (byte_cnt c)) (cqe_data64 c)) um)"
proof -
  have "tg_ptr (tm_list (mlx5_tm_release_tag i s) i) = tg_ptr (tm_list s i)" "tg_size (tm_list (mlx5_tm_release_tag i s) i) = tg_size (tm_list s i)"
    by (simp_all add: mlx5_tm_release_tag_def Let_def)
  with assms show ?thesis by (auto simp: handle_tag_matching_def tm_consumed_def Let_def)
qed

text \<open>
  A request with an empty scatter list leaves the buffer of the previous user of the tag in the entry:
  a message that arrives inside the completion is then copied into that old buffer.
\<close>

theorem tag_empty_keeps_buffer:
  assumes "tag_add n wr seg qp s = Inr (0, h, sz, qp', s')" "add_num_sge wr = 0"
  shows "tg_ptr (tm_list s' (tm_head s)) = tg_ptr (tm_list s (tm_head s)) \<and>
         tg_size (tm_list s' (tm_head s)) = tg_size (tm_list s (tm_head s))"
  using assms by (auto simp: tag_add_def mlx5_tm_add_op_def Let_def split: option.splits if_splits)

text \<open>
  The adapter reports its counter of unexpected messages in 16 bits, the entry keeps the one of the
  program in 32: once the program has handled \<open>2 ^ 16\<close> messages, no completion of an addition finds the
  two equal, and each asks for another synchronisation.
\<close>

theorem phase_never_matches:
  assumes "tm_list_op c cq s = Inr (r, cq', s')" "cmd_qp s = Some qp"
    and "op_tag (srq_op s (unat (op_head s AND (wqe_cnt (sq qp) - 1)))) = Some i" "2 ^ 16 \<le> phase_cnt (tm_list s i)"
  shows "tm_sync_req cq'"
proof -
  have "int (unat (hw_phase_cnt c)) < 2 ^ 16" using unsigned_less [where ?'a = int, of "hw_phase_cnt c"] by simp
  then have "int (unat (hw_phase_cnt c)) \<noteq> phase_cnt (tm_list s i)" using assms(4) by linarith
  with assms(1-3) show ?thesis by (auto simp: tm_list_op_def Let_def)
qed

subsection \<open>Keys of memory windows\<close>

lemma inc_rkey_bits: "ibv_inc_rkey k = (k AND NOT (mask 8)) OR take_bit 8 (k + 1)"
  by (simp add: ibv_inc_rkey_def take_bit_eq_mask mask_eq_exp_minus_1)

lemma inc_rkey_index: "drop_bit 8 (ibv_inc_rkey k) = drop_bit 8 k"
  by (rule bit_word_eqI) (auto simp: inc_rkey_bits bit_simps dest: bit_imp_le_length)

lemma inc_rkey_tag: "take_bit 8 (ibv_inc_rkey k) = take_bit 8 (k + 1)"
  by (rule bit_word_eqI) (auto simp: inc_rkey_bits bit_simps)

lemma low_byte: "unat (take_bit 8 ((k :: u32) + of_nat n)) = (unat k + n) mod 256"
  using unat_mask_add [of 256 8 k n] by (simp add: take_bit_eq_mask mask_eq_exp_minus_1)

lemma inc_rkey_pow:
  "drop_bit 8 ((ibv_inc_rkey ^^ n) k) = drop_bit 8 k \<and> unat (take_bit 8 ((ibv_inc_rkey ^^ n) k)) = (unat k + n) mod 256"
proof (induction n)
  case 0
  show ?case using low_byte [of k 0] by simp
next
  case (Suc n)
  let ?x = "(ibv_inc_rkey ^^ n) k"
  have "unat ?x mod 256 = (unat k + n) mod 256" using Suc low_byte [of ?x 0] by simp
  from mod_add_cong [OF this refl, of 1] have "(unat ?x + 1) mod 256 = (unat k + Suc n) mod 256" by simp
  with Suc low_byte [of ?x 1] show ?case by (simp add: inc_rkey_index inc_rkey_tag)
qed

text \<open>Binding changes only the low byte of the key, and a key comes back after 256 bindings, not before.\<close>

theorem inc_rkey_period: "(ibv_inc_rkey ^^ n) k = k \<longleftrightarrow> 256 dvd n"
proof -
  let ?x = "(ibv_inc_rkey ^^ n) k"
  have "?x = k \<longleftrightarrow> take_bit 8 ?x = take_bit 8 k"
    using inc_rkey_pow [of n k] bits_ident [of 8 ?x] bits_ident [of 8 k] by auto
  also have "\<dots> \<longleftrightarrow> (unat k + n) mod 256 = unat k mod 256"
    using inc_rkey_pow [of n k] low_byte [of k 0] by (simp only: word_unat_eq_iff) simp
  also have "\<dots> \<longleftrightarrow> 256 dvd n" using mod_eq_dvd_iff_nat [of "unat k" "unat k + n" 256] by simp
  finally show ?thesis .
qed

end
