(* ===== verification/Cq.thy ===== *)
theory Cq
  imports Tag_Match
begin

text \<open>
  Completion queues, the ring itself: which entries belong to the software (\<open>get_sw_cqe\<close>), taking the next
  one, arming, removing the entries of a queue pair that is destroyed (\<open>__mlx5_cq_clean\<close>), moving the
  entries to a buffer of another size, and the initial buffer, all of \<open>providers/mlx5/cq.c\<close>.  An entry
  has 64 or 128 bytes; the fields are in its last 64, and its very last byte holds the owner bit, which
  alternates with every turn of the ring.
\<close>

subsection \<open>The queue and its operations\<close>

abbreviation (input) MLX5_CQE_REQ :: u8 where "MLX5_CQE_REQ \<equiv> 0"
abbreviation (input) MLX5_CQE_RESP_WR_IMM :: u8 where "MLX5_CQE_RESP_WR_IMM \<equiv> 1"
abbreviation (input) MLX5_CQE_RESP_SEND :: u8 where "MLX5_CQE_RESP_SEND \<equiv> 2"
abbreviation (input) MLX5_CQE_RESP_SEND_IMM :: u8 where "MLX5_CQE_RESP_SEND_IMM \<equiv> 3"
abbreviation (input) MLX5_CQE_RESP_SEND_INV :: u8 where "MLX5_CQE_RESP_SEND_INV \<equiv> 4"
abbreviation (input) MLX5_CQE_RESIZE_CQ :: u8 where "MLX5_CQE_RESIZE_CQ \<equiv> 5"
abbreviation (input) MLX5_CQE_NO_PACKET :: u8 where "MLX5_CQE_NO_PACKET \<equiv> 6"
abbreviation (input) MLX5_CQE_SIG_ERR :: u8 where "MLX5_CQE_SIG_ERR \<equiv> 12"
abbreviation (input) MLX5_CQE_REQ_ERR :: u8 where "MLX5_CQE_REQ_ERR \<equiv> 13"
abbreviation (input) MLX5_CQE_RESP_ERR :: u8 where "MLX5_CQE_RESP_ERR \<equiv> 14"
abbreviation (input) MLX5_CQE_INVALID :: u8 where "MLX5_CQE_INVALID \<equiv> 15"
abbreviation (input) MLX5_CQ_FLAGS_DV_OWNED :: u32 where "MLX5_CQ_FLAGS_DV_OWNED \<equiv> 32"

text \<open>The objects a completion can be for.\<close>

datatype rsc_type = MLX5_RSC_TYPE_QP | MLX5_RSC_TYPE_XSRQ | MLX5_RSC_TYPE_SRQ | MLX5_RSC_TYPE_RWQ | MLX5_RSC_TYPE_INVAL

record mlx5_resource =
  rsc_type :: rsc_type
  rsn :: u32
  rsc_obj :: nat

text \<open>
  \<open>cq_buf\<close> is the active buffer, \<open>cq_cqe\<close> the field \<open>cqe\<close>, one less than the number of entries; \<open>cq_ci\<close> and
  \<open>cq_arm\<close> are the two words of the doorbell record, \<open>cq_uar\<close> the 64-bit values written to the register.
  \<open>lz\<close> has the status and the identifier of the extended interface, with the flag
  \<open>MLX5_CQ_FLAGS_TM_SYNC_REQ\<close>.
\<close>

record mlx5_cq =
  cq_buf :: mem
  cq_cqe :: u32
  cq_sz :: nat
  cons_index :: u32
  cq_ci :: u32
  cq_arm :: u32
  arm_sn :: u32
  cqn :: u32
  cq_flags :: u32
  cq_uar :: "u64 list"
  lz :: tm_cq
  cur_rsc :: "mlx5_resource option"
  cur_srq :: "nat option"
  cq_cqe64 :: nat
  cached_opcode :: u32
  stall_next_poll :: bool
  stall_enable :: bool
  stall_last_count :: u64
  stall_adaptive_enable :: bool
  stall_cycles :: int

definition get_cqe :: "mlx5_cq \<Rightarrow> u32 \<Rightarrow> nat" where
  "get_cqe cq n = unat n * cq_sz cq"

text \<open>The part of an entry with the fields.\<close>

definition cqe64_of :: "mlx5_cq \<Rightarrow> nat \<Rightarrow> nat" where
  "cqe64_of cq cqe = (if cq_sz cq = 64 then cqe else cqe + 64)"

definition op_own_at :: "nat \<Rightarrow> mem \<Rightarrow> u8" where
  "op_own_at e m = m (e + 63)"

definition mlx5dv_get_cqe_opcode :: "nat \<Rightarrow> mem \<Rightarrow> u8" where
  "mlx5dv_get_cqe_opcode e m = drop_bit 4 (op_own_at e m)"

definition get_sw_cqe :: "mlx5_cq \<Rightarrow> u32 \<Rightarrow> nat option" where
  "get_sw_cqe cq n =
     (let cqe = get_cqe cq (n AND cq_cqe cq); e = cqe64_of cq cqe
      in if mlx5dv_get_cqe_opcode e (cq_buf cq) \<noteq> MLX5_CQE_INVALID \<and>
            (op_own_at e (cq_buf cq) AND 1 \<noteq> 0) = (n AND (cq_cqe cq + 1) \<noteq> 0)
         then Some cqe else None)"

definition next_cqe_sw :: "mlx5_cq \<Rightarrow> nat option" where
  "next_cqe_sw cq = get_sw_cqe cq (cons_index cq)"

definition update_cons_index :: "mlx5_cq \<Rightarrow> mlx5_cq" where
  "update_cons_index cq = cq\<lparr>cq_ci := cons_index cq AND 0xffffff\<rparr>"

text \<open>The next entry, \<open>None\<close> for \<open>CQ_EMPTY\<close>.\<close>

definition mlx5_get_next_cqe :: "mlx5_cq \<Rightarrow> (nat \<times> nat \<times> mlx5_cq) option" where
  "mlx5_get_next_cqe cq =
     (case next_cqe_sw cq of
        None \<Rightarrow> None
      | Some cqe \<Rightarrow> Some (cqe64_of cq cqe, cqe, cq\<lparr>cons_index := cons_index cq + 1\<rparr>))"

definition mlx5_arm_cq :: "bool \<Rightarrow> mlx5_cq \<Rightarrow> mlx5_cq" where
  "mlx5_arm_cq solicited cq =
     (let sn = arm_sn cq AND 3; ci = cons_index cq AND 0xffffff; cmd = (if solicited then push_bit 24 1 else 0);
          db = push_bit 28 sn OR cmd OR ci
      in cq\<lparr>cq_arm := db, cq_uar := cq_uar cq @ [push_bit 32 (ucast db) OR ucast (cqn cq)]\<rparr>)"

definition mlx5_cq_event :: "mlx5_cq \<Rightarrow> mlx5_cq" where
  "mlx5_cq_event cq = cq\<lparr>arm_sn := arm_sn cq + 1\<rparr>"

subsection \<open>Removing the entries of a queue pair\<close>

definition is_equal_rsn :: "nat \<Rightarrow> mem \<Rightarrow> u32 \<Rightarrow> bool" where
  "is_equal_rsn e m r \<longleftrightarrow> r = ld_be32 (e + 56) m AND 0xffffff"

definition is_equal_uidx :: "nat \<Rightarrow> mem \<Rightarrow> u32 \<Rightarrow> bool" where
  "is_equal_uidx e m u \<longleftrightarrow> u = ld_be32 (e + 32) m AND 0xffffff"

definition is_responder :: "u8 \<Rightarrow> bool" where
  "is_responder op \<longleftrightarrow>
     op \<in> {MLX5_CQE_RESP_WR_IMM, MLX5_CQE_RESP_SEND, MLX5_CQE_RESP_SEND_IMM, MLX5_CQE_RESP_SEND_INV, MLX5_CQE_RESP_ERR}"

text \<open>Whether the entry is for the object \<open>r\<close>, and the shared receive queue with its descriptor given back.\<close>

definition free_res_cqe :: "nat \<Rightarrow> mem \<Rightarrow> u32 \<Rightarrow> bool \<Rightarrow> mlx5_srq option \<Rightarrow> bool \<times> mlx5_srq option" where
  "free_res_cqe e m r ver srq =
     (let free = map_option (mlx5_free_srq_wqe (unat (ld_be16 (e + 60) m))) srq
      in if ver then
           if is_equal_uidx e m r then (True, if is_responder (mlx5dv_get_cqe_opcode e m) then free else srq)
           else (False, srq)
         else
           if is_equal_rsn e m r then (True, if ld_be32 (e + 32) m AND 0xffffff \<noteq> 0 then free else srq)
           else (False, srq))"

lemma unat_dec: "(x :: u32) \<noteq> 0 \<Longrightarrow> unat (x - 1) < unat x"
  by (simp add: unat_minus_one unat_gt_0)

text \<open>The loop that looks for the producer index stops at the latest after one turn.\<close>

function find_prod :: "mlx5_cq \<Rightarrow> u32 \<Rightarrow> u32" where
  "find_prod cq p =
     (if get_sw_cqe cq p = None then p
      else if p = cons_index cq + cq_cqe cq then p
      else find_prod cq (p + 1))"
  by pat_completeness auto

termination
proof (relation "measure (\<lambda>(cq, p). unat (cons_index cq + cq_cqe cq - p))")
  fix cq p
  assume "p \<noteq> cons_index cq + cq_cqe cq"
  then have "cons_index cq + cq_cqe cq - p \<noteq> 0" by auto
  from unat_dec [OF this] show "((cq, p + 1), cq, p) \<in> measure (\<lambda>(cq, p). unat (cons_index cq + cq_cqe cq - p))"
    by (simp add: diff_diff_eq)
qed simp

declare find_prod.simps [simp del]

text \<open>The difference of two indices as the code computes it, in \<open>int\<close>.\<close>

definition int_diff :: "u32 \<Rightarrow> u32 \<Rightarrow> int res" where
  "int_diff a b = (let d = sint a - sint b in if - (2 ^ 31) \<le> d \<and> d < 2 ^ 31 then Inr d else Inl Undefined)"

text \<open>One turn of the sweep at index \<open>p\<close>, with \<open>n\<close> entries removed so far.\<close>

definition sweep_one :: "mlx5_cq \<Rightarrow> u32 \<Rightarrow> bool \<Rightarrow> u32 \<Rightarrow> nat \<Rightarrow> mem \<times> mlx5_srq option \<Rightarrow> nat \<times> mem \<times> mlx5_srq option" where
  "sweep_one cq r ver p n st =
     (case st of (m, srq) \<Rightarrow>
        let cqe = get_cqe cq (p AND cq_cqe cq); e = cqe64_of cq cqe
        in case free_res_cqe e m r ver srq of
             (True, srq') \<Rightarrow> (Suc n, m, srq')
           | (False, _) \<Rightarrow>
               if n = 0 then (n, m, srq)
               else
                 let dest = get_cqe cq ((p + of_nat n) AND cq_cqe cq); d = cqe64_of cq dest;
                     own = op_own_at d m AND 1;
                     m1 = store dest (load_bytes cqe (cq_sz cq) m) m
                 in (n, st8 (d + 63) (own OR (op_own_at d m1 AND NOT 1)) m1, srq))"

lemma sint_dec:
  assumes "- (2 ^ 31) < sint (x :: u32)"
  shows "sint (x - 1) = sint x - 1"
proof -
  have "sint x < 2 ^ 31" using sint_lt [of x] by simp
  then have "signed_take_bit 31 (sint x - 1) = sint x - 1" using assms by (intro signed_take_bit_int_eq_self) auto
  moreover have "sint (x - 1) = signed_take_bit 31 (sint x - 1)" by (simp add: sint_word_ariths)
  ultimately show ?thesis by simp
qed

lemma sint_dec_min:
  assumes "sint (x :: u32) = - (2 ^ 31)"
  shows "sint (x - 1) = 2 ^ 31 - 1"
proof -
  have "x = 0x80000000" by (rule signed_word_eqI [where ?'a = int]) (simp add: assms)
  then show ?thesis by simp
qed

text \<open>How far the sweep still is from its end.\<close>

definition sweep_left :: "mlx5_cq \<Rightarrow> u32 \<Rightarrow> nat" where
  "sweep_left cq p = (case int_diff (p - 1) (cons_index cq) of Inl _ \<Rightarrow> 0 | Inr d \<Rightarrow> nat (d + 1))"

function sweep :: "mlx5_cq \<Rightarrow> u32 \<Rightarrow> bool \<Rightarrow> u32 \<Rightarrow> nat \<times> mem \<times> mlx5_srq option \<Rightarrow> (nat \<times> mem \<times> mlx5_srq option) res" where
  "sweep cq r ver p st =
     (case int_diff (p - 1) (cons_index cq) of
        Inl f \<Rightarrow> Inl f
      | Inr d \<Rightarrow>
          if d < 0 then Inr st
          else sweep cq r ver (p - 1) (sweep_one cq r ver (p - 1) (fst st) (snd st)))"
  by pat_completeness auto


termination
proof (relation "measure (\<lambda>(cq, r, ver, p, st). sweep_left cq p)")
  fix cq :: mlx5_cq and r ver and p :: u32 and st d
  assume d: "int_diff (p - 1) (cons_index cq) = Inr d" "\<not> d < 0"
  let ?q = "p - 1"
  have v: "d = sint ?q - sint (cons_index cq)" using d(1) by (auto simp: int_diff_def Let_def split: if_splits)
  have "sweep_left cq ?q < nat (d + 1)"
  proof (cases "int_diff (?q - 1) (cons_index cq)")
    case (Inr d')
    then have v': "d' = sint (?q - 1) - sint (cons_index cq)" "d' < 2 ^ 31" by (auto simp: int_diff_def Let_def split: if_splits)
    have "d' < d"
    proof (cases "- (2 ^ 31) < sint ?q")
      case True
      from sint_dec [OF this] v v' show ?thesis by simp
    next
      case False
      then have q: "sint ?q = - (2 ^ 31)" using sint_ge [of ?q] by simp
      then have "sint (cons_index cq) = - (2 ^ 31)" using v d(2) sint_ge [of "cons_index cq"] by simp
      with sint_dec_min [OF q] v' show ?thesis by simp
    qed
    with Inr d(2) show ?thesis by (simp add: sweep_left_def)
  qed (use d(2) in \<open>simp add: sweep_left_def\<close>)
  with d(1) show "((cq, r, ver, ?q, sweep_one cq r ver ?q (fst st) (snd st)), cq, r, ver, p, st)
      \<in> measure (\<lambda>(cq, r, ver, p, st). sweep_left cq p)"
    by (simp add: sweep_left_def [of cq p])
qed simp

declare sweep.simps [simp del]

definition cq_clean :: "mlx5_cq \<Rightarrow> u32 \<Rightarrow> bool \<Rightarrow> mlx5_srq option \<Rightarrow> (mlx5_cq \<times> mlx5_srq option) res" where
  "cq_clean cq r ver srq =
     (if has_flag (cq_flags cq) MLX5_CQ_FLAGS_DV_OWNED then Inr (cq, srq)
      else bind_res (sweep cq r ver (find_prod cq (cons_index cq)) (0, cq_buf cq, srq)) (\<lambda>(n, m, srq').
             Inr (if n = 0 then cq\<lparr>cq_buf := m\<rparr>
                  else update_cons_index (cq\<lparr>cq_buf := m, cons_index := cons_index cq + of_nat n\<rparr>), srq')))"

subsection \<open>Another buffer\<close>

definition sw_ownership_bit :: "u32 \<Rightarrow> u32 \<Rightarrow> u8" where
  "sw_ownership_bit n nent = (if n AND nent \<noteq> 0 then 1 else 0)"

definition is_hw :: "u8 \<Rightarrow> u32 \<Rightarrow> u32 \<Rightarrow> bool" where
  "is_hw own n msk \<longleftrightarrow> (own AND 1 \<noteq> 0) \<noteq> (n AND (msk + 1) \<noteq> 0)"

text \<open>
  The copy of the entry at index \<open>i\<close> to the new buffer \<open>dst\<close> of \<open>n\<close> entries of \<open>dsz\<close> bytes, at the next
  index; the entry that announces the new buffer takes the first one.
\<close>

definition resize_one :: "mlx5_cq \<Rightarrow> nat \<Rightarrow> u32 \<Rightarrow> u32 \<Rightarrow> mem \<Rightarrow> mem" where
  "resize_one cq dsz n i dst =
     (let s = get_cqe cq (i AND cq_cqe cq); d = unat ((i + 1) AND (n - 1)) * dsz; d64 = (if dsz = 64 then d else d + 64);
          m1 = store d (load_bytes s (cq_sz cq) (cq_buf cq)) dst
      in st8 (d64 + 63) ((op_own_at d64 m1 AND NOT 1) OR sw_ownership_bit (i + 1) n) m1)"

text \<open>Whether the announcing entry was found, and the new buffer.\<close>

function resize_loop :: "mlx5_cq \<Rightarrow> nat \<Rightarrow> u32 \<Rightarrow> u32 \<Rightarrow> mem \<Rightarrow> bool \<times> mem" where
  "resize_loop cq dsz n i dst =
     (if mlx5dv_get_cqe_opcode (cqe64_of cq (get_cqe cq (i AND cq_cqe cq))) (cq_buf cq) = MLX5_CQE_RESIZE_CQ then (True, dst)
      else
        let dst' = resize_one cq dsz n i dst; s = get_cqe cq ((i + 1) AND cq_cqe cq)
        in if is_hw (op_own_at (cqe64_of cq s) (cq_buf cq)) (i + 1) (cq_cqe cq) then (False, dst')
           else if s = get_cqe cq (cons_index cq AND cq_cqe cq) then (False, dst')
           else resize_loop cq dsz n (i + 1) dst')"
  by pat_completeness auto

termination
proof (relation "measure (\<lambda>(cq, dsz, n, i, dst). unat (cons_index cq - i - 1))")
  fix cq :: mlx5_cq and dsz n i dst dst' and s :: nat
  assume "s = get_cqe cq ((i + 1) AND cq_cqe cq)" "s \<noteq> get_cqe cq (cons_index cq AND cq_cqe cq)"
  then have "cons_index cq \<noteq> i + 1" by auto
  then have "cons_index cq - i - 1 \<noteq> 0" by (simp add: diff_diff_eq)
  from unat_dec [OF this]
  show "((cq, dsz, n, i + 1, dst'), cq, dsz, n, i, dst) \<in> measure (\<lambda>(cq, dsz, n, i, dst). unat (cons_index cq - i - 1))"
    by (simp add: algebra_simps)
qed simp

declare resize_loop.simps [simp del]

definition mlx5_cq_resize_copy_cqes :: "nat \<Rightarrow> u32 \<Rightarrow> mem \<Rightarrow> mlx5_cq \<Rightarrow> mem \<times> mlx5_cq" where
  "mlx5_cq_resize_copy_cqes dsz n dst cq =
     (if is_hw (op_own_at (cqe64_of cq (get_cqe cq (cons_index cq AND cq_cqe cq))) (cq_buf cq)) (cons_index cq) (cq_cqe cq)
      then (dst, cq)
      else case resize_loop cq dsz n (cons_index cq) dst of
             (found, dst') \<Rightarrow> (dst', if found then cq\<lparr>cons_index := cons_index cq + 1\<rparr> else cq))"

text \<open>A new buffer: every entry is marked invalid, also in memory that the application provides.\<close>

fun init_cqes :: "nat \<Rightarrow> nat \<Rightarrow> mem \<Rightarrow> mem" where
  "init_cqes sz 0 m = m"
| "init_cqes sz (Suc i) m = st8 (i * sz + (if sz = 128 then 64 else 0) + 63) (push_bit 4 MLX5_CQE_INVALID) (init_cqes sz i m)"

definition mlx5_alloc_cq_buf :: "mem option \<Rightarrow> nat \<Rightarrow> nat \<Rightarrow> mem" where
  "mlx5_alloc_cq_buf custom nent sz = init_cqes sz nent (case custom of Some m \<Rightarrow> m | None \<Rightarrow> (\<lambda>_. 0))"

text \<open>
  \<open>custom\<close> and \<open>alloc\<close> are the memory the application provides and the success of the allocation; \<open>cmd\<close>
  is the call of the kernel: its error, and the two buffers after it.
\<close>

definition mlx5_resize_cq ::
    "mem option \<Rightarrow> bool \<Rightarrow> (u32 \<Rightarrow> mem \<times> mem \<Rightarrow> int \<times> mem \<times> mem) \<Rightarrow> int \<Rightarrow> mlx5_cq \<Rightarrow> int \<times> mlx5_cq" where
  "mlx5_resize_cq custom alloc cmd cqe cq =
     (if cqe < 0 \<or> 2 ^ 31 - 1 < cqe * 64 then (int EINVAL, cq)
      else
        let n = align_queue_size (nat cqe + 1)
        in if of_nat n = cq_cqe cq + 1 then (0, cq)
           else if \<not> alloc then (- 1, cq)
           else case cmd (of_nat n - 1) (cq_buf cq, mlx5_alloc_cq_buf custom n (cq_sz cq)) of
                  (err, old, new) \<Rightarrow>
                    if err \<noteq> 0 then (err, cq\<lparr>cq_buf := old\<rparr>)
                    else case mlx5_cq_resize_copy_cqes (cq_sz cq) (of_nat n) new (cq\<lparr>cq_buf := old\<rparr>) of
                           (new', cq') \<Rightarrow> (0, cq'\<lparr>cq_buf := new', cq_cqe := of_nat n - 1\<rparr>))"

end
