(* ===== verification/Cq_Ring.thy ===== *)
theory Cq_Ring
  imports Cq
begin

text \<open>
  The ring of a completion queue as a list of entries.  \<open>cq_view\<close> relates the buffer, the consumer index and
  the owner bits to the entries the software has not consumed; taking an entry removes the first,
  the adapter appends at the end, \<open>cq_clean\<close> keeps exactly the entries of the other queue pairs in their
  order, and resizing moves all of them to the new buffer.
\<close>

subsection \<open>Indices\<close>

definition cq_wf :: "nat \<Rightarrow> mlx5_cq \<Rightarrow> bool" where
  "cq_wf b cq \<longleftrightarrow> b < 31 \<and> cq_cqe cq = 2 ^ b - 1 \<and> (cq_sz cq = 64 \<or> cq_sz cq = 128)"

definition slot_of :: "nat \<Rightarrow> u32 \<Rightarrow> nat" where
  "slot_of b n = unat n mod 2 ^ b"

lemma slot_mask: "b < 32 \<Longrightarrow> unat (n AND (2 ^ b - 1)) = slot_of b n"
  using unat_mask_add [of "2 ^ b" b n 0] by (simp add: slot_of_def)

lemma slot_add: "b < 32 \<Longrightarrow> slot_of b (n + of_nat k) = (unat n + k) mod 2 ^ b"
  using unat_mask_add [of "2 ^ b" b n k] slot_mask [of b "n + of_nat k"] by simp

lemma slot_neq:
  assumes "b < 32" "j < k" "k < j + 2 ^ b"
  shows "slot_of b (n + of_nat j) \<noteq> slot_of b (n + of_nat k)"
proof
  assume "slot_of b (n + of_nat j) = slot_of b (n + of_nat k)"
  then have "(unat n + k) mod 2 ^ b = (unat n + j) mod 2 ^ b" using assms(1) by (simp add: slot_add)
  then have "(2 ^ b :: nat) dvd (unat n + k) - (unat n + j)" using assms(2) by (subst (asm) mod_eq_dvd_iff_nat) auto
  then show False using assms by (auto dest!: dvd_imp_le)
qed

lemma slot_inj:
  assumes "b < 32" "j < 2 ^ b" "k < 2 ^ b" "slot_of b (n + of_nat j) = slot_of b (n + of_nat k)"
  shows "j = k"
  using assms slot_neq [of b j k n] slot_neq [of b k j n] by (cases j k rule: linorder_cases) auto

lemma slot_turn: "b < 32 \<Longrightarrow> slot_of b (n + 2 ^ b) = slot_of b n"
  using slot_add [of b n "2 ^ b"] by (simp add: slot_of_def)

lemma bit_mask_nz: "(n :: u32) AND 2 ^ b \<noteq> 0 \<longleftrightarrow> b < 32 \<and> bit n b"
proof -
  have "n AND 2 ^ b = (if b < 32 \<and> bit n b then 2 ^ b else 0)"
    by (rule bit_word_eqI) (auto simp: bit_simps)
  then show ?thesis by simp
qed

lemma bit_turn:
  assumes b: "b < 32"
  shows "bit ((n :: u32) + 2 ^ b) b \<longleftrightarrow> \<not> bit n b"
proof -
  have e: "bit (x :: u32) b \<longleftrightarrow> bit (unat x) b" for x by (simp add: bit_unsigned_iff)
  have "unat (n + 2 ^ b) = take_bit 32 (unat n + 2 ^ b)"
    using b unat_pow2 [of b, where ?'a = 32] by (simp add: unat_word_ariths take_bit_eq_mod)
  then have "bit (n + 2 ^ b) b \<longleftrightarrow> bit (unat n + 2 ^ b) b" using b by (simp only: e) (simp add: bit_take_bit_iff)
  also have "\<dots> \<longleftrightarrow> odd (unat n div 2 ^ b + 1)"
    using div_add_self2 [of "2 ^ b" "unat n"] by (simp add: bit_iff_odd del: div_add_self2)
  also have "\<dots> \<longleftrightarrow> \<not> bit n b" by (simp only: e) (simp add: bit_iff_odd)
  finally show ?thesis .
qed

subsection \<open>Entries\<close>

text \<open>The owner bit is in the last byte, so the rest of an entry does not depend on the turn.\<close>

definition strip :: "u8 list \<Rightarrow> u8 list" where
  "strip e = e[length e - 1 := last e AND NOT 1]"

definition raw_at :: "mlx5_cq \<Rightarrow> nat \<Rightarrow> mem \<Rightarrow> u8 list" where
  "raw_at cq i m = load_bytes (i * cq_sz cq) (cq_sz cq) m"

text \<open>The \<open>n\<close> bytes of the fields at an offset.\<close>

definition field :: "nat \<Rightarrow> nat \<Rightarrow> u8 list \<Rightarrow> u8 list" where
  "field off n e = take n (drop (length e - 64 + off) e)"

definition e_opcode :: "u8 list \<Rightarrow> u8" where
  "e_opcode e = drop_bit 4 (last e)"

definition e_be32 :: "nat \<Rightarrow> u8 list \<Rightarrow> u32" where
  "e_be32 off e = of_nat (be_value (field off 4 e))"

definition e_be16 :: "nat \<Rightarrow> u8 list \<Rightarrow> u16" where
  "e_be16 off e = of_nat (be_value (field off 2 e))"

lemma load_drop: "load_bytes (p + k) n m = take n (drop k (load_bytes p (k + n + j) m))"
  by (rule nth_equalityI) (auto simp: load_bytes_def add.assoc)

lemma load_field:
  assumes "cq_sz cq = 64 \<or> cq_sz cq = 128" "off + n \<le> 64"
  shows "load_bytes (cqe64_of cq (i * cq_sz cq) + off) n m = field off n (raw_at cq i m)"
proof -
  have l: "cq_sz cq = (cq_sz cq - 64 + off) + n + (64 - off - n)" using assms by auto
  have "cqe64_of cq (i * cq_sz cq) + off = i * cq_sz cq + (cq_sz cq - 64 + off)" using assms(1) by (auto simp: cqe64_of_def)
  with load_drop [of "i * cq_sz cq" "cq_sz cq - 64 + off" n m "64 - off - n"] l show ?thesis
    by (simp add: field_def raw_at_def)
qed

lemma length_strip [simp]: "length (strip e) = length e"
  by (simp add: strip_def)

lemma field_strip: "off + n \<le> 63 \<Longrightarrow> 64 \<le> length e \<Longrightarrow> field off n (strip e) = field off n e"
  by (rule nth_equalityI) (auto simp: field_def strip_def)

lemma last_strip: "e \<noteq> [] \<Longrightarrow> last (strip e) = last e AND NOT 1"
  by (simp add: strip_def last_conv_nth)

lemma drop_own: "drop_bit 4 ((x :: u8) AND NOT 1) = drop_bit 4 x"
  by (rule bit_word_eqI) (simp only: bit_drop_bit_eq bit_and_iff bit_not_iff bit_1_iff o_def, auto dest: bit_imp_le_length)

lemma opcode_strip: "e \<noteq> [] \<Longrightarrow> e_opcode (strip e) = e_opcode e"
  using drop_own [of "last e"] by (simp add: e_opcode_def last_strip del: drop_bit_and)

lemma own_raw: "cq_sz cq = 64 \<or> cq_sz cq = 128 \<Longrightarrow> op_own_at (cqe64_of cq (i * cq_sz cq)) m = last (raw_at cq i m)"
  by (auto simp: op_own_at_def cqe64_of_def raw_at_def load_bytes_def last_conv_nth add.commute)

lemma length_raw [simp]: "length (raw_at cq i m) = cq_sz cq"
  by (simp add: raw_at_def)

text \<open>The entry at an index of the ring, and whether it belongs to the software there.\<close>

definition owned :: "nat \<Rightarrow> mlx5_cq \<Rightarrow> mem \<Rightarrow> u32 \<Rightarrow> bool" where
  "owned b cq m n \<longleftrightarrow>
     e_opcode (raw_at cq (slot_of b n) m) \<noteq> MLX5_CQE_INVALID \<and> bit (last (raw_at cq (slot_of b n) m)) 0 = bit n b"

definition entry :: "nat \<Rightarrow> mlx5_cq \<Rightarrow> mem \<Rightarrow> u32 \<Rightarrow> u8 list" where
  "entry b cq m n = strip (raw_at cq (slot_of b n) m)"

lemma low_bit: "(x :: 'a::len word) AND 1 \<noteq> 0 \<longleftrightarrow> bit x 0"
  by (simp add: and_one_eq bit_0 odd_iff_mod_2_eq_one)

lemma get_sw_owned:
  assumes "cq_wf b cq"
  shows "get_sw_cqe cq n = (if owned b cq (cq_buf cq) n then Some (slot_of b n * cq_sz cq) else None)"
proof -
  have b: "b < 32" and c: "cq_cqe cq = 2 ^ b - 1" and z: "cq_sz cq = 64 \<or> cq_sz cq = 128" using assms by (auto simp: cq_wf_def)
  have "get_cqe cq (n AND cq_cqe cq) = slot_of b n * cq_sz cq" using slot_mask [OF b] by (simp add: get_cqe_def c)
  moreover have "n AND (cq_cqe cq + 1) \<noteq> 0 \<longleftrightarrow> bit n b" using bit_mask_nz b by (simp add: c)
  ultimately show ?thesis
    using own_raw [OF z] by (simp add: get_sw_cqe_def owned_def mlx5dv_get_cqe_opcode_def e_opcode_def low_bit Let_def)
qed

definition cq_view :: "nat \<Rightarrow> mlx5_cq \<Rightarrow> u8 list list \<Rightarrow> bool" where
  "cq_view b cq es \<longleftrightarrow>
     cq_wf b cq \<and> length es \<le> 2 ^ b \<and>
     (\<forall>k < 2 ^ b. owned b cq (cq_buf cq) (cons_index cq + of_nat k) \<longleftrightarrow> k < length es) \<and>
     (\<forall>k < length es. entry b cq (cq_buf cq) (cons_index cq + of_nat k) = es ! k)"

lemma owned_turn: "b < 31 \<Longrightarrow> owned b cq m n \<Longrightarrow> \<not> owned b cq m (n + 2 ^ b)"
  using slot_turn [of b n] bit_turn [of b n] by (auto simp: owned_def)

subsection \<open>Taking the next entry\<close>

lemma view_owned: "cq_view b cq es \<Longrightarrow> k < 2 ^ b \<Longrightarrow> owned b cq (cq_buf cq) (cons_index cq + of_nat k) \<longleftrightarrow> k < length es"
  by (simp add: cq_view_def)

lemma view_entry: "cq_view b cq es \<Longrightarrow> k < length es \<Longrightarrow> entry b cq (cq_buf cq) (cons_index cq + of_nat k) = es ! k"
  by (simp add: cq_view_def)

lemma next_empty:
  assumes "cq_view b cq []"
  shows "mlx5_get_next_cqe cq = None"
proof -
  have "cq_wf b cq" "\<not> owned b cq (cq_buf cq) (cons_index cq)"
    using assms view_owned [OF assms, of 0] by (simp_all add: cq_view_def)
  then show ?thesis using get_sw_owned [of b cq "cons_index cq"] by (simp add: mlx5_get_next_cqe_def next_cqe_sw_def)
qed

lemma next_take:
  assumes v: "cq_view b cq (e # es)"
  shows "\<exists>cqe. mlx5_get_next_cqe cq = Some (cqe64_of cq cqe, cqe, cq\<lparr>cons_index := cons_index cq + 1\<rparr>) \<and>
           cqe = slot_of b (cons_index cq) * cq_sz cq \<and> strip (load_bytes cqe (cq_sz cq) (cq_buf cq)) = e \<and>
           cq_view b (cq\<lparr>cons_index := cons_index cq + 1\<rparr>) es"
proof -
  let ?c = "cons_index cq" and ?cq = "cq\<lparr>cons_index := cons_index cq + 1\<rparr>"
  have wf: "cq_wf b cq" and b: "b < 31" using v by (auto simp: cq_view_def cq_wf_def)
  have o: "owned b cq (cq_buf cq) (?c + of_nat k) \<longleftrightarrow> k < Suc (length es)" if "k < 2 ^ b" for k
    using v that by (simp add: cq_view_def)
  have en: "entry b cq (cq_buf cq) (?c + of_nat k) = (e # es) ! k" if "k < Suc (length es)" for k
    using v that by (simp add: cq_view_def)
  have o0: "owned b cq (cq_buf cq) ?c" using o [of 0] by simp
  then have n: "mlx5_get_next_cqe cq = Some (cqe64_of cq (slot_of b ?c * cq_sz cq), slot_of b ?c * cq_sz cq, ?cq)"
    using get_sw_owned [OF wf] by (simp add: mlx5_get_next_cqe_def next_cqe_sw_def)
  have f: "owned b ?cq = owned b cq" "entry b ?cq = entry b cq" by (simp_all add: owned_def entry_def raw_at_def fun_eq_iff)
  have l: "length es < 2 ^ b" using v by (simp add: cq_view_def)
  have "owned b cq (cq_buf cq) (?c + 1 + of_nat k) \<longleftrightarrow> k < length es" if k: "k < 2 ^ b" for k
  proof (cases "Suc k < 2 ^ b")
    case True
    with o [of "Suc k"] show ?thesis by (simp add: add.commute add.left_commute)
  next
    case False
    with k have "Suc k = 2 ^ b" by simp
    then have "(1 :: u32) + of_nat k = 2 ^ b" using of_nat_Suc [of k, where ?'a = u32] by (metis of_nat_numeral of_nat_power)
    then have "?c + 1 + of_nat k = ?c + 2 ^ b" by (simp add: add.assoc)
    then have "\<not> owned b cq (cq_buf cq) (?c + 1 + of_nat k)" using owned_turn [OF b o0] by (simp only: not_False_eq_True)
    with l False k show ?thesis by simp
  qed
  moreover have "entry b cq (cq_buf cq) (?c + 1 + of_nat k) = es ! k" if "k < length es" for k
    using en [of "Suc k"] that by (simp add: add.assoc)
  ultimately have "cq_view b ?cq es" using v l by (simp add: cq_view_def cq_wf_def f)
  moreover have "strip (load_bytes (slot_of b ?c * cq_sz cq) (cq_sz cq) (cq_buf cq)) = e" using en [of 0] by (simp add: entry_def raw_at_def)
  ultimately show ?thesis using n by blast
qed

subsection \<open>What the adapter does\<close>

lemma raw_store_same: "length e = cq_sz cq \<Longrightarrow> raw_at cq i (store (i * cq_sz cq) e m) = e"
  by (simp add: raw_at_def load_store_same)

lemma raw_store_other:
  assumes "length e = cq_sz cq" "i \<noteq> j"
  shows "raw_at cq j (store (i * cq_sz cq) e m) = raw_at cq j m"
  unfolding raw_at_def
proof (rule load_store_other)
  have "Suc i \<le> j \<or> Suc j \<le> i" using assms(2) by auto
  then have "Suc i * cq_sz cq \<le> j * cq_sz cq \<or> Suc j * cq_sz cq \<le> i * cq_sz cq" by (meson mult_le_mono1)
  then show "j * cq_sz cq + cq_sz cq \<le> i * cq_sz cq \<or> i * cq_sz cq + length e \<le> j * cq_sz cq" using assms(1) by auto
qed

definition with_own :: "bool \<Rightarrow> u8 list \<Rightarrow> u8 list" where
  "with_own w e = e[length e - 1 := (last e AND NOT 1) OR of_bool w]"

lemma length_with_own [simp]: "length (with_own w e) = length e"
  by (simp add: with_own_def)

lemma own_bits: "(((x :: u8) AND NOT 1) OR of_bool w) AND NOT 1 = x AND NOT 1" "bit ((x AND NOT 1) OR of_bool w) 0 = w"
proof -
  show "((x AND NOT 1) OR of_bool w) AND NOT 1 = x AND NOT 1"
    by (rule bit_word_eqI, cases w) (simp_all only: of_bool_eq bit_and_iff bit_or_iff bit_not_iff bit_1_iff bit_0_eq bot_apply, auto)
  show "bit ((x AND NOT 1) OR of_bool w) 0 = w"
    by (cases w) (simp_all only: of_bool_eq bit_and_iff bit_or_iff bit_not_iff bit_1_iff bit_0_eq bot_apply, auto)
qed

lemma last_with_own: "e \<noteq> [] \<Longrightarrow> last (with_own w e) = (last e AND NOT 1) OR of_bool w"
  by (simp add: with_own_def last_conv_nth)

lemma strip_with_own: "e \<noteq> [] \<Longrightarrow> strip (with_own w e) = strip e"
  using own_bits(1) [of "last e" w] by (simp add: strip_def last_with_own) (simp add: with_own_def)

lemma opcode_with_own: "e \<noteq> [] \<Longrightarrow> e_opcode (with_own w e) = e_opcode e"
  using opcode_strip [of "with_own w e"] opcode_strip [of e] strip_with_own [of e w] by (metis length_0_conv length_with_own)

text \<open>
  The adapter writes the next entry after the ones not consumed, with the owner bit of its turn.  It does
  so only while an entry is free.
\<close>

definition hw_put :: "nat \<Rightarrow> u8 list \<Rightarrow> nat \<Rightarrow> mlx5_cq \<Rightarrow> mlx5_cq" where
  "hw_put b e k cq =
     (let n = cons_index cq + of_nat k in cq\<lparr>cq_buf := store (slot_of b n * cq_sz cq) (with_own (bit n b) e) (cq_buf cq)\<rparr>)"

lemma owned_store:
  assumes "cq_wf b cq" "length e = cq_sz cq" "k < 2 ^ b" "j < 2 ^ b"
  shows "owned b cq (store (slot_of b (c + of_nat k) * cq_sz cq) e m) (c + of_nat j) \<longleftrightarrow>
           (if j = k then e_opcode e \<noteq> MLX5_CQE_INVALID \<and> bit (last e) 0 = bit (c + of_nat k) b else owned b cq m (c + of_nat j))"
    "entry b cq (store (slot_of b (c + of_nat k) * cq_sz cq) e m) (c + of_nat j) = (if j = k then strip e else entry b cq m (c + of_nat j))"
proof -
  have "slot_of b (c + of_nat k) = slot_of b (c + of_nat j) \<longleftrightarrow> j = k"
    using slot_inj [of b j k c] assms by (auto simp: cq_wf_def)
  then show "owned b cq (store (slot_of b (c + of_nat k) * cq_sz cq) e m) (c + of_nat j) \<longleftrightarrow>
      (if j = k then e_opcode e \<noteq> MLX5_CQE_INVALID \<and> bit (last e) 0 = bit (c + of_nat k) b else owned b cq m (c + of_nat j))"
    "entry b cq (store (slot_of b (c + of_nat k) * cq_sz cq) e m) (c + of_nat j) = (if j = k then strip e else entry b cq m (c + of_nat j))"
    using assms(2) raw_store_same raw_store_other by (auto simp: owned_def entry_def)
qed

lemma hw_put_view:
  assumes v: "cq_view b cq es" and l: "length es < 2 ^ b" and e: "length e = cq_sz cq" "e_opcode e \<noteq> MLX5_CQE_INVALID"
  shows "cq_view b (hw_put b e (length es) cq) (es @ [strip e])"
proof -
  let ?c = "cons_index cq" and ?k = "length es" and ?e = "with_own (bit (cons_index cq + of_nat (length es)) b) e"
  let ?cq = "hw_put b e ?k cq"
  have wf: "cq_wf b cq" using v by (simp add: cq_view_def)
  have ne: "e \<noteq> []" using wf e(1) by (auto simp: cq_wf_def)
  have f: "cons_index ?cq = ?c" "owned b ?cq = owned b cq" "entry b ?cq = entry b cq"
      "cq_buf ?cq = store (slot_of b (?c + of_nat ?k) * cq_sz cq) ?e (cq_buf cq)" "cq_wf b ?cq = cq_wf b cq"
    by (simp_all add: hw_put_def owned_def entry_def raw_at_def fun_eq_iff cq_wf_def Let_def)
  have le: "length ?e = cq_sz cq" by (simp add: e)
  have o: "owned b cq (cq_buf ?cq) (?c + of_nat j) \<longleftrightarrow> j < length (es @ [strip e])" if "j < 2 ^ b" for j
    using owned_store(1) [OF wf le l that, of ?c "cq_buf cq"] view_owned [OF v that] e(2) ne own_bits(2)
    by (auto simp: f(4) opcode_with_own last_with_own)
  have "entry b cq (cq_buf ?cq) (?c + of_nat j) = (es @ [strip e]) ! j" if "j < length (es @ [strip e])" for j
    using owned_store(2) [OF wf le l, of j ?c "cq_buf cq"] view_entry [OF v, of j] that l ne
    by (auto simp: f(4) strip_with_own nth_append less_Suc_eq)
  with o wf l show ?thesis by (auto simp: cq_view_def f)
qed

subsection \<open>Removing entries\<close>

definition matches :: "u32 \<Rightarrow> bool \<Rightarrow> u8 list \<Rightarrow> bool" where
  "matches r ver e \<longleftrightarrow> r = e_be32 (if ver then 32 else 56) e AND 0xffffff"

definition frees :: "bool \<Rightarrow> u8 list \<Rightarrow> bool" where
  "frees ver e \<longleftrightarrow> (if ver then is_responder (e_opcode e) else e_be32 32 e AND 0xffffff \<noteq> 0)"

definition free_entry :: "bool \<Rightarrow> u8 list \<Rightarrow> mlx5_srq option \<Rightarrow> mlx5_srq option" where
  "free_entry ver e srq = (if frees ver e then map_option (mlx5_free_srq_wqe (unat (e_be16 60 e))) srq else srq)"

lemma free_res_entry:
  assumes z: "cq_sz cq = 64 \<or> cq_sz cq = 128" and e: "e = strip (raw_at cq i m)"
  shows "free_res_cqe (cqe64_of cq (i * cq_sz cq)) m r ver srq = (matches r ver e, if matches r ver e then free_entry ver e srq else srq)"
proof -
  have l: "64 \<le> length (raw_at cq i m)" using z by auto
  have "ld_be32 (cqe64_of cq (i * cq_sz cq) + off) m = e_be32 off e" if "off + 4 \<le> 63" for off
    using load_field [OF z, of off 4 i m] field_strip [OF that l] that by (simp add: ld_be32_def e_be32_def e)
  moreover have "ld_be16 (cqe64_of cq (i * cq_sz cq) + 60) m = e_be16 60 e"
    using load_field [OF z, of 60 2 i m] field_strip [of 60 2, OF _ l] by (simp add: ld_be16_def e_be16_def e)
  moreover have "mlx5dv_get_cqe_opcode (cqe64_of cq (i * cq_sz cq)) m = e_opcode e"
    using own_raw [OF z, of i m] opcode_strip [of "raw_at cq i m"] l
    by (cases "raw_at cq i m") (auto simp: mlx5dv_get_cqe_opcode_def e_opcode_def e)
  ultimately show ?thesis
    by (simp add: free_res_cqe_def is_equal_uidx_def is_equal_rsn_def matches_def free_entry_def frees_def Let_def)
qed

lemma store_last:
  assumes "cq_sz cq = 64 \<or> cq_sz cq = 128" "length bs = cq_sz cq"
  shows "st8 (cqe64_of cq p + 63) v (store p bs m) = store p (bs[length bs - 1 := v]) m"
  using assms by (intro ext) (auto simp: st8_def store_def cqe64_of_def nth_list_update)

lemma and_one_own: "(y :: u8) AND 1 = of_bool (bit y 0)"
  by (simp add: and_one_eq bit_0 mod_2_eq_odd)

text \<open>What one turn of the sweep does to the slots.\<close>

lemma sweep_one_slots:
  assumes wf: "cq_wf b cq" and e: "e = entry b cq m p"
  shows "sweep_one cq r ver p n (m, srq) =
     (if matches r ver e then (Suc n, m, free_entry ver e srq)
      else if n = 0 then (n, m, srq)
      else (n, store (slot_of b (p + of_nat n) * cq_sz cq)
                 (with_own (bit (last (raw_at cq (slot_of b (p + of_nat n)) m)) 0) (raw_at cq (slot_of b p) m)) m, srq))"
proof -
  have z: "cq_sz cq = 64 \<or> cq_sz cq = 128" and b: "b < 32" and c: "cq_cqe cq = 2 ^ b - 1" using wf by (auto simp: cq_wf_def)
  have g: "get_cqe cq (q AND cq_cqe cq) = slot_of b q * cq_sz cq" for q using slot_mask [OF b] by (simp add: get_cqe_def c)
  let ?r = "raw_at cq (slot_of b p) m" and ?d = "slot_of b (p + of_nat n)"
  have "store (?d * cq_sz cq) (load_bytes (slot_of b p * cq_sz cq) (cq_sz cq) m) m = store (?d * cq_sz cq) ?r m"
    by (simp add: raw_at_def)
  moreover have "op_own_at (cqe64_of cq (?d * cq_sz cq)) (store (?d * cq_sz cq) ?r m) = last ?r"
    using own_raw [OF z] raw_store_same [of ?r cq ?d m] by simp
  moreover have "op_own_at (cqe64_of cq (?d * cq_sz cq)) m = last (raw_at cq ?d m)" by (rule own_raw [OF z])
  moreover have "st8 (cqe64_of cq (?d * cq_sz cq) + 63) v (store (?d * cq_sz cq) ?r m) = store (?d * cq_sz cq) (?r[length ?r - 1 := v]) m" for v
    by (rule store_last [OF z]) simp
  ultimately show ?thesis
    using free_res_entry [OF z, of e "slot_of b p" m r ver srq] e
    by (simp add: sweep_one_def g with_own_def and_one_own entry_def Let_def or.commute)
qed

definition swept :: "nat \<Rightarrow> mlx5_cq \<Rightarrow> u32 \<Rightarrow> bool \<Rightarrow> u8 list list \<Rightarrow> mlx5_srq option \<Rightarrow> nat \<Rightarrow> nat \<times> mem \<times> mlx5_srq option \<Rightarrow> bool" where
  "swept b cq r ver es srq0 j st \<longleftrightarrow>
     (case st of (n, m, srq) \<Rightarrow>
        let F = filter (\<lambda>e. \<not> matches r ver e) (drop j es); c = cons_index cq
        in n + length F = length es - j \<and>
           (\<forall>i < length F. entry b cq m (c + of_nat (j + n + i)) = F ! i) \<and>
           (\<forall>k < 2 ^ b. k < j \<or> length es \<le> k \<longrightarrow>
              raw_at cq (slot_of b (c + of_nat k)) m = raw_at cq (slot_of b (c + of_nat k)) (cq_buf cq)) \<and>
           (\<forall>k < 2 ^ b. bit (last (raw_at cq (slot_of b (c + of_nat k)) m)) 0 =
                        bit (last (raw_at cq (slot_of b (c + of_nat k)) (cq_buf cq))) 0) \<and>
           srq = fold (free_entry ver) (rev (filter (matches r ver) (drop j es))) srq0)"

lemma swept_step:
  assumes v: "cq_view b cq es" and j: "j < length es" and s: "swept b cq r ver es srq0 (Suc j) (n, m, srq)"
  shows "swept b cq r ver es srq0 j (sweep_one cq r ver (cons_index cq + of_nat j) n (m, srq))"
proof -
  let ?c = "cons_index cq" and ?F = "filter (\<lambda>e. \<not> matches r ver e) (drop (Suc j) es)" and ?L = "length es"
  let ?raw = "\<lambda>k m. raw_at cq (slot_of b (?c + of_nat k)) m"
  have wf: "cq_wf b cq" and L: "?L \<le> 2 ^ b" using v by (auto simp: cq_view_def)
  have jb: "j < 2 ^ b" using j L by simp
  have F: "n + length ?F = ?L - Suc j" "\<And>i. i < length ?F \<Longrightarrow> entry b cq m (?c + of_nat (Suc j + n + i)) = ?F ! i"
    and R: "\<And>k. k < 2 ^ b \<Longrightarrow> k < Suc j \<or> ?L \<le> k \<Longrightarrow> ?raw k m = ?raw k (cq_buf cq)"
    and O: "\<And>k. k < 2 ^ b \<Longrightarrow> bit (last (?raw k m)) 0 = bit (last (?raw k (cq_buf cq))) 0"
    and S: "srq = fold (free_entry ver) (rev (filter (matches r ver) (drop (Suc j) es))) srq0"
    using s by (auto simp: swept_def Let_def)
  have e: "es ! j = entry b cq m (?c + of_nat j)" using view_entry [OF v j] R [OF jb] by (simp add: entry_def)
  have d: "drop j es = es ! j # drop (Suc j) es" using j by (simp add: Cons_nth_drop_Suc)
  note one = sweep_one_slots [OF wf e, of r ver n srq]
  consider "matches r ver (es ! j)" | "\<not> matches r ver (es ! j)" "n = 0" | "\<not> matches r ver (es ! j)" "n \<noteq> 0" by blast
  then show ?thesis
  proof cases
    case 1
    then have r1: "sweep_one cq r ver (?c + of_nat j) n (m, srq) = (Suc n, m, free_entry ver (es ! j) srq)" by (simp add: one)
    have "entry b cq m (?c + of_nat (j + Suc n + i)) = ?F ! i" if "i < length ?F" for i using F(2) [OF that] by simp
    then show ?thesis unfolding r1 swept_def Let_def d using 1 F(1) R O S j by (simp del: of_nat_add of_nat_Suc)
  next
    case 2
    then have r2: "sweep_one cq r ver (?c + of_nat j) n (m, srq) = (n, m, srq)" using one by simp
    have "entry b cq m (?c + of_nat (j + n + i)) = (es ! j # ?F) ! i" if "i < Suc (length ?F)" for i
      using F(2) [of "i - 1"] that 2 e by (cases i) auto
    then show ?thesis unfolding r2 swept_def Let_def d using 2 F(1) R O S j by (simp del: of_nat_add of_nat_Suc)
  next
    case 3
    let ?k = "j + n" and ?e = "with_own (bit (last (?raw (j + n) m)) 0) (?raw j m)"
    let ?m = "store (slot_of b (?c + of_nat (j + n)) * cq_sz cq) ?e m"
    have k: "?k < ?L" using F(1) j by linarith
    then have kb: "?k < 2 ^ b" using L by simp
    have ne: "?raw j m \<noteq> []" using wf by (auto simp: cq_wf_def simp flip: length_greater_0_conv)
    have le: "length ?e = cq_sz cq" by simp
    have rk: "?raw i ?m = (if i = ?k then ?e else ?raw i m)" if "i < 2 ^ b" for i
    proof (cases "i = ?k")
      case False
      have "b < 32" using wf by (simp add: cq_wf_def)
      then have "slot_of b (?c + of_nat ?k) \<noteq> slot_of b (?c + of_nat i)" using slot_inj [OF _ that kb, of ?c] False by metis
      from raw_store_other [OF le this] False show ?thesis by (simp only: if_False)
    qed (simp only: raw_store_same [OF le] if_True simp_thms)
    have r': "sweep_one cq r ver (?c + of_nat j) n (m, srq) = (n, ?m, srq)" using 3 one by (simp add: add.assoc)
    have en: "entry b cq ?m (?c + of_nat (j + n + i)) = (es ! j # ?F) ! i" if "i < Suc (length ?F)" for i
    proof (cases i)
      case 0
      with e ne show ?thesis using rk [OF kb] by (simp add: entry_def strip_with_own)
    next
      case (Suc i')
      have "j + n + i < 2 ^ b" using that F(1) L j by linarith
      with Suc F(2) [of i'] that show ?thesis using rk [of "j + n + i"] by (simp add: entry_def)
    qed
    have ow: "bit (last ?e) 0 = bit (last (?raw ?k m)) 0" using ne own_bits(2) by (simp add: last_with_own)
    have "?raw i ?m = ?raw i (cq_buf cq)" if "i < 2 ^ b" "i < j \<or> ?L \<le> i" for i
      using rk [OF that(1)] R [OF that(1)] that(2) k by auto
    moreover have "bit (last (?raw i ?m)) 0 = bit (last (?raw i (cq_buf cq))) 0" if "i < 2 ^ b" for i
      using rk [OF that] O [OF that] O [OF kb] ow by auto
    ultimately show ?thesis using 3 en F(1) j S unfolding r' swept_def Let_def d by (simp del: of_nat_add of_nat_Suc)
  qed
qed

lemma find_prod_view:
  assumes v: "cq_view b cq es" and l: "length es < 2 ^ b"
  shows "j \<le> length es \<Longrightarrow> find_prod cq (cons_index cq + of_nat j) = cons_index cq + of_nat (length es)"
proof (induction "length es - j" arbitrary: j)
  case 0
  then have j: "j = length es" by simp
  have "\<not> owned b cq (cq_buf cq) (cons_index cq + of_nat (length es))" using view_owned [OF v l] by simp
  moreover have "cq_wf b cq" using v by (simp add: cq_view_def)
  ultimately show ?case unfolding j by (subst find_prod.simps) (simp add: get_sw_owned)
next
  case (Suc n)
  then have j: "j < length es" by simp
  have wf: "cq_wf b cq" using v by (simp add: cq_view_def)
  have o: "owned b cq (cq_buf cq) (cons_index cq + of_nat j)" using view_owned [OF v, of j] j l by simp
  have "j < 2 ^ b - 1" using j l by linarith
  moreover have "(2 :: nat) ^ b < 2 ^ 31" by (rule power_strict_increasing) (use wf in \<open>auto simp: cq_wf_def\<close>)
  ultimately have "unat (of_nat j :: u32) = j" "unat (2 ^ b - 1 :: u32) = 2 ^ b - 1"
    using unat_of_nat_small [of j, where ?'a = 32] unat_of_nat_small [of "2 ^ b - 1", where ?'a = 32] by (simp_all add: of_nat_diff)
  then have "(of_nat j :: u32) \<noteq> 2 ^ b - 1" using \<open>j < 2 ^ b - 1\<close> by (metis less_irrefl)
  then have "cons_index cq + of_nat j \<noteq> cons_index cq + cq_cqe cq" using wf by (simp add: cq_wf_def)
  then have "find_prod cq (cons_index cq + of_nat j) = find_prod cq (cons_index cq + of_nat j + 1)"
    using o wf by (subst find_prod.simps) (simp add: get_sw_owned)
  also have "\<dots> = find_prod cq (cons_index cq + of_nat (Suc j))" by (simp add: ac_simps)
  also have "\<dots> = cons_index cq + of_nat (length es)" by (rule Suc.hyps(1)) (use Suc.hyps(2) j in auto)
  finally show ?case .
qed

text \<open>The indices stay on one side of the sign bit.\<close>

definition index_ok :: "mlx5_cq \<Rightarrow> nat \<Rightarrow> bool" where
  "index_ok cq n \<longleftrightarrow> - (2 ^ 31) < sint (cons_index cq) \<and> sint (cons_index cq) + int n < 2 ^ 31"

lemma sint_add_nat:
  assumes "sint (c :: u32) + int n < 2 ^ 31"
  shows "sint (c + of_nat n) = sint c + int n"
  using assms
proof (induction n)
  case (Suc n)
  then have s: "sint (c + of_nat n) = sint c + int n" by simp
  have "- (2 ^ 31) \<le> sint c" using sint_ge [of c] by simp
  then have "signed_take_bit 31 (sint (c + of_nat n) + 1) = sint c + int n + 1"
    unfolding s using Suc.prems by (intro signed_take_bit_int_eq_self) auto
  moreover have "sint (c + of_nat n + 1) = signed_take_bit 31 (sint (c + of_nat n) + 1)" by (simp add: sint_word_ariths)
  ultimately show ?case by (simp add: add.assoc add.commute add.left_commute)
qed simp

lemma sweep_end:
  assumes "index_ok cq n"
  shows "sweep cq r ver (cons_index cq) st = Inr st"
proof -
  have "int_diff (cons_index cq - 1) (cons_index cq) = Inr (- 1)"
    using sint_dec [of "cons_index cq"] assms by (simp add: int_diff_def index_ok_def)
  then show ?thesis by (subst sweep.simps) simp
qed

lemma sweep_turn:
  assumes "index_ok cq n" "j < n" "n < 2 ^ 31"
  shows "sweep cq r ver (cons_index cq + of_nat (Suc j)) st =
           sweep cq r ver (cons_index cq + of_nat j) (sweep_one cq r ver (cons_index cq + of_nat j) (fst st) (snd st))"
proof -
  have p: "cons_index cq + of_nat (Suc j) - 1 = cons_index cq + of_nat j" by simp
  have "sint (cons_index cq + of_nat j) = sint (cons_index cq) + int j"
    by (rule sint_add_nat) (use assms in \<open>auto simp: index_ok_def\<close>)
  moreover have "int j < 2 ^ 31" using assms(2,3) by simp
  ultimately have "int_diff (cons_index cq + of_nat j) (cons_index cq) = Inr (int j)"
    by (simp add: int_diff_def)
  then show ?thesis by (subst sweep.simps) (simp only: p sum.case, simp)
qed

lemma sweep_view:
  assumes v: "cq_view b cq es" and i: "index_ok cq (length es)"
  shows "j \<le> length es \<Longrightarrow> swept b cq r ver es srq0 j st \<Longrightarrow>
    \<exists>st'. sweep cq r ver (cons_index cq + of_nat j) st = Inr st' \<and> swept b cq r ver es srq0 0 st'"
proof (induction j arbitrary: st)
  case 0
  then show ?case using sweep_end [OF i] by auto
next
  case (Suc j)
  then have j: "j < length es" by simp
  obtain n m srq where st: "st = (n, m, srq)" by (cases st)
  have "(2 :: nat) ^ b < 2 ^ 31" by (rule power_strict_increasing) (use v in \<open>auto simp: cq_view_def cq_wf_def\<close>)
  then have l: "length es < 2 ^ 31" using v by (simp add: cq_view_def)
  from Suc.IH [OF _ swept_step [OF v j Suc.prems(2) [unfolded st]]] j sweep_turn [OF i j l, of r ver st] st
  show ?case by simp
qed

lemma owned_valid: "owned b cq m n \<Longrightarrow> cq_wf b cq \<Longrightarrow> e_opcode (entry b cq m n) \<noteq> MLX5_CQE_INVALID"
  using opcode_strip [of "raw_at cq (slot_of b n) m"] by (auto simp: owned_def entry_def cq_wf_def simp flip: length_greater_0_conv)

lemma swept_view:
  assumes v: "cq_view b cq es" and s: "swept b cq r ver es srq0 0 (n, m, srq)"
  shows "cq_view b (cq\<lparr>cq_buf := m, cons_index := cons_index cq + of_nat n\<rparr>) (filter (\<lambda>e. \<not> matches r ver e) es)"
proof -
  let ?c = "cons_index cq" and ?F = "filter (\<lambda>e. \<not> matches r ver e) es" and ?L = "length es"
  let ?raw = "\<lambda>k m. raw_at cq (slot_of b (?c + of_nat k)) m"
  let ?cq = "cq\<lparr>cq_buf := m, cons_index := cons_index cq + of_nat n\<rparr>"
  have wf: "cq_wf b cq" and L: "?L \<le> 2 ^ b" and b: "b < 31" using v by (auto simp: cq_view_def cq_wf_def)
  have F: "n + length ?F = ?L" "\<And>i. i < length ?F \<Longrightarrow> entry b cq m (?c + of_nat (n + i)) = ?F ! i"
    and R: "\<And>k. k < 2 ^ b \<Longrightarrow> ?L \<le> k \<Longrightarrow> ?raw k m = ?raw k (cq_buf cq)"
    and O: "\<And>k. k < 2 ^ b \<Longrightarrow> bit (last (?raw k m)) 0 = bit (last (?raw k (cq_buf cq))) 0"
    using s by (auto simp: swept_def Let_def)
  have val: "e_opcode e \<noteq> MLX5_CQE_INVALID" if "e \<in> set es" for e
  proof -
    from that obtain i where i: "i < ?L" "es ! i = e" by (auto simp: in_set_conv_nth)
    have "owned b cq (cq_buf cq) (?c + of_nat i)" using view_owned [OF v, of i] i(1) L by simp
    from owned_valid [OF this wf] show ?thesis using view_entry [OF v i(1)] i(2) by simp
  qed
  have ow: "owned b cq m (?c + of_nat (n + k)) \<longleftrightarrow> k < length ?F" if k: "k < 2 ^ b" for k
  proof (cases "n + k < 2 ^ b")
    case in_turn: True
    show ?thesis
    proof (cases "k < length ?F")
      case True
      have ne: "?raw (n + k) m \<noteq> []" using wf by (auto simp: cq_wf_def simp flip: length_greater_0_conv)
      have "?F ! k \<in> set es" using nth_mem [OF True] by auto
      then have "e_opcode (?raw (n + k) m) \<noteq> MLX5_CQE_INVALID"
        using val F(2) [OF True] opcode_strip [OF ne] by (metis entry_def)
      moreover have "owned b cq (cq_buf cq) (?c + of_nat (n + k))" using view_owned [OF v in_turn] F(1) True by simp
      ultimately show ?thesis using O [OF in_turn] True by (simp add: owned_def)
    next
      case False
      then have "?L \<le> n + k" using F(1) by simp
      from R [OF in_turn this] view_owned [OF v in_turn] this False show ?thesis by (simp add: owned_def)
    qed
  next
    case False
    define i where "i = n + k - 2 ^ b"
    have i: "n + k = i + 2 ^ b" "i < n" using False k by (auto simp: i_def)
    have ib: "i < 2 ^ b" "i < ?L" using i(2) F(1) L by auto
    have x: "?c + of_nat (n + k) = (?c + of_nat i) + 2 ^ b" by (simp only: i(1)) (simp add: add.assoc)
    have "owned b cq (cq_buf cq) (?c + of_nat i)" using view_owned [OF v ib(1)] ib(2) by simp
    then have "bit (last (?raw i m)) 0 = bit (?c + of_nat i) b" using O [OF ib(1)] by (simp add: owned_def)
    then have "\<not> owned b cq m (?c + of_nat (n + k))"
      using slot_turn [of b "?c + of_nat i"] bit_turn [of b "?c + of_nat i"] b unfolding x owned_def by auto
    with False F(1) L show ?thesis by auto
  qed
  have f: "owned b ?cq = owned b cq" "entry b ?cq = entry b cq" "cq_wf b ?cq = cq_wf b cq"
    by (simp_all add: owned_def entry_def raw_at_def fun_eq_iff cq_wf_def)
  have g: "cons_index ?cq + of_nat k = ?c + of_nat (n + k)" for k by (simp add: add.assoc)
  show ?thesis unfolding cq_view_def f g using wf ow F L by (simp del: of_nat_add)
qed


text \<open>A ring without a free entry: the search for the producer stops one entry early, so the last one is not examined.\<close>

theorem clean_full_misses_last:
  assumes v: "cq_view b cq es" and l: "length es = 2 ^ b"
  shows "find_prod cq (cons_index cq) = cons_index cq + of_nat (length es - 1)"
proof -
  have wf: "cq_wf b cq" using v by (simp add: cq_view_def)
  have "find_prod cq (cons_index cq + of_nat j) = cons_index cq + of_nat (length es - 1)" if "j < length es" for j
    using that
  proof (induction "length es - j" arbitrary: j)
    case (Suc n)
    have o: "owned b cq (cq_buf cq) (cons_index cq + of_nat j)" using view_owned [OF v, of j] Suc.prems l by simp
    show ?case
    proof (cases "j = 2 ^ b - 1")
      case True
      have "(of_nat j :: u32) = 2 ^ b - 1" unfolding True by (simp add: of_nat_diff)
      then show ?thesis using o wf True l by (subst find_prod.simps) (simp add: get_sw_owned cq_wf_def)
    next
      case False
      have "(2 :: nat) ^ b < 2 ^ 31" by (rule power_strict_increasing) (use wf in \<open>auto simp: cq_wf_def\<close>)
      with Suc.prems l have "unat (of_nat j :: u32) = j" "unat (2 ^ b - 1 :: u32) = 2 ^ b - 1"
        using unat_of_nat_small [of j, where ?'a = 32] unat_of_nat_small [of "2 ^ b - 1", where ?'a = 32] by (simp_all add: of_nat_diff)
      with False have "(of_nat j :: u32) \<noteq> 2 ^ b - 1" by metis
      then have "cons_index cq + of_nat j \<noteq> cons_index cq + cq_cqe cq" using wf by (simp add: cq_wf_def)
      then have "find_prod cq (cons_index cq + of_nat j) = find_prod cq (cons_index cq + of_nat j + 1)"
        using o wf by (subst find_prod.simps) (simp add: get_sw_owned)
      also have "\<dots> = find_prod cq (cons_index cq + of_nat (Suc j))" by (simp add: ac_simps)
      also have "\<dots> = cons_index cq + of_nat (length es - 1)"
        by (rule Suc.hyps(1)) (use Suc.hyps(2) Suc.prems False l in auto)
      finally show ?thesis .
    qed
  qed simp
  from this [of 0] l show ?thesis by simp
qed

text \<open>
  The sweep subtracts two indices as \<open>int\<close>.  When the entries lie on both sides of \<open>2 ^ 31\<close> the difference
  overflows, which C leaves undefined.
\<close>

lemma sint_wrap:
  assumes "0 \<le> sint (c :: u32)" "2 ^ 31 \<le> sint c + int k" "k < 2 ^ 31"
  shows "sint (c + of_nat k) = sint c + int k - 2 ^ 32"
proof -
  have c: "sint c < 2 ^ 31" using sint_lt [of c] by simp
  have "int k < 2 ^ 31" using assms(3) by simp
  with c assms have "signed_take_bit 31 (sint c + int k - 2 ^ 32) = sint c + int k - 2 ^ 32"
    by (intro signed_take_bit_int_eq_self) auto
  moreover have "signed_take_bit 31 (sint c + int k - 2 ^ 32) = signed_take_bit 31 (sint c + int k)"
    using minus_mod_self2 [of "sint c + int k + 2 ^ 31" "2 ^ 32"]
    by (simp add: signed_take_bit_eq_take_bit_shift take_bit_eq_mod algebra_simps)
  moreover have u: "unat (of_nat k :: u32) = k" using unat_of_nat_small [of k, where ?'a = 32] assms(3) by simp
  have "sint (of_nat k :: u32) = int (unat (of_nat k :: u32))" by (rule sint_small) (simp only: u assms(3))
  then have "sint (of_nat k :: u32) = int k" unfolding u .
  ultimately show ?thesis by (simp add: sint_word_ariths)
qed

theorem clean_index_overflow:
  assumes v: "cq_view b cq es" and l: "length es < 2 ^ b" and c: "0 \<le> sint (cons_index cq)"
    and o: "2 ^ 31 < sint (cons_index cq) + int (length es)" and d: "\<not> has_flag (cq_flags cq) MLX5_CQ_FLAGS_DV_OWNED"
  shows "cq_clean cq r ver srq = Inl Undefined"
proof -
  let ?k = "length es - 1"
  have p: "find_prod cq (cons_index cq) = cons_index cq + of_nat (length es)" using find_prod_view [OF v l, of 0] by simp
  have "sint (cons_index cq) < 2 ^ 31" using sint_lt [of "cons_index cq"] by simp
  then have k: "length es = Suc ?k" using o by auto
  have "(2 :: nat) ^ b < 2 ^ 31" by (rule power_strict_increasing) (use v in \<open>auto simp: cq_view_def cq_wf_def\<close>)
  then have kb: "?k < 2 ^ 31" using l by linarith
  have k': "2 ^ 31 \<le> sint (cons_index cq) + int ?k" using o k by linarith
  have q: "cons_index cq + of_nat (length es) - 1 = cons_index cq + of_nat ?k" by (subst k) simp
  have "int ?k < 2 ^ 31" using kb by simp
  with sint_wrap [OF c k' kb] have "int_diff (cons_index cq + of_nat (length es) - 1) (cons_index cq) = Inl Undefined"
    unfolding q by (simp add: int_diff_def)
  then have "sweep cq r ver (cons_index cq + of_nat (length es)) st = Inl Undefined" for st by (subst sweep.simps) simp
  with p d show ?thesis by (simp add: cq_clean_def)
qed

subsection \<open>Moving to another buffer\<close>

lemma resize_one_slot:
  assumes "cq_wf b cq" "b' < 31"
  shows "resize_one cq (cq_sz cq) (2 ^ b') i dst =
           store (slot_of b' (i + 1) * cq_sz cq) (with_own (bit (i + 1) b') (raw_at cq (slot_of b i) (cq_buf cq))) dst"
proof -
  have z: "cq_sz cq = 64 \<or> cq_sz cq = 128" and b: "b < 32" and c: "cq_cqe cq = 2 ^ b - 1" using assms by (auto simp: cq_wf_def)
  let ?r = "raw_at cq (slot_of b i) (cq_buf cq)" and ?d = "slot_of b' (i + 1) * cq_sz cq"
  have d: "unat ((i + 1) AND (2 ^ b' - 1)) * cq_sz cq = ?d" using slot_mask [of b'] assms(2) by simp
  have g: "load_bytes (get_cqe cq (i AND cq_cqe cq)) (cq_sz cq) (cq_buf cq) = ?r"
    using slot_mask [OF b] by (simp add: get_cqe_def c raw_at_def)
  have e: "(if cq_sz cq = 64 then ?d else ?d + 64) = cqe64_of cq ?d" by (simp add: cqe64_of_def)
  have "op_own_at (cqe64_of cq ?d) (store ?d ?r dst) = last ?r" using own_raw [OF z] raw_store_same [of ?r cq _ dst] by simp
  moreover have "st8 (cqe64_of cq ?d + 63) v (store ?d ?r dst) = store ?d (?r[length ?r - 1 := v]) dst" for v
    by (rule store_last [OF z]) simp
  moreover have "sw_ownership_bit (i + 1) (2 ^ b') = of_bool (bit (i + 1) b')"
    using bit_mask_nz [of "i + 1" b'] assms(2) by (simp add: sw_ownership_bit_def)
  ultimately show ?thesis unfolding resize_one_def Let_def d g e by (simp add: with_own_def)
qed

lemma index_opcode:
  assumes "cq_wf b cq"
  shows "mlx5dv_get_cqe_opcode (cqe64_of cq (get_cqe cq (n AND cq_cqe cq))) (cq_buf cq) = e_opcode (entry b cq (cq_buf cq) n)"
    "is_hw (op_own_at (cqe64_of cq (get_cqe cq (n AND cq_cqe cq))) (cq_buf cq)) n (cq_cqe cq) \<longleftrightarrow>
       bit (last (raw_at cq (slot_of b n) (cq_buf cq))) 0 \<noteq> bit n b"
proof -
  have z: "cq_sz cq = 64 \<or> cq_sz cq = 128" and b: "b < 32" and c: "cq_cqe cq = 2 ^ b - 1" using assms by (auto simp: cq_wf_def)
  have o: "op_own_at (cqe64_of cq (get_cqe cq (n AND cq_cqe cq))) (cq_buf cq) = last (raw_at cq (slot_of b n) (cq_buf cq))"
    using own_raw [OF z] slot_mask [OF b] by (simp add: get_cqe_def c)
  have "raw_at cq (slot_of b n) (cq_buf cq) \<noteq> []" using z by (auto simp flip: length_greater_0_conv)
  then show "mlx5dv_get_cqe_opcode (cqe64_of cq (get_cqe cq (n AND cq_cqe cq))) (cq_buf cq) = e_opcode (entry b cq (cq_buf cq) n)"
    using opcode_strip [of "raw_at cq (slot_of b n) (cq_buf cq)"] o by (simp add: mlx5dv_get_cqe_opcode_def entry_def) (simp add: e_opcode_def)
  show "is_hw (op_own_at (cqe64_of cq (get_cqe cq (n AND cq_cqe cq))) (cq_buf cq)) n (cq_cqe cq) \<longleftrightarrow>
      bit (last (raw_at cq (slot_of b n) (cq_buf cq))) 0 \<noteq> bit n b"
    using bit_mask_nz [of n b] b by (simp only: o is_hw_def low_bit) (simp add: c)
qed

text \<open>The first \<open>j\<close> entries are in the new buffer, after the index of the entry that announces it.\<close>

definition moved :: "nat \<Rightarrow> mlx5_cq \<Rightarrow> u8 list list \<Rightarrow> mem \<Rightarrow> nat \<Rightarrow> mem \<Rightarrow> bool" where
  "moved b' cq es dst0 j dst \<longleftrightarrow>
     (\<forall>k < 2 ^ b'. let n = cons_index cq + 1 + of_nat k
        in if k < j then owned b' cq dst n \<and> entry b' cq dst n = es ! k
           else owned b' cq dst n = owned b' cq dst0 n \<and> entry b' cq dst n = entry b' cq dst0 n)"

lemma resize_loop_moves:
  assumes v: "cq_view b cq (es @ [z])" and b': "b' < 31" and z: "e_opcode z = MLX5_CQE_RESIZE_CQ"
    and es: "list_all (\<lambda>e. e_opcode e \<noteq> MLX5_CQE_RESIZE_CQ) es" and l: "length es \<le> 2 ^ b'"
  shows "j \<le> length es \<Longrightarrow> moved b' cq es dst0 j dst \<Longrightarrow>
    \<exists>dst'. resize_loop cq (cq_sz cq) (2 ^ b') (cons_index cq + of_nat j) dst = (True, dst') \<and> moved b' cq es dst0 (length es) dst'"
proof (induction "length es - j" arbitrary: j dst)
  case 0
  then have j: "j = length es" by simp
  have "entry b cq (cq_buf cq) (cons_index cq + of_nat j) = z" using view_entry [OF v, of j] j by simp
  moreover have "cq_wf b cq" using v by (simp add: cq_view_def)
  ultimately show ?case using z 0 j by (subst resize_loop.simps) (simp add: index_opcode(1) [of b])
next
  case (Suc n)
  let ?c = "cons_index cq" and ?L = "length es"
  have j: "j < ?L" using Suc.hyps(2) by simp
  have wf: "cq_wf b cq" and L: "?L < 2 ^ b" and b: "b < 32" using v by (auto simp: cq_view_def cq_wf_def)
  have jb: "j < 2 ^ b" "Suc j < 2 ^ b" "j < 2 ^ b'" using j L l by auto
  have e: "entry b cq (cq_buf cq) (?c + of_nat j) = es ! j" using view_entry [OF v, of j] j by (simp add: nth_append)
  then have op: "e_opcode (entry b cq (cq_buf cq) (?c + of_nat j)) \<noteq> MLX5_CQE_RESIZE_CQ" using es j by (simp add: list_all_length)
  let ?e = "with_own (bit (?c + 1 + of_nat j) b') (raw_at cq (slot_of b (?c + of_nat j)) (cq_buf cq))"
  let ?dst = "store (slot_of b' (?c + 1 + of_nat j) * cq_sz cq) ?e dst"
  have s: "?c + of_nat j + 1 = ?c + 1 + of_nat j" "?c + of_nat (Suc j) = ?c + 1 + of_nat j" by simp_all
  have one: "resize_one cq (cq_sz cq) (2 ^ b') (?c + of_nat j) dst = ?dst" using resize_one_slot [OF wf b'] by (simp add: s)
  have "owned b cq (cq_buf cq) (?c + of_nat (Suc j))" using view_owned [OF v jb(2)] j by simp
  then have "owned b cq (cq_buf cq) (?c + 1 + of_nat j)" by (simp only: s)
  then have hw: "\<not> is_hw (op_own_at (cqe64_of cq (get_cqe cq ((?c + 1 + of_nat j) AND cq_cqe cq))) (cq_buf cq)) (?c + 1 + of_nat j) (cq_cqe cq)"
    using index_opcode(2) [OF wf, of "?c + 1 + of_nat j"] by (simp only: owned_def)
  have "slot_of b ?c \<noteq> slot_of b (?c + 1 + of_nat j)" using slot_neq [OF b, of 0 "Suc j" ?c] jb by (simp add: add.assoc)
  then have st: "get_cqe cq ((?c + 1 + of_nat j) AND cq_cqe cq) \<noteq> get_cqe cq (?c AND cq_cqe cq)"
    using slot_mask [OF b] wf by (auto simp: get_cqe_def cq_wf_def)
  have wf': "cq_wf b' (cq\<lparr>cq_cqe := 2 ^ b' - 1\<rparr>)" using wf b' by (simp add: cq_wf_def)
  have ne: "raw_at cq (slot_of b (?c + of_nat j)) (cq_buf cq) \<noteq> []" using wf by (auto simp: cq_wf_def simp flip: length_greater_0_conv)
  have ov: "e_opcode ?e \<noteq> MLX5_CQE_INVALID"
    using view_owned [OF v jb(1)] j opcode_with_own [OF ne] by (auto simp: owned_def)
  have f: "owned b' (cq\<lparr>cq_cqe := 2 ^ b' - 1\<rparr>) = owned b' cq" "entry b' (cq\<lparr>cq_cqe := 2 ^ b' - 1\<rparr>) = entry b' cq"
    by (simp_all add: owned_def entry_def raw_at_def fun_eq_iff)
  have le: "length ?e = cq_sz (cq\<lparr>cq_cqe := 2 ^ b' - 1\<rparr>)" by simp
  have se: "strip ?e = es ! j" using strip_with_own [OF ne] e by (simp add: entry_def)
  have "moved b' cq es dst0 (Suc j) ?dst"
    unfolding moved_def Let_def
  proof (intro allI impI)
    fix k :: nat assume k: "k < 2 ^ b'"
    note os = owned_store [OF wf' le jb(3) k, of "?c + 1" dst, unfolded f]
    show "if k < Suc j then owned b' cq ?dst (?c + 1 + of_nat k) \<and> entry b' cq ?dst (?c + 1 + of_nat k) = es ! k
      else owned b' cq ?dst (?c + 1 + of_nat k) = owned b' cq dst0 (?c + 1 + of_nat k) \<and>
           entry b' cq ?dst (?c + 1 + of_nat k) = entry b' cq dst0 (?c + 1 + of_nat k)"
    proof (cases "k = j")
      case True
      with os ov se show ?thesis using own_bits(2) by (simp add: last_with_own [OF ne])
    next
      case False
      with os Suc.prems(2) k show ?thesis by (auto simp: moved_def Let_def)
    qed
  qed
  moreover have "n = ?L - Suc j" using Suc.hyps(2) by simp
  ultimately obtain dst' where
    "resize_loop cq (cq_sz cq) (2 ^ b') (?c + of_nat (Suc j)) ?dst = (True, dst')" "moved b' cq es dst0 ?L dst'"
    using Suc.hyps(1) [of "Suc j" ?dst] j by auto
  moreover have "resize_loop cq (cq_sz cq) (2 ^ b') (?c + of_nat j) dst = resize_loop cq (cq_sz cq) (2 ^ b') (?c + of_nat (Suc j)) ?dst"
    using op hw st by (subst resize_loop.simps) (simp only: index_opcode(1) [OF wf] one s Let_def if_False)
  ultimately show ?case by simp
qed

lemma init_cqes_at:
  assumes z: "cq_sz cq = 64 \<or> cq_sz cq = 128"
  shows "i < n \<Longrightarrow> last (raw_at cq i (init_cqes (cq_sz cq) n m)) = push_bit 4 MLX5_CQE_INVALID"
proof (induction n)
  case (Suc n)
  have p: "j * cq_sz cq + (if cq_sz cq = 128 then 64 else 0) + 63 = cqe64_of cq (j * cq_sz cq) + 63" for j using z by (auto simp: cqe64_of_def)
  have l: "last (raw_at cq i m') = m' (cqe64_of cq (i * cq_sz cq) + 63)" for m' using own_raw [OF z, of i m'] by (simp add: op_own_at_def)
  show ?case
  proof (cases "i = n")
    case True
    then show ?thesis unfolding l init_cqes.simps p by (simp add: st8_def store_def)
  next
    case False
    then have "i < n" using Suc.prems by simp
    moreover have "cqe64_of cq (i * cq_sz cq) \<noteq> cqe64_of cq (n * cq_sz cq)" using False z by (auto simp: cqe64_of_def)
    ultimately show ?thesis using Suc.IH unfolding l init_cqes.simps p by (simp add: st8_def store_def)
  qed
qed simp

lemma alloc_not_owned:
  assumes "cq_sz cq = 64 \<or> cq_sz cq = 128" "b < 32"
  shows "\<not> owned b cq (mlx5_alloc_cq_buf custom (2 ^ b) (cq_sz cq)) n"
proof -
  have "slot_of b n < 2 ^ b" by (simp add: slot_of_def)
  from init_cqes_at [OF assms(1) this] show ?thesis by (simp add: owned_def mlx5_alloc_cq_buf_def e_opcode_def)
qed

text \<open>A new queue is empty.\<close>

lemma new_cq_view: "cq_wf b cq \<Longrightarrow> cq_view b (cq\<lparr>cq_buf := mlx5_alloc_cq_buf custom (2 ^ b) (cq_sz cq)\<rparr>) []"
  using alloc_not_owned [of cq b custom]
  by (auto simp: cq_view_def cq_wf_def owned_def raw_at_def)

lemma resize_copy_view:
  assumes v: "cq_view b cq (es @ [z])" and b': "b' < 31" and z: "e_opcode z = MLX5_CQE_RESIZE_CQ"
    and es: "list_all (\<lambda>e. e_opcode e \<noteq> MLX5_CQE_RESIZE_CQ) es" and l: "length es \<le> 2 ^ b'"
    and d: "\<And>k. k < 2 ^ b' \<Longrightarrow> \<not> owned b' cq dst (cons_index cq + 1 + of_nat k)"
  shows "\<exists>dst'. mlx5_cq_resize_copy_cqes (cq_sz cq) (2 ^ b') dst cq = (dst', cq\<lparr>cons_index := cons_index cq + 1\<rparr>) \<and>
           cq_view b' (cq\<lparr>cons_index := cons_index cq + 1, cq_buf := dst', cq_cqe := 2 ^ b' - 1\<rparr>) es"
proof -
  have wf: "cq_wf b cq" using v by (simp add: cq_view_def)
  have "owned b cq (cq_buf cq) (cons_index cq)" using view_owned [OF v, of 0] by simp
  then have hw: "\<not> is_hw (op_own_at (cqe64_of cq (get_cqe cq (cons_index cq AND cq_cqe cq))) (cq_buf cq)) (cons_index cq) (cq_cqe cq)"
    using index_opcode(2) [OF wf] by (simp add: owned_def)
  have m0: "moved b' cq es dst 0 dst" by (simp add: moved_def)
  from resize_loop_moves [OF v b' z es l _ m0] obtain dst' where
    r: "resize_loop cq (cq_sz cq) (2 ^ b') (cons_index cq) dst = (True, dst')" and m: "moved b' cq es dst (length es) dst'" by auto
  let ?cq = "cq\<lparr>cons_index := cons_index cq + 1, cq_buf := dst', cq_cqe := 2 ^ b' - 1\<rparr>"
  have f: "owned b' ?cq = owned b' cq" "entry b' ?cq = entry b' cq" by (simp_all add: owned_def entry_def raw_at_def fun_eq_iff)
  have "owned b' cq dst' (cons_index cq + 1 + of_nat k) \<longleftrightarrow> k < length es"
      "k < length es \<longrightarrow> entry b' cq dst' (cons_index cq + 1 + of_nat k) = es ! k" if "k < 2 ^ b'" for k
    using m d [OF that] that by (auto simp: moved_def Let_def split: if_splits)
  then have "cq_view b' ?cq es" using wf b' l unfolding cq_view_def f by (simp add: cq_wf_def)
  with hw r show ?thesis by (simp add: mlx5_cq_resize_copy_cqes_def)
qed

text \<open>
  C18. Resizing loses nothing: when the kernel has switched the adapter to the new buffer, which it announces
  with one entry in the old one, \<open>mlx5_resize_cq\<close> moves all completions that were not polled to the new
  buffer in their order, with the owner bits of the new size, and drops only the announcement.
\<close>
theorem resize_cq_keeps:
  assumes "cq_view b cq es" and "length es < 2 ^ b" and "list_all (\<lambda>e. e_opcode e \<noteq> MLX5_CQE_RESIZE_CQ) es"
    and "0 \<le> n" and "n * 64 < 2 ^ 31" and "align_queue_size (nat n + 1) = 2 ^ b'" and "b' < 31" and "b' \<noteq> b" and "length es \<le> 2 ^ b'"
    and "length z = cq_sz cq" and "e_opcode z = MLX5_CQE_RESIZE_CQ"
    and "cmd (2 ^ b' - 1) (cq_buf cq, mlx5_alloc_cq_buf custom (2 ^ b') (cq_sz cq)) =
           (0, cq_buf (hw_put b z (length es) cq), mlx5_alloc_cq_buf custom (2 ^ b') (cq_sz cq))"
  shows "\<exists>cq'. mlx5_resize_cq custom True cmd n cq = (0, cq') \<and> cq_view b' cq' es \<and> cq_cqe cq' = 2 ^ b' - 1"
proof -
  let ?cq = "hw_put b z (length es) cq" and ?new = "mlx5_alloc_cq_buf custom (2 ^ b') (cq_sz cq)"
  have ne: "z \<noteq> []" using assms(1,10) by (auto simp: cq_view_def cq_wf_def)
  have v: "cq_view b ?cq (es @ [strip z])" by (rule hw_put_view [OF assms(1,2,10)]) (simp add: assms(11))
  have f: "cq\<lparr>cq_buf := cq_buf ?cq\<rparr> = ?cq" "cq_sz ?cq = cq_sz cq" "cons_index ?cq = cons_index cq" by (simp_all add: hw_put_def Let_def)
  have sz: "cq_sz cq = 64 \<or> cq_sz cq = 128" using assms(1) by (auto simp: cq_view_def cq_wf_def)
  have o: "\<not> owned b' ?cq ?new k" for k
    using alloc_not_owned [of ?cq b' custom k] sz assms(7) by (simp add: f)
  from resize_copy_view [OF v assms(7) _ assms(3,9) o] opcode_strip [OF ne] assms(11) obtain dst' where
    r: "mlx5_cq_resize_copy_cqes (cq_sz cq) (2 ^ b') ?new ?cq = (dst', ?cq\<lparr>cons_index := cons_index cq + 1\<rparr>)"
      "cq_view b' (?cq\<lparr>cons_index := cons_index cq + 1, cq_buf := dst', cq_cqe := 2 ^ b' - 1\<rparr>) es" by (auto simp: f)
  have "(2 :: u32) ^ b' \<noteq> 2 ^ b"
    using assms(1,7,8) by (auto simp: cq_view_def cq_wf_def dest!: arg_cong [where f = unat] simp: unat_pow2)
  then have "of_nat (align_queue_size (nat n + 1)) \<noteq> cq_cqe cq + 1" using assms(1,6) by (simp add: cq_view_def cq_wf_def)
  then have "mlx5_resize_cq custom True cmd n cq =
      (0, ?cq\<lparr>cons_index := cons_index cq + 1, cq_buf := dst', cq_cqe := 2 ^ b' - 1\<rparr>)"
    using assms(4,5,6,12) r(1) f by (simp add: mlx5_resize_cq_def Let_def)
  with r(2) show ?thesis by simp
qed

text \<open>A queue of four entries, for examples.\<close>

definition demo_cq :: mlx5_cq where
  "demo_cq = \<lparr>cq_buf = mlx5_alloc_cq_buf None 4 64, cq_cqe = 3, cq_sz = 64, cons_index = 3, cq_ci = 0, cq_arm = 0, arm_sn = 0, cqn = 1,
     cq_flags = 0, cq_uar = [], lz = \<lparr>cq_status = 0, cq_wr_id = 0, tm_sync_req = False\<rparr>, cur_rsc = None, cur_srq = None,
     cq_cqe64 = 0, cached_opcode = 0, stall_next_poll = False, stall_enable = False, stall_last_count = 0,
     stall_adaptive_enable = False, stall_cycles = 0\<rparr>"

definition demo_cqe :: "u8 \<Rightarrow> u8 \<Rightarrow> u8 list" where
  "demo_cqe op qpn = replicate 59 0 @ [qpn, 0, 0, 0, push_bit 4 op]"

lemma demo_cq_view: "cq_view 2 demo_cq []"
proof -
  have "cq_wf 2 demo_cq" by (simp add: cq_wf_def demo_cq_def)
  from new_cq_view [OF this, of None] show ?thesis by (simp add: demo_cq_def)
qed

lemma demo_strip: "strip (demo_cqe 0 q) = demo_cqe 0 q"
  by (simp add: strip_def demo_cqe_def eval_nat_numeral)

lemma demo_qpn: "e_be32 56 (demo_cqe op q) = of_nat (unat q)"
  by (simp add: e_be32_def field_def demo_cqe_def be_value_def numeral_eq_Suc)

lemma demo_entries:
  "cq_view 2 (hw_put 2 (demo_cqe 0 8) 1 (hw_put 2 (demo_cqe 0 7) 0 demo_cq)) [demo_cqe 0 7, demo_cqe 0 8]"
proof -
  have l: "length (demo_cqe 0 q) = cq_sz demo_cq" "e_opcode (demo_cqe 0 q) \<noteq> MLX5_CQE_INVALID" for q
    by (simp_all add: demo_cqe_def demo_cq_def e_opcode_def)
  from hw_put_view [OF demo_cq_view _ l, of 7] have v: "cq_view 2 (hw_put 2 (demo_cqe 0 7) 0 demo_cq) [demo_cqe 0 7]"
    by (simp add: demo_strip)
  have "cq_sz (hw_put 2 (demo_cqe 0 7) 0 demo_cq) = cq_sz demo_cq" by (simp add: hw_put_def Let_def)
  with hw_put_view [OF v, of "demo_cqe 0 8"] l [of 8] show ?thesis by (simp add: demo_strip)
qed


theorem resize_cq_keeps_witness:
  "\<exists>cq'. mlx5_resize_cq None True (\<lambda>_ (old, new). (0, cq_buf (hw_put 2 (demo_cqe 5 0) 2
        (hw_put 2 (demo_cqe 0 8) 1 (hw_put 2 (demo_cqe 0 7) 0 demo_cq))), new)) 7
      (hw_put 2 (demo_cqe 0 8) 1 (hw_put 2 (demo_cqe 0 7) 0 demo_cq)) = (0, cq') \<and> cq_view 3 cq' [demo_cqe 0 7, demo_cqe 0 8]"
proof -
  let ?cq = "hw_put 2 (demo_cqe 0 8) 1 (hw_put 2 (demo_cqe 0 7) 0 demo_cq)"
  have "align_queue_size (nat 7 + 1) = 2 ^ 3" by (simp add: align_queue_size_def roundup_pow_of_two_def ilog.simps)
  moreover have two: "Suc (Suc 0) = 2" by simp
  moreover have "length (demo_cqe 5 0) = cq_sz ?cq" by (simp add: demo_cqe_def hw_put_def demo_cq_def Let_def)
  moreover have "e_opcode (demo_cqe 5 0) = MLX5_CQE_RESIZE_CQ" "e_opcode (demo_cqe 0 7) = 0" "e_opcode (demo_cqe 0 8) = 0"
    by (simp_all add: demo_cqe_def e_opcode_def)
  ultimately show ?thesis
    using resize_cq_keeps [OF demo_entries, of 7 3 "demo_cqe 5 0" "\<lambda>_ (old, new). (0, cq_buf (hw_put 2 (demo_cqe 5 0) 2 ?cq), new)" None]
    by (auto simp: two)
qed

end
