(* ===== verification/Uidx_Table.thy ===== *)
theory Uidx_Table
  imports Id_Table
begin

text \<open>
  The tables of user indices and of memory keys, from \<open>providers/mlx5/mlx5.c\<close> and \<open>mlx5.h\<close>.  They have the
  two levels of the table of queue pairs, but the library itself chooses a user index: the first free
  slot of the first array that has room.  A completion of version 1 names its object by this index.
\<close>

subsection \<open>Operations\<close>

abbreviation (input) MLX5_UIDX_TABLE_SHIFT :: nat where "MLX5_UIDX_TABLE_SHIFT \<equiv> 12"
abbreviation (input) MLX5_UIDX_TABLE_MASK :: nat where "MLX5_UIDX_TABLE_MASK \<equiv> 4095"
abbreviation (input) MLX5_UIDX_TABLE_SIZE :: nat where "MLX5_UIDX_TABLE_SIZE \<equiv> 4096"

definition mlx5_find_uidx :: "'a id_tab \<Rightarrow> u32 \<Rightarrow> 'a option res" where
  "mlx5_find_uidx t uidx =
     (if refcnt (t (tind uidx)) \<noteq> 0
      then case tab (t (tind uidx)) of None \<Rightarrow> Inl Segfault | Some a \<Rightarrow> Inr (a (slot uidx))
      else Inr None)"

text \<open>\<open>None\<close> stands for the result \<open>-1\<close>.  The counter of the second loop is one past the array when nothing is free.\<close>

definition get_free_uidx :: "'a id_tab \<Rightarrow> u32 option res" where
  "get_free_uidx t =
     (case find (\<lambda>i. refcnt (t i) < int MLX5_UIDX_TABLE_MASK) [0..<MLX5_UIDX_TABLE_SIZE] of
        None \<Rightarrow> Inr None
      | Some i \<Rightarrow>
          if refcnt (t i) = 0 then Inr (Some (push_bit MLX5_UIDX_TABLE_SHIFT (of_nat i)))
          else
            (case tab (t i) of
               None \<Rightarrow> Inl Segfault
             | Some a \<Rightarrow>
                 let j = (case find (\<lambda>j. a j = None) [0..<MLX5_UIDX_TABLE_MASK + 1] of None \<Rightarrow> MLX5_UIDX_TABLE_MASK + 1 | Some j \<Rightarrow> j)
                 in Inr (Some (push_bit MLX5_UIDX_TABLE_SHIFT (of_nat i) OR of_nat j))))"

definition mlx5_store_uidx :: "bool \<Rightarrow> 'a id_tab \<Rightarrow> 'a \<Rightarrow> (u32 option \<times> 'a id_tab) res" where
  "mlx5_store_uidx alloc t rsc =
     bind_res (get_free_uidx t) (\<lambda>u.
       case u of
         None \<Rightarrow> Inr (None, t)
       | Some uidx \<Rightarrow>
           let i = tind uidx; r = t i
           in if refcnt r = 0 \<and> \<not> alloc then Inr (None, t(i := r\<lparr>tab := None\<rparr>))
              else case (if refcnt r = 0 then Some (\<lambda>_. None) else tab r) of
                     None \<Rightarrow> Inl Segfault
                   | Some a \<Rightarrow> Inr (Some uidx, t(i := r\<lparr>refcnt := refcnt r + 1, tab := Some (a(slot uidx \<mapsto> rsc))\<rparr>)))"

definition mlx5_clear_uidx :: "'a id_tab \<Rightarrow> u32 \<Rightarrow> 'a id_tab res" where
  "mlx5_clear_uidx t uidx =
     (let i = tind uidx; r = t i
      in if refcnt r - 1 = 0 then Inr (t(i := r\<lparr>refcnt := 0, tab := None\<rparr>))
         else case tab r of
                None \<Rightarrow> Inl Segfault
              | Some a \<Rightarrow> Inr (t(i := r\<lparr>refcnt := refcnt r - 1, tab := Some (a(slot uidx := None))\<rparr>)))"

definition mlx5_find_mkey :: "'a id_tab \<Rightarrow> u32 \<Rightarrow> 'a option res" where
  "mlx5_find_mkey t mkey =
     (if refcnt (t (tind mkey)) \<noteq> 0
      then case tab (t (tind mkey)) of None \<Rightarrow> Inl Segfault | Some a \<Rightarrow> Inr (a (slot mkey))
      else Inr None)"

definition mlx5_store_mkey :: "bool \<Rightarrow> 'a id_tab \<Rightarrow> u32 \<Rightarrow> 'a \<Rightarrow> (int \<times> 'a id_tab) res" where
  "mlx5_store_mkey alloc t mkey x =
     (let i = tind mkey; r = t i
      in if refcnt r = 0 \<and> \<not> alloc then Inr (- 1, t(i := r\<lparr>tab := None\<rparr>))
         else case (if refcnt r = 0 then Some (\<lambda>_. None) else tab r) of
                None \<Rightarrow> Inl Segfault
              | Some a \<Rightarrow> Inr (0, t(i := r\<lparr>refcnt := refcnt r + 1, tab := Some (a(slot mkey \<mapsto> x))\<rparr>)))"

definition mlx5_clear_mkey :: "'a id_tab \<Rightarrow> u32 \<Rightarrow> 'a id_tab res" where
  "mlx5_clear_mkey t mkey =
     (let i = tind mkey; r = t i
      in if refcnt r - 1 = 0 then Inr (t(i := r\<lparr>refcnt := 0, tab := None\<rparr>))
         else case tab r of
                None \<Rightarrow> Inl Segfault
              | Some a \<Rightarrow> Inr (t(i := r\<lparr>refcnt := refcnt r - 1, tab := Some (a(slot mkey := None))\<rparr>)))"

subsection \<open>The table of memory keys is a table of numbers\<close>

lemma mkey_as_qp:
  "mlx5_find_mkey = mlx5_find_qp" "mlx5_store_mkey = mlx5_store_qp" "mlx5_clear_mkey = mlx5_clear_qp"
  by (intro ext; simp add: mlx5_find_mkey_def mlx5_find_qp_def mlx5_store_mkey_def mlx5_store_qp_def
      mlx5_clear_mkey_def mlx5_clear_qp_def)+

lemma uidx_as_qp: "mlx5_find_uidx = mlx5_find_qp" "mlx5_clear_uidx = mlx5_clear_qp"
  by (intro ext; simp add: mlx5_find_uidx_def mlx5_find_qp_def mlx5_clear_uidx_def mlx5_clear_qp_def)+

interpretation mkt: id_table mlx5_find_mkey "mlx5_store_mkey True" mlx5_clear_mkey tab_ok tab_map
  unfolding mkey_as_qp by (rule qpt.id_table_axioms)

subsection \<open>User indices\<close>

text \<open>A user index has 24 bits, so all the entries are in the first 4096 slots of the first 4096 arrays.\<close>

definition uidx_ok :: "'a id_tab \<Rightarrow> bool" where
  "uidx_ok t \<longleftrightarrow> tab_ok t \<and> (\<forall>n. tab_map t n \<noteq> None \<longrightarrow> n < 2 ^ 24) \<and> (\<forall>i a. tab (t i) = Some a \<longrightarrow> dom a \<subseteq> {..<4096})"

definition has_room :: "'a id_tab \<Rightarrow> bool" where
  "has_room t \<longleftrightarrow> (\<exists>i < 4096. refcnt (t i) < 4095)"

lemma or_parts:
  fixes i j :: nat
  assumes "j < 4096"
  shows "push_bit 12 i OR j = i * 4096 + j"
proof (rule bit_eqI)
  fix n
  have d: "drop_bit 12 (i * 4096 + j) = i" and t: "take_bit 12 (i * 4096 + j) = j"
    using assms by (simp_all add: drop_bit_eq_div take_bit_eq_mod)
  have "bit (i * 4096 + j) n = (if n < 12 then bit j n else bit i (n - 12))"
    using bit_take_bit_iff [of 12 "i * 4096 + j" n] bit_drop_bit_eq [of 12 "i * 4096 + j"] by (simp add: d t)
  moreover have "\<not> bit j n" if "\<not> n < 12" using that bit_take_bit_iff [of 12 "i * 4096 + j" n] by (simp add: t)
  ultimately show "bit (push_bit 12 i OR j) n = bit (i * 4096 + j) n" by (auto simp: bit_or_iff bit_push_bit_iff_nat)
qed

lemma unat_uidx:
  assumes "i < 4096" "j < 4096"
  shows "unat (push_bit 12 (of_nat i) OR of_nat j :: u32) = i * 4096 + j"
proof -
  have "push_bit 12 (of_nat i :: u32) = of_nat (i * 4096)" by (simp add: push_bit_eq_mult)
  then have "unat (push_bit 12 (of_nat i) :: u32) = push_bit 12 i"
    using assms(1) unat_of_nat_small [of "i * 4096", where ?'a = 32] by (simp only:) (simp add: push_bit_eq_mult)
  then show ?thesis using assms unat_of_nat_small [of j, where ?'a = 32] or_parts by (simp add: unsigned_or_eq)
qed

lemma uidx_parts:
  assumes "i < 4096" "j < 4096"
  shows "tind (push_bit 12 (of_nat i) OR of_nat j) = i" "slot (push_bit 12 (of_nat i) OR of_nat j) = j"
    "(push_bit 12 (of_nat i) OR of_nat j :: u32) < 2 ^ 24"
proof -
  note u = unat_uidx [OF assms]
  show "tind (push_bit 12 (of_nat i) OR of_nat j) = i"
    using assms by (simp only: tind_def unsigned_drop_bit_eq u) (simp add: drop_bit_eq_div take_bit_eq_mod)
  have "(0xfff :: u32) = mask 12" by (simp add: mask_eq_exp_minus_1)
  then show "slot (push_bit 12 (of_nat i) OR of_nat j) = j"
    using assms(2) by (simp only: slot_def unsigned_take_bit_eq u flip: take_bit_eq_mask) (simp add: take_bit_eq_mod)
  show "(push_bit 12 (of_nat i) OR of_nat j :: u32) < 2 ^ 24"
    unfolding word_less_nat_alt u using assms by simp
qed

lemma find_upt: "find P [0..<n] = (if \<exists>i < n. P i then Some (LEAST i. P i) else None)"
proof (cases "\<exists>i < n. P i")
  case True
  then have l: "P (LEAST i. P i)" "(LEAST i. P i) < n" by (auto intro: LeastI dest: Least_le)
  then have "find P [0..<n] = Some (LEAST i. P i)"
    by (auto simp: find_Some_iff dest: not_less_Least intro!: exI [of _ "LEAST i. P i"])
  with True show ?thesis by simp
qed (auto simp: find_None_iff)

lemma slot_less: "slot n < 4096"
proof -
  have "slot n = unat n mod 4096" using unat_mask_add [of 4096 12 n 0] by (simp add: slot_def)
  then show ?thesis by simp
qed

lemma find_upt_ex: "\<exists>i < n. P i \<Longrightarrow> \<exists>j. find P [0..<n] = Some j \<and> j < n \<and> P j"
  by (cases "find P [0..<n]") (auto simp: find_None_iff find_Some_iff)

text \<open>The index that is chosen is free; no index is chosen only when every array has at least 4095 entries.\<close>

lemma get_free_fresh:
  assumes ok: "uidx_ok t"
  shows "get_free_uidx t = Inr None \<and> \<not> has_room t \<or>
    (\<exists>u. get_free_uidx t = Inr (Some u) \<and> has_room t \<and> tab_map t u = None \<and> u < 2 ^ 24)"
proof (cases "has_room t")
  case False
  then show ?thesis by (auto simp: has_room_def get_free_uidx_def find_upt simp del: upt_rec_numeral)
next
  case True
  define i where "i = (LEAST i. refcnt (t i) < 4095)"
  have i: "i < 4096" "refcnt (t i) < 4095"
    using True by (auto simp: has_room_def i_def intro: LeastI dest: Least_le)
  have f: "find (\<lambda>i. refcnt (t i) < 4095) [0..<4096] = Some i" using True by (auto simp: has_room_def find_upt i_def simp del: upt_rec_numeral)
  show ?thesis
  proof (cases "refcnt (t i) = 0")
    case z: True
    have g: "get_free_uidx t = Inr (Some (push_bit 12 (of_nat i) OR of_nat 0))" using f z by (simp add: get_free_uidx_def del: upt_rec_numeral)
    have "tab_map t (push_bit 12 (of_nat i) OR of_nat 0) = None" using uidx_parts(1) [OF i(1), of 0] z by (simp add: tab_map_def)
    with g True uidx_parts(3) [OF i(1), of 0] show ?thesis by auto
  next
    case False
    with ok obtain a where a: "tab (t i) = Some a" "finite (dom a)" "refcnt (t i) = int (card (dom a))" "dom a \<subseteq> {..<4096}"
      using tab_ok_row [of t i] by (auto simp: uidx_ok_def row_ok_def)
    have "\<exists>j < 4096. a j = None"
    proof (rule ccontr)
      assume "\<not> (\<exists>j < 4096. a j = None)"
      then have "{..<4096} \<subseteq> dom a" by (auto simp: domIff)
      then have "card {..<4096 :: nat} \<le> card (dom a)" by (rule card_mono [OF a(2)])
      then show False using a(3) i(2) by (simp only: card_lessThan)
    qed
    from find_upt_ex [OF this] obtain j where j: "find (\<lambda>j. a j = None) [0..<4096] = Some j" "j < 4096" "a j = None" by blast
    have "get_free_uidx t = Inr (Some (push_bit 12 (of_nat i) OR of_nat j))" using f False a(1) j(1) by (simp add: get_free_uidx_def del: upt_rec_numeral)
    moreover have "tab_map t (push_bit 12 (of_nat i) OR of_nat j) = None"
      using uidx_parts [OF i(1) j(2)] a(1) j(3) by (simp add: tab_map_def)
    ultimately show ?thesis using True uidx_parts(3) [OF i(1) j(2)] by auto
  qed
qed

lemma store_uidx_as_qp:
  assumes "get_free_uidx t = Inr (Some u)"
  shows "mlx5_store_uidx alloc t x = bind_res (mlx5_store_qp alloc t u x) (\<lambda>(r, t'). Inr (if r = 0 then Some u else None, t'))"
  using assms by (auto simp: mlx5_store_uidx_def mlx5_store_qp_def Let_def split: option.splits if_splits)

lemma uidx_ok_map: "uidx_ok t \<Longrightarrow> mlx5_find_uidx t n = Inr (tab_map t n)"
  using find_qp_map [of t n] by (simp add: uidx_ok_def uidx_as_qp)

lemma uidx_ok_slot: "uidx_ok t \<Longrightarrow> tab (t i) = Some a \<Longrightarrow> a j = Some y \<Longrightarrow> j < 4096"
  unfolding uidx_ok_def by blast

lemma store_uidx_ok:
  assumes ok: "uidx_ok t" and r: "has_room t"
  shows "\<exists>u t'. mlx5_store_uidx True t x = Inr (Some u, t') \<and> u < 2 ^ 24 \<and> tab_map t u = None \<and>
           tab_map t' = (tab_map t)(u \<mapsto> x) \<and> uidx_ok t'"
proof -
  obtain u where u: "get_free_uidx t = Inr (Some u)" "tab_map t u = None" "u < 2 ^ 24" using get_free_fresh [OF ok] r by auto
  have t: "tab_ok t" using ok by (simp add: uidx_ok_def)
  obtain t' where t': "mlx5_store_qp True t u x = Inr (0, t')" "tab_ok t'" "tab_map t' = (tab_map t)(u \<mapsto> x)"
    using store_qp_map [OF t u(2)] by blast
  have "dom a \<subseteq> {..<4096}" if "tab (t' i) = Some a" for i a
    using t'(1) that slot_less [of u] uidx_ok_slot [OF ok]
    by (auto simp: mlx5_store_qp_def Let_def split: option.splits if_splits)
  then have "uidx_ok t'" using ok t'(2,3) u(3) by (auto simp: uidx_ok_def split: if_splits)
  with t'(1,3) u show ?thesis by (simp add: store_uidx_as_qp)
qed

lemma clear_uidx_ok:
  assumes ok: "uidx_ok t" and u: "tab_map t u \<noteq> None"
  shows "\<exists>t'. mlx5_clear_uidx t u = Inr t' \<and> tab_map t' = (tab_map t)(u := None) \<and> uidx_ok t'"
proof -
  have t: "tab_ok t" using ok by (simp add: uidx_ok_def)
  obtain t' where t': "mlx5_clear_qp t u = Inr t'" "tab_ok t'" "tab_map t' = (tab_map t)(u := None)"
    using clear_qp_map [OF t u] by blast
  have "dom a \<subseteq> {..<4096}" if "tab (t' i) = Some a" for i a
    using t'(1) that uidx_ok_slot [OF ok] by (auto simp: mlx5_clear_qp_def Let_def split: option.splits if_splits)
  then have "uidx_ok t'" using ok t'(2,3) by (auto simp: uidx_ok_def split: if_splits)
  with t' show ?thesis by (simp add: uidx_as_qp)
qed

lemma empty_uidx_ok: "uidx_ok empty_tab" "has_room empty_tab"
proof -
  show "uidx_ok empty_tab" by (simp add: uidx_ok_def tab_ok_def row_ok_def empty_tab_def tab_map_def)
  have "(0 :: nat) < 4096" "refcnt (empty_tab 0) < 4095" by (simp_all add: empty_tab_def)
  then show "has_room empty_tab" unfolding has_room_def by blast
qed

subsection \<open>Properties\<close>

text \<open>
  C28. A user index is never shared: while an array has fewer than 4095 entries, \<open>mlx5_store_uidx\<close> returns an
  index of 24 bits that no object had, makes exactly it findable, and keeps every other lookup; clearing
  it gives back the lookups there were, with no fault on the way.
\<close>
theorem uidx_alloc_fresh:
  assumes "uidx_ok t" "has_room t"
  shows "\<exists>u t' t''. mlx5_store_uidx True t x = Inr (Some u, t') \<and> u < 2 ^ 24 \<and> mlx5_find_uidx t u = Inr None \<and>
    mlx5_find_uidx t' u = Inr (Some x) \<and> (\<forall>k. k \<noteq> u \<longrightarrow> mlx5_find_uidx t' k = mlx5_find_uidx t k) \<and> uidx_ok t' \<and>
    mlx5_clear_uidx t' u = Inr t'' \<and> uidx_ok t'' \<and> (\<forall>k. mlx5_find_uidx t'' k = mlx5_find_uidx t k)"
proof -
  obtain u t' where s: "mlx5_store_uidx True t x = Inr (Some u, t')" "u < 2 ^ 24" "tab_map t u = None"
      "tab_map t' = (tab_map t)(u \<mapsto> x)" "uidx_ok t'"
    using store_uidx_ok [OF assms, of x] by blast
  obtain t'' where c: "mlx5_clear_uidx t' u = Inr t''" "tab_map t'' = (tab_map t')(u := None)" "uidx_ok t''"
    using clear_uidx_ok [OF s(5), of u] s(4) by auto
  have "tab_map t'' = tab_map t" using c(2) s(3,4) by (auto simp: fun_eq_iff)
  with s c show ?thesis using assms(1) by (auto simp: uidx_ok_map)
qed

theorem uidx_alloc_fresh_witness:
  "\<exists>u t'. mlx5_store_uidx True empty_tab (7 :: nat) = Inr (Some u, t') \<and> u < 2 ^ 24 \<and> mlx5_find_uidx t' u = Inr (Some 7)"
  using uidx_alloc_fresh [OF empty_uidx_ok, of 7] by blast

text \<open>
  The comment above \<open>get_free_uidx\<close> promises an index unless all are used.  The first loop stops at a count
  below \<open>MLX5_UIDX_TABLE_MASK\<close>, so with 4095 objects in each array no index is returned although 4096
  are free.
\<close>

definition nearly_full :: "nat id_tab" where
  "nearly_full = (\<lambda>i. if i < 4096 then \<lparr>refcnt = 4095, tab = Some (\<lambda>j. if j < 4095 then Some j else None)\<rparr> else \<lparr>refcnt = 0, tab = None\<rparr>)"

theorem uidx_last_slots_unused:
  "mlx5_store_uidx alloc nearly_full x = Inr (None, nearly_full) \<and> mlx5_find_uidx nearly_full (push_bit 12 (of_nat i) OR of_nat 4095) = Inr None"
  if "i < 4096"
  using that uidx_parts [of i 4095]
  by (auto simp: mlx5_store_uidx_def get_free_uidx_def nearly_full_def find_upt mlx5_find_uidx_def simp del: upt_rec_numeral)

end
