(* ===== verification/Cq_Poll.thy ===== *)
theory Cq_Poll
  imports Cq_Ring Uidx_Table
begin

text \<open>
  Polling a completion queue, from \<open>providers/mlx5/cq.c\<close>: \<open>mlx5_parse_cqe\<close> for all kinds of entries, the
  classic interface (\<open>poll_cq\<close>, which fills an array of \<open>ibv_wc\<close>) and the extended one (\<open>start_poll\<close>,
  \<open>next_poll\<close>, \<open>end_poll\<close> and the functions that read single fields).
\<close>

subsection \<open>Constants and types\<close>

abbreviation (input) CQ_OK :: int where "CQ_OK \<equiv> 0"
abbreviation (input) CQ_EMPTY :: int where "CQ_EMPTY \<equiv> - 1"
abbreviation (input) CQ_POLL_ERR :: int where "CQ_POLL_ERR \<equiv> - 2"
abbreviation (input) ENOENT :: int where "ENOENT \<equiv> 2"
abbreviation (input) CQ_POLL_NODATA :: int where "CQ_POLL_NODATA \<equiv> 2"
abbreviation (input) MLX5_OPCODE_SET_PSV :: u32 where "MLX5_OPCODE_SET_PSV \<equiv> 0x20"
abbreviation (input) MLX5_OPCODE_MMO :: u32 where "MLX5_OPCODE_MMO \<equiv> 0x2F"
abbreviation (input) IBV_WC_RECV :: u32 where "IBV_WC_RECV \<equiv> 128"
abbreviation (input) IBV_WC_RECV_RDMA_WITH_IMM :: u32 where "IBV_WC_RECV_RDMA_WITH_IMM \<equiv> 129"
abbreviation (input) IBV_WC_TM_ADD :: u32 where "IBV_WC_TM_ADD \<equiv> 130"
abbreviation (input) IBV_WC_TM_DEL :: u32 where "IBV_WC_TM_DEL \<equiv> 131"
abbreviation (input) IBV_WC_TM_SYNC :: u32 where "IBV_WC_TM_SYNC \<equiv> 132"
abbreviation (input) IBV_WC_TM_RECV :: u32 where "IBV_WC_TM_RECV \<equiv> 133"
abbreviation (input) IBV_WC_TM_NO_TAG :: u32 where "IBV_WC_TM_NO_TAG \<equiv> 134"
abbreviation (input) IBV_WC_GRH :: u32 where "IBV_WC_GRH \<equiv> 1"
abbreviation (input) IBV_WC_WITH_IMM :: u32 where "IBV_WC_WITH_IMM \<equiv> 2"
abbreviation (input) IBV_WC_IP_CSUM_OK :: u32 where "IBV_WC_IP_CSUM_OK \<equiv> 4"
abbreviation (input) IBV_WC_WITH_INV :: u32 where "IBV_WC_WITH_INV \<equiv> 8"
abbreviation (input) IBV_WC_TM_SYNC_REQ :: u32 where "IBV_WC_TM_SYNC_REQ \<equiv> 16"
abbreviation (input) IBV_WC_TM_MATCH :: u32 where "IBV_WC_TM_MATCH \<equiv> 32"
abbreviation (input) IBV_WC_TM_DATA_VALID :: u32 where "IBV_WC_TM_DATA_VALID \<equiv> 64"
abbreviation (input) MLX5_CQ_FLAGS_RX_CSUM_VALID :: u32 where "MLX5_CQ_FLAGS_RX_CSUM_VALID \<equiv> 1"
abbreviation (input) MLX5_CQ_FLAGS_EMPTY_DURING_POLL :: u32 where "MLX5_CQ_FLAGS_EMPTY_DURING_POLL \<equiv> 2"
abbreviation (input) MLX5_CQ_FLAGS_FOUND_CQES :: u32 where "MLX5_CQ_FLAGS_FOUND_CQES \<equiv> 4"
abbreviation (input) MLX5_CQ_FLAGS_SINGLE_THREADED :: u32 where "MLX5_CQ_FLAGS_SINGLE_THREADED \<equiv> 16"
abbreviation (input) MLX5_CQ_FLAGS_RAW_WQE :: u32 where "MLX5_CQ_FLAGS_RAW_WQE \<equiv> 128"
abbreviation (input) MLX5_RX_CSUM_VALID :: u32 where "MLX5_RX_CSUM_VALID \<equiv> 65536"
abbreviation (input) MLX5_CQE_APP_TAG_MATCHING :: u8 where "MLX5_CQE_APP_TAG_MATCHING \<equiv> 1"

text \<open>\<open>imm_data\<close>, whose value is given as a number, and \<open>invalidated_rkey\<close> share their memory.\<close>

datatype imm_inv = ImmData u32 | InvRkey u32

record ibv_wc =
  wc_wr_id :: u64
  wc_status :: nat
  wc_opcode :: u32
  vendor_err :: u32
  wc_byte_len :: u32
  wc_imm :: imm_inv
  wc_qp_num :: u32
  wc_src_qp :: u32
  wc_flags :: u32
  wc_pkey_index :: u16
  wc_slid :: u16
  wc_sl :: u8
  wc_dlid_path_bits :: u8

record mlx5_sig_err =
  se_syndrome :: u16
  se_expected :: u64
  se_actual :: u64
  se_offset :: u64
  se_sig_type :: u8
  se_domain :: u8

record mlx5_sig_ctx =
  sig_err_info :: mlx5_sig_err
  sig_err_count :: u32
  sig_err_exists :: bool
  sig_err_count_updated :: bool

text \<open>
  What polling reads and writes outside the queue: the tables of the context, the objects they point to,
  and the memory of the application.
\<close>

record cq_env =
  qp_table :: "mlx5_resource id_tab"
  uidx_table :: "mlx5_resource id_tab"
  srq_table :: "nat id_tab"
  mkey_table :: "nat id_tab"
  null_mkey :: u32
  hp_qp :: "nat \<Rightarrow> mlx5_qp"
  hp_qp_srq :: "nat \<Rightarrow> nat option"
  hp_srq :: "nat \<Rightarrow> tm_srq"
  hp_srqn :: "nat \<Rightarrow> u32"
  hp_rwq :: "nat \<Rightarrow> mlx5_wq"
  hp_sig :: "nat \<Rightarrow> mlx5_sig_ctx option"
  hp_um :: user_mem

text \<open>The state of a poll: the queue, the rest, the completion to fill, and the objects found last.\<close>

record poll_st =
  ps_cq :: mlx5_cq
  ps_env :: cq_env
  ps_wc :: ibv_wc
  ps_rsc :: "mlx5_resource option"
  ps_srq :: "nat option"

subsection \<open>Fields\<close>

definition cqe_qpn :: "nat \<Rightarrow> mem \<Rightarrow> u32" where
  "cqe_qpn e m = ld_be32 (e + 56) m AND 0xffffff"

definition cqe_sop :: "nat \<Rightarrow> mem \<Rightarrow> u32" where
  "cqe_sop e m = drop_bit 24 (ld_be32 (e + 56) m)"

definition cqe_uidx :: "nat \<Rightarrow> mem \<Rightarrow> u32" where
  "cqe_uidx e m = ld_be32 (e + 32) m AND 0xffffff"

definition get_cqe_l3_hdr_type :: "nat \<Rightarrow> mem \<Rightarrow> u8" where
  "get_cqe_l3_hdr_type e m = drop_bit 2 (m (e + 29)) AND 3"

definition get_csum_ok :: "nat \<Rightarrow> mem \<Rightarrow> u32" where
  "get_csum_ok e m = (if m (e + 28) AND 6 = 6 \<and> get_cqe_l3_hdr_type e m = 2 then IBV_WC_IP_CSUM_OK else 0)"

definition get_sig_err_info :: "nat \<Rightarrow> mem \<Rightarrow> mlx5_sig_err" where
  "get_sig_err_info e m =
     \<lparr>se_syndrome = ld_be16 (e + 32) m,
      se_expected = push_bit 32 (ucast (ld_be32 (e + 16) m)) OR ucast (ld_be32 (e + 24) m),
      se_actual = push_bit 32 (ucast (ld_be32 (e + 20) m)) OR ucast (ld_be32 (e + 28) m),
      se_offset = ld_be64 (e + 40) m, se_sig_type = m (e + 34), se_domain = m (e + 35)\<rparr>"

definition mlx5_handle_error_cqe :: "u8 \<Rightarrow> nat" where
  "mlx5_handle_error_cqe syndrome =
     (if syndrome = 0x01 then 1 else if syndrome = 0x02 then 2 else if syndrome = 0x04 then 4
      else if syndrome = 0x05 then 5 else if syndrome = 0x06 then 6 else if syndrome = 0x10 then 7
      else if syndrome = 0x11 then 8 else if syndrome = 0x12 then 9 else if syndrome = 0x13 then 10
      else if syndrome = 0x14 then 11 else if syndrome = 0x15 then 12 else if syndrome = 0x16 then 13
      else if syndrome = 0x22 then 16 else IBV_WC_GENERAL_ERR)"

definition is_odp_pfault_err :: "nat \<Rightarrow> mem \<Rightarrow> bool" where
  "is_odp_pfault_err e m \<longleftrightarrow> m (e + 55) = 0x22 \<and> m (e + 54) = 0x93"

definition tm_cqe_of :: "nat \<Rightarrow> mem \<Rightarrow> tm_cqe" where
  "tm_cqe_of e m =
     (let n = unat (ld_be32 (e + 44) m)
      in \<lparr>app_op = m (e + 41), app_info = ld_be16 (e + 42) m, op_own = op_own_at e m, byte_cnt = ld_be32 (e + 44) m,
          tm_success = ld_be32 e m, hw_phase_cnt = ld_be16 (e + 4) m, wqe_counter = ld_be16 (e + 60) m,
          cqe_data32 = load_bytes e n m, cqe_data64 = load_bytes (e - 64) n m\<rparr>)"

subsection \<open>Finding the object of an entry\<close>

definition rsc_to_mqp :: "mlx5_resource option \<Rightarrow> nat option res" where
  "rsc_to_mqp r =
     (case r of None \<Rightarrow> Inr None
      | Some x \<Rightarrow> if rsc_type x = MLX5_RSC_TYPE_QP then Inr (Some (rsc_obj x)) else Inl Undefined)"

definition stale :: "mlx5_resource option \<Rightarrow> u32 \<Rightarrow> bool" where
  "stale r n \<longleftrightarrow> (case r of None \<Rightarrow> True | Some x \<Rightarrow> n \<noteq> rsn x)"

definition get_req_context :: "cq_env \<Rightarrow> bool \<Rightarrow> u32 \<Rightarrow> mlx5_resource option \<Rightarrow> (mlx5_resource option \<times> nat option) res" where
  "get_req_context env ver n cur =
     bind_res (if stale cur n then (if ver then mlx5_find_uidx (uidx_table env) n else mlx5_find_qp (qp_table env) n) else Inr cur)
       (\<lambda>r. bind_res (rsc_to_mqp r) (\<lambda>q. Inr (r, q)))"

text \<open>The error, the objects, and whether the entry is for a shared receive queue.\<close>

definition get_resp_ctx_v1 ::
    "cq_env \<Rightarrow> u32 \<Rightarrow> mlx5_resource option \<times> nat option \<Rightarrow> (int \<times> mlx5_resource option \<times> nat option \<times> bool) res" where
  "get_resp_ctx_v1 env u cur =
     bind_res (if stale (fst cur) u then mlx5_find_uidx (uidx_table env) u else Inr (fst cur)) (\<lambda>r.
       case r of
         None \<Rightarrow> Inr (CQ_POLL_ERR, None, snd cur, False)
       | Some x \<Rightarrow>
           (case rsc_type x of
              MLX5_RSC_TYPE_QP \<Rightarrow>
                (case hp_qp_srq env (rsc_obj x) of
                   None \<Rightarrow> Inr (CQ_OK, r, snd cur, False)
                 | Some s \<Rightarrow> Inr (CQ_OK, r, Some s, True))
            | MLX5_RSC_TYPE_XSRQ \<Rightarrow> Inr (CQ_OK, r, Some (rsc_obj x), True)
            | MLX5_RSC_TYPE_RWQ \<Rightarrow> Inr (CQ_OK, r, snd cur, False)
            | _ \<Rightarrow> Inr (CQ_POLL_ERR, r, snd cur, False)))"

definition get_qp_ctx :: "cq_env \<Rightarrow> u32 \<Rightarrow> mlx5_resource option \<Rightarrow> (int \<times> mlx5_resource option) res" where
  "get_qp_ctx env qpn cur =
     (if stale cur qpn
      then bind_res (mlx5_find_qp (qp_table env) qpn) (\<lambda>r. Inr (if r = None then CQ_POLL_ERR else CQ_OK, r))
      else Inr (CQ_OK, cur))"

definition get_srq_ctx :: "cq_env \<Rightarrow> u32 \<Rightarrow> nat option \<Rightarrow> (int \<times> nat option) res" where
  "get_srq_ctx env srqn cur =
     (if (case cur of None \<Rightarrow> True | Some s \<Rightarrow> srqn \<noteq> hp_srqn env s)
      then bind_res (mlx5_find_srq (srq_table env) srqn) (\<lambda>r. Inr (if r = None then CQ_POLL_ERR else CQ_OK, r))
      else Inr (CQ_OK, cur))"

definition get_cur_rsc ::
    "cq_env \<Rightarrow> bool \<Rightarrow> u32 \<Rightarrow> u32 \<Rightarrow> mlx5_resource option \<times> nat option \<Rightarrow> (int \<times> mlx5_resource option \<times> nat option \<times> bool) res" where
  "get_cur_rsc env ver qpn su cur =
     (if ver then get_resp_ctx_v1 env su cur
      else if su \<noteq> 0 then bind_res (get_srq_ctx env su (snd cur)) (\<lambda>(err, s). Inr (err, fst cur, s, True))
      else bind_res (get_qp_ctx env qpn (fst cur)) (\<lambda>(err, r). Inr (err, r, snd cur, False)))"

subsection \<open>Completions of requests\<close>

definition set_sq_tail :: "nat \<Rightarrow> nat \<Rightarrow> cq_env \<Rightarrow> cq_env" where
  "set_sq_tail q idx env =
     (let w = sq (hp_qp env q)
      in env\<lparr>hp_qp := (hp_qp env)(q := (hp_qp env q)\<lparr>sq := w\<lparr>wq_tail := wqe_head w idx + 1\<rparr>\<rparr>)\<rparr>)"

definition handle_good_req :: "nat \<Rightarrow> mem \<Rightarrow> mlx5_wq \<Rightarrow> nat \<Rightarrow> ibv_wc \<Rightarrow> ibv_wc" where
  "handle_good_req e m wq idx wc =
     (let op = cqe_sop e m; d = wr_data wq idx;
          wc1 = (if op = MLX5_OPCODE_RDMA_WRITE_IMM then wc\<lparr>wc_flags := wc_flags wc OR IBV_WC_WITH_IMM, wc_opcode := IBV_WC_RDMA_WRITE\<rparr>
                 else if op = MLX5_OPCODE_RDMA_WRITE then wc\<lparr>wc_opcode := IBV_WC_RDMA_WRITE\<rparr>
                 else if op = MLX5_OPCODE_SEND_IMM then wc\<lparr>wc_flags := wc_flags wc OR IBV_WC_WITH_IMM, wc_opcode := IBV_WC_SEND\<rparr>
                 else if op = MLX5_OPCODE_SEND \<or> op = MLX5_OPCODE_SEND_INVAL then wc\<lparr>wc_opcode := IBV_WC_SEND\<rparr>
                 else if op = MLX5_OPCODE_RDMA_READ then wc\<lparr>wc_opcode := IBV_WC_RDMA_READ, wc_byte_len := ld_be32 (e + 44) m\<rparr>
                 else if op = MLX5_OPCODE_ATOMIC_CS then wc\<lparr>wc_opcode := IBV_WC_COMP_SWAP, wc_byte_len := 8\<rparr>
                 else if op = MLX5_OPCODE_ATOMIC_FA then wc\<lparr>wc_opcode := IBV_WC_FETCH_ADD, wc_byte_len := 8\<rparr>
                 else if op = MLX5_OPCODE_UMR \<or> op = MLX5_OPCODE_SET_PSV \<or> op = MLX5_OPCODE_NOP \<or> op = MLX5_OPCODE_MMO
                 then wc\<lparr>wc_opcode := d\<rparr>
                 else if op = MLX5_OPCODE_TSO then wc\<lparr>wc_opcode := IBV_WC_TSO\<rparr>
                 else wc)
      in if d = IBV_WC_DRIVER2 then wc1\<lparr>wc_opcode := IBV_WC_DRIVER2\<rparr> else wc1)"

text \<open>
  Data of a read or an atomic that came with the entry at \<open>cqe\<close>.  The pointer has type \<open>void *\<close>, so one less
  is the byte before the entry.
\<close>

definition req_scatter :: "nat \<Rightarrow> nat \<Rightarrow> u32 \<Rightarrow> nat \<Rightarrow> mem \<Rightarrow> cq_env \<Rightarrow> (nat \<times> cq_env) res" where
  "req_scatter e cqe n q m env =
     (let qp = hp_qp env q; ctr = ucast (ld_be16 (e + 60) m);
          copy = (\<lambda>p. case mlx5_copy_to_send_wqe (null_mkey env) qp ctr (load_bytes p (unat n) m) (hp_um env) of
                         (st, um) \<Rightarrow> (st, env\<lparr>hp_um := um\<rparr>))
      in if op_own_at e m AND MLX5_INLINE_SCATTER_32 \<noteq> 0 then Inr (copy cqe)
         else if op_own_at e m AND MLX5_INLINE_SCATTER_64 \<noteq> 0 then (if cqe = 0 then Inl OutOfBounds else Inr (copy (cqe - 1)))
         else Inr (IBV_WC_SUCCESS, env))"

definition parse_req :: "bool \<Rightarrow> bool \<Rightarrow> nat \<Rightarrow> nat \<Rightarrow> poll_st \<Rightarrow> (int \<times> poll_st) res" where
  "parse_req lazy ver e cqe ps =
     (let m = cq_buf (ps_cq ps); env = ps_env ps
      in bind_res (get_req_context env ver (if ver then cqe_uidx e m else cqe_qpn e m) (ps_rsc ps)) (\<lambda>(r, q).
           let ps1 = ps\<lparr>ps_rsc := r\<rparr>
           in case q of
                None \<Rightarrow> Inr (CQ_POLL_ERR, ps1)
              | Some i \<Rightarrow>
                  let wq = sq (hp_qp env i); idx = unat (ucast (ld_be16 (e + 60) m) AND (wqe_cnt wq - 1)); op = cqe_sop e m;
                      d = wr_data wq idx
                  in if lazy then
                       let read = (op = MLX5_OPCODE_RDMA_READ); atomic = (op = MLX5_OPCODE_ATOMIC_CS \<or> op = MLX5_OPCODE_ATOMIC_FA);
                           cached = (op = MLX5_OPCODE_UMR \<or> op = MLX5_OPCODE_SET_PSV \<or> op = MLX5_OPCODE_NOP \<or> op = MLX5_OPCODE_MMO)
                       in bind_res (if read then req_scatter e cqe (ld_be32 (e + 44) m) i m env
                                    else if atomic then req_scatter e cqe 8 i m env
                                    else Inr (IBV_WC_SUCCESS, env)) (\<lambda>(err, env1).
                            let cq = ps_cq ps1;
                                cq1 = cq\<lparr>cached_opcode := (if cached then d else cached_opcode cq),
                                         lz := (lz cq)\<lparr>cq_wr_id := wrid wq idx, cq_status := err\<rparr>,
                                         cq_flags := (if d = IBV_WC_DRIVER2 then cq_flags cq OR MLX5_CQ_FLAGS_RAW_WQE else cq_flags cq)\<rparr>
                            in Inr (CQ_OK, ps1\<lparr>ps_cq := cq1, ps_env := set_sq_tail i idx env1\<rparr>))
                     else
                       let wc = handle_good_req e m wq idx (ps_wc ps)
                       in bind_res (req_scatter e cqe (wc_byte_len wc) i m env) (\<lambda>(err, env1).
                            Inr (CQ_OK, ps1\<lparr>ps_wc := wc\<lparr>wc_wr_id := wrid wq idx, wc_status := err\<rparr>,
                                            ps_env := set_sq_tail i idx env1\<rparr>))))"

subsection \<open>Received messages\<close>

text \<open>
  What \<open>handle_responder\<close> and \<open>handle_responder_lazy\<close> do alike: the identifier and the descriptor of the
  message, the data that came with the entry, and whether the checksum bits are to be read.
\<close>

definition srq_take :: "nat \<Rightarrow> nat \<Rightarrow> mem \<Rightarrow> cq_env \<Rightarrow> (u64 \<times> cq_env) res" where
  "srq_take k i m env =
     (let t = hp_srq env k; b = tm_base t
      in if srq_max b \<le> i then Inl OutOfBounds
         else Inr (srq_wrid b i, env\<lparr>hp_srq := (hp_srq env)(k := t\<lparr>tm_base := mlx5_free_srq_wqe i b\<rparr>)\<rparr>))"

definition rq_take :: "mlx5_wq \<Rightarrow> u64 \<times> mlx5_wq" where
  "rq_take w = (wrid w (unat (wq_tail w AND (wqe_cnt w - 1))), w\<lparr>wq_tail := wq_tail w + 1\<rparr>)"

definition scatter_at :: "nat \<Rightarrow> mem \<Rightarrow> nat option res" where
  "scatter_at e m =
     (if op_own_at e m AND MLX5_INLINE_SCATTER_32 \<noteq> 0 then Inr (Some e)
      else if op_own_at e m AND MLX5_INLINE_SCATTER_64 \<noteq> 0 then (if e < 64 then Inl OutOfBounds else Inr (Some (e - 64)))
      else Inr None)"

definition resp_take :: "nat \<Rightarrow> mem \<Rightarrow> mlx5_resource option \<Rightarrow> nat option \<Rightarrow> cq_env \<Rightarrow> (nat \<times> u64 \<times> bool \<times> cq_env) res" where
  "resp_take e m r srq env =
     (let n = unat (ld_be32 (e + 44) m)
      in bind_res (scatter_at e m) (\<lambda>sc.
           case srq of
             Some k \<Rightarrow>
               let i = unat (ld_be16 (e + 60) m)
               in bind_res (srq_take k i m env) (\<lambda>(w, env1).
                    case sc of
                      None \<Rightarrow> Inr (IBV_WC_SUCCESS, w, False, env1)
                    | Some p \<Rightarrow>
                        (case mlx5_copy_to_recv_srq (tm_base (hp_srq env1 k)) i (load_bytes p n m) (hp_um env1) of
                           (err, um) \<Rightarrow> Inr (err, w, False, env1\<lparr>hp_um := um\<rparr>)))
           | None \<Rightarrow>
               (case r of
                  None \<Rightarrow> Inl Segfault
                | Some x \<Rightarrow>
                    if rsc_type x = MLX5_RSC_TYPE_QP then
                      let q = rsc_obj x; qp = hp_qp env q; i = unat (wq_tail (rq qp) AND (wqe_cnt (rq qp) - 1));
                          csum = (qp_cap_cache qp AND MLX5_RX_CSUM_VALID \<noteq> 0)
                      in (case rq_take (rq qp) of (w, wq1) \<Rightarrow>
                            let env1 = env\<lparr>hp_qp := (hp_qp env)(q := qp\<lparr>rq := wq1\<rparr>)\<rparr>
                            in case sc of
                                 None \<Rightarrow> Inr (IBV_WC_SUCCESS, w, csum, env1)
                               | Some p \<Rightarrow>
                                   (case mlx5_copy_to_recv_wqe (null_mkey env) (hp_qp env1 q) i (load_bytes p n m) (hp_um env1) of
                                      (err, um) \<Rightarrow> Inr (err, w, csum, env1\<lparr>hp_um := um\<rparr>)))
                    else if rsc_type x = MLX5_RSC_TYPE_RWQ then
                      (case rq_take (hp_rwq env (rsc_obj x)) of (w, wq1) \<Rightarrow>
                         if sc = None then Inr (IBV_WC_SUCCESS, w, False, env\<lparr>hp_rwq := (hp_rwq env)(rsc_obj x := wq1)\<rparr>)
                         else Inl Undefined)
                    else Inl Undefined)))"

definition handle_responder_lazy ::
    "nat \<Rightarrow> mlx5_resource option \<Rightarrow> nat option \<Rightarrow> mlx5_cq \<times> cq_env \<Rightarrow> (nat \<times> mlx5_cq \<times> cq_env) res" where
  "handle_responder_lazy e r srq st =
     (case st of (cq, env) \<Rightarrow>
        bind_res (resp_take e (cq_buf cq) r srq env) (\<lambda>(err, w, csum, env1).
          Inr (err, cq\<lparr>lz := (lz cq)\<lparr>cq_wr_id := w\<rparr>,
                       cq_flags := (if csum then cq_flags cq OR MLX5_CQ_FLAGS_RX_CSUM_VALID else cq_flags cq)\<rparr>, env1)))"

definition wc_grh :: "nat \<Rightarrow> mem \<Rightarrow> u32" where
  "wc_grh e m = (if drop_bit 28 (ld_be32 (e + 24) m) AND 3 \<noteq> 0 then IBV_WC_GRH else 0)"

text \<open>The fields of a message that arrived well.\<close>

definition resp_fields :: "nat \<Rightarrow> mem \<Rightarrow> ibv_wc \<Rightarrow> ibv_wc" where
  "resp_fields e m wc =
     (let imm = ld_be32 (e + 36) m; rqpn = ld_be32 (e + 24) m; op = drop_bit 4 (op_own_at e m);
          wc1 = (if op = MLX5_CQE_RESP_WR_IMM
                 then wc\<lparr>wc_opcode := IBV_WC_RECV_RDMA_WITH_IMM, wc_flags := wc_flags wc OR IBV_WC_WITH_IMM, wc_imm := ImmData imm\<rparr>
                 else if op = MLX5_CQE_RESP_SEND then wc\<lparr>wc_opcode := IBV_WC_RECV\<rparr>
                 else if op = MLX5_CQE_RESP_SEND_IMM
                 then wc\<lparr>wc_opcode := IBV_WC_RECV, wc_flags := wc_flags wc OR IBV_WC_WITH_IMM, wc_imm := ImmData imm\<rparr>
                 else if op = MLX5_CQE_RESP_SEND_INV
                 then wc\<lparr>wc_opcode := IBV_WC_RECV, wc_flags := wc_flags wc OR IBV_WC_WITH_INV, wc_imm := InvRkey imm\<rparr>
                 else wc)
      in wc1\<lparr>wc_slid := ld_be16 (e + 22) m, wc_sl := ucast (drop_bit 24 rqpn AND 0xf), wc_src_qp := rqpn AND 0xffffff,
             wc_dlid_path_bits := m (e + 17) AND 0x7f, wc_flags := wc_flags wc1 OR wc_grh e m, wc_pkey_index := ucast (imm AND 0xffff)\<rparr>)"

definition handle_responder ::
    "nat \<Rightarrow> mem \<Rightarrow> mlx5_resource option \<Rightarrow> nat option \<Rightarrow> ibv_wc \<times> cq_env \<Rightarrow> (nat \<times> ibv_wc \<times> cq_env) res" where
  "handle_responder e m r srq st =
     (case st of (wc, env) \<Rightarrow>
        bind_res (resp_take e m r srq env) (\<lambda>(err, w, csum, env1).
          let wc1 = wc\<lparr>wc_byte_len := ld_be32 (e + 44) m, wc_wr_id := w,
                       wc_flags := (if csum then wc_flags wc OR get_csum_ok e m else wc_flags wc)\<rparr>
          in Inr (if err \<noteq> 0 then (err, wc1, env1) else (IBV_WC_SUCCESS, resp_fields e m wc1, env1))))"

subsection \<open>The kinds of entries\<close>

text \<open>
  Whether \<open>handle_tag_matching\<close> copies data from the 64 bytes before the entry.  For the first entry of a
  buffer whose entries have 64 bytes they are outside of the buffer.
\<close>

definition tm_reads_before :: "tm_cqe \<Rightarrow> tm_srq \<Rightarrow> bool" where
  "tm_reads_before c s \<longleftrightarrow>
     (let t = tm_list s (unat (app_info c))
      in op_own c AND MLX5_INLINE_SCATTER_64 \<noteq> 0 \<and>
         (if consume_op (app_op c) then expect_cqe t \<noteq> 0 \<and> byte_cnt c \<le> tg_size t
          else (app_op c = TM_UNEXPECTED \<or> app_op c = TM_NO_TAG) \<and> op_own c AND MLX5_INLINE_SCATTER_32 = 0))"

definition parse_tm :: "nat \<Rightarrow> nat \<Rightarrow> poll_st \<Rightarrow> (int \<times> poll_st) res" where
  "parse_tm e k ps =
     (let cq = ps_cq ps; env = ps_env ps; c = tm_cqe_of e (cq_buf cq)
      in if e < 64 \<and> tm_reads_before c (hp_srq env k) then Inl OutOfBounds
         else bind_res (handle_tag_matching c (lz cq) (hp_srq env k, hp_um env)) (\<lambda>(err, l, t, um).
                Inr (if err = 0 then CQ_OK else CQ_POLL_ERR,
                     ps\<lparr>ps_cq := cq\<lparr>lz := l\<rparr>, ps_env := env\<lparr>hp_srq := (hp_srq env)(k := t), hp_um := um\<rparr>\<rparr>)))"

definition parse_resp :: "bool \<Rightarrow> bool \<Rightarrow> nat \<Rightarrow> poll_st \<Rightarrow> (int \<times> poll_st) res" where
  "parse_resp lazy ver e ps =
     (let m = cq_buf (ps_cq ps); env = ps_env ps
      in bind_res (get_cur_rsc env ver (cqe_qpn e m) (cqe_uidx e m) (ps_rsc ps, ps_srq ps)) (\<lambda>(err, r, s, is_srq).
           let ps1 = ps\<lparr>ps_rsc := r, ps_srq := s\<rparr>; srq = (if is_srq then s else None)
           in if err \<noteq> CQ_OK then Inr (CQ_POLL_ERR, ps1)
              else if lazy then
                if m (e + 40) \<noteq> MLX5_CQE_APP_TAG_MATCHING
                then bind_res (handle_responder_lazy e r srq (ps_cq ps, env)) (\<lambda>(st, cq1, env1).
                       Inr (CQ_OK, ps1\<lparr>ps_cq := cq1\<lparr>lz := (lz cq1)\<lparr>cq_status := st\<rparr>\<rparr>, ps_env := env1\<rparr>))
                else (case srq of None \<Rightarrow> Inr (CQ_POLL_ERR, ps1) | Some k \<Rightarrow> parse_tm e k ps1)
              else bind_res (handle_responder e m r srq (ps_wc ps, env)) (\<lambda>(st, wc1, env1).
                     Inr (CQ_OK, ps1\<lparr>ps_wc := wc1\<lparr>wc_status := st\<rparr>, ps_env := env1\<rparr>))))"

definition parse_no_packet :: "bool \<Rightarrow> nat \<Rightarrow> poll_st \<Rightarrow> (int \<times> poll_st) res" where
  "parse_no_packet ver e ps =
     (let m = cq_buf (ps_cq ps); env = ps_env ps
      in if m (e + 40) \<noteq> MLX5_CQE_APP_TAG_MATCHING then Inr (CQ_POLL_ERR, ps)
         else bind_res (get_cur_rsc env ver (cqe_qpn e m) (cqe_uidx e m) (ps_rsc ps, ps_srq ps)) (\<lambda>(err, r, s, is_srq).
                let ps1 = ps\<lparr>ps_rsc := r, ps_srq := s\<rparr>
                in if err \<noteq> CQ_OK \<or> \<not> is_srq then Inr (CQ_POLL_ERR, ps1)
                   else case s of None \<Rightarrow> Inl Segfault | Some k \<Rightarrow> parse_tm e k ps1))"

text \<open>\<open>None\<close> when there is no such key; a key without a signature context is a null pointer.\<close>

definition parse_sig_err :: "nat \<Rightarrow> poll_st \<Rightarrow> poll_st option res" where
  "parse_sig_err e ps =
     (let m = cq_buf (ps_cq ps); env = ps_env ps
      in bind_res (mlx5_find_mkey (mkey_table env) (drop_bit 8 (ld_be32 (e + 36) m))) (\<lambda>k.
           case k of
             None \<Rightarrow> Inr None
           | Some i \<Rightarrow>
               (case hp_sig env i of
                  None \<Rightarrow> Inl Segfault
                | Some sg \<Rightarrow>
                    Inr (Some (ps\<lparr>ps_env := env\<lparr>hp_sig := (hp_sig env)(i \<mapsto> sg\<lparr>sig_err_exists := True,
                      sig_err_count := sig_err_count sg + 1, sig_err_count_updated := True,
                      sig_err_info := get_sig_err_info e m\<rparr>)\<rparr>\<rparr>)))))"

definition set_wr_id :: "bool \<Rightarrow> u64 \<Rightarrow> poll_st \<Rightarrow> poll_st" where
  "set_wr_id lazy w ps =
     (if lazy then ps\<lparr>ps_cq := (ps_cq ps)\<lparr>lz := (lz (ps_cq ps))\<lparr>cq_wr_id := w\<rparr>\<rparr>\<rparr>
      else ps\<lparr>ps_wc := (ps_wc ps)\<lparr>wc_wr_id := w\<rparr>\<rparr>)"

definition err_status :: "bool \<Rightarrow> nat \<Rightarrow> poll_st \<Rightarrow> poll_st" where
  "err_status lazy e ps =
     (let m = cq_buf (ps_cq ps); st = mlx5_handle_error_cqe (m (e + 55))
      in if lazy then ps\<lparr>ps_cq := (ps_cq ps)\<lparr>lz := (lz (ps_cq ps))\<lparr>cq_status := st\<rparr>\<rparr>\<rparr>
         else ps\<lparr>ps_wc := (ps_wc ps)\<lparr>wc_status := st, vendor_err := ucast (m (e + 54))\<rparr>\<rparr>)"

definition parse_req_err :: "bool \<Rightarrow> bool \<Rightarrow> nat \<Rightarrow> poll_st \<Rightarrow> (int \<times> poll_st) res" where
  "parse_req_err lazy ver e ps =
     (let m = cq_buf (ps_cq ps); env = ps_env ps
      in bind_res (get_req_context env ver (if ver then cqe_uidx e m else cqe_qpn e m) (ps_rsc ps)) (\<lambda>(r, q).
           let ps1 = ps\<lparr>ps_rsc := r\<rparr>
           in case q of
                None \<Rightarrow> Inr (CQ_POLL_ERR, ps1)
              | Some i \<Rightarrow>
                  let wq = sq (hp_qp env i); idx = unat (ucast (ld_be16 (e + 60) m) AND (wqe_cnt wq - 1))
                  in Inr (CQ_OK, (set_wr_id lazy (wrid wq idx) ps1)\<lparr>ps_env := set_sq_tail i idx env\<rparr>)))"

text \<open>The flag of the result tells that the entry was handled here, a page fault of the adapter, and the next is to be taken.\<close>

definition parse_resp_err :: "bool \<Rightarrow> bool \<Rightarrow> nat \<Rightarrow> poll_st \<Rightarrow> (bool \<times> int \<times> poll_st) res" where
  "parse_resp_err lazy ver e ps =
     (let m = cq_buf (ps_cq ps); env = ps_env ps; i = unat (ld_be16 (e + 60) m)
      in bind_res (get_cur_rsc env ver (cqe_qpn e m) (cqe_uidx e m) (ps_rsc ps, ps_srq ps)) (\<lambda>(err, r, s, is_srq).
           let ps1 = ps\<lparr>ps_rsc := r, ps_srq := s\<rparr>
           in if err \<noteq> CQ_OK then Inr (False, CQ_POLL_ERR, ps1)
              else if is_srq then
                (case s of
                   None \<Rightarrow> Inl Segfault
                 | Some k \<Rightarrow>
                     if is_odp_pfault_err e m
                     then bind_res (mlx5_complete_odp_fault i (tm_base (hp_srq env k))) (\<lambda>b.
                            Inr (True, CQ_OK, ps1\<lparr>ps_env := env\<lparr>hp_srq := (hp_srq env)(k := (hp_srq env k)\<lparr>tm_base := b\<rparr>)\<rparr>\<rparr>))
                     else bind_res (srq_take k i m env) (\<lambda>(w, env1). Inr (False, CQ_OK, (set_wr_id lazy w ps1)\<lparr>ps_env := env1\<rparr>)))
              else
                (case r of
                   None \<Rightarrow> Inl Segfault
                 | Some x \<Rightarrow>
                     if rsc_type x = MLX5_RSC_TYPE_RWQ
                     then (case rq_take (hp_rwq env (rsc_obj x)) of (w, wq1) \<Rightarrow>
                             Inr (False, CQ_OK, (set_wr_id lazy w ps1)\<lparr>ps_env := env\<lparr>hp_rwq := (hp_rwq env)(rsc_obj x := wq1)\<rparr>\<rparr>))
                     else if rsc_type x = MLX5_RSC_TYPE_QP
                     then (case rq_take (rq (hp_qp env (rsc_obj x))) of (w, wq1) \<Rightarrow>
                             Inr (False, CQ_OK, (set_wr_id lazy w ps1)
                               \<lparr>ps_env := env\<lparr>hp_qp := (hp_qp env)(rsc_obj x := (hp_qp env (rsc_obj x))\<lparr>rq := wq1\<rparr>)\<rparr>\<rparr>))
                     else Inl Undefined)))"

subsection \<open>Parsing\<close>

text \<open>
  \<open>MLX5_CQ_LAZY_FLAGS\<close> are the checksum flag, the flag for raw requests, and \<open>MLX5_CQ_FLAGS_TM_SYNC_REQ\<close>.
  For \<open>lazy\<close> the completion is in the queue, otherwise in \<open>ps_wc\<close>.
\<close>

definition parse_start :: "bool \<Rightarrow> nat \<Rightarrow> poll_st \<Rightarrow> poll_st" where
  "parse_start lazy e ps =
     (let cq = ps_cq ps
      in if lazy
         then ps\<lparr>ps_cq := cq\<lparr>cq_cqe64 := e,
                   cq_flags := cq_flags cq AND NOT (MLX5_CQ_FLAGS_RX_CSUM_VALID OR MLX5_CQ_FLAGS_RAW_WQE),
                   lz := (lz cq)\<lparr>tm_sync_req := False\<rparr>\<rparr>\<rparr>
         else ps\<lparr>ps_wc := (ps_wc ps)\<lparr>wc_flags := 0, wc_qp_num := cqe_qpn e (cq_buf cq)\<rparr>\<rparr>)"

definition freezes :: "bool \<Rightarrow> nat \<Rightarrow> mem \<Rightarrow> bool" where
  "freezes freeze e m \<longleftrightarrow> freeze \<and> m (e + 55) \<noteq> 0x05 \<and> m (e + 55) \<noteq> 0x15 \<and> \<not> is_odp_pfault_err e m"

text \<open>
  One pass through the switch: the result, or the state from which the next entry is taken.  \<open>freeze\<close> is
  \<open>mlx5_freeze_on_error_cqe\<close>, with which the library stops for ever at an error.
\<close>

definition parse_one :: "bool \<Rightarrow> bool \<Rightarrow> bool \<Rightarrow> nat \<Rightarrow> nat \<Rightarrow> poll_st \<Rightarrow> (bool \<times> int \<times> poll_st) res" where
  "parse_one freeze lazy ver e cqe ps =
     (let ps0 = parse_start lazy e ps; m = cq_buf (ps_cq ps); op = mlx5dv_get_cqe_opcode e m;
          fin = (\<lambda>r. bind_res r (\<lambda>(err, ps'). Inr (False, err, ps')))
      in if op = MLX5_CQE_REQ then fin (parse_req lazy ver e cqe ps0)
         else if op = MLX5_CQE_RESP_WR_IMM \<or> op = MLX5_CQE_RESP_SEND \<or> op = MLX5_CQE_RESP_SEND_IMM \<or> op = MLX5_CQE_RESP_SEND_INV
         then fin (parse_resp lazy ver e ps0)
         else if op = MLX5_CQE_NO_PACKET then fin (parse_no_packet ver e ps0)
         else if op = MLX5_CQE_SIG_ERR then
           bind_res (parse_sig_err e ps0) (\<lambda>r. case r of None \<Rightarrow> Inr (False, CQ_POLL_ERR, ps0) | Some ps1 \<Rightarrow> Inr (True, CQ_OK, ps1))
         else if op = MLX5_CQE_REQ_ERR \<or> op = MLX5_CQE_RESP_ERR then
           let ps1 = err_status lazy e ps0
           in if freezes freeze e m then Inl Diverges
              else if op = MLX5_CQE_REQ_ERR then fin (parse_req_err lazy ver e ps1)
              else parse_resp_err lazy ver e ps1
         else Inr (False, CQ_OK, ps0))"

fun parse_loop :: "nat \<Rightarrow> bool \<Rightarrow> bool \<Rightarrow> bool \<Rightarrow> nat \<Rightarrow> nat \<Rightarrow> poll_st \<Rightarrow> (int \<times> poll_st) res" where
  "parse_loop 0 freeze lazy ver e cqe ps = Inl Diverges"
| "parse_loop (Suc n) freeze lazy ver e cqe ps =
     bind_res (parse_one freeze lazy ver e cqe ps) (\<lambda>(again, err, ps1).
       if \<not> again then Inr (err, ps1)
       else case mlx5_get_next_cqe (ps_cq ps1) of
              None \<Rightarrow> Inr (CQ_POLL_NODATA, ps1)
            | Some (e', cqe', cq') \<Rightarrow> parse_loop n freeze lazy ver e' cqe' (ps1\<lparr>ps_cq := cq'\<rparr>))"

text \<open>An entry of the ring is taken at most once, so the number of entries and one is enough.\<close>

definition mlx5_parse_cqe :: "bool \<Rightarrow> bool \<Rightarrow> bool \<Rightarrow> nat \<Rightarrow> nat \<Rightarrow> poll_st \<Rightarrow> (int \<times> poll_st) res" where
  "mlx5_parse_cqe freeze lazy ver e cqe ps = parse_loop (unat (cq_cqe (ps_cq ps)) + 2) freeze lazy ver e cqe ps"

subsection \<open>The classic interface\<close>

text \<open>The steps and bounds of the adaptive stall, and the cycle counter at the end of a poll.\<close>

record stall_cfg =
  stall_dec_step :: int
  stall_inc_step :: int
  stall_poll_min :: int
  stall_poll_max :: int
  stall_now :: u64

definition stall_less :: "stall_cfg \<Rightarrow> mlx5_cq \<Rightarrow> mlx5_cq" where
  "stall_less cfg cq = cq\<lparr>stall_cycles := max (stall_cycles cq - stall_dec_step cfg) (stall_poll_min cfg)\<rparr>"

definition stall_more :: "stall_cfg \<Rightarrow> mlx5_cq \<Rightarrow> mlx5_cq" where
  "stall_more cfg cq = cq\<lparr>stall_cycles := min (stall_cycles cq + stall_inc_step cfg) (stall_poll_max cfg)\<rparr>"

text \<open>A completion of zeros, where no element of the array is selected yet.\<close>

definition zero_wc :: ibv_wc where
  "zero_wc = \<lparr>wc_wr_id = 0, wc_status = 0, wc_opcode = 0, vendor_err = 0, wc_byte_len = 0, wc_imm = ImmData 0, wc_qp_num = 0,
     wc_src_qp = 0, wc_flags = 0, wc_pkey_index = 0, wc_slid = 0, wc_sl = 0, wc_dlid_path_bits = 0\<rparr>"

definition mlx5_poll_one :: "bool \<Rightarrow> bool \<Rightarrow> poll_st \<Rightarrow> (int \<times> poll_st) res" where
  "mlx5_poll_one freeze ver ps =
     (case mlx5_get_next_cqe (ps_cq ps) of
        None \<Rightarrow> Inr (CQ_EMPTY, ps)
      | Some (e, cqe, cq1) \<Rightarrow> mlx5_parse_cqe freeze False ver e cqe (ps\<lparr>ps_cq := cq1\<rparr>))"

text \<open>
  The loop with \<open>n\<close> rounds left over the rest of the array: the error, the number of completions, the
  array, and the state.
\<close>

fun poll_loop :: "nat \<Rightarrow> bool \<Rightarrow> bool \<Rightarrow> ibv_wc list \<Rightarrow> poll_st \<Rightarrow> (int \<times> nat \<times> ibv_wc list \<times> poll_st) res" where
  "poll_loop 0 freeze ver wcs ps = Inr (CQ_OK, 0, wcs, ps)"
| "poll_loop (Suc n) freeze ver [] ps =
     (if mlx5_get_next_cqe (ps_cq ps) = None then Inr (CQ_EMPTY, 0, [], ps) else Inl OutOfBounds)"
| "poll_loop (Suc n) freeze ver (wc # wcs) ps =
     bind_res (mlx5_poll_one freeze ver (ps\<lparr>ps_wc := wc\<rparr>)) (\<lambda>(err, ps1).
       if err \<noteq> CQ_OK then Inr (err, 0, ps_wc ps1 # wcs, ps1)
       else bind_res (poll_loop n freeze ver wcs ps1) (\<lambda>(err', k, wcs', ps2). Inr (err', Suc k, ps_wc ps1 # wcs', ps2)))"

definition stall_before :: "mlx5_cq \<Rightarrow> mlx5_cq" where
  "stall_before cq =
     (if stall_enable cq \<and> \<not> stall_adaptive_enable cq \<and> stall_next_poll cq then cq\<lparr>stall_next_poll := False\<rparr> else cq)"

definition stall_after :: "stall_cfg \<Rightarrow> int \<Rightarrow> int \<Rightarrow> int \<Rightarrow> mlx5_cq \<Rightarrow> mlx5_cq" where
  "stall_after cfg ne err npolled cq =
     (if \<not> stall_enable cq then cq
      else if stall_adaptive_enable cq then
        if npolled = 0 then (stall_less cfg cq)\<lparr>stall_last_count := stall_now cfg\<rparr>
        else if npolled < ne then (stall_more cfg cq)\<lparr>stall_last_count := stall_now cfg\<rparr>
        else (stall_less cfg cq)\<lparr>stall_last_count := 0\<rparr>
      else if err = CQ_EMPTY then cq\<lparr>stall_next_poll := True\<rparr>
      else cq)"

definition poll_cq ::
    "stall_cfg \<Rightarrow> bool \<Rightarrow> bool \<Rightarrow> int \<Rightarrow> ibv_wc list \<Rightarrow> mlx5_cq \<times> cq_env \<Rightarrow> (int \<times> ibv_wc list \<times> mlx5_cq \<times> cq_env) res" where
  "poll_cq cfg freeze ver ne wcs st =
     (case st of (cq, env) \<Rightarrow>
        bind_res (poll_loop (nat ne) freeze ver wcs
            \<lparr>ps_cq = stall_before cq, ps_env = env, ps_wc = zero_wc, ps_rsc = None, ps_srq = None\<rparr>) (\<lambda>(err, n, wcs', ps).
          Inr (if err = CQ_POLL_ERR then err else int n, wcs',
               stall_after cfg ne err (int n) (update_cons_index (ps_cq ps)), ps_env ps)))"

definition mlx5_poll_cq ::
    "stall_cfg \<Rightarrow> bool \<Rightarrow> int \<Rightarrow> ibv_wc list \<Rightarrow> mlx5_cq \<times> cq_env \<Rightarrow> (int \<times> ibv_wc list \<times> mlx5_cq \<times> cq_env) res" where
  "mlx5_poll_cq cfg freeze ne wcs st = poll_cq cfg freeze False ne wcs st"

definition mlx5_poll_cq_v1 ::
    "stall_cfg \<Rightarrow> bool \<Rightarrow> int \<Rightarrow> ibv_wc list \<Rightarrow> mlx5_cq \<times> cq_env \<Rightarrow> (int \<times> ibv_wc list \<times> mlx5_cq \<times> cq_env) res" where
  "mlx5_poll_cq_v1 cfg freeze ne wcs st = poll_cq cfg freeze True ne wcs st"

end
