(* ===== verification/Cq_Ex.thy ===== *)
theory Cq_Ex
  imports Cq_Poll
begin

text \<open>
  The extended interface of a completion queue, from \<open>providers/mlx5/cq.c\<close>: \<open>start_poll\<close>, \<open>next_poll\<close> and
  \<open>end_poll\<close> in all their variants, the functions that read single fields of the current entry, the choice of
  the variants in \<open>mlx5_cq_fill_pfns\<close>, and the conversion of a time stamp in \<open>mlx5dv.h\<close>.
\<close>

subsection \<open>The lock\<close>

text \<open>\<open>held\<close> tells whether the lock is taken: taking it again never ends, or aborts when the lock only detects misuse.\<close>

definition mlx5_spin_lock :: "bool \<Rightarrow> bool \<Rightarrow> bool res" where
  "mlx5_spin_lock need_lock held = (if held then Inl (if need_lock then Diverges else Exited) else Inr True)"

definition mlx5_spin_unlock :: "bool \<Rightarrow> bool" where
  "mlx5_spin_unlock held = False"

subsection \<open>Polling\<close>

datatype polling_mode = POLLING_MODE_NO_STALL | POLLING_MODE_STALL | POLLING_MODE_STALL_ADAPTIVE

record mlx5dv_clock_info =
  ci_nsec :: u64
  ci_last_cycles :: u64
  ci_frac :: u64
  ci_mult :: u32
  ci_shift :: nat
  ci_mask :: u64

text \<open>
  The state: the lock, the queue, the rest of the context, and the clock of the last poll.  \<open>need_lock\<close> is of the
  lock of the queue, and \<open>clk\<close> is what \<open>mlx5dv_get_clock_info\<close> gives: an error, or the clock.
\<close>

record ex_st =
  ex_held :: bool
  ex_cq :: mlx5_cq
  ex_env :: cq_env
  last_clock_info :: mlx5dv_clock_info

definition mlx5_parse_lazy_cqe :: "bool \<Rightarrow> bool \<Rightarrow> nat \<Rightarrow> nat \<Rightarrow> mlx5_cq \<times> cq_env \<Rightarrow> (int \<times> mlx5_cq \<times> cq_env) res" where
  "mlx5_parse_lazy_cqe freeze ver e cqe st =
     (case st of (cq, env) \<Rightarrow>
        bind_res (mlx5_parse_cqe freeze True ver e cqe
            \<lparr>ps_cq = cq, ps_env = env, ps_wc = zero_wc, ps_rsc = cur_rsc cq, ps_srq = cur_srq cq\<rparr>) (\<lambda>(err, ps).
          Inr (err, (ps_cq ps)\<lparr>cur_rsc := ps_rsc ps, cur_srq := ps_srq ps\<rparr>, ps_env ps)))"

definition start_stall :: "polling_mode \<Rightarrow> mlx5_cq \<Rightarrow> mlx5_cq" where
  "start_stall stall cq = (if stall = POLLING_MODE_STALL \<and> stall_next_poll cq then cq\<lparr>stall_next_poll := False\<rparr> else cq)"

definition start_empty :: "stall_cfg \<Rightarrow> polling_mode \<Rightarrow> mlx5_cq \<Rightarrow> mlx5_cq" where
  "start_empty cfg stall cq =
     (case stall of
        POLLING_MODE_NO_STALL \<Rightarrow> cq
      | POLLING_MODE_STALL \<Rightarrow> cq\<lparr>stall_next_poll := True\<rparr>
      | POLLING_MODE_STALL_ADAPTIVE \<Rightarrow> (stall_less cfg cq)\<lparr>stall_last_count := stall_now cfg\<rparr>)"

definition start_failed :: "stall_cfg \<Rightarrow> polling_mode \<Rightarrow> mlx5_cq \<Rightarrow> mlx5_cq" where
  "start_failed cfg stall cq =
     (let cq1 = (if stall = POLLING_MODE_STALL_ADAPTIVE then (stall_less cfg cq)\<lparr>stall_last_count := 0\<rparr> else cq)
      in cq1\<lparr>cq_flags := cq_flags cq1 AND NOT MLX5_CQ_FLAGS_FOUND_CQES\<rparr>)"

definition mlx5_start_poll ::
    "stall_cfg \<Rightarrow> bool \<Rightarrow> bool \<Rightarrow> int + mlx5dv_clock_info \<Rightarrow> bool \<Rightarrow> polling_mode \<Rightarrow> bool \<Rightarrow> bool \<Rightarrow> u32 \<Rightarrow> ex_st \<Rightarrow> (int \<times> ex_st) res" where
  "mlx5_start_poll cfg freeze need_lock clk lock stall ver clock_update comp_mask st =
     (if comp_mask \<noteq> 0 then Inr (int EINVAL, st)
      else
        let cq0 = start_stall stall (ex_cq st)
        in bind_res (if lock then mlx5_spin_lock need_lock (ex_held st) else Inr (ex_held st)) (\<lambda>held.
             let cq1 = cq0\<lparr>cur_rsc := None, cur_srq := None\<rparr>
             in case mlx5_get_next_cqe cq1 of
                  None \<Rightarrow>
                    Inr (ENOENT, st\<lparr>ex_held := (if lock then mlx5_spin_unlock held else held), ex_cq := start_empty cfg stall cq1\<rparr>)
                | Some (e, cqe, cq2) \<Rightarrow>
                    let cq3 = (if stall \<noteq> POLLING_MODE_NO_STALL then cq2\<lparr>cq_flags := cq_flags cq2 OR MLX5_CQ_FLAGS_FOUND_CQES\<rparr> else cq2)
                    in bind_res (mlx5_parse_lazy_cqe freeze ver e cqe (cq3, ex_env st)) (\<lambda>(err, cq4, env).
                         let st1 = st\<lparr>ex_held := (if lock \<and> err \<noteq> 0 then mlx5_spin_unlock held else held), ex_cq := cq4, ex_env := env\<rparr>
                         in if stall \<noteq> POLLING_MODE_NO_STALL \<and> err = CQ_POLL_ERR
                            then Inr (err, st1\<lparr>ex_cq := start_failed cfg stall cq4\<rparr>)
                            else if clock_update \<and> err = 0
                            then (case clk of Inl x \<Rightarrow> Inr (x, st1) | Inr ci \<Rightarrow> Inr (0, st1\<lparr>last_clock_info := ci\<rparr>))
                            else Inr (err, st1))))"

definition mlx5_next_poll :: "bool \<Rightarrow> polling_mode \<Rightarrow> bool \<Rightarrow> ex_st \<Rightarrow> (int \<times> ex_st) res" where
  "mlx5_next_poll freeze stall ver st =
     (let cq = ex_cq st
      in case mlx5_get_next_cqe cq of
           None \<Rightarrow>
             Inr (ENOENT, st\<lparr>ex_cq := (if stall = POLLING_MODE_STALL_ADAPTIVE
                                        then cq\<lparr>cq_flags := cq_flags cq OR MLX5_CQ_FLAGS_EMPTY_DURING_POLL\<rparr> else cq)\<rparr>)
         | Some (e, cqe, cq1) \<Rightarrow>
             bind_res (mlx5_parse_lazy_cqe freeze ver e cqe (cq1, ex_env st)) (\<lambda>(err, cq2, env).
               Inr (err, st\<lparr>ex_cq := cq2, ex_env := env\<rparr>)))"

definition end_stall :: "stall_cfg \<Rightarrow> polling_mode \<Rightarrow> mlx5_cq \<Rightarrow> mlx5_cq" where
  "end_stall cfg stall cq =
     (let found = (cq_flags cq AND MLX5_CQ_FLAGS_FOUND_CQES \<noteq> 0);
          cq1 = (if stall = POLLING_MODE_STALL_ADAPTIVE then
                   if \<not> found then (stall_less cfg cq)\<lparr>stall_last_count := stall_now cfg\<rparr>
                   else if cq_flags cq AND MLX5_CQ_FLAGS_EMPTY_DURING_POLL \<noteq> 0 then (stall_more cfg cq)\<lparr>stall_last_count := stall_now cfg\<rparr>
                   else (stall_less cfg cq)\<lparr>stall_last_count := 0\<rparr>
                 else if \<not> found then cq\<lparr>stall_next_poll := True\<rparr>
                 else cq)
      in if stall = POLLING_MODE_NO_STALL then cq
         else cq1\<lparr>cq_flags := cq_flags cq1 AND NOT (MLX5_CQ_FLAGS_FOUND_CQES OR MLX5_CQ_FLAGS_EMPTY_DURING_POLL)\<rparr>)"

definition mlx5_end_poll :: "stall_cfg \<Rightarrow> bool \<Rightarrow> polling_mode \<Rightarrow> ex_st \<Rightarrow> ex_st" where
  "mlx5_end_poll cfg lock stall st =
     st\<lparr>ex_held := (if lock then mlx5_spin_unlock (ex_held st) else ex_held st),
        ex_cq := end_stall cfg stall (update_cons_index (ex_cq st))\<rparr>"

subsection \<open>The fields of the current entry\<close>

definition mlx5_cq_read_wc_opcode :: "mlx5_cq \<Rightarrow> u32" where
  "mlx5_cq_read_wc_opcode cq =
     (let e = cq_cqe64 cq; m = cq_buf cq; op = mlx5dv_get_cqe_opcode e m; ap = m (e + 41); sop = cqe_sop e m
      in if op = MLX5_CQE_RESP_WR_IMM then IBV_WC_RECV_RDMA_WITH_IMM
         else if op = MLX5_CQE_RESP_SEND \<or> op = MLX5_CQE_RESP_SEND_IMM \<or> op = MLX5_CQE_RESP_SEND_INV then
           if m (e + 40) = MLX5_CQE_APP_TAG_MATCHING then
             if ap = TM_CONSUMED_MSG_SW_RDNV \<or> ap = TM_CONSUMED_MSG \<or> ap = TM_CONSUMED_SW_RDNV \<or> ap = TM_EXPECTED \<or> ap = TM_UNEXPECTED
             then IBV_WC_TM_RECV
             else if ap = TM_NO_TAG then IBV_WC_TM_NO_TAG
             else IBV_WC_RECV
           else IBV_WC_RECV
         else if op = MLX5_CQE_NO_PACKET then
           if ap = TM_REMOVE then IBV_WC_TM_DEL
           else if ap = TM_APPEND then IBV_WC_TM_ADD
           else if ap = TM_NOOP then IBV_WC_TM_SYNC
           else if ap = TM_CONSUMED then IBV_WC_TM_RECV
           else 0
         else if op = MLX5_CQE_REQ then
           if cq_flags cq AND MLX5_CQ_FLAGS_RAW_WQE \<noteq> 0 then IBV_WC_DRIVER2
           else if sop = MLX5_OPCODE_RDMA_WRITE_IMM \<or> sop = MLX5_OPCODE_RDMA_WRITE then IBV_WC_RDMA_WRITE
           else if sop = MLX5_OPCODE_SEND_IMM \<or> sop = MLX5_OPCODE_SEND \<or> sop = MLX5_OPCODE_SEND_INVAL then IBV_WC_SEND
           else if sop = MLX5_OPCODE_RDMA_READ then IBV_WC_RDMA_READ
           else if sop = MLX5_OPCODE_ATOMIC_CS then IBV_WC_COMP_SWAP
           else if sop = MLX5_OPCODE_ATOMIC_FA then IBV_WC_FETCH_ADD
           else if sop = MLX5_OPCODE_UMR \<or> sop = MLX5_OPCODE_SET_PSV \<or> sop = MLX5_OPCODE_NOP \<or> sop = MLX5_OPCODE_MMO then cached_opcode cq
           else if sop = MLX5_OPCODE_TSO then IBV_WC_TSO
           else 0
         else 0)"

definition mlx5_cq_read_wc_qp_num :: "mlx5_cq \<Rightarrow> u32" where
  "mlx5_cq_read_wc_qp_num cq = ld_be32 (cq_cqe64 cq + 56) (cq_buf cq) AND 0xffffff"

definition mlx5_cq_read_wc_flags :: "mlx5_cq \<Rightarrow> u32" where
  "mlx5_cq_read_wc_flags cq =
     (let e = cq_cqe64 cq; m = cq_buf cq; op = mlx5dv_get_cqe_opcode e m; ap = m (e + 41);
          f0 = (if cq_flags cq AND MLX5_CQ_FLAGS_RX_CSUM_VALID \<noteq> 0 then get_csum_ok e m else 0);
          f1 = f0 OR (if op = MLX5_CQE_RESP_WR_IMM \<or> op = MLX5_CQE_RESP_SEND_IMM then IBV_WC_WITH_IMM
                      else if op = MLX5_CQE_RESP_SEND_INV then IBV_WC_WITH_INV else 0);
          f2 = f1 OR (if tm_sync_req (lz cq) then IBV_WC_TM_SYNC_REQ else 0);
          f3 = f2 OR (if m (e + 40) = MLX5_CQE_APP_TAG_MATCHING then
                        if ap = TM_CONSUMED_MSG_SW_RDNV \<or> ap = TM_CONSUMED_MSG \<or> ap = TM_MSG_COMPLETION_CANCELED
                        then IBV_WC_TM_MATCH OR IBV_WC_TM_DATA_VALID
                        else if ap = TM_CONSUMED_SW_RDNV \<or> ap = TM_CONSUMED then IBV_WC_TM_MATCH
                        else if ap = TM_EXPECTED then IBV_WC_TM_DATA_VALID
                        else 0
                      else 0)
      in f3 OR wc_grh e m)"

definition mlx5_cq_read_wc_byte_len :: "mlx5_cq \<Rightarrow> u32" where
  "mlx5_cq_read_wc_byte_len cq = ld_be32 (cq_cqe64 cq + 44) (cq_buf cq)"

definition mlx5_cq_read_wc_vendor_err :: "mlx5_cq \<Rightarrow> u32" where
  "mlx5_cq_read_wc_vendor_err cq = ucast (cq_buf cq (cq_cqe64 cq + 54))"

text \<open>The value is in the order of the host for \<open>InvRkey\<close>; \<open>ImmData\<close> is given as a number too.\<close>

definition mlx5_cq_read_wc_imm_data :: "mlx5_cq \<Rightarrow> imm_inv" where
  "mlx5_cq_read_wc_imm_data cq =
     (let e = cq_cqe64 cq; m = cq_buf cq; v = ld_be32 (e + 36) m
      in if mlx5dv_get_cqe_opcode e m = MLX5_CQE_RESP_SEND_INV then InvRkey v else ImmData v)"

definition mlx5_cq_read_wc_slid :: "mlx5_cq \<Rightarrow> u32" where
  "mlx5_cq_read_wc_slid cq = ucast (ld_be16 (cq_cqe64 cq + 22) (cq_buf cq))"

definition mlx5_cq_read_wc_sl :: "mlx5_cq \<Rightarrow> u8" where
  "mlx5_cq_read_wc_sl cq = ucast (drop_bit 24 (ld_be32 (cq_cqe64 cq + 24) (cq_buf cq)) AND 0xf)"

definition mlx5_cq_read_wc_src_qp :: "mlx5_cq \<Rightarrow> u32" where
  "mlx5_cq_read_wc_src_qp cq = ld_be32 (cq_cqe64 cq + 24) (cq_buf cq) AND 0xffffff"

definition mlx5_cq_read_wc_dlid_path_bits :: "mlx5_cq \<Rightarrow> u8" where
  "mlx5_cq_read_wc_dlid_path_bits cq = cq_buf cq (cq_cqe64 cq + 17) AND 0x7f"

definition mlx5_cq_read_wc_completion_ts :: "mlx5_cq \<Rightarrow> u64" where
  "mlx5_cq_read_wc_completion_ts cq = ld_be64 (cq_cqe64 cq + 48) (cq_buf cq)"

definition mlx5dv_ts_to_ns :: "mlx5dv_clock_info \<Rightarrow> u64 \<Rightarrow> u64" where
  "mlx5dv_ts_to_ns ci ts =
     (let delta = (ts - ci_last_cycles ci) AND ci_mask ci; back = (ci_last_cycles ci - ts) AND ci_mask ci
      in if ci_mask ci div 2 < delta
         then ci_nsec ci - drop_bit (ci_shift ci) (back * ucast (ci_mult ci) - ci_frac ci)
         else ci_nsec ci + drop_bit (ci_shift ci) (delta * ucast (ci_mult ci) + ci_frac ci))"

definition mlx5_cq_read_wc_completion_wallclock_ns :: "ex_st \<Rightarrow> u64" where
  "mlx5_cq_read_wc_completion_wallclock_ns st = mlx5dv_ts_to_ns (last_clock_info st) (mlx5_cq_read_wc_completion_ts (ex_cq st))"

definition mlx5_cq_read_wc_cvlan :: "mlx5_cq \<Rightarrow> u16" where
  "mlx5_cq_read_wc_cvlan cq = ld_be16 (cq_cqe64 cq + 30) (cq_buf cq)"

definition mlx5_cq_read_flow_tag :: "mlx5_cq \<Rightarrow> u32" where
  "mlx5_cq_read_flow_tag cq = ld_be32 (cq_cqe64 cq + 56) (cq_buf cq) AND 0xffffff"

record ibv_wc_tm_info =
  tmi_tag :: u64
  tmi_priv :: u32

definition mlx5_cq_read_wc_tm_info :: "mlx5_cq \<Rightarrow> ibv_wc_tm_info" where
  "mlx5_cq_read_wc_tm_info cq =
     \<lparr>tmi_tag = ld_be64 (cq_cqe64 cq + 8) (cq_buf cq), tmi_priv = ld_be32 (cq_cqe64 cq + 4) (cq_buf cq)\<rparr>"

subsection \<open>The clock page\<close>

text \<open>
  The kernel updates the page while it is read.  \<open>sign k\<close> and \<open>info k\<close> are its contents at the \<open>k\<close>-th access.
  The inner loop gives up after ten attempts that meet an update; the outer one reads the six fields and
  repeats when the signature has changed.
\<close>

abbreviation (input) MLX5_IB_CLOCK_INFO_KERNEL_UPDATING :: u32 where "MLX5_IB_CLOCK_INFO_KERNEL_UPDATING \<equiv> 1"
abbreviation (input) EBUSY :: int where "EBUSY \<equiv> 16"

fun clock_sign :: "nat \<Rightarrow> (nat \<Rightarrow> u32) \<Rightarrow> nat \<Rightarrow> (u32 \<times> nat) option" where
  "clock_sign 0 sign k = None"
| "clock_sign (Suc retry) sign k =
     (if sign k AND MLX5_IB_CLOCK_INFO_KERNEL_UPDATING \<noteq> 0 then clock_sign retry sign (k + 1) else Some (sign k, k + 1))"

definition clock_fields :: "(nat \<Rightarrow> mlx5dv_clock_info) \<Rightarrow> nat \<Rightarrow> mlx5dv_clock_info" where
  "clock_fields info k =
     \<lparr>ci_nsec = ci_nsec (info k), ci_last_cycles = ci_last_cycles (info (k + 1)), ci_frac = ci_frac (info (k + 2)),
      ci_mult = ci_mult (info (k + 3)), ci_shift = ci_shift (info (k + 4)), ci_mask = ci_mask (info (k + 5))\<rparr>"

partial_function (option) clock_loop :: "(nat \<Rightarrow> u32) \<Rightarrow> (nat \<Rightarrow> mlx5dv_clock_info) \<Rightarrow> nat \<Rightarrow> (int + mlx5dv_clock_info) option" where
  "clock_loop sign info k =
     (case clock_sign 10 sign k of
        None \<Rightarrow> Some (Inl EBUSY)
      | Some (s, j) \<Rightarrow> if s = sign (j + 6) then Some (Inr (clock_fields info j)) else clock_loop sign info (j + 7))"

text \<open>\<open>page\<close> is \<open>None\<close> for a context without the page; the result is \<open>None\<close> for a call that does not return.\<close>

definition mlx5dv_get_clock_info ::
    "((nat \<Rightarrow> u32) \<times> (nat \<Rightarrow> mlx5dv_clock_info)) option \<Rightarrow> (int + mlx5dv_clock_info) option" where
  "mlx5dv_get_clock_info page = (case page of None \<Rightarrow> Some (Inl (int EINVAL)) | Some (sign, info) \<Rightarrow> clock_loop sign info 0)"

subsection \<open>The choice of the functions\<close>

abbreviation (input) SINGLE_THREADED :: nat where "SINGLE_THREADED \<equiv> 1"
abbreviation (input) STALL :: nat where "STALL \<equiv> 2"
abbreviation (input) V1 :: nat where "V1 \<equiv> 4"
abbreviation (input) ADAPTIVE :: nat where "ADAPTIVE \<equiv> 8"
abbreviation (input) CLOCK_UPDATE :: nat where "CLOCK_UPDATE \<equiv> 16"

text \<open>What the entry of a name passes on: \<open>start_poll\<close> and \<open>end_poll\<close> have a lock and a mode, \<open>next_poll\<close> only the mode.\<close>

record poll_ops =
  start_lock :: bool
  start_mode :: polling_mode
  start_ver :: bool
  start_clock :: bool
  next_mode :: polling_mode
  next_ver :: bool
  end_lock :: bool
  end_mode :: polling_mode

definition poll_fn_entry :: "bool \<Rightarrow> bool \<Rightarrow> bool \<Rightarrow> bool \<Rightarrow> bool \<Rightarrow> poll_ops" where
  "poll_fn_entry ver lock stall adaptive clock =
     (let mode = (if adaptive then POLLING_MODE_STALL_ADAPTIVE else if stall then POLLING_MODE_STALL else POLLING_MODE_NO_STALL)
      in \<lparr>start_lock = lock, start_mode = mode, start_ver = ver, start_clock = clock,
          next_mode = (if adaptive then POLLING_MODE_STALL_ADAPTIVE else POLLING_MODE_NO_STALL), next_ver = ver,
          end_lock = lock, end_mode = mode\<rparr>)"

text \<open>The table has 32 elements; the ones for an adaptive poll without stalls are not initialised.\<close>

definition ops_table :: "nat \<Rightarrow> poll_ops option" where
  "ops_table i =
     (if 32 \<le> i \<or> bit i 3 \<and> \<not> bit i 1 then None
      else Some (poll_fn_entry (bit i 2) (\<not> bit i 0) (bit i 1) (bit i 3) (bit i 4)))"

record cq_pfns =
  pf_ops :: poll_ops
  read_opcode :: "mlx5_cq \<Rightarrow> u32"
  read_vendor_err :: "mlx5_cq \<Rightarrow> u32"
  read_wc_flags :: "mlx5_cq \<Rightarrow> u32"
  read_byte_len :: "(mlx5_cq \<Rightarrow> u32) option"
  read_imm_data :: "(mlx5_cq \<Rightarrow> imm_inv) option"
  read_qp_num :: "(mlx5_cq \<Rightarrow> u32) option"
  read_src_qp :: "(mlx5_cq \<Rightarrow> u32) option"
  read_slid :: "(mlx5_cq \<Rightarrow> u32) option"
  read_sl :: "(mlx5_cq \<Rightarrow> u8) option"
  read_dlid_path_bits :: "(mlx5_cq \<Rightarrow> u8) option"
  read_completion_ts :: "(mlx5_cq \<Rightarrow> u64) option"
  read_cvlan :: "(mlx5_cq \<Rightarrow> u16) option"
  read_flow_tag :: "(mlx5_cq \<Rightarrow> u32) option"
  read_tm_info :: "(mlx5_cq \<Rightarrow> ibv_wc_tm_info) option"
  read_wallclock_ns :: "(ex_st \<Rightarrow> u64) option"

abbreviation (input) WITH_BYTE_LEN :: u64 where "WITH_BYTE_LEN \<equiv> 1"
abbreviation (input) WITH_IMM :: u64 where "WITH_IMM \<equiv> 2"
abbreviation (input) WITH_QP_NUM :: u64 where "WITH_QP_NUM \<equiv> 4"
abbreviation (input) WITH_SRC_QP :: u64 where "WITH_SRC_QP \<equiv> 8"
abbreviation (input) WITH_SLID :: u64 where "WITH_SLID \<equiv> 16"
abbreviation (input) WITH_SL :: u64 where "WITH_SL \<equiv> 32"
abbreviation (input) WITH_DLID_PATH_BITS :: u64 where "WITH_DLID_PATH_BITS \<equiv> 64"
abbreviation (input) WITH_COMPLETION_TIMESTAMP :: u64 where "WITH_COMPLETION_TIMESTAMP \<equiv> 128"
abbreviation (input) WITH_CVLAN :: u64 where "WITH_CVLAN \<equiv> 256"
abbreviation (input) WITH_FLOW_TAG :: u64 where "WITH_FLOW_TAG \<equiv> 512"
abbreviation (input) WITH_TM_INFO :: u64 where "WITH_TM_INFO \<equiv> 1024"
abbreviation (input) WITH_WALLCLOCK :: u64 where "WITH_WALLCLOCK \<equiv> 2048"

definition ops_index :: "bool \<Rightarrow> u64 \<Rightarrow> mlx5_cq \<Rightarrow> nat" where
  "ops_index ver flags cq =
     (if stall_enable cq \<and> stall_adaptive_enable cq then ADAPTIVE else 0) OR (if ver then V1 else 0) OR
     (if cq_flags cq AND MLX5_CQ_FLAGS_SINGLE_THREADED \<noteq> 0 then SINGLE_THREADED else 0) OR
     (if stall_enable cq then STALL else 0) OR (if flags AND WITH_WALLCLOCK \<noteq> 0 then CLOCK_UPDATE else 0)"

text \<open>
  \<open>real_time\<close> is \<open>MLX5_CTX_FLAGS_REAL_TIME_TS_SUPPORTED\<close>, \<open>has_page\<close> whether the context has the clock page.  An
  element of the table that is not initialised would be a null pointer to call.
\<close>

definition mlx5_cq_fill_pfns :: "bool \<Rightarrow> bool \<Rightarrow> bool \<Rightarrow> u64 \<Rightarrow> mlx5_cq \<Rightarrow> (int \<times> cq_pfns) res" where
  "mlx5_cq_fill_pfns ver real_time has_page flags cq =
     (case ops_table (ops_index ver flags cq) of
        None \<Rightarrow> Inl Segfault
      | Some ops \<Rightarrow>
          let wall = (flags AND WITH_WALLCLOCK \<noteq> 0); direct = (real_time \<and> flags AND WITH_COMPLETION_TIMESTAMP = 0)
          in Inr (if wall \<and> \<not> direct \<and> \<not> has_page then int EOPNOTSUPP else 0,
               \<lparr>pf_ops = ops, read_opcode = mlx5_cq_read_wc_opcode, read_vendor_err = mlx5_cq_read_wc_vendor_err,
                read_wc_flags = mlx5_cq_read_wc_flags, read_byte_len = (if flags AND WITH_BYTE_LEN \<noteq> 0 then Some mlx5_cq_read_wc_byte_len else None),
                read_imm_data = (if flags AND WITH_IMM \<noteq> 0 then Some mlx5_cq_read_wc_imm_data else None),
                read_qp_num = (if flags AND WITH_QP_NUM \<noteq> 0 then Some mlx5_cq_read_wc_qp_num else None),
                read_src_qp = (if flags AND WITH_SRC_QP \<noteq> 0 then Some mlx5_cq_read_wc_src_qp else None),
                read_slid = (if flags AND WITH_SLID \<noteq> 0 then Some mlx5_cq_read_wc_slid else None),
                read_sl = (if flags AND WITH_SL \<noteq> 0 then Some mlx5_cq_read_wc_sl else None),
                read_dlid_path_bits = (if flags AND WITH_DLID_PATH_BITS \<noteq> 0 then Some mlx5_cq_read_wc_dlid_path_bits else None),
                read_completion_ts = (if flags AND WITH_COMPLETION_TIMESTAMP \<noteq> 0 then Some mlx5_cq_read_wc_completion_ts else None),
                read_cvlan = (if flags AND WITH_CVLAN \<noteq> 0 then Some mlx5_cq_read_wc_cvlan else None),
                read_flow_tag = (if flags AND WITH_FLOW_TAG \<noteq> 0 then Some mlx5_cq_read_flow_tag else None),
                read_tm_info = (if flags AND WITH_TM_INFO \<noteq> 0 then Some mlx5_cq_read_wc_tm_info else None),
                read_wallclock_ns =
                  (if \<not> wall then None
                   else if direct then Some (\<lambda>st. mlx5_cq_read_wc_completion_ts (ex_cq st))
                   else if has_page then Some mlx5_cq_read_wc_completion_wallclock_ns
                   else None)\<rparr>))"

end
