(* ===== verification/Cq_Settle.thy ===== *)
theory Cq_Settle
  imports Cq_Ex
begin

text \<open>
  Polling as a walk along the list of entries: whatever the entries are, a poll ends and takes a prefix of
  them.  The proofs go through the parts of the switch with rules for computations that settle, that is,
  end with a result of some kind.
\<close>

subsection \<open>Polling keeps the ring\<close>

definition ring :: "mlx5_cq \<Rightarrow> mem \<times> u32 \<times> nat \<times> u32" where
  "ring cq = (cq_buf cq, cq_cqe cq, cq_sz cq, cons_index cq)"

lemma ring_view: "ring cq' = ring cq \<Longrightarrow> cq_view b cq' es \<longleftrightarrow> cq_view b cq es"
  by (simp add: ring_def cq_view_def cq_wf_def owned_def entry_def raw_at_def)

text \<open>A computation settles with \<open>Q\<close> when it does not diverge and every result satisfies \<open>Q\<close>.\<close>

definition settles :: "('a \<Rightarrow> bool) \<Rightarrow> 'a res \<Rightarrow> bool" where
  "settles Q r \<longleftrightarrow> (case r of Inl f \<Rightarrow> f \<noteq> Diverges | Inr x \<Rightarrow> Q x)"

named_theorems settle

lemma settles_Inr [simp]: "settles Q (Inr x) = Q x" and settles_Inl [simp]: "settles Q (Inl f) = (f \<noteq> Diverges)"
  by (simp_all add: settles_def)

lemma settles_bind: "settles P r \<Longrightarrow> (\<And>x. P x \<Longrightarrow> settles Q (f x)) \<Longrightarrow> settles Q (bind_res r f)"
  by (cases r) (auto simp: settles_def)

lemma settles_bind_any [settle]: "settles (\<lambda>_. True) r \<Longrightarrow> (\<And>x. settles Q (f x)) \<Longrightarrow> settles Q (bind_res r f)"
  by (rule settles_bind) auto

lemma settles_if [settle]: "(c \<Longrightarrow> settles Q a) \<Longrightarrow> (\<not> c \<Longrightarrow> settles Q b) \<Longrightarrow> settles Q (if c then a else b)"
  by simp

lemma settles_option [settle]: "settles Q a \<Longrightarrow> (\<And>x. settles Q (f x)) \<Longrightarrow> settles Q (case o' of None \<Rightarrow> a | Some x \<Rightarrow> f x)"
  by (simp split: option.split)

lemma settles_prod [settle]: "(\<And>x y. p = (x, y) \<Longrightarrow> settles Q (f x y)) \<Longrightarrow> settles Q (case p of (x, y) \<Rightarrow> f x y)"
  by (simp split: prod.split)

lemma settles_let [settle]: "(\<And>x. x = a \<Longrightarrow> settles Q (f x)) \<Longrightarrow> settles Q (Let a f)"
  by (simp add: Let_def)

lemma settles_weaken: "settles P r \<Longrightarrow> (\<And>x. P x \<Longrightarrow> Q x) \<Longrightarrow> settles Q r"
  by (cases r) (auto simp: settles_def)

lemma settles_rsc_type [settle]:
  "settles Q a \<Longrightarrow> settles Q b \<Longrightarrow> settles Q c \<Longrightarrow> settles Q d \<Longrightarrow> settles Q f \<Longrightarrow>
   settles Q (case t of MLX5_RSC_TYPE_QP \<Rightarrow> a | MLX5_RSC_TYPE_XSRQ \<Rightarrow> b | MLX5_RSC_TYPE_SRQ \<Rightarrow> c | MLX5_RSC_TYPE_RWQ \<Rightarrow> d | MLX5_RSC_TYPE_INVAL \<Rightarrow> f)"
  by (simp split: rsc_type.split)

lemma ring_upd [simp]:
  "ring (cq\<lparr>lz := a\<rparr>) = ring cq" "ring (cq\<lparr>cq_flags := f\<rparr>) = ring cq" "ring (cq\<lparr>cached_opcode := c\<rparr>) = ring cq"
  "ring (cq\<lparr>cq_cqe64 := n\<rparr>) = ring cq" "ring (cq\<lparr>cur_rsc := r\<rparr>) = ring cq" "ring (cq\<lparr>cur_srq := s\<rparr>) = ring cq"
  "ring (cq\<lparr>stall_next_poll := t\<rparr>) = ring cq" "ring (cq\<lparr>stall_cycles := i\<rparr>) = ring cq" "ring (cq\<lparr>stall_last_count := w\<rparr>) = ring cq"
  "ring (cq\<lparr>cq_ci := ci\<rparr>) = ring cq"
  by (simp_all add: ring_def)

lemma parse_start_ring [simp]: "ring (ps_cq (parse_start lazy e ps)) = ring (ps_cq ps)"
  by (simp add: parse_start_def Let_def)

lemma err_status_ring [simp]: "ring (ps_cq (err_status lazy e ps)) = ring (ps_cq ps)"
  by (simp add: err_status_def Let_def)

lemma set_wr_id_ring [simp]: "ring (ps_cq (set_wr_id lazy w ps)) = ring (ps_cq ps)"
  by (simp add: set_wr_id_def)

subsection \<open>What the parts of the switch keep\<close>

lemma find_ends [settle]: "settles (\<lambda>_. True) (mlx5_find_qp t n)"
  by (simp add: mlx5_find_qp_def split: option.splits)

lemmas finds_end [settle] = find_ends [folded uidx_as_qp(1)] find_ends [folded mkey_as_qp(1)] find_ends [folded srq_as_qp(1)]

lemma get_req_context_ends [settle]: "settles (\<lambda>_. True) (get_req_context env ver n cur)"
  unfolding get_req_context_def rsc_to_mqp_def by (rule settle | simp)+

lemma get_cur_rsc_ends [settle]: "settles (\<lambda>_. True) (get_cur_rsc env ver q u cur)"
  unfolding get_cur_rsc_def get_resp_ctx_v1_def get_srq_ctx_def get_qp_ctx_def by (rule settle | simp)+

lemma req_scatter_ends [settle]: "settles (\<lambda>_. True) (req_scatter e cqe n q m env)"
  by (simp add: req_scatter_def Let_def)

lemma srq_take_ends [settle]: "settles (\<lambda>_. True) (srq_take k i m env)"
  by (simp add: srq_take_def Let_def)

lemma resp_take_ends [settle]: "settles (\<lambda>_. True) (resp_take e m r s env)"
  unfolding resp_take_def scatter_at_def by (rule settle | simp)+

lemma handle_tag_matching_ends [settle]: "settles (\<lambda>_. True) (handle_tag_matching c l st)"
  unfolding handle_tag_matching_def tm_consumed_def tm_list_op_def tm_untagged_def by (rule settle | simp)+

lemma odp_fault_ends [settle]: "settles (\<lambda>_. True) (mlx5_complete_odp_fault i s)"
  unfolding mlx5_complete_odp_fault_def srq_repost_def by (rule settle | simp)+

lemma parse_req_ring [settle]: "ring (ps_cq ps) = R \<Longrightarrow> settles (\<lambda>(err, ps'). ring (ps_cq ps') = R) (parse_req lazy ver e cqe ps)"
  unfolding parse_req_def by (rule settle | simp)+

lemma parse_tm_ring [settle]: "ring (ps_cq ps) = R \<Longrightarrow> settles (\<lambda>(err, ps'). ring (ps_cq ps') = R) (parse_tm e k ps)"
  unfolding parse_tm_def by (rule settle | simp)+

lemma handle_responder_ends [settle]: "settles (\<lambda>_. True) (handle_responder e m r s st)"
  unfolding handle_responder_def by (rule settle | simp)+

lemma handle_responder_lazy_ring: "settles (\<lambda>(err, cq', env'). ring cq' = ring cq) (handle_responder_lazy e r s (cq, env))"
  unfolding handle_responder_lazy_def prod.case by (rule settle | simp)+

lemma parse_resp_ring [settle]:
  assumes R: "ring (ps_cq ps) = R"
  shows "settles (\<lambda>(err, ps'). ring (ps_cq ps') = R) (parse_resp lazy ver e ps)"
  unfolding parse_resp_def
  by (rule settles_bind [OF handle_responder_lazy_ring] settle | clarsimp simp: R)+

lemma parse_no_packet_ring [settle]: "ring (ps_cq ps) = R \<Longrightarrow> settles (\<lambda>(err, ps'). ring (ps_cq ps') = R) (parse_no_packet ver e ps)"
  unfolding parse_no_packet_def by (rule settle | simp)+

lemma parse_sig_err_ring [settle]: "ring (ps_cq ps) = R \<Longrightarrow> settles (\<lambda>r. \<forall>ps'. r = Some ps' \<longrightarrow> ring (ps_cq ps') = R) (parse_sig_err e ps)"
  unfolding parse_sig_err_def by (rule settle | simp)+

lemma parse_req_err_ring [settle]: "ring (ps_cq ps) = R \<Longrightarrow> settles (\<lambda>(err, ps'). ring (ps_cq ps') = R) (parse_req_err lazy ver e ps)"
  unfolding parse_req_err_def by (rule settle | simp)+

lemma parse_resp_err_ring [settle]: "ring (ps_cq ps) = R \<Longrightarrow> settles (\<lambda>(a, err, ps'). ring (ps_cq ps') = R) (parse_resp_err lazy ver e ps)"
  unfolding parse_resp_err_def by (rule settle | simp)+

lemma parse_one_ring:
  assumes "ring (ps_cq ps) = R"
  shows "settles (\<lambda>(a, err, ps'). ring (ps_cq ps') = R) (parse_one False lazy ver e cqe ps)"
proof -
  have fin: "settles (\<lambda>(a, err, ps'). ring (ps_cq ps') = R) (bind_res r (\<lambda>(err, ps'). Inr (False, err, ps')))"
    if "settles (\<lambda>(err, ps'). ring (ps_cq ps') = R) r" for r
    by (rule settles_bind [OF that]) auto
  have s: "settles (\<lambda>(a, err, ps'). ring (ps_cq ps') = R)
      (bind_res (parse_sig_err e p) (\<lambda>r. case r of None \<Rightarrow> Inr (False, CQ_POLL_ERR, p) | Some q \<Rightarrow> Inr (True, CQ_OK, q)))"
    if "ring (ps_cq p) = R" for p
    by (rule settles_bind [OF parse_sig_err_ring [OF that]]) (simp add: that split: option.splits)
  show ?thesis
    unfolding parse_one_def Let_def freezes_def
    by (rule settles_if fin s parse_req_ring parse_resp_ring parse_no_packet_ring parse_req_err_ring parse_resp_err_ring | simp add: assms)+
qed

subsection \<open>Every poll ends\<close>

text \<open>The queue with the first \<open>k\<close> entries taken.\<close>

definition taken :: "nat \<Rightarrow> mlx5_cq \<Rightarrow> mlx5_cq" where
  "taken k cq = cq\<lparr>cons_index := cons_index cq + of_nat k\<rparr>"

lemma taken_view: "cq_view b cq es \<Longrightarrow> k \<le> length es \<Longrightarrow> cq_view b (taken k cq) (drop k es)"
proof (induction k arbitrary: cq es)
  case 0
  then show ?case by (simp add: taken_def)
next
  case (Suc k)
  then obtain e es' where es: "es = e # es'" by (cases es) auto
  have "cq_view b (taken 1 cq) es'" using next_take [OF Suc.prems(1) [unfolded es]] by (auto simp: taken_def)
  from Suc.IH [OF this] Suc.prems(2) es have "cq_view b (taken k (taken 1 cq)) (drop k es')" by simp
  then show ?case by (simp add: es taken_def add.commute add.left_commute)
qed

lemma ring_taken: "ring cq' = ring (taken k (taken j cq)) \<longleftrightarrow> ring cq' = ring (taken (j + k) cq)"
  by (simp add: ring_def taken_def add.assoc)

lemma ring_taken_cong: "ring cq = ring cq' \<Longrightarrow> ring (taken k cq) = ring (taken k cq')"
  by (simp add: ring_def taken_def)

lemma parse_loop_settles:
  assumes "cq_view b (ps_cq ps) es" "length es < n"
  shows "settles (\<lambda>(err, ps'). \<exists>k \<le> length es. ring (ps_cq ps') = ring (taken k (ps_cq ps))) (parse_loop n False lazy ver e cqe ps)"
  using assms
proof (induction n arbitrary: es e cqe ps)
  case (Suc n)
  show ?case
    unfolding parse_loop.simps
  proof (rule settles_bind [OF parse_one_ring [OF refl]], clarify)
    fix a err and ps1 :: poll_st assume R: "ring (ps_cq ps1) = ring (ps_cq ps)"
    then have v: "cq_view b (ps_cq ps1) es" using Suc.prems(1) ring_view by blast
    have t0: "ring (ps_cq ps1) = ring (taken 0 (ps_cq ps))" using R by (simp add: taken_def)
    show "settles (\<lambda>(err, ps'). \<exists>k \<le> length es. ring (ps_cq ps') = ring (taken k (ps_cq ps)))
        (if \<not> a then Inr (err, ps1) else case mlx5_get_next_cqe (ps_cq ps1) of None \<Rightarrow> Inr (CQ_POLL_NODATA, ps1)
         | Some (e', cqe', cq') \<Rightarrow> parse_loop n False lazy ver e' cqe' (ps1\<lparr>ps_cq := cq'\<rparr>))"
    proof (cases es)
      case Nil
      then show ?thesis using next_empty [of b "ps_cq ps1"] v t0 by auto
    next
      case (Cons x xs)
      obtain e' cqe' where nx: "mlx5_get_next_cqe (ps_cq ps1) = Some (e', cqe', taken 1 (ps_cq ps1))" and v1: "cq_view b (taken 1 (ps_cq ps1)) xs"
        using next_take [OF v [unfolded Cons]] by (auto simp: taken_def)
      have "settles (\<lambda>(err, ps'). \<exists>k \<le> length xs. ring (ps_cq ps') = ring (taken k (taken 1 (ps_cq ps1))))
          (parse_loop n False lazy ver e' cqe' (ps1\<lparr>ps_cq := taken 1 (ps_cq ps1)\<rparr>))"
        using Suc.IH [of "ps1\<lparr>ps_cq := taken 1 (ps_cq ps1)\<rparr>" xs e' cqe'] v1 Suc.prems(2) Cons by simp
      then have "settles (\<lambda>(err, ps'). \<exists>k \<le> length es. ring (ps_cq ps') = ring (taken k (ps_cq ps)))
          (parse_loop n False lazy ver e' cqe' (ps1\<lparr>ps_cq := taken 1 (ps_cq ps1)\<rparr>))"
      proof (rule settles_weaken, clarify)
        fix err2 k and ps2 :: poll_st assume "k \<le> length xs" "ring (ps_cq ps2) = ring (taken k (taken 1 (ps_cq ps1)))"
        then show "\<exists>k \<le> length es. ring (ps_cq ps2) = ring (taken k (ps_cq ps))"
          using ring_taken_cong [OF R] Cons by (auto simp: ring_taken intro!: exI [of _ "1 + k"])
      qed
      with t0 nx show ?thesis by auto
    qed
  qed
qed simp

lemma view_bound: "cq_view b cq es \<Longrightarrow> length es < unat (cq_cqe cq) + 2"
proof -
  assume v: "cq_view b cq es"
  then have l: "length es \<le> 2 ^ b" and c: "cq_cqe cq = 2 ^ b - 1" and b: "b < 31" by (auto simp: cq_view_def cq_wf_def)
  have "unat (2 ^ b - 1 :: u32) = 2 ^ b - 1"
  proof -
    have "(2 :: nat) ^ b < 2 ^ 31" by (rule power_strict_increasing [OF b]) simp
    then show ?thesis using unat_of_nat_small [of "2 ^ b - 1", where ?'a = 32] by (simp add: of_nat_diff)
  qed
  with l c show ?thesis by (simp del: One_nat_def)
qed

lemma parse_settles:
  assumes "cq_view b (ps_cq ps) es"
  shows "settles (\<lambda>(err, ps'). \<exists>k \<le> length es. ring (ps_cq ps') = ring (taken k (ps_cq ps))) (mlx5_parse_cqe False lazy ver e cqe ps)"
  unfolding mlx5_parse_cqe_def by (rule parse_loop_settles [OF assms view_bound [OF assms]])

lemma poll_one_settles:
  assumes v: "cq_view b (ps_cq ps) es"
  shows "settles (\<lambda>(err, ps'). \<exists>k \<le> length es. ring (ps_cq ps') = ring (taken k (ps_cq ps)) \<and> (err = CQ_OK \<longrightarrow> 0 < k)) (mlx5_poll_one False ver ps)"
proof (cases es)
  case Nil
  then show ?thesis using next_empty [of b "ps_cq ps"] v by (simp add: mlx5_poll_one_def taken_def)
next
  case (Cons x xs)
  obtain e' cqe' where nx: "mlx5_get_next_cqe (ps_cq ps) = Some (e', cqe', taken 1 (ps_cq ps))" and v1: "cq_view b (taken 1 (ps_cq ps)) xs"
    using next_take [OF v [unfolded Cons]] by (auto simp: taken_def)
  have "settles (\<lambda>(err, ps'). \<exists>k \<le> length xs. ring (ps_cq ps') = ring (taken k (taken 1 (ps_cq ps))))
      (mlx5_parse_cqe False False ver e' cqe' (ps\<lparr>ps_cq := taken 1 (ps_cq ps)\<rparr>))"
    using parse_settles [of b "ps\<lparr>ps_cq := taken 1 (ps_cq ps)\<rparr>" xs] v1 by simp
  then show ?thesis
    unfolding mlx5_poll_one_def nx option.case prod.case
  proof (rule settles_weaken, clarify)
    fix err k and ps2 :: poll_st assume "k \<le> length xs" "ring (ps_cq ps2) = ring (taken k (taken 1 (ps_cq ps)))"
    then show "\<exists>k \<le> length es. ring (ps_cq ps2) = ring (taken k (ps_cq ps)) \<and> (err = CQ_OK \<longrightarrow> 0 < k)"
      using Cons by (auto simp: ring_taken intro!: exI [of _ "1 + k"])
  qed
qed

lemma poll_loop_settles:
  assumes "cq_view b (ps_cq ps) es"
  shows "settles (\<lambda>(err, j, wcs', ps'). length wcs' = length wcs \<and> j \<le> n \<and>
           (\<exists>k \<le> length es. j \<le> k \<and> ring (ps_cq ps') = ring (taken k (ps_cq ps)))) (poll_loop n False ver wcs ps)"
  using assms
proof (induction n arbitrary: wcs es ps)
  case 0
  then show ?case by (auto simp: taken_def)
next
  case (Suc n)
  show ?case
  proof (cases wcs)
    case Nil
    then show ?thesis by (auto simp: taken_def intro!: exI [of _ 0])
  next
    case (Cons wc ws)
    have v: "cq_view b (ps_cq (ps\<lparr>ps_wc := wc\<rparr>)) es" using Suc.prems by simp
    show ?thesis
      unfolding Cons poll_loop.simps
    proof (rule settles_bind [OF poll_one_settles [OF v]], clarify)
      fix err k and ps1 :: poll_st assume k: "k \<le> length es" and R: "ring (ps_cq ps1) = ring (taken k (ps_cq (ps\<lparr>ps_wc := wc\<rparr>)))" and z: "err = CQ_OK \<longrightarrow> 0 < k"
      have v1: "cq_view b (ps_cq ps1) (drop k es)" using taken_view [OF v k] R ring_view by blast
      show "settles (\<lambda>(err, j, wcs', ps'). length wcs' = length (wc # ws) \<and> j \<le> Suc n \<and>
          (\<exists>k \<le> length es. j \<le> k \<and> ring (ps_cq ps') = ring (taken k (ps_cq ps))))
        (if err \<noteq> CQ_OK then Inr (err, 0, ps_wc ps1 # ws, ps1)
         else bind_res (poll_loop n False ver ws ps1) (\<lambda>(err', k, wcs', ps2). Inr (err', Suc k, ps_wc ps1 # wcs', ps2)))"
      proof (rule settles_if)
        assume "\<not> err \<noteq> CQ_OK"
        then have "0 < k" using z by simp
        show "settles (\<lambda>(err, j, wcs', ps'). length wcs' = length (wc # ws) \<and> j \<le> Suc n \<and>
            (\<exists>k \<le> length es. j \<le> k \<and> ring (ps_cq ps') = ring (taken k (ps_cq ps))))
          (bind_res (poll_loop n False ver ws ps1) (\<lambda>(err', k, wcs', ps2). Inr (err', Suc k, ps_wc ps1 # wcs', ps2)))"
        proof (rule settles_bind [OF Suc.IH [OF v1]], clarify)
          fix err' j i and wcs' :: "ibv_wc list" and ps2 :: poll_st assume i: "i \<le> length (drop k es)" "j \<le> i" "length wcs' = length ws" "j \<le> n"
            and "ring (ps_cq ps2) = ring (taken i (ps_cq ps1))"
          then have "ring (ps_cq ps2) = ring (taken (k + i) (ps_cq ps))" using ring_taken_cong [OF R, of i] ring_taken by simp
          with i k \<open>0 < k\<close> show "settles (\<lambda>(err, j, wcs', ps'). length wcs' = length (wc # ws) \<and> j \<le> Suc n \<and>
            (\<exists>k \<le> length es. j \<le> k \<and> ring (ps_cq ps') = ring (taken k (ps_cq ps)))) (Inr (err', Suc j, ps_wc ps1 # wcs', ps2))"
            by (auto intro!: exI [of _ "k + i"])
        qed
      qed (use k R in auto)
    qed
  qed
qed

lemma stall_after_ring:
  "ring (stall_after cfg ne err n (update_cons_index cq)) = ring cq"
  "cq_ci (stall_after cfg ne err n (update_cons_index cq)) = cons_index cq AND 0xffffff"
  by (simp_all add: stall_after_def stall_less_def stall_more_def update_cons_index_def)

lemma stall_before_ring: "ring (stall_before cq) = ring cq"
  by (simp add: stall_before_def)

text \<open>A poll has taken the first \<open>k\<close> of the entries and has told the adapter so.\<close>

definition took :: "nat \<Rightarrow> mlx5_cq \<Rightarrow> u8 list list \<Rightarrow> nat \<Rightarrow> mlx5_cq \<Rightarrow> bool" where
  "took b cq es k cq' \<longleftrightarrow>
     k \<le> length es \<and> cq_view b cq' (drop k es) \<and> cons_index cq' = cons_index cq + of_nat k \<and> cq_ci cq' = cons_index cq' AND 0xffffff"

lemma took_after:
  assumes v: "cq_view b cq es" and k: "k \<le> length es" and R: "ring cq1 = ring (taken k cq)"
  shows "took b cq es k (stall_after cfg ne err n (update_cons_index cq1))"
proof -
  have R': "ring (stall_after cfg ne err n (update_cons_index cq1)) = ring (taken k cq)" by (simp add: stall_after_ring R)
  have "cons_index cq1 = cons_index cq + of_nat k" using R by (simp add: ring_def taken_def)
  moreover have "cons_index (stall_after cfg ne err n (update_cons_index cq1)) = cons_index cq + of_nat k"
    using R' by (simp add: ring_def taken_def)
  ultimately show ?thesis
    using taken_view [OF v k] ring_view [OF R', of b "drop k es"] k by (simp add: took_def stall_after_ring(2))
qed

text \<open>
  C11. A poll ends whatever the entries are, also when it skips entries of signature errors and page faults:
  it never runs on, and if it returns it has taken the first \<open>k\<close> entries and no other, reports at most \<open>k\<close>
  completions and at most as many as asked for, leaves the rest of the entries in the ring, and tells the
  adapter the new consumer index.
\<close>
theorem poll_cq_terminates:
  assumes "cq_view b cq es"
  shows "case poll_cq cfg False ver ne wcs (cq, env) of
           Inl f \<Rightarrow> f \<noteq> Diverges
         | Inr (r, wcs', cq', env') \<Rightarrow> length wcs' = length wcs \<and> (\<exists>k. took b cq es k cq' \<and> r \<le> int k \<and> r \<le> max 0 ne)"
proof -
  let ?ps = "\<lparr>ps_cq = stall_before cq, ps_env = env, ps_wc = zero_wc, ps_rsc = None, ps_srq = None\<rparr>"
  have v: "cq_view b (ps_cq ?ps) es" using assms ring_view [OF stall_before_ring] by simp
  have "settles (\<lambda>(r, wcs', cq', env'). length wcs' = length wcs \<and> (\<exists>k. took b cq es k cq' \<and> r \<le> int k \<and> r \<le> max 0 ne))
      (poll_cq cfg False ver ne wcs (cq, env))"
    unfolding poll_cq_def prod.case
  proof (rule settles_bind [OF poll_loop_settles [OF v]], clarify)
    fix err j k and wcs' :: "ibv_wc list" and ps' :: poll_st assume k: "length wcs' = length wcs" "j \<le> nat ne" "k \<le> length es" "j \<le> k"
      and R: "ring (ps_cq ps') = ring (taken k (ps_cq ?ps))"
    have "ring (ps_cq ps') = ring (taken k cq)" using R ring_taken_cong [OF stall_before_ring, of k cq] by simp
    from took_after [OF assms k(3) this] have t: "took b cq es k (stall_after cfg ne err (int j) (update_cons_index (ps_cq ps')))" .
    show "settles (\<lambda>(r, wcs', cq', env'). length wcs' = length wcs \<and> (\<exists>k. took b cq es k cq' \<and> r \<le> int k \<and> r \<le> max 0 ne))
      (Inr (if err = CQ_POLL_ERR then err else int j, wcs', stall_after cfg ne err (int j) (update_cons_index (ps_cq ps')), ps_env ps'))"
      using t k by (auto intro!: exI [of _ k])
  qed
  then show ?thesis by (cases "poll_cq cfg False ver ne wcs (cq, env)") auto
qed

subsection \<open>A ring with two completions\<close>

definition demo_rsc :: "u32 \<Rightarrow> mlx5_resource" where
  "demo_rsc n = \<lparr>rsc_type = MLX5_RSC_TYPE_QP, rsn = n, rsc_obj = unat n\<rparr>"

definition demo_env :: cq_env where
  "demo_env = \<lparr>qp_table = (\<lambda>i. if i = 0 then \<lparr>refcnt = 2, tab = Some [7 \<mapsto> demo_rsc 7, 8 \<mapsto> demo_rsc 8]\<rparr> else \<lparr>refcnt = 0, tab = None\<rparr>),
     uidx_table = empty_tab, srq_table = empty_tab, mkey_table = empty_tab, null_mkey = 0,
     hp_qp = (\<lambda>q. (demo_qp IBV_QPT_RC)\<lparr>sq := demo_wq\<lparr>wrid := (\<lambda>i. of_nat (100 * q + i))\<rparr>\<rparr>), hp_qp_srq = (\<lambda>_. None),
     hp_srq = (\<lambda>_. init_tags 0 (demo_qp IBV_QPT_RC) demo_srq), hp_srqn = (\<lambda>_. 0), hp_rwq = (\<lambda>_. demo_wq), hp_sig = (\<lambda>_. None), hp_um = (\<lambda>_. 0)\<rparr>"

definition demo_full :: mlx5_cq where
  "demo_full = hw_put 2 (demo_cqe 0 8) 1 (hw_put 2 (demo_cqe 0 7) 0 demo_cq)"

definition demo_stall :: stall_cfg where
  "demo_stall = \<lparr>stall_dec_step = 10, stall_inc_step = 100, stall_poll_min = 60, stall_poll_max = 100000, stall_now = 0\<rparr>"

theorem poll_cq_terminates_witness:
  "case poll_cq demo_stall False False 2 [zero_wc, zero_wc] (demo_full, demo_env) of
     Inl f \<Rightarrow> f \<noteq> Diverges
   | Inr (r, wcs', cq', env') \<Rightarrow> length wcs' = 2 \<and> (\<exists>k. took 2 demo_full [demo_cqe 0 7, demo_cqe 0 8] k cq' \<and> r \<le> int k \<and> r \<le> 2)"
  using poll_cq_terminates [OF demo_entries, folded demo_full_def, where cfg = demo_stall and ver = False and ne = 2 and wcs = "[zero_wc, zero_wc]" and env = demo_env]
  by (auto split: sum.splits)

end
