(* ===== verification/Cq_Order.thy ===== *)
theory Cq_Order
  imports Cq_Settle
begin

text \<open>
  The completions of requests and receives come back in the order of the entries, with the identifiers of
  their descriptors; proved for both interfaces at once.
\<close>

subsection \<open>The fields of an entry\<close>

definition e_byte :: "nat \<Rightarrow> u8 list \<Rightarrow> u8" where
  "e_byte off e = e ! (length e - 64 + off)"

text \<open>The entry \<open>e\<close> is at \<open>p\<close>, apart from its owner bit.\<close>

definition entry_at :: "nat \<Rightarrow> mem \<Rightarrow> u8 list \<Rightarrow> bool" where
  "entry_at p m e \<longleftrightarrow>
     (\<forall>off. off + 4 \<le> 63 \<longrightarrow> ld_be32 (p + off) m = e_be32 off e) \<and> ld_be16 (p + 60) m = e_be16 60 e \<and>
     (\<forall>off < 63. m (p + off) = e_byte off e) \<and> mlx5dv_get_cqe_opcode p m = e_opcode e \<and> op_own_at p m AND NOT 1 = last e"

lemma strip_entry_at:
  assumes z: "cq_sz cq = 64 \<or> cq_sz cq = 128" and e: "e = strip (load_bytes (i * cq_sz cq) (cq_sz cq) m)"
  shows "entry_at (cqe64_of cq (i * cq_sz cq)) m e"
proof -
  have r: "e = strip (raw_at cq i m)" by (simp add: e raw_at_def)
  have l: "64 \<le> length (raw_at cq i m)" and ne: "raw_at cq i m \<noteq> []" using z by (auto simp flip: length_greater_0_conv)
  have "ld_be32 (cqe64_of cq (i * cq_sz cq) + off) m = e_be32 off e" if "off + 4 \<le> 63" for off
    using load_field [OF z, of off 4 i m] field_strip [OF that l] that by (simp add: ld_be32_def e_be32_def r)
  moreover have "ld_be16 (cqe64_of cq (i * cq_sz cq) + 60) m = e_be16 60 e"
    using load_field [OF z, of 60 2 i m] field_strip [of 60 2, OF _ l] by (simp add: ld_be16_def e_be16_def r)
  moreover have "mlx5dv_get_cqe_opcode (cqe64_of cq (i * cq_sz cq)) m = e_opcode e"
    using own_raw [OF z, of i m] opcode_strip [OF ne] by (simp add: mlx5dv_get_cqe_opcode_def r) (simp add: e_opcode_def)
  moreover have "op_own_at (cqe64_of cq (i * cq_sz cq)) m AND NOT 1 = last e" using own_raw [OF z, of i m] last_strip [OF ne] by (simp add: r)
  moreover have "m (cqe64_of cq (i * cq_sz cq) + off) = e_byte off e" if "off < 63" for off
    using z that by (auto simp: e_byte_def e strip_def cqe64_of_def load_bytes_def add.assoc)
  ultimately show ?thesis by (simp add: entry_at_def)
qed

lemma next_entry_at:
  assumes v: "cq_view b cq (e # es)"
  shows "\<exists>p cqe. mlx5_get_next_cqe cq = Some (p, cqe, taken 1 cq) \<and> entry_at p (cq_buf cq) e \<and> cq_view b (taken 1 cq) es"
  using next_take [OF v] strip_entry_at [of cq e "slot_of b (cons_index cq)" "cq_buf cq"] v
  by (auto simp: taken_def cq_view_def cq_wf_def)

subsection \<open>Completions in order\<close>

text \<open>The queue pair of an entry: by its number, or by its user index for entries of version 1.\<close>

definition rsc_table :: "bool \<Rightarrow> cq_env \<Rightarrow> mlx5_resource id_tab" where
  "rsc_table ver env = (if ver then uidx_table env else qp_table env)"

definition rsn_of :: "bool \<Rightarrow> u8 list \<Rightarrow> u32" where
  "rsn_of ver e = e_be32 (if ver then 32 else 56) e AND 0xffffff"

definition qp_of :: "bool \<Rightarrow> cq_env \<Rightarrow> u8 list \<Rightarrow> nat option" where
  "qp_of ver env e =
     (case tab_map (rsc_table ver env) (rsn_of ver e) of
        None \<Rightarrow> None
      | Some r \<Rightarrow> if rsn r = rsn_of ver e \<and> rsc_type r = MLX5_RSC_TYPE_QP then Some (rsc_obj r) else None)"

definition is_request :: "u8 list \<Rightarrow> bool" where
  "is_request e \<longleftrightarrow> e_opcode e = MLX5_CQE_REQ \<or> e_opcode e = MLX5_CQE_REQ_ERR"

definition is_receive :: "u8 list \<Rightarrow> bool" where
  "is_receive e \<longleftrightarrow> e_opcode e \<in> {MLX5_CQE_RESP_WR_IMM, MLX5_CQE_RESP_SEND, MLX5_CQE_RESP_SEND_IMM, MLX5_CQE_RESP_SEND_INV, MLX5_CQE_RESP_ERR}"

text \<open>
  A completion of a queue pair with its own receive queue: not of a tag-matching queue, and without data
  in the entry.
\<close>

definition qp_entry :: "bool \<Rightarrow> cq_env \<Rightarrow> u8 list \<Rightarrow> bool" where
  "qp_entry ver env e \<longleftrightarrow>
     last e AND 12 = 0 \<and>
     (case qp_of ver env e of
        None \<Rightarrow> False
      | Some q \<Rightarrow> is_request e \<or>
          is_receive e \<and> e_byte 40 e \<noteq> MLX5_CQE_APP_TAG_MATCHING \<and> (if ver then hp_qp_srq env q = None else e_be32 32 e AND 0xffffff = 0))"

definition e_status :: "u8 list \<Rightarrow> nat" where
  "e_status e = (if e_opcode e = MLX5_CQE_REQ_ERR \<or> e_opcode e = MLX5_CQE_RESP_ERR then mlx5_handle_error_cqe (e_byte 55 e) else IBV_WC_SUCCESS)"

text \<open>
  The completion of one entry: a request is the one in the slot that the entry names, and all before it
  are done; a receive is the oldest one in the receive queue.
\<close>

definition complete :: "bool \<Rightarrow> u8 list \<Rightarrow> cq_env \<Rightarrow> (u64 \<times> nat \<times> u32) \<times> cq_env" where
  "complete ver e env =
     (let q = the (qp_of ver env e); qp = hp_qp env q; i = unat (ucast (e_be16 60 e) AND (wqe_cnt (sq qp) - 1)); n = e_be32 56 e AND 0xffffff
      in if is_request e
         then ((wrid (sq qp) i, e_status e, n), env\<lparr>hp_qp := (hp_qp env)(q := qp\<lparr>sq := (sq qp)\<lparr>wq_tail := wqe_head (sq qp) i + 1\<rparr>\<rparr>)\<rparr>)
         else ((wrid (rq qp) (unat (wq_tail (rq qp) AND (wqe_cnt (rq qp) - 1))), e_status e, n),
               env\<lparr>hp_qp := (hp_qp env)(q := qp\<lparr>rq := (rq qp)\<lparr>wq_tail := wq_tail (rq qp) + 1\<rparr>\<rparr>)\<rparr>))"

fun completes :: "bool \<Rightarrow> u8 list list \<Rightarrow> cq_env \<Rightarrow> (u64 \<times> nat \<times> u32) list \<times> cq_env" where
  "completes ver [] env = ([], env)"
| "completes ver (e # es) env =
     (case complete ver e env of (r, env1) \<Rightarrow> case completes ver es env1 of (rs, env2) \<Rightarrow> (r # rs, env2))"

text \<open>What the application reads: from the array, or with the functions of the extended interface.\<close>

definition reported :: "bool \<Rightarrow> poll_st \<Rightarrow> u64 \<times> nat \<times> u32" where
  "reported lazy ps =
     (if lazy then (cq_wr_id (lz (ps_cq ps)), cq_status (lz (ps_cq ps)), mlx5_cq_read_wc_qp_num (ps_cq ps))
      else (wc_wr_id (ps_wc ps), wc_status (ps_wc ps), wc_qp_num (ps_wc ps)))"

definition rsc_cached :: "bool \<Rightarrow> cq_env \<Rightarrow> mlx5_resource option \<Rightarrow> bool" where
  "rsc_cached ver env r \<longleftrightarrow> (case r of None \<Rightarrow> True | Some x \<Rightarrow> tab_map (rsc_table ver env) (rsn x) = Some x)"

definition env_ok :: "bool \<Rightarrow> cq_env \<Rightarrow> bool" where
  "env_ok ver env \<longleftrightarrow> tab_ok (rsc_table ver env)"

lemma find_rsc:
  assumes "env_ok ver env"
  shows "(if ver then mlx5_find_uidx (uidx_table env) n else mlx5_find_qp (qp_table env) n) = Inr (tab_map (rsc_table ver env) n)"
  using assms by (cases ver) (simp_all add: env_ok_def rsc_table_def uidx_as_qp find_qp_map)

lemma qp_of_Some:
  assumes "qp_of ver env e = Some q"
  obtains r where "tab_map (rsc_table ver env) (rsn_of ver e) = Some r" "rsn r = rsn_of ver e" "rsc_type r = MLX5_RSC_TYPE_QP" "rsc_obj r = q"
  using assms by (auto simp: qp_of_def split: option.splits if_splits)

lemma cached_rsc:
  assumes ok: "env_ok ver env" "rsc_cached ver env cur" and r: "tab_map (rsc_table ver env) n = Some r" "rsn r = n"
  shows "(if stale cur n then (if ver then mlx5_find_uidx (uidx_table env) n else mlx5_find_qp (qp_table env) n) else Inr cur) = Inr (Some r)"
proof (cases "stale cur n")
  case True
  with find_rsc [OF ok(1), of n] r(1) show ?thesis by (simp only: if_True)
next
  case False
  then obtain x where x: "cur = Some x" "rsn x = n" by (auto simp: stale_def split: option.splits)
  then have "tab_map (rsc_table ver env) n = Some x" using ok(2) by (simp add: rsc_cached_def)
  with r(1) have "x = r" by (simp only: option.inject)
  with x False show ?thesis by (simp only: if_False)
qed

lemma req_context_qp:
  assumes ok: "env_ok ver env" "rsc_cached ver env cur" and q: "qp_of ver env e = Some q"
  shows "\<exists>r. get_req_context env ver (rsn_of ver e) cur = Inr (Some r, Some q) \<and> rsc_cached ver env (Some r)"
proof -
  obtain r where r: "tab_map (rsc_table ver env) (rsn_of ver e) = Some r" "rsn r = rsn_of ver e" "rsc_type r = MLX5_RSC_TYPE_QP" "rsc_obj r = q"
    using qp_of_Some [OF q] .
  then show ?thesis using cached_rsc [OF ok r(1,2)] by (simp add: get_req_context_def rsc_to_mqp_def rsc_cached_def)
qed

lemma cur_rsc_qp:
  assumes ok: "env_ok ver env" "rsc_cached ver env (fst cur)" and q: "qp_of ver env e = Some q"
    and s: "if ver then hp_qp_srq env q = None else e_be32 32 e AND 0xffffff = 0"
  shows "\<exists>r. get_cur_rsc env ver (e_be32 56 e AND 0xffffff) (e_be32 32 e AND 0xffffff) cur = Inr (CQ_OK, Some r, snd cur, False) \<and>
           rsc_cached ver env (Some r) \<and> rsc_type r = MLX5_RSC_TYPE_QP \<and> rsc_obj r = q"
proof -
  obtain r where r: "tab_map (rsc_table ver env) (rsn_of ver e) = Some r" "rsn r = rsn_of ver e" "rsc_type r = MLX5_RSC_TYPE_QP" "rsc_obj r = q"
    using qp_of_Some [OF q] .
  have c: "rsc_cached ver env (Some r)" using r by (simp add: rsc_cached_def)
  note f = cached_rsc [OF ok r(1,2)]
  show ?thesis
  proof (cases ver)
    case True
    let ?u = "e_be32 32 e AND 0xffffff"
    have "(if stale (fst cur) ?u then mlx5_find_uidx (uidx_table env) ?u else Inr (fst cur)) = Inr (Some r)"
      using f by (simp only: rsn_of_def True if_True)
    then have "get_cur_rsc env ver n ?u cur = Inr (CQ_OK, Some r, snd cur, False)" for n
      using True r(3,4) s unfolding get_cur_rsc_def get_resp_ctx_v1_def by simp
    with c r(3,4) show ?thesis by blast
  next
    case False
    let ?n = "e_be32 56 e AND 0xffffff"
    have i: "(if stale (fst cur) ?n then mlx5_find_qp (qp_table env) ?n else Inr (fst cur)) = Inr (Some r)"
      using f by (simp only: rsn_of_def False if_False)
    have "get_qp_ctx env ?n (fst cur) = Inr (CQ_OK, Some r)"
    proof (cases "stale (fst cur) ?n")
      case True
      with i show ?thesis unfolding get_qp_ctx_def by simp
    next
      case False
      with i show ?thesis unfolding get_qp_ctx_def by simp
    qed
    with False s have "get_cur_rsc env ver ?n (e_be32 32 e AND 0xffffff) cur = Inr (CQ_OK, Some r, snd cur, False)" by (simp add: get_cur_rsc_def)
    with c r(3,4) show ?thesis by blast
  qed
qed

text \<open>Each part of the switch completes its entry, for both interfaces.\<close>

definition started :: "bool \<Rightarrow> nat \<Rightarrow> poll_st \<Rightarrow> bool" where
  "started lazy p ps \<longleftrightarrow> (if lazy then cq_cqe64 (ps_cq ps) = p else wc_qp_num (ps_wc ps) = cqe_qpn p (cq_buf (ps_cq ps)))"

definition done_as :: "bool \<Rightarrow> bool \<Rightarrow> (u64 \<times> nat \<times> u32) \<times> cq_env \<Rightarrow> poll_st \<Rightarrow> bool" where
  "done_as lazy ver c ps \<longleftrightarrow> reported lazy ps = fst c \<and> ps_env ps = snd c \<and> rsc_cached ver (ps_env ps) (ps_rsc ps)"

lemma no_inline:
  assumes "(x :: u8) AND NOT 1 = y" "y AND 12 = 0"
  shows "x AND 4 = 0" "x AND 8 = 0"
proof -
  have a: "y AND 4 = (y AND 12) AND 4" "y AND 8 = (y AND 12) AND 8" by (simp_all add: and.assoc)
  have b: "x AND 4 = (x AND NOT 1) AND 4" "x AND 8 = (x AND NOT 1) AND 8" by (simp_all add: and.assoc)
  show "x AND 4 = 0" "x AND 8 = 0" using a b assms by simp_all
qed

lemma set_sq_tail_tables [simp]:
  "rsc_table ver (set_sq_tail q i env) = rsc_table ver env" "hp_qp_srq (set_sq_tail q i env) = hp_qp_srq env"
  by (simp_all add: set_sq_tail_def rsc_table_def Let_def)

lemma hp_qp_tables [simp]: "rsc_table ver (env\<lparr>hp_qp := f\<rparr>) = rsc_table ver env"
  by (simp add: rsc_table_def)

lemma rsc_cached_tables:
  "rsc_cached ver (set_sq_tail q i env) r = rsc_cached ver env r" "rsc_cached ver (env\<lparr>hp_qp := f\<rparr>) r = rsc_cached ver env r"
  by (simp_all add: rsc_cached_def split: option.split)

lemma entry_fields:
  assumes "entry_at p m e"
  shows "cqe_qpn p m = e_be32 56 e AND 0xffffff" "cqe_uidx p m = e_be32 32 e AND 0xffffff" "ld_be16 (p + 60) m = e_be16 60 e"
    "m (p + 40) = e_byte 40 e" "m (p + 54) = e_byte 54 e" "m (p + 55) = e_byte 55 e" "mlx5dv_get_cqe_opcode p m = e_opcode e"
    "(if ver then cqe_uidx p m else cqe_qpn p m) = rsn_of ver e"
  using assms by (auto simp: entry_at_def cqe_qpn_def cqe_uidx_def rsn_of_def)

lemma handle_good_req_fields: "wc_qp_num (handle_good_req p m wq i wc) = wc_qp_num wc"
  by (simp add: handle_good_req_def Let_def)

lemma parse_req_done:
  assumes at: "entry_at p (cq_buf (ps_cq ps)) e" and ok: "env_ok ver (ps_env ps)" "rsc_cached ver (ps_env ps) (ps_rsc ps)"
    and e: "qp_entry ver (ps_env ps) e" "e_opcode e = MLX5_CQE_REQ" and st: "started lazy p ps"
  shows "\<exists>ps'. parse_req lazy ver p cqe ps = Inr (CQ_OK, ps') \<and> done_as lazy ver (complete ver e (ps_env ps)) ps'"
proof -
  let ?m = "cq_buf (ps_cq ps)" and ?env = "ps_env ps"
  obtain q where q: "qp_of ver ?env e = Some q" using e(1) by (auto simp: qp_entry_def split: option.splits)
  obtain r where g: "get_req_context ?env ver (rsn_of ver e) (ps_rsc ps) = Inr (Some r, Some q)" "rsc_cached ver ?env (Some r)"
    using req_context_qp [OF ok q] by blast
  have i: "op_own_at p ?m AND 4 = 0" "op_own_at p ?m AND 8 = 0"
    using no_inline [of "op_own_at p ?m" "last e"] at e(1) by (simp_all add: entry_at_def qp_entry_def)
  have sc: "req_scatter p cqe n q ?m ?env = Inr (IBV_WC_SUCCESS, ?env)" for n by (simp add: req_scatter_def i Let_def)
  have c: "complete ver e ?env = (let qp = hp_qp ?env q; i = unat (ucast (e_be16 60 e) AND (wqe_cnt (sq qp) - 1))
      in ((wrid (sq qp) i, 0, e_be32 56 e AND 0xffffff), set_sq_tail q i ?env))"
    using e(2) by (simp add: complete_def q is_request_def e_status_def set_sq_tail_def Let_def)
  note f = entry_fields [OF at]
  show ?thesis
  proof (cases lazy)
    case True
    then show ?thesis
      using g(2) st unfolding parse_req_def f(8) f(3) g(1) c Let_def
      by (auto simp: sc done_as_def reported_def rsc_cached_tables started_def mlx5_cq_read_wc_qp_num_def f(1) [unfolded cqe_qpn_def])
  next
    case False
    then show ?thesis
      using g(2) st unfolding parse_req_def f(8) f(3) g(1) c Let_def
      by (auto simp: sc done_as_def reported_def rsc_cached_tables started_def f(1) handle_good_req_fields)
  qed
qed

lemma parse_req_err_done:
  assumes at: "entry_at p (cq_buf (ps_cq ps)) e" and ok: "env_ok ver (ps_env ps)" "rsc_cached ver (ps_env ps) (ps_rsc ps)"
    and e: "qp_entry ver (ps_env ps) e" "e_opcode e = MLX5_CQE_REQ_ERR" and st: "started lazy p ps"
  shows "\<exists>ps'. parse_req_err lazy ver p (err_status lazy p ps) = Inr (CQ_OK, ps') \<and> done_as lazy ver (complete ver e (ps_env ps)) ps'"
proof -
  let ?m = "cq_buf (ps_cq ps)" and ?env = "ps_env ps"
  obtain q where q: "qp_of ver ?env e = Some q" using e(1) by (auto simp: qp_entry_def split: option.splits)
  obtain r where g: "get_req_context ?env ver (rsn_of ver e) (ps_rsc ps) = Inr (Some r, Some q)" "rsc_cached ver ?env (Some r)"
    using req_context_qp [OF ok q] by blast
  have c: "complete ver e ?env = (let qp = hp_qp ?env q; i = unat (ucast (e_be16 60 e) AND (wqe_cnt (sq qp) - 1))
      in ((wrid (sq qp) i, mlx5_handle_error_cqe (e_byte 55 e), e_be32 56 e AND 0xffffff), set_sq_tail q i ?env))"
    using e(2) by (simp add: complete_def q is_request_def e_status_def set_sq_tail_def Let_def)
  note f = entry_fields [OF at]
  have b: "cq_buf (ps_cq (err_status lazy p ps)) = ?m" "ps_env (err_status lazy p ps) = ?env" "ps_rsc (err_status lazy p ps) = ps_rsc ps"
    by (simp_all add: err_status_def Let_def)
  show ?thesis
    using g(2) st unfolding parse_req_err_def b f(8) f(3) g(1) c Let_def
    by (cases lazy) (auto simp: done_as_def reported_def rsc_cached_tables started_def set_wr_id_def err_status_def mlx5_cq_read_wc_qp_num_def
        f(1,5,6) f(1) [unfolded cqe_qpn_def])
qed

text \<open>For a receive the oldest request of the receive queue is done.\<close>

lemma complete_receive:
  assumes "qp_of ver env e = Some q" "is_receive e"
  shows "complete ver e env = (let qp = hp_qp env q
      in ((fst (rq_take (rq qp)), e_status e, e_be32 56 e AND 0xffffff), env\<lparr>hp_qp := (hp_qp env)(q := qp\<lparr>rq := snd (rq_take (rq qp))\<rparr>)\<rparr>))"
  using assms by (auto simp: complete_def is_request_def is_receive_def rq_take_def Let_def)

lemma resp_take_qp:
  assumes "op_own_at p m AND 4 = 0" "op_own_at p m AND 8 = 0" "rsc_type r = MLX5_RSC_TYPE_QP" "rsc_obj r = q"
  shows "\<exists>cs. resp_take p m (Some r) None env =
    Inr (IBV_WC_SUCCESS, fst (rq_take (rq (hp_qp env q))), cs, env\<lparr>hp_qp := (hp_qp env)(q := (hp_qp env q)\<lparr>rq := snd (rq_take (rq (hp_qp env q)))\<rparr>)\<rparr>)"
  using assms by (simp add: resp_take_def scatter_at_def Let_def split: prod.split)

lemma handle_responder_qp:
  assumes "resp_take p m r s env = Inr (IBV_WC_SUCCESS, w, cs, env')"
  shows "\<exists>wc'. handle_responder p m r s (wc, env) = Inr (IBV_WC_SUCCESS, wc', env') \<and> wc_wr_id wc' = w \<and> wc_qp_num wc' = wc_qp_num wc"
  using assms by (simp add: handle_responder_def resp_fields_def Let_def)

lemma parse_resp_done:
  assumes at: "entry_at p (cq_buf (ps_cq ps)) e" and ok: "env_ok ver (ps_env ps)" "rsc_cached ver (ps_env ps) (ps_rsc ps)"
    and e: "qp_entry ver (ps_env ps) e" "is_receive e" "e_opcode e \<noteq> MLX5_CQE_RESP_ERR" and st: "started lazy p ps"
  shows "\<exists>ps'. parse_resp lazy ver p ps = Inr (CQ_OK, ps') \<and> done_as lazy ver (complete ver e (ps_env ps)) ps'"
proof -
  let ?m = "cq_buf (ps_cq ps)" and ?env = "ps_env ps"
  have "\<not> is_request e" using e(2) by (auto simp: is_request_def is_receive_def)
  with e(1) obtain q where q: "qp_of ver ?env e = Some q" "e_byte 40 e \<noteq> MLX5_CQE_APP_TAG_MATCHING"
      "if ver then hp_qp_srq ?env q = None else e_be32 32 e AND 0xffffff = 0"
    by (auto simp: qp_entry_def split: option.splits)
  have "rsc_cached ver ?env (fst (ps_rsc ps, ps_srq ps))" using ok(2) by simp
  from cur_rsc_qp [OF ok(1) this q(1,3)] obtain r where g: "get_cur_rsc ?env ver (e_be32 56 e AND 0xffffff) (e_be32 32 e AND 0xffffff) (ps_rsc ps, ps_srq ps) =
      Inr (CQ_OK, Some r, ps_srq ps, False)" "rsc_cached ver ?env (Some r)" "rsc_type r = MLX5_RSC_TYPE_QP" "rsc_obj r = q"
    by auto
  have i: "op_own_at p ?m AND 4 = 0" "op_own_at p ?m AND 8 = 0"
    using no_inline [of "op_own_at p ?m" "last e"] at e(1) by (simp_all add: entry_at_def qp_entry_def)
  have z: "e_status e = IBV_WC_SUCCESS" using e(2,3) by (auto simp: e_status_def is_receive_def)
  note c = complete_receive [OF q(1) e(2), unfolded z]
  obtain cs where t: "resp_take p ?m (Some r) None ?env =
      Inr (IBV_WC_SUCCESS, fst (rq_take (rq (hp_qp ?env q))), cs, ?env\<lparr>hp_qp := (hp_qp ?env)(q := (hp_qp ?env q)\<lparr>rq := snd (rq_take (rq (hp_qp ?env q)))\<rparr>)\<rparr>)"
    using resp_take_qp [OF i g(3,4)] by blast
  note f = entry_fields [OF at]
  show ?thesis
  proof (cases lazy)
    case True
    then show ?thesis
      using g(2) st q(2) unfolding parse_resp_def f(1,2,4) c Let_def
      by (simp add: g(1) handle_responder_lazy_def t done_as_def reported_def rsc_cached_tables started_def mlx5_cq_read_wc_qp_num_def f(1) [unfolded cqe_qpn_def])
  next
    case False
    obtain wc' where w: "handle_responder p ?m (Some r) None (ps_wc ps, ?env) =
        Inr (IBV_WC_SUCCESS, wc', ?env\<lparr>hp_qp := (hp_qp ?env)(q := (hp_qp ?env q)\<lparr>rq := snd (rq_take (rq (hp_qp ?env q)))\<rparr>)\<rparr>)"
        "wc_wr_id wc' = fst (rq_take (rq (hp_qp ?env q)))" "wc_qp_num wc' = wc_qp_num (ps_wc ps)"
      using handle_responder_qp [OF t] by blast
    with False show ?thesis
      using g(2) st unfolding parse_resp_def f(1,2,4) c Let_def
      by (simp add: g(1) done_as_def reported_def rsc_cached_tables started_def f(1))
  qed
qed

lemma parse_resp_err_done:
  assumes at: "entry_at p (cq_buf (ps_cq ps)) e" and ok: "env_ok ver (ps_env ps)" "rsc_cached ver (ps_env ps) (ps_rsc ps)"
    and e: "qp_entry ver (ps_env ps) e" "e_opcode e = MLX5_CQE_RESP_ERR" and st: "started lazy p ps"
  shows "\<exists>ps'. parse_resp_err lazy ver p (err_status lazy p ps) = Inr (False, CQ_OK, ps') \<and> done_as lazy ver (complete ver e (ps_env ps)) ps'"
proof -
  let ?m = "cq_buf (ps_cq ps)" and ?env = "ps_env ps"
  have rc: "is_receive e" and "\<not> is_request e" using e(2) by (auto simp: is_request_def is_receive_def)
  with e(1) obtain q where q: "qp_of ver ?env e = Some q" "if ver then hp_qp_srq ?env q = None else e_be32 32 e AND 0xffffff = 0"
    by (auto simp: qp_entry_def split: option.splits)
  have "rsc_cached ver ?env (fst (ps_rsc ps, ps_srq ps))" using ok(2) by simp
  from cur_rsc_qp [OF ok(1) this q] obtain r where g: "get_cur_rsc ?env ver (e_be32 56 e AND 0xffffff) (e_be32 32 e AND 0xffffff) (ps_rsc ps, ps_srq ps) =
      Inr (CQ_OK, Some r, ps_srq ps, False)" "rsc_cached ver ?env (Some r)" "rsc_type r = MLX5_RSC_TYPE_QP" "rsc_obj r = q"
    by auto
  have z: "e_status e = mlx5_handle_error_cqe (e_byte 55 e)" using e(2) by (simp add: e_status_def)
  note c = complete_receive [OF q(1) rc, unfolded z]
  note f = entry_fields [OF at]
  have b: "cq_buf (ps_cq (err_status lazy p ps)) = ?m" "ps_env (err_status lazy p ps) = ?env" "ps_rsc (err_status lazy p ps) = ps_rsc ps"
    "ps_srq (err_status lazy p ps) = ps_srq ps"
    by (simp_all add: err_status_def Let_def)
  show ?thesis
    using g(2,3,4) st unfolding parse_resp_err_def b f(1,2,3) c Let_def
    by (cases lazy) (auto simp: g(1) done_as_def reported_def rsc_cached_tables started_def set_wr_id_def err_status_def mlx5_cq_read_wc_qp_num_def
        f(1,5,6) f(1) [unfolded cqe_qpn_def] split: prod.split)
qed

lemma parse_one_done:
  assumes at: "entry_at p (cq_buf (ps_cq ps)) e" and ok: "env_ok ver (ps_env ps)" "rsc_cached ver (ps_env ps) (ps_rsc ps)"
    and e: "qp_entry ver (ps_env ps) e"
  shows "\<exists>ps'. parse_one False lazy ver p cqe ps = Inr (False, CQ_OK, ps') \<and> done_as lazy ver (complete ver e (ps_env ps)) ps'"
proof -
  let ?ps = "parse_start lazy p ps"
  have b: "cq_buf (ps_cq ?ps) = cq_buf (ps_cq ps)" "ps_env ?ps = ps_env ps" "ps_rsc ?ps = ps_rsc ps" and st: "started lazy p ?ps"
    by (simp_all add: parse_start_def started_def Let_def)
  note h = at [folded b(1)] ok [folded b(2), folded b(3)] e [folded b(2)]
  have o: "mlx5dv_get_cqe_opcode p (cq_buf (ps_cq ps)) = e_opcode e" using at by (simp add: entry_at_def)
  consider "e_opcode e = MLX5_CQE_REQ" | "e_opcode e = MLX5_CQE_REQ_ERR" | "is_receive e" "e_opcode e \<noteq> MLX5_CQE_RESP_ERR" | "e_opcode e = MLX5_CQE_RESP_ERR"
    using e by (auto simp: qp_entry_def is_request_def split: option.splits)
  then show ?thesis
  proof cases
    case 1
    with parse_req_done [OF h 1 st, of cqe] show ?thesis by (auto simp: parse_one_def o b(2) Let_def)
  next
    case 2
    with parse_req_err_done [OF h 2 st] show ?thesis by (auto simp: parse_one_def o b(2) freezes_def Let_def)
  next
    case 3
    with parse_resp_done [OF h 3 st] show ?thesis by (auto simp: parse_one_def o b(2) is_receive_def Let_def)
  next
    case 4
    with parse_resp_err_done [OF h 4 st] show ?thesis by (auto simp: parse_one_def o b(2) freezes_def Let_def)
  qed
qed

lemma complete_tables:
  "rsc_table v (snd (complete ver e env)) = rsc_table v env" "hp_qp_srq (snd (complete ver e env)) = hp_qp_srq env"
  by (simp_all add: complete_def Let_def)

lemma qp_entry_complete: "qp_entry ver (snd (complete ver e env)) = qp_entry ver env"
proof -
  have "qp_of ver (snd (complete ver e env)) = qp_of ver env" by (simp add: fun_eq_iff qp_of_def complete_tables)
  then show ?thesis unfolding qp_entry_def by (simp only: complete_tables)
qed

lemma parse_cqe_done:
  assumes at: "entry_at p (cq_buf (ps_cq ps)) e" and ok: "env_ok ver (ps_env ps)" "rsc_cached ver (ps_env ps) (ps_rsc ps)"
    and e: "qp_entry ver (ps_env ps) e"
  shows "\<exists>ps'. mlx5_parse_cqe False lazy ver p cqe ps = Inr (CQ_OK, ps') \<and> done_as lazy ver (complete ver e (ps_env ps)) ps' \<and>
           ring (ps_cq ps') = ring (ps_cq ps)"
proof -
  obtain ps' where o: "parse_one False lazy ver p cqe ps = Inr (False, CQ_OK, ps')" "done_as lazy ver (complete ver e (ps_env ps)) ps'"
    using parse_one_done [OF assms] by blast
  moreover have "ring (ps_cq ps') = ring (ps_cq ps)" using parse_one_ring [of ps "ring (ps_cq ps)" lazy ver p cqe] o(1) by simp
  ultimately show ?thesis by (simp add: mlx5_parse_cqe_def)
qed

definition report :: "ibv_wc \<Rightarrow> u64 \<times> nat \<times> u32" where
  "report wc = (wc_wr_id wc, wc_status wc, wc_qp_num wc)"

lemma poll_loop_done:
  assumes "cq_view b (ps_cq ps) es" "list_all (qp_entry ver (ps_env ps)) (take n es)" "n \<le> length wcs"
    and "env_ok ver (ps_env ps)" "rsc_cached ver (ps_env ps) (ps_rsc ps)"
  shows "\<exists>err wcs' ps'. let k = min n (length es) in
    poll_loop n False ver wcs ps = Inr (err, k, wcs', ps') \<and> err \<noteq> CQ_POLL_ERR \<and> drop k wcs' = drop k wcs \<and>
    (map report (take k wcs'), ps_env ps') = completes ver (take k es) (ps_env ps) \<and> ring (ps_cq ps') = ring (taken k (ps_cq ps))"
  using assms
proof (induction n arbitrary: es wcs ps)
  case 0
  then show ?case by (simp add: taken_def)
next
  case (Suc n)
  then obtain wc ws where w: "wcs = wc # ws" by (cases wcs) auto
  show ?case
  proof (cases es)
    case Nil
    then show ?thesis using next_empty [of b "ps_cq ps"] Suc.prems(1) by (simp add: w mlx5_poll_one_def taken_def)
  next
    case (Cons e es')
    obtain p cqe where nx: "mlx5_get_next_cqe (ps_cq ps) = Some (p, cqe, taken 1 (ps_cq ps))" "entry_at p (cq_buf (ps_cq ps)) e"
        "cq_view b (taken 1 (ps_cq ps)) es'"
      using next_entry_at [OF Suc.prems(1) [unfolded Cons]] by blast
    let ?ps = "ps\<lparr>ps_wc := wc, ps_cq := taken 1 (ps_cq ps)\<rparr>"
    have "entry_at p (cq_buf (ps_cq ?ps)) e" "qp_entry ver (ps_env ?ps) e" "env_ok ver (ps_env ?ps)" "rsc_cached ver (ps_env ?ps) (ps_rsc ?ps)"
      using nx(2) Suc.prems Cons by (simp_all add: taken_def)
    from parse_cqe_done [OF this(1,3,4,2), of False cqe] obtain ps1 where
      p1: "mlx5_parse_cqe False False ver p cqe ?ps = Inr (CQ_OK, ps1)" "done_as False ver (complete ver e (ps_env ps)) ps1"
        "ring (ps_cq ps1) = ring (taken 1 (ps_cq ps))"
      by auto
    have one: "mlx5_poll_one False ver (ps\<lparr>ps_wc := wc\<rparr>) = Inr (CQ_OK, ps1)" using nx(1) p1(1) by (simp add: mlx5_poll_one_def)
    have en: "ps_env ps1 = snd (complete ver e (ps_env ps))" "report (ps_wc ps1) = fst (complete ver e (ps_env ps))" "rsc_cached ver (ps_env ps1) (ps_rsc ps1)"
      using p1(2) by (auto simp: done_as_def reported_def report_def)
    have v1: "cq_view b (ps_cq ps1) es'" using ring_view [OF p1(3)] nx(3) by blast
    have "list_all (qp_entry ver (ps_env ps1)) (take n es')" "n \<le> length ws" "env_ok ver (ps_env ps1)"
      using Suc.prems Cons w by (simp_all add: en qp_entry_complete env_ok_def complete_tables)
    from Suc.IH [OF v1 this en(3)] obtain err ws' ps2 where
      r: "poll_loop n False ver ws ps1 = Inr (err, min n (length es'), ws', ps2)" "err \<noteq> CQ_POLL_ERR"
        "drop (min n (length es')) ws' = drop (min n (length es')) ws"
        "(map report (take (min n (length es')) ws'), ps_env ps2) = completes ver (take (min n (length es')) es') (ps_env ps1)"
        "ring (ps_cq ps2) = ring (taken (min n (length es')) (ps_cq ps1))"
      by (auto simp: Let_def)
    have "ring (ps_cq ps2) = ring (taken (1 + min n (length es')) (ps_cq ps))"
      using r(5) ring_taken_cong [OF p1(3)] ring_taken by simp
    moreover have "completes ver (e # take (min n (length es')) es') (ps_env ps) = (report (ps_wc ps1) # map report (take (min n (length es')) ws'), ps_env ps2)"
      using en r(4) by (simp split: prod.split) (metis fst_conv snd_conv)
    ultimately show ?thesis using r one by (simp add: w Cons Let_def)
  qed
qed

text \<open>
  C5. Completions come in order: when the entries are completions of queue pairs, good or failed, \<open>poll_cq\<close>
  returns the number of entries or of elements of the array, whichever is smaller; the elements have, in
  the order of the entries, the identifier of the descriptor each entry is for, its status and its queue
  pair; the send queues are released up to the completed descriptors and the receive queues by one
  for each receive; the rest of the array and of the ring is untouched.
\<close>
theorem poll_cq_in_order:
  assumes "cq_view b cq es" "list_all (qp_entry ver env) (take (nat ne) es)" "nat ne \<le> length wcs" "env_ok ver env"
  shows "\<exists>wcs' cq' env'. let k = min (nat ne) (length es) in
    poll_cq cfg False ver ne wcs (cq, env) = Inr (int k, wcs', cq', env') \<and>
    (map report (take k wcs'), env') = completes ver (take k es) env \<and> drop k wcs' = drop k wcs \<and> took b cq es k cq'"
proof -
  let ?ps = "\<lparr>ps_cq = stall_before cq, ps_env = env, ps_wc = zero_wc, ps_rsc = None, ps_srq = None\<rparr>" and ?k = "min (nat ne) (length es)"
  have v: "cq_view b (ps_cq ?ps) es" using assms(1) ring_view [OF stall_before_ring] by simp
  have "list_all (qp_entry ver (ps_env ?ps)) (take (nat ne) es)" "env_ok ver (ps_env ?ps)" "rsc_cached ver (ps_env ?ps) (ps_rsc ?ps)"
    using assms by (simp_all add: rsc_cached_def)
  from poll_loop_done [OF v this(1) assms(3) this(2,3)] obtain err wcs' ps' where
    r: "poll_loop (nat ne) False ver wcs ?ps = Inr (err, ?k, wcs', ps')" "err \<noteq> CQ_POLL_ERR" "drop ?k wcs' = drop ?k wcs"
      "(map report (take ?k wcs'), ps_env ps') = completes ver (take ?k es) env" "ring (ps_cq ps') = ring (taken ?k (stall_before cq))"
    by (auto simp: Let_def)
  have "ring (ps_cq ps') = ring (taken ?k cq)" using r(5) ring_taken_cong [OF stall_before_ring] by simp
  from took_after [OF assms(1) _ this, of cfg ne err "int ?k"] r show ?thesis by (simp add: poll_cq_def Let_def)
qed

subsection \<open>A ring with two completions\<close>

lemma demo_env_ok: "env_ok False demo_env"
proof -
  have "dom [7 \<mapsto> demo_rsc 7, 8 \<mapsto> demo_rsc 8] = {7, 8 :: nat}" by auto
  then have "row_ok \<lparr>refcnt = 2, tab = Some [7 \<mapsto> demo_rsc 7, 8 \<mapsto> demo_rsc 8]\<rparr>" by (simp add: row_ok_def)
  then show ?thesis by (simp add: env_ok_def rsc_table_def demo_env_def tab_ok_def row_ok_def)
qed

lemma demo_fields: "last (demo_cqe 0 q) = 0" "e_opcode (demo_cqe 0 q) = 0" "e_be16 60 (demo_cqe 0 q) = 0"
  by (simp_all add: demo_cqe_def e_opcode_def e_be16_def field_def be_value_def numeral_eq_Suc)

lemma demo_qp_of: "qp_of False env (demo_cqe 0 7) = Some 7" "qp_of False env (demo_cqe 0 8) = Some 8" if "qp_table env = qp_table demo_env" for env
proof -
  have "tind 7 = 0" "tind 8 = 0" "slot 7 = 7" "slot 8 = 8" by (simp_all add: tind_def slot_def)
  then show "qp_of False env (demo_cqe 0 7) = Some 7" "qp_of False env (demo_cqe 0 8) = Some 8"
    using that by (simp_all add: qp_of_def rsn_of_def rsc_table_def demo_qpn tab_map_def demo_env_def demo_rsc_def)
qed

lemma demo_qp_entries: "list_all (qp_entry False demo_env) [demo_cqe 0 7, demo_cqe 0 8]"
  by (simp add: qp_entry_def demo_fields demo_qp_of is_request_def)

lemma demo_completes: "fst (completes False [demo_cqe 0 7, demo_cqe 0 8] demo_env) = [(700, 0, 7), (800, 0, 8)]"
proof -
  have "hp_qp demo_env q = (demo_qp IBV_QPT_RC)\<lparr>sq := demo_wq\<lparr>wrid := (\<lambda>i. of_nat (100 * q + i))\<rparr>\<rparr>" for q by (simp add: demo_env_def)
  then have "complete False (demo_cqe 0 7) demo_env = ((700, 0, 7), set_sq_tail 7 0 demo_env)"
      "fst (complete False (demo_cqe 0 8) (set_sq_tail 7 0 demo_env)) = (800, 0, 8)"
    using demo_qp_of [of demo_env] demo_qp_of [of "set_sq_tail 7 0 demo_env"]
    by (simp_all add: complete_def demo_fields demo_qpn is_request_def e_status_def set_sq_tail_def Let_def)
  then show ?thesis by (simp add: case_prod_beta)
qed

theorem poll_cq_in_order_witness:
  "\<exists>wcs' cq' env'. poll_cq demo_stall False False 3 [zero_wc, zero_wc, zero_wc] (demo_full, demo_env) = Inr (2, wcs', cq', env') \<and>
     map report (take 2 wcs') = [(700, 0, 7), (800, 0, 8)] \<and> cq_view 2 cq' []"
proof -
  have "list_all (qp_entry False demo_env) (take (nat 3) [demo_cqe 0 7, demo_cqe 0 8])" using demo_qp_entries by simp
  from poll_cq_in_order [OF demo_entries [folded demo_full_def] this, where wcs = "[zero_wc, zero_wc, zero_wc]" and cfg = demo_stall] demo_env_ok
  obtain wcs' cq' env' where "poll_cq demo_stall False False 3 [zero_wc, zero_wc, zero_wc] (demo_full, demo_env) = Inr (2, wcs', cq', env')"
    "(map report (take 2 wcs'), env') = completes False [demo_cqe 0 7, demo_cqe 0 8] demo_env"
    "took 2 demo_full [demo_cqe 0 7, demo_cqe 0 8] 2 cq'"
    by (auto simp: Let_def numeral_2_eq_2 simp del: completes.simps)
  moreover from this(2) demo_completes have "map report (take 2 wcs') = [(700, 0, 7), (800, 0, 8)]" by (metis fst_conv)
  ultimately show ?thesis by (simp add: took_def numeral_2_eq_2)
qed

end
