(* ===== verification/Cq_Agree.thy ===== *)
theory Cq_Agree
  imports Cq_Order
begin

text \<open>
  The two polling interfaces run in lock step: from the same entries they find the same objects, change them in
  the same way and fail in the same way, and the fields that the extended interface reads one by one are those
  that the classic one stores.
\<close>

subsection \<open>Lock step\<close>

lemma lock_bind:
  "rel_sum (=) R x y \<Longrightarrow> (\<And>a b. R a b \<Longrightarrow> rel_sum (=) S (f a) (g b)) \<Longrightarrow> rel_sum (=) S (bind_res x f) (bind_res y g)"
  by (cases x; cases y) auto

lemma lock_same: "(\<And>a. x = Inr a \<Longrightarrow> rel_sum (=) S (f a) (g a)) \<Longrightarrow> rel_sum (=) S (bind_res x f) (bind_res x g)"
  by (cases x) auto

lemma lock_option:
  "rel_sum (=) S a b \<Longrightarrow> (\<And>i. rel_sum (=) S (f i) (g i)) \<Longrightarrow>
   rel_sum (=) S (case q of None \<Rightarrow> a | Some i \<Rightarrow> f i) (case q of None \<Rightarrow> b | Some i \<Rightarrow> g i)"
  by (simp split: option.split)

lemma lock_if: "(c \<Longrightarrow> rel_sum (=) S a b) \<Longrightarrow> (\<not> c \<Longrightarrow> rel_sum (=) S a' b') \<Longrightarrow> rel_sum (=) S (if c then a else a') (if c then b else b')"
  by simp

lemma lock_prod: "(\<And>x y. q = (x, y) \<Longrightarrow> rel_sum (=) S (f x y) (g x y)) \<Longrightarrow> rel_sum (=) S (case q of (x, y) \<Rightarrow> f x y) (case q of (x, y) \<Rightarrow> g x y)"
  by (simp split: prod.split)

lemma lock_Inr: "S x y \<Longrightarrow> rel_sum (=) S (Inr x) (Inr y)" and lock_Inl: "rel_sum (=) S (Inl f) (Inl f)"
  by simp_all

lemmas lock = lock_same lock_if lock_option lock_prod lock_Inr lock_Inl

lemma lock_weaken: "rel_sum (=) R x y \<Longrightarrow> (\<And>a b. R a b \<Longrightarrow> S a b) \<Longrightarrow> rel_sum (=) S x y"
  by (cases x; cases y) auto

definition same_rest :: "poll_st \<Rightarrow> poll_st \<Rightarrow> bool" where
  "same_rest a b \<longleftrightarrow> ps_env a = ps_env b \<and> ps_rsc a = ps_rsc b \<and> ps_srq a = ps_srq b \<and> ring (ps_cq a) = ring (ps_cq b)"

text \<open>
  What the extended interface reads of the entry it stands at is what the classic one has stored.  Of a request the
  two differ in two fields: the classic interface flags an immediate operand that was sent, for which the reader of
  the flags has no case and gives 0 where the entry carries no mark of a received message, and it stores the length 8 for
  an atomic, where the reader gives the byte count of the entry.
\<close>

definition req_reads :: "ibv_wc \<Rightarrow> mlx5_cq \<Rightarrow> bool" where
  "req_reads wc cq \<longleftrightarrow>
     (let sop = cqe_sop (cq_cqe64 cq) (cq_buf cq)
      in wc_opcode wc = mlx5_cq_read_wc_opcode cq \<and>
         wc_flags wc = (if sop = MLX5_OPCODE_SEND_IMM \<or> sop = MLX5_OPCODE_RDMA_WRITE_IMM then IBV_WC_WITH_IMM else 0) \<and>
         (cq_buf cq (cq_cqe64 cq + 40) \<noteq> MLX5_CQE_APP_TAG_MATCHING \<and> wc_grh (cq_cqe64 cq) (cq_buf cq) = 0 \<longrightarrow>
            mlx5_cq_read_wc_flags cq = 0) \<and>
         (sop = MLX5_OPCODE_RDMA_READ \<longrightarrow> wc_byte_len wc = mlx5_cq_read_wc_byte_len cq) \<and>
         (sop = MLX5_OPCODE_ATOMIC_CS \<or> sop = MLX5_OPCODE_ATOMIC_FA \<longrightarrow> wc_byte_len wc = 8))"

definition reads_as :: "ibv_wc \<Rightarrow> mlx5_cq \<Rightarrow> bool" where
  "reads_as wc cq \<longleftrightarrow>
     (let op = mlx5dv_get_cqe_opcode (cq_cqe64 cq) (cq_buf cq)
      in wc_wr_id wc = cq_wr_id (lz cq) \<and> wc_status wc = cq_status (lz cq) \<and> wc_qp_num wc = mlx5_cq_read_wc_qp_num cq \<and>
         (if op = MLX5_CQE_REQ_ERR \<or> op = MLX5_CQE_RESP_ERR then vendor_err wc = mlx5_cq_read_wc_vendor_err cq
          else if op = MLX5_CQE_REQ then req_reads wc cq
          else wc_status wc \<noteq> IBV_WC_SUCCESS \<or>
            wc_opcode wc = mlx5_cq_read_wc_opcode cq \<and> wc_flags wc = mlx5_cq_read_wc_flags cq \<and>
            wc_byte_len wc = mlx5_cq_read_wc_byte_len cq \<and> ucast (wc_slid wc) = mlx5_cq_read_wc_slid cq \<and>
            wc_sl wc = mlx5_cq_read_wc_sl cq \<and> wc_src_qp wc = mlx5_cq_read_wc_src_qp cq \<and>
            wc_dlid_path_bits wc = mlx5_cq_read_wc_dlid_path_bits cq \<and>
            (op = MLX5_CQE_RESP_SEND \<or> wc_imm wc = mlx5_cq_read_wc_imm_data cq)))"

text \<open>
  Entries that both interfaces know: not of tag matching, which only the extended one supports, requests of the
  operations that the driver posts, and data of a request only in the entry of a read or an atomic.
\<close>

definition known_sop :: "u32 \<Rightarrow> bool" where
  "known_sop op \<longleftrightarrow> op \<in> {MLX5_OPCODE_RDMA_WRITE_IMM, MLX5_OPCODE_RDMA_WRITE, MLX5_OPCODE_SEND_IMM, MLX5_OPCODE_SEND, MLX5_OPCODE_SEND_INVAL,
     MLX5_OPCODE_RDMA_READ, MLX5_OPCODE_ATOMIC_CS, MLX5_OPCODE_ATOMIC_FA, MLX5_OPCODE_UMR, MLX5_OPCODE_SET_PSV, MLX5_OPCODE_NOP,
     MLX5_OPCODE_MMO, MLX5_OPCODE_TSO}"

definition data_sop :: "u32 \<Rightarrow> bool" where
  "data_sop op \<longleftrightarrow> op \<in> {MLX5_OPCODE_RDMA_READ, MLX5_OPCODE_ATOMIC_CS, MLX5_OPCODE_ATOMIC_FA}"

definition plain_at :: "nat \<Rightarrow> mem \<Rightarrow> bool" where
  "plain_at p m \<longleftrightarrow>
     (let op = mlx5dv_get_cqe_opcode p m
      in op \<in> {MLX5_CQE_SIG_ERR, MLX5_CQE_REQ_ERR, MLX5_CQE_RESP_ERR} \<or>
         op \<in> {MLX5_CQE_RESP_WR_IMM, MLX5_CQE_RESP_SEND, MLX5_CQE_RESP_SEND_IMM, MLX5_CQE_RESP_SEND_INV} \<and> m (p + 40) \<noteq> MLX5_CQE_APP_TAG_MATCHING \<or>
         op = MLX5_CQE_REQ \<and> known_sop (cqe_sop p m) \<and> (data_sop (cqe_sop p m) \<or> op_own_at p m AND 4 = 0 \<and> op_own_at p m AND 8 = 0))"

text \<open>The two states at the start of the switch.\<close>

definition both_started :: "nat \<Rightarrow> poll_st \<Rightarrow> poll_st \<Rightarrow> bool" where
  "both_started p a b \<longleftrightarrow> same_rest a b \<and> wc_flags (ps_wc a) = 0 \<and> wc_qp_num (ps_wc a) = cqe_qpn p (cq_buf (ps_cq a)) \<and>
     cq_cqe64 (ps_cq b) = p \<and> cq_flags (ps_cq b) AND 128 = 0 \<and> cq_flags (ps_cq b) AND 1 = 0 \<and> \<not> tm_sync_req (lz (ps_cq b))"

lemma start_both:
  assumes "same_rest a b"
  shows "both_started p (parse_start False p a) (parse_start True p b)"
proof -
  have "(x AND NOT (1 OR 128)) AND 128 = 0" "(x AND NOT (1 OR 128)) AND 1 = 0" for x :: u32
    by (simp_all add: and.assoc)
  with assms show ?thesis by (simp add: both_started_def parse_start_def same_rest_def ring_def Let_def)
qed

definition agree :: "int \<times> poll_st \<Rightarrow> int \<times> poll_st \<Rightarrow> bool" where
  "agree x y \<longleftrightarrow> fst x = fst y \<and> same_rest (snd x) (snd y) \<and> (fst x = CQ_OK \<longrightarrow> reads_as (ps_wc (snd x)) (ps_cq (snd y)))"

lemma set_raw: "(x OR 128 :: u32) AND 128 \<noteq> 0"
proof -
  have "(x OR 128) AND 128 = 128" by (simp add: bit.conj_disj_distrib2)
  then show ?thesis by simp
qed

lemma good_req_byte_len:
  assumes "data_sop (cqe_sop p m)"
  shows "wc_byte_len (handle_good_req p m wq i wc) = (if cqe_sop p m = MLX5_OPCODE_RDMA_READ then ld_be32 (p + 44) m else 8)"
  using assms by (auto simp: data_sop_def handle_good_req_def Let_def)

lemma good_req_flags:
  "wc_flags (handle_good_req p m wq i wc) =
     (if cqe_sop p m = MLX5_OPCODE_SEND_IMM \<or> cqe_sop p m = MLX5_OPCODE_RDMA_WRITE_IMM then wc_flags wc OR IBV_WC_WITH_IMM else wc_flags wc)"
  by (simp add: handle_good_req_def Let_def)

lemma other_flag: "(x OR 128 :: u32) AND 1 = x AND 1"
  by (simp add: bit.conj_disj_distrib2)

lemma good_req_opcode:
  assumes "known_sop (cqe_sop p m)" "mlx5dv_get_cqe_opcode p m = MLX5_CQE_REQ" "cq_cqe64 cq = p" "cq_buf cq = m"
    and "cq_flags cq AND 128 \<noteq> 0 \<longleftrightarrow> wr_data wq i = IBV_WC_DRIVER2"
    and "cqe_sop p m \<in> {MLX5_OPCODE_UMR, MLX5_OPCODE_SET_PSV, MLX5_OPCODE_NOP, MLX5_OPCODE_MMO} \<Longrightarrow> cached_opcode cq = wr_data wq i"
  shows "wc_opcode (handle_good_req p m wq i wc) = mlx5_cq_read_wc_opcode cq"
  using assms by (auto simp: known_sop_def handle_good_req_def mlx5_cq_read_wc_opcode_def Let_def)

lemma req_scatter_none:
  "op_own_at p m AND 4 = 0 \<Longrightarrow> op_own_at p m AND 8 = 0 \<Longrightarrow> req_scatter p cqe n q m env = Inr (IBV_WC_SUCCESS, env)"
  by (simp add: req_scatter_def Let_def)

lemma started_same:
  assumes "both_started p a b"
  shows "ps_env b = ps_env a" "ps_rsc b = ps_rsc a" "ps_srq b = ps_srq a" "ring (ps_cq b) = ring (ps_cq a)" "cq_buf (ps_cq b) = cq_buf (ps_cq a)"
    "cq_cqe64 (ps_cq b) = p" "cq_flags (ps_cq b) AND 128 = 0" "cq_flags (ps_cq b) AND 1 = 0" "\<not> tm_sync_req (lz (ps_cq b))"
    "wc_qp_num (ps_wc a) = cqe_qpn p (cq_buf (ps_cq a))" "wc_flags (ps_wc a) = 0"
  using assms by (auto simp: both_started_def same_rest_def ring_def)

lemma req_done_agree:
  assumes st: "both_started p a b" and op: "mlx5dv_get_cqe_opcode p m = MLX5_CQE_REQ" and k: "known_sop (cqe_sop p m)" and m: "m = cq_buf (ps_cq a)"
  shows "agree (CQ_OK, a\<lparr>ps_rsc := r, ps_wc := (handle_good_req p m wq i (ps_wc a))\<lparr>wc_wr_id := w, wc_status := err\<rparr>, ps_env := env\<rparr>)
    (CQ_OK, b\<lparr>ps_rsc := r, ps_cq := (ps_cq (b\<lparr>ps_rsc := r\<rparr>))
       \<lparr>cached_opcode := (if cqe_sop p m = MLX5_OPCODE_UMR \<or> cqe_sop p m = MLX5_OPCODE_SET_PSV \<or> cqe_sop p m = MLX5_OPCODE_NOP \<or> cqe_sop p m = MLX5_OPCODE_MMO
                          then wr_data wq i else cached_opcode (ps_cq (b\<lparr>ps_rsc := r\<rparr>))),
        lz := (lz (ps_cq (b\<lparr>ps_rsc := r\<rparr>)))\<lparr>cq_wr_id := w, cq_status := err\<rparr>,
        cq_flags := (if wr_data wq i = IBV_WC_DRIVER2 then cq_flags (ps_cq (b\<lparr>ps_rsc := r\<rparr>)) OR MLX5_CQ_FLAGS_RAW_WQE
                     else cq_flags (ps_cq (b\<lparr>ps_rsc := r\<rparr>)))\<rparr>, ps_env := env\<rparr>)"
    (is "agree (_, ?a) (_, ?b)")
proof -
  note s = started_same [OF st]
  have "wc_opcode (handle_good_req p m wq i (ps_wc a)) = mlx5_cq_read_wc_opcode (ps_cq ?b)"
    by (rule good_req_opcode [OF k op]) (use s set_raw m in \<open>auto split: if_splits\<close>)
  moreover have "mlx5_cq_read_wc_flags (ps_cq ?b) = 0" if "m (p + 40) \<noteq> MLX5_CQE_APP_TAG_MATCHING" "wc_grh p m = 0"
    using that s op m other_flag by (simp add: mlx5_cq_read_wc_flags_def Let_def)
  ultimately have "req_reads (ps_wc ?a) (ps_cq ?b)"
    using s good_req_flags [of p m wq i "ps_wc a"] good_req_byte_len [of p m wq i "ps_wc a"] m
    by (auto simp: req_reads_def Let_def data_sop_def mlx5_cq_read_wc_byte_len_def)
  with s op m show ?thesis
    by (simp add: agree_def same_rest_def reads_as_def mlx5_cq_read_wc_qp_num_def cqe_qpn_def handle_good_req_fields Let_def)
qed

lemma parse_req_agree:
  assumes st: "both_started p a b" and op: "mlx5dv_get_cqe_opcode p (cq_buf (ps_cq a)) = MLX5_CQE_REQ" and pl: "plain_at p (cq_buf (ps_cq a))"
  shows "rel_sum (=) agree (parse_req False ver p cqe a) (parse_req True ver p cqe b)"
proof -
  let ?m = "cq_buf (ps_cq a)" and ?env = "ps_env a"
  note s = started_same [OF st]
  have k: "known_sop (cqe_sop p ?m)" and d: "data_sop (cqe_sop p ?m) \<or> op_own_at p ?m AND 4 = 0 \<and> op_own_at p ?m AND 8 = 0"
    using pl op by (auto simp: plain_at_def Let_def)
  have w: "req_scatter p cqe (wc_byte_len (handle_good_req p ?m wq i wc)) q ?m ?env =
      (if cqe_sop p ?m = MLX5_OPCODE_RDMA_READ then req_scatter p cqe (ld_be32 (p + 44) ?m) q ?m ?env
       else if cqe_sop p ?m = MLX5_OPCODE_ATOMIC_CS \<or> cqe_sop p ?m = MLX5_OPCODE_ATOMIC_FA then req_scatter p cqe 8 q ?m ?env
       else Inr (IBV_WC_SUCCESS, ?env))" for wq i wc q
    using good_req_byte_len [of p ?m wq i wc] d req_scatter_none [of p ?m] by (cases "data_sop (cqe_sop p ?m)") (auto simp: data_sop_def)
  show ?thesis
    unfolding parse_req_def Let_def s(1,2,5) w if_True if_False
  proof (rule lock_same, clarify, rule lock_option)
    fix r
    show "rel_sum (=) agree (Inr (CQ_POLL_ERR, a\<lparr>ps_rsc := r\<rparr>)) (Inr (CQ_POLL_ERR, b\<lparr>ps_rsc := r\<rparr>))"
      using s by (simp add: agree_def same_rest_def)
  qed (rule lock_same, clarify, unfold rel_sum_simps, rule req_done_agree [OF st op k refl])
qed

lemma resp_fields_read:
  assumes op: "mlx5dv_get_cqe_opcode p m \<in> {MLX5_CQE_RESP_WR_IMM, MLX5_CQE_RESP_SEND, MLX5_CQE_RESP_SEND_IMM, MLX5_CQE_RESP_SEND_INV}"
    and ap: "m (p + 40) \<noteq> MLX5_CQE_APP_TAG_MATCHING"
    and cq: "cq_cqe64 cq = p" "cq_buf cq = m" "\<not> tm_sync_req (lz cq)" "cq_status (lz cq) = err" "cq_wr_id (lz cq) = wc_wr_id wc"
    and wc: "wc_byte_len wc = ld_be32 (p + 44) m" "wc_qp_num wc = cqe_qpn p m"
      "wc_flags wc = (if cq_flags cq AND MLX5_CQ_FLAGS_RX_CSUM_VALID \<noteq> 0 then get_csum_ok p m else 0)"
  shows "reads_as ((if err \<noteq> 0 then wc else resp_fields p m wc)\<lparr>wc_status := err\<rparr>) cq"
proof -
  note rd = reads_as_def mlx5_cq_read_wc_qp_num_def mlx5_cq_read_wc_opcode_def mlx5_cq_read_wc_flags_def mlx5_cq_read_wc_byte_len_def
    mlx5_cq_read_wc_slid_def mlx5_cq_read_wc_sl_def mlx5_cq_read_wc_src_qp_def mlx5_cq_read_wc_dlid_path_bits_def mlx5_cq_read_wc_imm_data_def
    resp_fields_def Let_def cqe_qpn_def
  have o: "drop_bit 4 (op_own_at p m) = mlx5dv_get_cqe_opcode p m" by (simp add: mlx5dv_get_cqe_opcode_def)
  show ?thesis
  proof (cases "err = 0")
    case True
    from op consider (1) "mlx5dv_get_cqe_opcode p m = 1" | (2) "mlx5dv_get_cqe_opcode p m = 2" | (3) "mlx5dv_get_cqe_opcode p m = 3" | (4) "mlx5dv_get_cqe_opcode p m = 4"
      by auto
    then show ?thesis
    proof cases
      case 1
      then show ?thesis using True cq wc ap by (simp add: rd o split del: if_split)
    next
      case 2
      then show ?thesis using True cq wc ap by (simp add: rd o split del: if_split)
    next
      case 3
      then show ?thesis using True cq wc ap by (simp add: rd o split del: if_split)
    next
      case 4
      then show ?thesis using True cq wc ap by (simp add: rd o split del: if_split)
    qed
  next
    case False
    then show ?thesis using op cq wc by (auto simp: reads_as_def mlx5_cq_read_wc_qp_num_def cqe_qpn_def Let_def)
  qed
qed

lemma csum_flag: "(x :: u32) AND 1 = 0 \<Longrightarrow> (if c then x OR 1 else x) AND 1 \<noteq> 0 \<longleftrightarrow> c"
  by (simp add: bit.conj_disj_distrib2)

lemma resp_done_agree:
  assumes st: "both_started p a b" and ap: "cq_buf (ps_cq a) (p + 40) \<noteq> MLX5_CQE_APP_TAG_MATCHING"
    and op: "mlx5dv_get_cqe_opcode p (cq_buf (ps_cq a)) \<in> {MLX5_CQE_RESP_WR_IMM, MLX5_CQE_RESP_SEND, MLX5_CQE_RESP_SEND_IMM, MLX5_CQE_RESP_SEND_INV}"
  shows "rel_sum (=) (\<lambda>(err, wc, env) (err', cq, env'). err = err' \<and> env = env' \<and> ring cq = ring (ps_cq a) \<and>
           reads_as (wc\<lparr>wc_status := err\<rparr>) (cq\<lparr>lz := (lz cq)\<lparr>cq_status := err\<rparr>\<rparr>))
     (handle_responder p (cq_buf (ps_cq a)) r s (ps_wc a, env)) (handle_responder_lazy p r s (ps_cq b, env))"
proof -
  let ?m = "cq_buf (ps_cq a)"
  note s = started_same [OF st]
  have "reads_as ((if err \<noteq> 0 then wc else resp_fields p ?m wc)\<lparr>wc_status := err\<rparr>) (cq\<lparr>lz := (lz cq)\<lparr>cq_status := err\<rparr>\<rparr>)"
    if "cq = (ps_cq b)\<lparr>lz := (lz (ps_cq b))\<lparr>cq_wr_id := w\<rparr>,
                       cq_flags := (if csum then cq_flags (ps_cq b) OR MLX5_CQ_FLAGS_RX_CSUM_VALID else cq_flags (ps_cq b))\<rparr>"
      "wc = (ps_wc a)\<lparr>wc_byte_len := ld_be32 (p + 44) ?m, wc_wr_id := w,
                       wc_flags := (if csum then wc_flags (ps_wc a) OR get_csum_ok p ?m else wc_flags (ps_wc a))\<rparr>" for cq wc w csum err
    unfolding that by (rule resp_fields_read [OF op ap]) (use s csum_flag [OF s(8)] in simp_all)
  note rd = this [OF refl refl]
  show ?thesis
    unfolding handle_responder_def handle_responder_lazy_def prod.case s(5)
  proof (rule lock_same, clarify, unfold Let_def rel_sum_simps)
    fix err w csum env1
    show "(case if err \<noteq> 0
       then (err, (ps_wc a)\<lparr>wc_byte_len := ld_be32 (p + 44) ?m, wc_wr_id := w,
              wc_flags := if csum then wc_flags (ps_wc a) OR get_csum_ok p ?m else wc_flags (ps_wc a)\<rparr>, env1)
       else (IBV_WC_SUCCESS, resp_fields p ?m ((ps_wc a)\<lparr>wc_byte_len := ld_be32 (p + 44) ?m, wc_wr_id := w,
              wc_flags := if csum then wc_flags (ps_wc a) OR get_csum_ok p ?m else wc_flags (ps_wc a)\<rparr>), env1) of
       (err, wc, env) \<Rightarrow> \<lambda>(err', cq, env'). err = err' \<and> env = env' \<and> ring cq = ring (ps_cq a) \<and>
          reads_as (wc\<lparr>wc_status := err\<rparr>) (cq\<lparr>lz := (lz cq)\<lparr>cq_status := err\<rparr>\<rparr>))
      (err, (ps_cq b)\<lparr>lz := (lz (ps_cq b))\<lparr>cq_wr_id := w\<rparr>,
         cq_flags := if csum then cq_flags (ps_cq b) OR MLX5_CQ_FLAGS_RX_CSUM_VALID else cq_flags (ps_cq b)\<rparr>, env1)"
      using rd [of err csum w] s(4) by (cases "err = 0") (simp_all split del: if_split)
  qed
qed

lemma parse_resp_agree:
  assumes st: "both_started p a b" and ap: "cq_buf (ps_cq a) (p + 40) \<noteq> MLX5_CQE_APP_TAG_MATCHING"
    and op: "mlx5dv_get_cqe_opcode p (cq_buf (ps_cq a)) \<in> {MLX5_CQE_RESP_WR_IMM, MLX5_CQE_RESP_SEND, MLX5_CQE_RESP_SEND_IMM, MLX5_CQE_RESP_SEND_INV}"
  shows "rel_sum (=) agree (parse_resp False ver p a) (parse_resp True ver p b)"
proof -
  note s = started_same [OF st]
  show ?thesis
    unfolding parse_resp_def Let_def s(1,2,3,5) if_True if_False if_P [OF ap]
  proof (rule lock_same, clarify, rule lock_if)
    fix r s' is_srq err
    show "rel_sum (=) agree (Inr (CQ_POLL_ERR, a\<lparr>ps_rsc := r, ps_srq := s'\<rparr>)) (Inr (CQ_POLL_ERR, b\<lparr>ps_rsc := r, ps_srq := s'\<rparr>))"
      using s by (simp add: agree_def same_rest_def)
  qed (rule lock_bind [OF resp_done_agree [OF st ap op]], use s in \<open>auto simp: agree_def same_rest_def\<close>)
qed

text \<open>Errors.\<close>

lemma err_status_both:
  assumes st: "both_started p a b" and op: "mlx5dv_get_cqe_opcode p (cq_buf (ps_cq a)) \<in> {MLX5_CQE_REQ_ERR, MLX5_CQE_RESP_ERR}"
  shows "same_rest (err_status False p a) (err_status True p b)"
    "reads_as ((ps_wc (err_status False p a))\<lparr>wc_wr_id := w\<rparr>) ((ps_cq (err_status True p b))\<lparr>lz := (lz (ps_cq (err_status True p b)))\<lparr>cq_wr_id := w\<rparr>\<rparr>)"
    "cq_buf (ps_cq (err_status False p a)) = cq_buf (ps_cq a)"
proof -
  note s = started_same [OF st]
  show "same_rest (err_status False p a) (err_status True p b)" using s by (simp add: err_status_def same_rest_def Let_def)
  show "reads_as ((ps_wc (err_status False p a))\<lparr>wc_wr_id := w\<rparr>) ((ps_cq (err_status True p b))\<lparr>lz := (lz (ps_cq (err_status True p b)))\<lparr>cq_wr_id := w\<rparr>\<rparr>)"
    using s op by (simp add: err_status_def reads_as_def mlx5_cq_read_wc_qp_num_def mlx5_cq_read_wc_vendor_err_def cqe_qpn_def Let_def)
  show "cq_buf (ps_cq (err_status False p a)) = cq_buf (ps_cq a)" by (simp add: err_status_def Let_def)
qed

text \<open>Two states that differ only in where the completion is, and read alike with every identifier.\<close>

definition err_both :: "poll_st \<Rightarrow> poll_st \<Rightarrow> bool" where
  "err_both a b \<longleftrightarrow> same_rest a b \<and> (\<forall>w. reads_as ((ps_wc a)\<lparr>wc_wr_id := w\<rparr>) ((ps_cq b)\<lparr>lz := (lz (ps_cq b))\<lparr>cq_wr_id := w\<rparr>\<rparr>))"

lemma err_both_same: "err_both a b \<Longrightarrow> ps_env b = ps_env a \<and> ps_rsc b = ps_rsc a \<and> ps_srq b = ps_srq a \<and> cq_buf (ps_cq b) = cq_buf (ps_cq a)"
  by (auto simp: err_both_def same_rest_def ring_def)

lemma err_both_poll_err: "err_both a b \<Longrightarrow> agree (CQ_POLL_ERR, a\<lparr>ps_rsc := r\<rparr>) (CQ_POLL_ERR, b\<lparr>ps_rsc := r\<rparr>)"
  "err_both a b \<Longrightarrow> agree (CQ_POLL_ERR, a\<lparr>ps_rsc := r, ps_srq := s\<rparr>) (CQ_POLL_ERR, b\<lparr>ps_rsc := r, ps_srq := s\<rparr>)"
  by (simp_all add: err_both_def agree_def same_rest_def)

lemma err_both_done:
  assumes "err_both a b"
  shows "agree (CQ_OK, (set_wr_id False w (a\<lparr>ps_rsc := r\<rparr>))\<lparr>ps_env := env\<rparr>) (CQ_OK, (set_wr_id True w (b\<lparr>ps_rsc := r\<rparr>))\<lparr>ps_env := env\<rparr>)"
    "agree (CQ_OK, (set_wr_id False w (a\<lparr>ps_rsc := r, ps_srq := s\<rparr>))\<lparr>ps_env := env\<rparr>) (CQ_OK, (set_wr_id True w (b\<lparr>ps_rsc := r, ps_srq := s\<rparr>))\<lparr>ps_env := env\<rparr>)"
  using assms by (simp_all add: err_both_def agree_def same_rest_def set_wr_id_def)

lemma parse_req_err_agree:
  assumes "err_both a b"
  shows "rel_sum (=) agree (parse_req_err False ver p a) (parse_req_err True ver p b)"
proof -
  note s = err_both_same [OF assms, THEN conjunct1] err_both_same [OF assms, THEN conjunct2, THEN conjunct1]
    err_both_same [OF assms, THEN conjunct2, THEN conjunct2, THEN conjunct2]
  show ?thesis
    unfolding parse_req_err_def Let_def s
    by (rule lock err_both_poll_err [OF assms] err_both_done [OF assms])+
qed

text \<open>An entry that is skipped leaves only the rest of the state.\<close>

definition agree1 :: "bool \<times> int \<times> poll_st \<Rightarrow> bool \<times> int \<times> poll_st \<Rightarrow> bool" where
  "agree1 x y \<longleftrightarrow> fst x = fst y \<and> same_rest (snd (snd x)) (snd (snd y)) \<and> (fst x \<or> agree (snd x) (snd y))"

lemma agree1_last: "agree x y \<Longrightarrow> agree1 (False, x) (False, y)"
  by (simp add: agree1_def agree_def)

lemma parse_resp_err_agree:
  assumes "err_both a b"
  shows "rel_sum (=) agree1 (parse_resp_err False ver p a) (parse_resp_err True ver p b)"
proof -
  note s = err_both_same [OF assms, THEN conjunct1] err_both_same [OF assms, THEN conjunct2, THEN conjunct1]
    err_both_same [OF assms, THEN conjunct2, THEN conjunct2, THEN conjunct1] err_both_same [OF assms, THEN conjunct2, THEN conjunct2, THEN conjunct2]
  have o: "agree1 (True, CQ_OK, a\<lparr>ps_rsc := r, ps_srq := k, ps_env := env\<rparr>) (True, CQ_OK, b\<lparr>ps_rsc := r, ps_srq := k, ps_env := env\<rparr>)" for r k env
    using assms by (simp add: agree1_def err_both_def same_rest_def)
  note fin = agree1_last [OF err_both_poll_err(2) [OF assms]] agree1_last [OF err_both_done(2) [OF assms]] o
  show ?thesis
    unfolding parse_resp_err_def Let_def s
    by (rule lock fin)+
qed

lemma parse_sig_err_agree:
  assumes "same_rest a b"
  shows "rel_sum (=) agree1
    (bind_res (parse_sig_err p a) (\<lambda>r. case r of None \<Rightarrow> Inr (False, CQ_POLL_ERR, a) | Some x \<Rightarrow> Inr (True, CQ_OK, x)))
    (bind_res (parse_sig_err p b) (\<lambda>r. case r of None \<Rightarrow> Inr (False, CQ_POLL_ERR, b) | Some x \<Rightarrow> Inr (True, CQ_OK, x)))"
proof -
  have s: "ps_env b = ps_env a" "cq_buf (ps_cq b) = cq_buf (ps_cq a)" using assms by (auto simp: same_rest_def ring_def)
  have "rel_sum (=) (rel_option same_rest) (parse_sig_err p a) (parse_sig_err p b)"
    unfolding parse_sig_err_def Let_def s by (rule lock)+ (use assms in \<open>auto simp: same_rest_def split: option.split\<close>)
  then show ?thesis
    by (rule lock_bind) (use assms in \<open>auto simp: agree1_def agree_def rel_option_iff split: option.splits\<close>)
qed

lemma parse_one_agree:
  assumes r: "same_rest a b" and pl: "plain_at p (cq_buf (ps_cq a))"
  shows "rel_sum (=) agree1 (parse_one False False ver p cqe a) (parse_one False True ver p cqe b)"
proof -
  let ?a = "parse_start False p a" and ?b = "parse_start True p b" and ?m = "cq_buf (ps_cq a)"
  have st: "both_started p ?a ?b" by (rule start_both [OF r])
  have m: "cq_buf (ps_cq ?a) = ?m" "cq_buf (ps_cq b) = ?m" using r by (auto simp: parse_start_def same_rest_def ring_def Let_def)
  have fin: "rel_sum (=) agree1 (bind_res x (\<lambda>(err, ps'). Inr (False, err, ps'))) (bind_res y (\<lambda>(err, ps'). Inr (False, err, ps')))"
    if "rel_sum (=) agree x y" for x y
    by (rule lock_bind [OF that]) (auto simp: agree1_def agree_def)
  have e: "err_both (err_status False p ?a) (err_status True p ?b)" if "mlx5dv_get_cqe_opcode p ?m \<in> {MLX5_CQE_REQ_ERR, MLX5_CQE_RESP_ERR}"
    using err_status_both [OF st] that by (simp add: err_both_def m)
  have s: "same_rest ?a ?b" using st by (simp add: both_started_def)
  from pl consider (req) "mlx5dv_get_cqe_opcode p ?m = MLX5_CQE_REQ"
    | (resp) "mlx5dv_get_cqe_opcode p ?m \<in> {MLX5_CQE_RESP_WR_IMM, MLX5_CQE_RESP_SEND, MLX5_CQE_RESP_SEND_IMM, MLX5_CQE_RESP_SEND_INV}" "?m (p + 40) \<noteq> 1"
    | (sig) "mlx5dv_get_cqe_opcode p ?m = MLX5_CQE_SIG_ERR" | (rqe) "mlx5dv_get_cqe_opcode p ?m = MLX5_CQE_REQ_ERR" | (rse) "mlx5dv_get_cqe_opcode p ?m = MLX5_CQE_RESP_ERR"
    by (auto simp: plain_at_def Let_def)
  then show ?thesis
  proof cases
    case req
    with fin [OF parse_req_agree [OF st, of ver cqe]] pl show ?thesis by (simp add: parse_one_def m Let_def)
  next
    case resp
    with fin [OF parse_resp_agree [OF st, of ver]] show ?thesis by (auto simp: parse_one_def m Let_def)
  next
    case sig
    with parse_sig_err_agree [OF s, of p] show ?thesis by (simp add: parse_one_def m Let_def)
  next
    case rqe
    with fin [OF parse_req_err_agree [OF e, of ver p]] show ?thesis by (simp add: parse_one_def m freezes_def Let_def)
  next
    case rse
    with parse_resp_err_agree [OF e, of ver p] show ?thesis by (simp add: parse_one_def m freezes_def Let_def)
  qed
qed

subsection \<open>Whole polls\<close>

definition plain :: "u8 list \<Rightarrow> bool" where
  "plain e \<longleftrightarrow>
     e_opcode e \<in> {MLX5_CQE_SIG_ERR, MLX5_CQE_REQ_ERR, MLX5_CQE_RESP_ERR} \<or>
     e_opcode e \<in> {MLX5_CQE_RESP_WR_IMM, MLX5_CQE_RESP_SEND, MLX5_CQE_RESP_SEND_IMM, MLX5_CQE_RESP_SEND_INV} \<and> e_byte 40 e \<noteq> MLX5_CQE_APP_TAG_MATCHING \<or>
     e_opcode e = MLX5_CQE_REQ \<and> known_sop (drop_bit 24 (e_be32 56 e)) \<and> (data_sop (drop_bit 24 (e_be32 56 e)) \<or> last e AND 12 = 0)"

lemma plain_entry_at:
  assumes "entry_at p m e" "plain e"
  shows "plain_at p m"
  using assms no_inline [of "op_own_at p m" "last e"] by (auto simp: entry_at_def plain_def plain_at_def cqe_sop_def Let_def)

lemma next_ring:
  assumes "ring c' = ring c"
  shows "mlx5_get_next_cqe c' = (case mlx5_get_next_cqe c of None \<Rightarrow> None | Some (p, q, _) \<Rightarrow> Some (p, q, taken 1 c'))"
proof -
  have "next_cqe_sw c' = next_cqe_sw c" "cqe64_of c' = cqe64_of c"
    using assms by (auto simp: ring_def next_cqe_sw_def get_sw_cqe_def get_cqe_def cqe64_of_def)
  then show ?thesis by (simp add: mlx5_get_next_cqe_def taken_def split: option.split)
qed

lemma parse_loop_agree:
  assumes "same_rest a b" "plain_at p (cq_buf (ps_cq a))" "cq_view k (ps_cq a) es" "list_all plain es"
  shows "rel_sum (=) agree (parse_loop n False False ver p cqe a) (parse_loop n False True ver p cqe b)"
  using assms
proof (induction n arbitrary: a b p cqe es)
  case (Suc n)
  show ?case
    unfolding parse_loop.simps
  proof (rule lock_bind)
    show "rel_sum (=) (\<lambda>x y. agree1 x y \<and> ring (ps_cq (snd (snd x))) = ring (ps_cq a))
        (parse_one False False ver p cqe a) (parse_one False True ver p cqe b)"
      using parse_one_agree [OF Suc.prems(1,2), of ver cqe] parse_one_ring [OF refl, of a False ver p cqe]
      by (cases "parse_one False False ver p cqe a"; cases "parse_one False True ver p cqe b") auto
  next
    fix x y assume xy: "agree1 x y \<and> ring (ps_cq (snd (snd x))) = ring (ps_cq a)"
    obtain g err a1 g' err' b1 where x: "x = (g, err, a1)" and y: "y = (g', err', b1)" by (cases x, cases y) auto
    have v: "cq_view k (ps_cq a1) es" using ring_view [of "ps_cq a1" "ps_cq a" k es] Suc.prems(3) xy x by simp
    have s1: "same_rest a1 b1" "g' = g" "\<not> g \<Longrightarrow> agree (err, a1) (err', b1)" using xy x y by (auto simp: agree1_def)
    have rg: "ring (ps_cq b1) = ring (ps_cq a1)" using s1(1) by (simp add: same_rest_def)
    show "rel_sum (=) agree
       (case x of (again, err, ps1) \<Rightarrow> if \<not> again then Inr (err, ps1) else case mlx5_get_next_cqe (ps_cq ps1) of None \<Rightarrow> Inr (CQ_POLL_NODATA, ps1)
         | Some (e', cqe', cq') \<Rightarrow> parse_loop n False False ver e' cqe' (ps1\<lparr>ps_cq := cq'\<rparr>))
       (case y of (again, err, ps1) \<Rightarrow> if \<not> again then Inr (err, ps1) else case mlx5_get_next_cqe (ps_cq ps1) of None \<Rightarrow> Inr (CQ_POLL_NODATA, ps1)
         | Some (e', cqe', cq') \<Rightarrow> parse_loop n False True ver e' cqe' (ps1\<lparr>ps_cq := cq'\<rparr>))"
    proof (cases "g")
      case False
      with s1 show ?thesis by (simp add: x y)
    next
      case g: True
      show ?thesis
      proof (cases es)
        case Nil
        then have "mlx5_get_next_cqe (ps_cq a1) = None" using next_empty v by simp
        with g s1 next_ring [OF rg] show ?thesis by (simp add: x y agree_def)
      next
        case (Cons e es')
        obtain p' cqe' where nx: "mlx5_get_next_cqe (ps_cq a1) = Some (p', cqe', taken 1 (ps_cq a1))" "entry_at p' (cq_buf (ps_cq a1)) e"
            "cq_view k (taken 1 (ps_cq a1)) es'"
          using next_entry_at [OF v [unfolded Cons]] by blast
        have "rel_sum (=) agree (parse_loop n False False ver p' cqe' (a1\<lparr>ps_cq := taken 1 (ps_cq a1)\<rparr>)) (parse_loop n False True ver p' cqe' (b1\<lparr>ps_cq := taken 1 (ps_cq b1)\<rparr>))"
        proof (rule Suc.IH)
          show "same_rest (a1\<lparr>ps_cq := taken 1 (ps_cq a1)\<rparr>) (b1\<lparr>ps_cq := taken 1 (ps_cq b1)\<rparr>)"
            using s1(1) ring_taken_cong [OF rg] by (simp add: same_rest_def)
          show "plain_at p' (cq_buf (ps_cq (a1\<lparr>ps_cq := taken 1 (ps_cq a1)\<rparr>)))"
            using plain_entry_at [OF nx(2)] Suc.prems(4) Cons by (simp add: taken_def)
          show "cq_view k (ps_cq (a1\<lparr>ps_cq := taken 1 (ps_cq a1)\<rparr>)) es'" using nx(3) by simp
          show "list_all plain es'" using Suc.prems(4) Cons by simp
        qed
        with g s1(2) nx(1) next_ring [OF rg] show ?thesis by (simp add: x y)
      qed
    qed
  qed
qed simp

text \<open>
  The classic state and that of the extended interface between two entries: the same ring, the same objects found
  last and the same heap.
\<close>

definition same_ex :: "poll_st \<Rightarrow> ex_st \<Rightarrow> bool" where
  "same_ex a st \<longleftrightarrow> ps_env a = ex_env st \<and> ps_rsc a = cur_rsc (ex_cq st) \<and> ps_srq a = cur_srq (ex_cq st) \<and> ring (ps_cq a) = ring (ex_cq st)"

definition ex_err :: "int \<Rightarrow> int" where
  "ex_err err = (if err = CQ_EMPTY then ENOENT else err)"

definition step_agree :: "bool \<Rightarrow> int \<times> poll_st \<Rightarrow> int \<times> ex_st \<Rightarrow> bool" where
  "step_agree held x y \<longleftrightarrow> ex_err (fst y) = ex_err (fst x) \<and> same_ex (snd x) (snd y) \<and> ex_held (snd y) = held \<and>
     (fst x = CQ_OK \<longrightarrow> reads_as (ps_wc (snd x)) (ex_cq (snd y)))"

lemma reads_as_upd [simp]: "reads_as wc (cq\<lparr>cur_rsc := r, cur_srq := s\<rparr>) = reads_as wc cq"
  by (simp add: reads_as_def req_reads_def Let_def mlx5_cq_read_wc_qp_num_def mlx5_cq_read_wc_vendor_err_def mlx5_cq_read_wc_opcode_def mlx5_cq_read_wc_flags_def
      mlx5_cq_read_wc_byte_len_def mlx5_cq_read_wc_slid_def mlx5_cq_read_wc_sl_def mlx5_cq_read_wc_src_qp_def mlx5_cq_read_wc_dlid_path_bits_def
      mlx5_cq_read_wc_imm_data_def)

text \<open>The parse of one entry.\<close>

definition lazy_as :: "int \<times> poll_st \<Rightarrow> int \<times> mlx5_cq \<times> cq_env \<Rightarrow> bool" where
  "lazy_as x y \<longleftrightarrow>
     (case (x, y) of ((err, a), (err', cq, env)) \<Rightarrow>
        err' = err \<and> ps_env a = env \<and> ps_rsc a = cur_rsc cq \<and> ps_srq a = cur_srq cq \<and> ring (ps_cq a) = ring cq \<and> (err = CQ_OK \<longrightarrow> reads_as (ps_wc a) cq))"

lemma lazy_agree:
  assumes "ps_env a = env" "ps_rsc a = cur_rsc cq" "ps_srq a = cur_srq cq" "ring (ps_cq a) = ring cq"
    and "plain_at p (cq_buf (ps_cq a))" "cq_view k (ps_cq a) es" "list_all plain es"
  shows "rel_sum (=) lazy_as (mlx5_parse_cqe False False ver p cqe a) (mlx5_parse_lazy_cqe False ver p cqe (cq, env))"
proof -
  let ?b = "\<lparr>ps_cq = cq, ps_env = env, ps_wc = zero_wc, ps_rsc = cur_rsc cq, ps_srq = cur_srq cq\<rparr>"
  have s: "same_rest a ?b" using assms(1-4) by (simp add: same_rest_def)
  have q: "cq_cqe cq = cq_cqe (ps_cq a)" using assms(4) by (simp add: ring_def)
  have "rel_sum (=) agree (mlx5_parse_cqe False False ver p cqe a) (mlx5_parse_cqe False True ver p cqe ?b)"
    using parse_loop_agree [OF s assms(5-7), of "unat (cq_cqe (ps_cq a)) + 2"] by (simp add: mlx5_parse_cqe_def q del: parse_loop.simps)
  then show ?thesis
    by (cases "mlx5_parse_cqe False False ver p cqe a"; cases "mlx5_parse_cqe False True ver p cqe ?b")
      (auto simp: mlx5_parse_lazy_cqe_def agree_def same_rest_def lazy_as_def)
qed

lemma entry_agree:
  assumes s: "ps_env a = env" "ps_rsc a = cur_rsc cq" "ps_srq a = cur_srq cq" "ring (ps_cq a) = ring cq"
    and v: "cq_view k (ps_cq a) es" and pl: "list_all plain es"
  obtains (empty) "mlx5_get_next_cqe (ps_cq a) = None" "mlx5_get_next_cqe cq = None"
  | (some) p cqe where "mlx5_get_next_cqe (ps_cq a) = Some (p, cqe, taken 1 (ps_cq a))" "mlx5_get_next_cqe cq = Some (p, cqe, taken 1 cq)"
      "\<And>f. rel_sum (=) lazy_as (mlx5_parse_cqe False False ver p cqe (a\<lparr>ps_cq := taken 1 (ps_cq a)\<rparr>))
             (mlx5_parse_lazy_cqe False ver p cqe ((taken 1 cq)\<lparr>cq_flags := f\<rparr>, env))"
proof (cases es)
  case Nil
  then have "mlx5_get_next_cqe (ps_cq a) = None" using next_empty v by simp
  then show thesis using next_ring [of cq "ps_cq a"] s(4) by (intro empty) simp_all
next
  case (Cons x es')
  obtain p cqe where nx: "mlx5_get_next_cqe (ps_cq a) = Some (p, cqe, taken 1 (ps_cq a))" "entry_at p (cq_buf (ps_cq a)) x"
      "cq_view k (taken 1 (ps_cq a)) es'"
    using next_entry_at [OF v [unfolded Cons]] by blast
  show thesis
  proof (rule some [OF nx(1)])
    show "mlx5_get_next_cqe cq = Some (p, cqe, taken 1 cq)" using next_ring [of cq "ps_cq a"] nx(1) s by simp
    show "rel_sum (=) lazy_as (mlx5_parse_cqe False False ver p cqe (a\<lparr>ps_cq := taken 1 (ps_cq a)\<rparr>))
        (mlx5_parse_lazy_cqe False ver p cqe ((taken 1 cq)\<lparr>cq_flags := f\<rparr>, env))" for f
      by (rule lazy_agree [where es = es' and k = k])
        (use s(1-3) nx(3) pl Cons ring_taken_cong [OF s(4), of 1] plain_entry_at [OF nx(2)] in \<open>simp_all add: taken_def\<close>)
  qed
qed

lemma next_step_agree:
  assumes e: "same_ex a st" and v: "cq_view k (ps_cq a) es" and pl: "list_all plain es"
  shows "rel_sum (=) (step_agree (ex_held st)) (mlx5_poll_one False ver a) (mlx5_next_poll False stall ver st)"
proof -
  have s: "ps_env a = ex_env st" "ps_rsc a = cur_rsc (ex_cq st)" "ps_srq a = cur_srq (ex_cq st)" "ring (ps_cq a) = ring (ex_cq st)"
    using e by (simp_all add: same_ex_def)
  from s v pl show ?thesis
  proof (cases rule: entry_agree [where ver = ver])
    case empty
    with s show ?thesis by (simp add: mlx5_poll_one_def mlx5_next_poll_def step_agree_def same_ex_def ex_err_def Let_def)
  next
    case (some p cqe)
    have "rel_sum (=) lazy_as (mlx5_parse_cqe False False ver p cqe (a\<lparr>ps_cq := taken 1 (ps_cq a)\<rparr>))
        (mlx5_parse_lazy_cqe False ver p cqe (taken 1 (ex_cq st), ex_env st))"
      using some(3) [of "cq_flags (ex_cq st)"] by (simp add: taken_def)
    then show ?thesis
      by (simp only: mlx5_poll_one_def mlx5_next_poll_def Let_def some(1,2) option.case prod.case)
        (cases "mlx5_parse_cqe False False ver p cqe (a\<lparr>ps_cq := taken 1 (ps_cq a)\<rparr>)";
         cases "mlx5_parse_lazy_cqe False ver p cqe (taken 1 (ex_cq st), ex_env st)"; auto simp: step_agree_def same_ex_def lazy_as_def)
  qed
qed

lemma start_ring [simp]:
  "ring (start_stall stall cq) = ring cq" "ring (start_empty cfg stall cq) = ring cq" "ring (start_failed cfg stall cq) = ring cq"
  by (simp_all add: start_stall_def start_empty_def start_failed_def stall_less_def Let_def split: polling_mode.split)

lemma start_cur [simp]:
  "cur_rsc (start_empty cfg stall cq) = cur_rsc cq" "cur_rsc (start_failed cfg stall cq) = cur_rsc cq"
  "cur_srq (start_empty cfg stall cq) = cur_srq cq" "cur_srq (start_failed cfg stall cq) = cur_srq cq"
  by (simp_all add: start_empty_def start_failed_def stall_less_def Let_def split: polling_mode.split)

lemma start_step_agree:
  assumes e: "ps_env a = ex_env st" "ps_rsc a = None" "ps_srq a = None" "ring (ps_cq a) = ring (ex_cq st)"
    and v: "cq_view k (ps_cq a) es" and pl: "list_all plain es" and lk: "lock \<Longrightarrow> \<not> ex_held st"
  shows "rel_sum (=) (\<lambda>x y. step_agree (if lock then fst x = CQ_OK else ex_held st) x y) (mlx5_poll_one False ver a)
           (mlx5_start_poll cfg False need_lock (Inr ci) lock stall ver clock_update 0 st)"
proof -
  let ?cq = "(start_stall stall (ex_cq st))\<lparr>cur_rsc := None, cur_srq := None\<rparr>"
  have s: "ps_env a = ex_env st" "ps_rsc a = cur_rsc ?cq" "ps_srq a = cur_srq ?cq" "ring (ps_cq a) = ring ?cq" using e by simp_all
  obtain held where h: "(if lock then mlx5_spin_lock need_lock (ex_held st) else Inr (ex_held st)) = Inr held" "held = (lock \<or> ex_held st)"
    using lk by (auto simp: mlx5_spin_lock_def)
  from s v pl show ?thesis
  proof (cases rule: entry_agree [where ver = ver])
    case empty
    with e h show ?thesis
      by (simp add: mlx5_poll_one_def mlx5_start_poll_def step_agree_def same_ex_def ex_err_def mlx5_spin_unlock_def Let_def)
  next
    case (some p cqe)
    define f where "f = (if stall \<noteq> POLLING_MODE_NO_STALL then cq_flags ?cq OR MLX5_CQ_FLAGS_FOUND_CQES else cq_flags ?cq)"
    have f: "(if stall \<noteq> POLLING_MODE_NO_STALL then (taken 1 ?cq)\<lparr>cq_flags := cq_flags (taken 1 ?cq) OR MLX5_CQ_FLAGS_FOUND_CQES\<rparr> else taken 1 ?cq) =
        (taken 1 ?cq)\<lparr>cq_flags := f\<rparr>" by (simp add: f_def taken_def)
    from some(3) [of f] show ?thesis
      by (simp only: mlx5_poll_one_def mlx5_start_poll_def Let_def some(1,2) option.case prod.case f h bind_res_Inr)
        (cases "mlx5_parse_cqe False False ver p cqe (a\<lparr>ps_cq := taken 1 (ps_cq a)\<rparr>)";
         cases "mlx5_parse_lazy_cqe False ver p cqe ((taken 1 ?cq)\<lparr>cq_flags := f\<rparr>, ex_env st)";
         auto simp: step_agree_def same_ex_def lazy_as_def mlx5_spin_unlock_def)
  qed
qed

subsection \<open>Sessions\<close>

text \<open>
  The loop of a program that polls up to \<open>n\<close> completions with the extended interface: start, then next until an
  error or \<open>n\<close> entries, and end unless the start has failed.  The queue at each entry is what the program reads
  the fields from.
\<close>

fun ex_nexts :: "nat \<Rightarrow> polling_mode \<Rightarrow> bool \<Rightarrow> ex_st \<Rightarrow> (int \<times> mlx5_cq list \<times> ex_st) res" where
  "ex_nexts 0 stall ver st = Inr (CQ_OK, [], st)"
| "ex_nexts (Suc n) stall ver st =
     bind_res (mlx5_next_poll False stall ver st) (\<lambda>(err, st1).
       if err \<noteq> 0 then Inr (err, [], st1)
       else bind_res (ex_nexts n stall ver st1) (\<lambda>(err', cqs, st2). Inr (err', ex_cq st1 # cqs, st2)))"

definition ex_session ::
    "stall_cfg \<Rightarrow> bool \<Rightarrow> mlx5dv_clock_info \<Rightarrow> bool \<Rightarrow> polling_mode \<Rightarrow> bool \<Rightarrow> bool \<Rightarrow> nat \<Rightarrow> ex_st \<Rightarrow> (int \<times> mlx5_cq list \<times> ex_st) res" where
  "ex_session cfg need_lock ci lock stall ver clock_update n st =
     bind_res (mlx5_start_poll cfg False need_lock (Inr ci) lock stall ver clock_update 0 st) (\<lambda>(err, st1).
       if err \<noteq> 0 then Inr (err, [], st1)
       else bind_res (ex_nexts (n - 1) stall ver st1) (\<lambda>(err', cqs, st2). Inr (err', ex_cq st1 # cqs, mlx5_end_poll cfg lock stall st2)))"

definition loop_as :: "bool \<Rightarrow> int \<times> nat \<times> ibv_wc list \<times> poll_st \<Rightarrow> int \<times> mlx5_cq list \<times> ex_st \<Rightarrow> bool" where
  "loop_as held x y \<longleftrightarrow>
     (case (x, y) of ((err, j, wcs, a), (err', cqs, st)) \<Rightarrow>
        ex_err err' = ex_err err \<and> j = length cqs \<and> same_ex a st \<and> ex_held st = held \<and> list_all2 reads_as (take j wcs) cqs)"

lemma lock_settles: "rel_sum (=) R x y \<Longrightarrow> settles P x \<Longrightarrow> rel_sum (=) (\<lambda>a b. R a b \<and> P a) x y"
  by (cases x; cases y) auto

lemma ex_err_OK: "ex_err a = ex_err b \<Longrightarrow> (a = 0 \<longleftrightarrow> b = 0) \<and> (a = - 2 \<longleftrightarrow> b = - 2)"
  by (auto simp: ex_err_def split: if_splits)

lemma one_view:
  assumes "cq_view k (ps_cq a) es" "list_all plain es"
    and "case x of (err, a') \<Rightarrow> \<exists>j \<le> length es. ring (ps_cq a') = ring (taken j (ps_cq a)) \<and> (err = CQ_OK \<longrightarrow> 0 < j)"
  obtains es' where "cq_view k (ps_cq (snd x)) es'" "list_all plain es'"
proof -
  from assms(3) obtain j where j: "j \<le> length es" "ring (ps_cq (snd x)) = ring (taken j (ps_cq a))" by (cases x) auto
  have "cq_view k (ps_cq (snd x)) (drop j es)" using taken_view [OF assms(1) j(1)] ring_view [OF j(2)] by simp
  moreover have "list_all plain (drop j es)" using assms(2) by (auto simp: list_all_iff dest: in_set_dropD)
  ultimately show thesis by (rule that)
qed

lemma ex_nexts_agree:
  assumes "same_ex a st" "cq_view k (ps_cq a) es" "list_all plain es" "n \<le> length wcs"
  shows "rel_sum (=) (loop_as (ex_held st)) (poll_loop n False ver wcs a) (ex_nexts n stall ver st)"
  using assms
proof (induction n arbitrary: a st es wcs)
  case 0
  then show ?case by (simp add: loop_as_def)
next
  case (Suc n)
  then obtain wc ws where w: "wcs = wc # ws" "n \<le> length ws" by (cases wcs) auto
  let ?a = "a\<lparr>ps_wc := wc\<rparr>"
  have s: "same_ex ?a st" "cq_view k (ps_cq ?a) es" using Suc.prems(1,2) by (simp_all add: same_ex_def)
  note st = lock_settles [OF next_step_agree [OF s Suc.prems(3), of ver stall] poll_one_settles [OF s(2), of ver]]
  show ?case
    unfolding w(1) poll_loop.simps ex_nexts.simps
  proof (rule lock_bind [OF st], elim conjE)
    fix x y assume sa: "step_agree (ex_held st) x y"
      and j: "case x of (err, ps') \<Rightarrow> \<exists>j \<le> length es. ring (ps_cq ps') = ring (taken j (ps_cq ?a)) \<and> (err = CQ_OK \<longrightarrow> 0 < j)"
    obtain es' where v': "cq_view k (ps_cq (snd x)) es'" "list_all plain es'" using one_view [OF s(2) Suc.prems(3) j] .
    have e: "same_ex (snd x) (snd y)" "ex_held (snd y) = ex_held st" "fst x = 0 \<longleftrightarrow> fst y = 0" "fst x = 0 \<Longrightarrow> reads_as (ps_wc (snd x)) (ex_cq (snd y))"
      "ex_err (fst y) = ex_err (fst x)"
      using sa ex_err_OK [of "fst y" "fst x"] by (auto simp: step_agree_def)
    have IH: "rel_sum (=) (loop_as (ex_held st)) (poll_loop n False ver ws (snd x)) (ex_nexts n stall ver (snd y))"
      using Suc.IH [OF e(1) v' w(2)] e(2) by simp
    show "rel_sum (=) (loop_as (ex_held st))
        (case x of (err, ps1) \<Rightarrow> if err \<noteq> CQ_OK then Inr (err, 0, ps_wc ps1 # ws, ps1)
           else bind_res (poll_loop n False ver ws ps1) (\<lambda>(err', k, wcs', ps2). Inr (err', Suc k, ps_wc ps1 # wcs', ps2)))
        (case y of (err, st1) \<Rightarrow> if err \<noteq> 0 then Inr (err, [], st1)
           else bind_res (ex_nexts n stall ver st1) (\<lambda>(err', cqs, st2). Inr (err', ex_cq st1 # cqs, st2)))"
    proof (cases "fst x = 0")
      case True
      with e show ?thesis by (simp add: case_prod_beta) (rule lock_bind [OF IH], auto simp: loop_as_def)
    next
      case False
      with e show ?thesis by (simp add: case_prod_beta loop_as_def)
    qed
  qed
qed

lemma end_poll_simps [simp]:
  "ring (ex_cq (mlx5_end_poll cfg lock stall st)) = ring (ex_cq st)" "ex_env (mlx5_end_poll cfg lock stall st) = ex_env st"
  "cur_rsc (ex_cq (mlx5_end_poll cfg lock stall st)) = cur_rsc (ex_cq st)" "cur_srq (ex_cq (mlx5_end_poll cfg lock stall st)) = cur_srq (ex_cq st)"
  "ex_held (mlx5_end_poll cfg lock stall st) = (\<not> lock \<and> ex_held st)"
  by (simp_all add: mlx5_end_poll_def end_stall_def stall_less_def stall_more_def update_cons_index_def mlx5_spin_unlock_def Let_def)

lemma ex_session_agree:
  assumes e: "ps_env a = ex_env st" "ps_rsc a = None" "ps_srq a = None" "ring (ps_cq a) = ring (ex_cq st)"
    and v: "cq_view k (ps_cq a) es" and pl: "list_all plain es" and lk: "lock \<Longrightarrow> \<not> ex_held st" and n: "0 < n" "n \<le> length wcs"
  shows "rel_sum (=) (loop_as (\<not> lock \<and> ex_held st)) (poll_loop n False ver wcs a) (ex_session cfg need_lock ci lock stall ver clock_update n st)"
proof -
  obtain m wc ws where w: "n = Suc m" "wcs = wc # ws" "m \<le> length ws" using n by (cases n; cases wcs) auto
  let ?a = "a\<lparr>ps_wc := wc\<rparr>"
  have s: "ps_env ?a = ex_env st" "ps_rsc ?a = None" "ps_srq ?a = None" "ring (ps_cq ?a) = ring (ex_cq st)" "cq_view k (ps_cq ?a) es"
    using e v by simp_all
  note st = lock_settles [OF start_step_agree [OF s pl lk, where ver = ver and cfg = cfg and need_lock = need_lock and ci = ci and stall = stall and clock_update = clock_update] poll_one_settles [OF s(5), of ver]]
  show ?thesis
    unfolding w(1,2) poll_loop.simps ex_session_def
  proof (rule lock_bind [OF st], assumption, elim conjE)
    fix x y assume sa: "step_agree (if lock then fst x = CQ_OK else ex_held st) x y"
      and j: "case x of (err, ps') \<Rightarrow> \<exists>j \<le> length es. ring (ps_cq ps') = ring (taken j (ps_cq ?a)) \<and> (err = CQ_OK \<longrightarrow> 0 < j)"
    obtain es' where v': "cq_view k (ps_cq (snd x)) es'" "list_all plain es'" using one_view [OF s(5) pl j] .
    have h: "same_ex (snd x) (snd y)" "ex_held (snd y) = (if lock then fst x = CQ_OK else ex_held st)" "fst x = 0 \<longleftrightarrow> fst y = 0"
      "fst x = 0 \<Longrightarrow> reads_as (ps_wc (snd x)) (ex_cq (snd y))" "ex_err (fst y) = ex_err (fst x)"
      using sa ex_err_OK [of "fst y" "fst x"] by (auto simp: step_agree_def)
    show "rel_sum (=) (loop_as (\<not> lock \<and> ex_held st))
        (case x of (err, ps1) \<Rightarrow> if err \<noteq> CQ_OK then Inr (err, 0, ps_wc ps1 # ws, ps1)
           else bind_res (poll_loop m False ver ws ps1) (\<lambda>(err', k, wcs', ps2). Inr (err', Suc k, ps_wc ps1 # wcs', ps2)))
        (case y of (err, st1) \<Rightarrow> if err \<noteq> 0 then Inr (err, [], st1)
           else bind_res (ex_nexts (Suc m - 1) stall ver st1) (\<lambda>(err', cqs, st2). Inr (err', ex_cq st1 # cqs, mlx5_end_poll cfg lock stall st2)))"
    proof (cases "fst x = 0")
      case True
      with h show ?thesis
        by (simp add: case_prod_beta) (rule lock_bind [OF ex_nexts_agree [OF h(1) v' w(3)]], auto simp: loop_as_def same_ex_def)
    next
      case False
      with h show ?thesis by (auto simp: case_prod_beta loop_as_def)
    qed
  qed
qed


definition demo_ex :: ex_st where
  "demo_ex = \<lparr>ex_held = False, ex_cq = demo_full, ex_env = demo_env,
     last_clock_info = \<lparr>ci_nsec = 0, ci_last_cycles = 0, ci_frac = 0, ci_mult = 0, ci_shift = 0, ci_mask = 0\<rparr>\<rparr>"

lemma demo_both_known: "list_all plain [demo_cqe 0 7, demo_cqe 0 8]"
  by (simp add: plain_def e_opcode_def known_sop_def demo_qpn) (simp add: demo_cqe_def)


end
