(* ===== verification/Cq_Typed.thy ===== *)
theory Cq_Typed
  imports Cq_Order
begin

text \<open>
  A type discipline for polling: the tables hold objects of the kinds that their users expect, and the entries of
  the adapter name objects that fit them.  Then no path of the poll dereferences a null pointer, takes an object
  of one kind for another, or leaves an array, and the discipline is types_kept.
\<close>

subsection \<open>Computations that return\<close>

definition returns :: "('a \<Rightarrow> bool) \<Rightarrow> 'a res \<Rightarrow> bool" where
  "returns Q r \<longleftrightarrow> (case r of Inl f \<Rightarrow> False | Inr x \<Rightarrow> Q x)"

lemma returns_simps [simp]: "returns Q (Inr x) = Q x" "returns Q (Inl f) = False"
  by (simp_all add: returns_def)

lemma returns_bind: "returns P r \<Longrightarrow> (\<And>x. P x \<Longrightarrow> returns Q (f x)) \<Longrightarrow> returns Q (bind_res r f)"
  by (cases r) auto

lemma returns_weaken: "returns P r \<Longrightarrow> (\<And>x. P x \<Longrightarrow> Q x) \<Longrightarrow> returns Q r"
  by (cases r) auto

subsection \<open>The types\<close>

text \<open>
  Every table is well formed and knows an object by its own number, and the table of queue pairs holds nothing
  but queue pairs.
\<close>

definition env_typed :: "cq_env \<Rightarrow> bool" where
  "env_typed env \<longleftrightarrow>
     tab_ok (qp_table env) \<and> tab_ok (uidx_table env) \<and> tab_ok (srq_table env) \<and> tab_ok (mkey_table env) \<and>
     (\<forall>n r. tab_map (qp_table env) n = Some r \<longrightarrow> rsn r = n \<and> rsc_type r = MLX5_RSC_TYPE_QP) \<and>
     (\<forall>n r. tab_map (uidx_table env) n = Some r \<longrightarrow> rsn r = n) \<and>
     (\<forall>n k. tab_map (srq_table env) n = Some k \<longrightarrow> hp_srqn env k = n)"

datatype target = To_Qp nat | To_Rwq nat | To_Srq nat

definition rsc_target :: "cq_env \<Rightarrow> mlx5_resource \<Rightarrow> target option" where
  "rsc_target env r =
     (case rsc_type r of
        MLX5_RSC_TYPE_QP \<Rightarrow> Some (case hp_qp_srq env (rsc_obj r) of None \<Rightarrow> To_Qp (rsc_obj r) | Some k \<Rightarrow> To_Srq k)
      | MLX5_RSC_TYPE_XSRQ \<Rightarrow> Some (To_Srq (rsc_obj r))
      | MLX5_RSC_TYPE_RWQ \<Rightarrow> Some (To_Rwq (rsc_obj r))
      | _ \<Rightarrow> None)"

text \<open>The receive queue of an entry with the queue pair \<open>n\<close> and the shared queue or user index \<open>u\<close>.\<close>

definition target_of :: "bool \<Rightarrow> cq_env \<Rightarrow> u32 \<Rightarrow> u32 \<Rightarrow> target option" where
  "target_of ver env n u =
     (if ver then (case tab_map (uidx_table env) u of None \<Rightarrow> None | Some r \<Rightarrow> rsc_target env r)
      else if u \<noteq> 0 then (case tab_map (srq_table env) u of None \<Rightarrow> None | Some k \<Rightarrow> Some (To_Srq k))
      else (case tab_map (qp_table env) n of None \<Rightarrow> None | Some r \<Rightarrow> Some (To_Qp (rsc_obj r))))"

definition slot_fits :: "cq_env \<Rightarrow> nat \<Rightarrow> u8 list \<Rightarrow> bool" where
  "slot_fits env k e \<longleftrightarrow> unat (e_be16 60 e) < srq_max (tm_base (hp_srq env k))"

text \<open>
  A request is of a queue pair, a receive names a descriptor of its shared queue, data comes in the entry itself
  and never for a work queue, a signature error is of a key with a signature context.  Tag matching and the
  page faults of the adapter, which need the lists of their queue, are left out.
\<close>

definition fits :: "bool \<Rightarrow> cq_env \<Rightarrow> u8 list \<Rightarrow> bool" where
  "fits ver env e \<longleftrightarrow>
     (let t = target_of ver env (e_be32 56 e AND 0xffffff) (e_be32 32 e AND 0xffffff)
      in last e AND 8 = 0 \<and>
         (is_request e \<longrightarrow> (\<forall>r. tab_map (rsc_table ver env) (rsn_of ver e) = Some r \<longrightarrow> rsc_type r = MLX5_RSC_TYPE_QP)) \<and>
         (is_receive e \<longrightarrow> (\<forall>k. t = Some (To_Srq k) \<longrightarrow> slot_fits env k e)) \<and>
         (is_receive e \<longrightarrow> (\<forall>k. t = Some (To_Rwq k) \<longrightarrow> last e AND 12 = 0)) \<and>
         (e_opcode e = MLX5_CQE_RESP_ERR \<longrightarrow> \<not> (e_byte 55 e = 0x22 \<and> e_byte 54 e = 0x93)) \<and>
         (e_opcode e = MLX5_CQE_NO_PACKET \<longrightarrow> e_byte 40 e \<noteq> MLX5_CQE_APP_TAG_MATCHING) \<and>
         (e_opcode e = MLX5_CQE_SIG_ERR \<longrightarrow> (\<forall>i. tab_map (mkey_table env) (drop_bit 8 (e_be32 36 e)) = Some i \<longrightarrow> hp_sig env i \<noteq> None)))"

text \<open>The objects found last are those of the tables.\<close>

definition srq_cached :: "bool \<Rightarrow> cq_env \<Rightarrow> nat option \<Rightarrow> bool" where
  "srq_cached ver env s \<longleftrightarrow> ver \<or> (case s of None \<Rightarrow> True | Some k \<Rightarrow> tab_map (srq_table env) (hp_srqn env k) = Some k)"

definition ps_typed :: "bool \<Rightarrow> poll_st \<Rightarrow> bool" where
  "ps_typed ver ps \<longleftrightarrow> env_typed (ps_env ps) \<and> rsc_cached ver (ps_env ps) (ps_rsc ps) \<and> srq_cached ver (ps_env ps) (ps_srq ps)"

text \<open>What the types are about and no operation of the poll changes.\<close>

definition same_types :: "cq_env \<Rightarrow> cq_env \<Rightarrow> bool" where
  "same_types a b \<longleftrightarrow>
     qp_table b = qp_table a \<and> uidx_table b = uidx_table a \<and> srq_table b = srq_table a \<and> mkey_table b = mkey_table a \<and>
     hp_qp_srq b = hp_qp_srq a \<and> hp_srqn b = hp_srqn a \<and> (\<forall>k. srq_max (tm_base (hp_srq b k)) = srq_max (tm_base (hp_srq a k))) \<and>
     (\<forall>i. hp_sig b i = None \<longleftrightarrow> hp_sig a i = None)"

lemma same_types_refl [simp]: "same_types a a"
  by (simp add: same_types_def)

lemma same_types_trans: "same_types a b \<Longrightarrow> same_types b c \<Longrightarrow> same_types a c"
  by (simp add: same_types_def)

lemma same_types_keep:
  assumes "same_types a b"
  shows "env_typed b = env_typed a" "rsc_cached ver b r = rsc_cached ver a r" "srq_cached ver b s = srq_cached ver a s" "fits ver b e = fits ver a e"
proof -
  have t: "rsc_table ver b = rsc_table ver a" using assms by (simp add: same_types_def rsc_table_def)
  show "env_typed b = env_typed a" "srq_cached ver b s = srq_cached ver a s" using assms by (simp_all add: same_types_def env_typed_def srq_cached_def split: option.split)
  show "rsc_cached ver b r = rsc_cached ver a r" by (simp add: rsc_cached_def t split: option.split)
  have "target_of ver b = target_of ver a"
  proof -
    have h: "hp_qp_srq b = hp_qp_srq a" "uidx_table b = uidx_table a" "srq_table b = srq_table a" "qp_table b = qp_table a"
      using assms by (simp_all only: same_types_def)
    then have "rsc_target b = rsc_target a" by (simp only: rsc_target_def [abs_def])
    with h show ?thesis by (simp only: target_of_def [abs_def])
  qed
  moreover have "slot_fits b k e = slot_fits a k e" "(hp_sig b i = None) = (hp_sig a i = None)" for k i
    using assms by (simp_all add: same_types_def slot_fits_def)
  moreover have "mkey_table b = mkey_table a" using assms by (simp add: same_types_def)
  ultimately show "fits ver b e = fits ver a e" by (simp only: fits_def t)
qed

lemma typed_step:
  "ps_typed ver ps \<Longrightarrow> same_types (ps_env ps) (ps_env ps') \<Longrightarrow> rsc_cached ver (ps_env ps) (ps_rsc ps') \<Longrightarrow> srq_cached ver (ps_env ps) (ps_srq ps') \<Longrightarrow> ps_typed ver ps'"
  using same_types_keep by (simp add: ps_typed_def)

subsection \<open>Finding objects\<close>

lemma typed_env_ok: "env_typed env \<Longrightarrow> env_ok ver env"
  by (simp add: env_typed_def env_ok_def rsc_table_def)

lemma typed_rsn: "env_typed env \<Longrightarrow> tab_map (rsc_table ver env) n = Some r \<Longrightarrow> rsn r = n"
  by (auto simp: env_typed_def rsc_table_def split: if_splits)

lemma find_cached:
  assumes t: "env_typed env" "rsc_cached ver env cur"
  shows "(if stale cur n then (if ver then mlx5_find_uidx (uidx_table env) n else mlx5_find_qp (qp_table env) n) else Inr cur) =
    Inr (tab_map (rsc_table ver env) n)"
proof (cases "tab_map (rsc_table ver env) n")
  case None
  have "stale cur n" using None t(2) by (auto simp: stale_def rsc_cached_def split: option.splits)
  with find_rsc [OF typed_env_ok [OF t(1)], of ver n] show ?thesis by (simp only: if_True)
next
  case (Some r)
  from cached_rsc [OF typed_env_ok [OF t(1)] t(2) Some typed_rsn [OF t(1) Some]] show ?thesis by (simp only: Some)
qed

lemma cached_of_table: "env_typed env \<Longrightarrow> rsc_cached ver env (tab_map (rsc_table ver env) n)"
  using typed_rsn [of env ver n] by (auto simp: rsc_cached_def split: option.split)

lemma req_context_typed:
  assumes "ps_typed ver ps" "\<forall>r. tab_map (rsc_table ver (ps_env ps)) n = Some r \<longrightarrow> rsc_type r = MLX5_RSC_TYPE_QP"
  shows "returns (\<lambda>(r, q). rsc_cached ver (ps_env ps) r) (get_req_context (ps_env ps) ver n (ps_rsc ps))"
proof -
  have t: "env_typed (ps_env ps)" "rsc_cached ver (ps_env ps) (ps_rsc ps)" using assms(1) by (simp_all add: ps_typed_def)
  show ?thesis
    unfolding get_req_context_def find_cached [OF t] using assms(2) cached_of_table [OF t(1), of ver n]
    by (auto simp: rsc_to_mqp_def split: option.split)
qed

text \<open>The lookup for a receive gives what the target says.\<close>

definition found :: "target option \<Rightarrow> int \<times> mlx5_resource option \<times> nat option \<times> bool \<Rightarrow> bool" where
  "found t x \<longleftrightarrow>
     (case x of (err, r, s, is_srq) \<Rightarrow>
        err = CQ_OK \<longrightarrow>
        (case t of
           None \<Rightarrow> False
         | Some (To_Qp q) \<Rightarrow> \<not> is_srq \<and> (\<exists>y. r = Some y \<and> rsc_type y = MLX5_RSC_TYPE_QP \<and> rsc_obj y = q)
         | Some (To_Rwq q) \<Rightarrow> \<not> is_srq \<and> (\<exists>y. r = Some y \<and> rsc_type y = MLX5_RSC_TYPE_RWQ \<and> rsc_obj y = q)
         | Some (To_Srq k) \<Rightarrow> is_srq \<and> s = Some k))"

lemma cur_rsc_typed:
  assumes "ps_typed ver ps"
  shows "returns (\<lambda>x. found (target_of ver (ps_env ps) n u) x \<and> rsc_cached ver (ps_env ps) (fst (snd x)) \<and> srq_cached ver (ps_env ps) (fst (snd (snd x))))
    (get_cur_rsc (ps_env ps) ver n u (ps_rsc ps, ps_srq ps))"
proof -
  let ?env = "ps_env ps"
  have t: "env_typed ?env" "rsc_cached ver ?env (ps_rsc ps)" "srq_cached ver ?env (ps_srq ps)" using assms by (simp_all add: ps_typed_def)
  consider (v1) "ver" | (srq) "\<not> ver" "u \<noteq> 0" | (qp) "\<not> ver" "u = 0" by blast
  then show ?thesis
  proof cases
    case v1
    have f: "(if stale (ps_rsc ps) u then mlx5_find_uidx (uidx_table ?env) u else Inr (ps_rsc ps)) = Inr (tab_map (uidx_table ?env) u)"
      "rsc_cached ver ?env (tab_map (uidx_table ?env) u)"
      using find_cached [OF t(1,2), of u] cached_of_table [OF t(1), of ver u] by (simp_all only: v1 rsc_table_def if_True)
    show ?thesis
      using f(2) v1 unfolding get_cur_rsc_def get_resp_ctx_v1_def target_of_def fst_conv snd_conv f(1)
      by (cases "tab_map (uidx_table ?env) u") (simp_all add: found_def rsc_target_def srq_cached_def split: option.split rsc_type.split)
  next
    case srq
    have "tab_map (srq_table ?env) u = Some k \<Longrightarrow> hp_srqn ?env k = u" for k using t(1) by (simp add: env_typed_def)
    moreover have "mlx5_find_srq (srq_table ?env) u = Inr (tab_map (srq_table ?env) u)"
      using t(1) find_qp_map [of "srq_table ?env" u] by (simp add: env_typed_def mlx5_find_srq_def mlx5_find_qp_def)
    ultimately show ?thesis
      using srq t(2,3) by (auto simp: get_cur_rsc_def get_srq_ctx_def target_of_def found_def srq_cached_def split: option.splits)
  next
    case qp
    have "(if stale (ps_rsc ps) n then mlx5_find_qp (qp_table ?env) n else Inr (ps_rsc ps)) = Inr (tab_map (qp_table ?env) n)"
      "rsc_cached ver ?env (tab_map (qp_table ?env) n)"
      using find_cached [OF t(1,2), of n] cached_of_table [OF t(1), of ver n] by (simp_all only: qp(1) rsc_table_def if_False)
    moreover have "tab_map (qp_table ?env) n = Some r \<Longrightarrow> rsc_type r = MLX5_RSC_TYPE_QP" for r using t(1) by (auto simp: env_typed_def)
    moreover have "\<not> stale (ps_rsc ps) n \<Longrightarrow> ps_rsc ps \<noteq> None" by (auto simp: stale_def split: option.splits)
    ultimately show ?thesis
      using qp t(2,3) by (auto simp: get_cur_rsc_def get_qp_ctx_def target_of_def found_def split: option.split if_splits)
  qed
qed

subsection \<open>The handlers\<close>

lemma same_types_upd [simp]:
  "same_types env (env\<lparr>hp_qp := f\<rparr>)" "same_types env (env\<lparr>hp_um := um\<rparr>)" "same_types env (env\<lparr>hp_rwq := w\<rparr>)"
  "same_types env (set_sq_tail q i env)" "same_types env (env\<lparr>hp_qp := f, hp_um := um\<rparr>)" "same_types env (set_sq_tail q i (env\<lparr>hp_um := um\<rparr>))"
  by (simp_all add: same_types_def set_sq_tail_def Let_def)

lemma same_types_srq: "same_types env (env\<lparr>hp_srq := (hp_srq env)(k := (hp_srq env k)\<lparr>tm_base := mlx5_free_srq_wqe i (tm_base (hp_srq env k))\<rparr>)\<rparr>)"
  by (simp add: same_types_def mlx5_free_srq_wqe_def set_next_def)

lemma req_scatter_typed:
  assumes "op_own_at p m AND 8 = 0"
  shows "returns (\<lambda>(err, env1). same_types env env1 \<and> same_types env (set_sq_tail q i env1)) (req_scatter p cqe n q m env)"
  using assms by (simp add: req_scatter_def Let_def split: prod.split)

definition types_kept :: "bool \<Rightarrow> poll_st \<Rightarrow> poll_st \<Rightarrow> bool" where
  "types_kept ver ps ps' \<longleftrightarrow> same_types (ps_env ps) (ps_env ps') \<and> rsc_cached ver (ps_env ps) (ps_rsc ps') \<and> srq_cached ver (ps_env ps) (ps_srq ps')"

lemma entry_no64:
  assumes "entry_at p m e" "last e AND 8 = 0"
  shows "op_own_at p m AND 8 = 0"
proof -
  have "op_own_at p m AND 8 = (op_own_at p m AND NOT 1) AND 8" by (simp add: and.assoc)
  then show ?thesis using assms by (simp add: entry_at_def)
qed

lemma parse_req_typed:
  assumes at: "entry_at p (cq_buf (ps_cq ps)) e" and t: "ps_typed ver ps" and f: "fits ver (ps_env ps) e" and o: "e_opcode e = MLX5_CQE_REQ"
  shows "returns (\<lambda>(err, ps'). types_kept ver ps ps') (parse_req False ver p cqe ps)"
proof -
  let ?m = "cq_buf (ps_cq ps)"
  have q: "\<forall>r. tab_map (rsc_table ver (ps_env ps)) (rsn_of ver e) = Some r \<longrightarrow> rsc_type r = MLX5_RSC_TYPE_QP"
    using f o by (simp add: fits_def is_request_def Let_def)
  have n: "op_own_at p ?m AND 8 = 0" using entry_no64 [OF at] f by (simp add: fits_def Let_def)
  have s: "srq_cached ver (ps_env ps) (ps_srq ps)" using t by (simp add: ps_typed_def)
  show ?thesis
    unfolding parse_req_def Let_def entry_fields(8) [OF at] if_False
  proof (rule returns_bind [OF req_context_typed [OF t q]], clarify)
    fix r i assume r: "rsc_cached ver (ps_env ps) r"
    show "returns (\<lambda>(err, ps'). types_kept ver ps ps')
      (case i of None \<Rightarrow> Inr (CQ_POLL_ERR, ps\<lparr>ps_rsc := r\<rparr>)
       | Some i \<Rightarrow> bind_res (req_scatter p cqe (wc_byte_len (handle_good_req p ?m (sq (hp_qp (ps_env ps) i)) (unat (ucast (ld_be16 (p + 60) ?m) AND (wqe_cnt (sq (hp_qp (ps_env ps) i)) - 1))) (ps_wc ps))) i ?m (ps_env ps))
          (\<lambda>(err, env1). Inr (CQ_OK, ps\<lparr>ps_rsc := r, ps_wc := (handle_good_req p ?m (sq (hp_qp (ps_env ps) i)) (unat (ucast (ld_be16 (p + 60) ?m) AND (wqe_cnt (sq (hp_qp (ps_env ps) i)) - 1))) (ps_wc ps))
               \<lparr>wc_wr_id := wrid (sq (hp_qp (ps_env ps) i)) (unat (ucast (ld_be16 (p + 60) ?m) AND (wqe_cnt (sq (hp_qp (ps_env ps) i)) - 1))), wc_status := err\<rparr>,
               ps_env := set_sq_tail i (unat (ucast (ld_be16 (p + 60) ?m) AND (wqe_cnt (sq (hp_qp (ps_env ps) i)) - 1))) env1\<rparr>)))"
    proof (cases i)
      case None
      with r s show ?thesis by (simp add: types_kept_def)
    next
      case (Some q)
      show ?thesis unfolding Some option.case
        by (rule returns_bind [OF req_scatter_typed [OF n]]) (use r s in \<open>auto simp: types_kept_def\<close>)
    qed
  qed
qed

lemma parse_req_err_typed:
  assumes at: "entry_at p (cq_buf (ps_cq ps)) e" and t: "ps_typed ver ps" and f: "fits ver (ps_env ps) e" and o: "e_opcode e = MLX5_CQE_REQ_ERR"
  shows "returns (\<lambda>(err, ps'). types_kept ver ps ps') (parse_req_err False ver p ps)"
proof -
  have q: "\<forall>r. tab_map (rsc_table ver (ps_env ps)) (rsn_of ver e) = Some r \<longrightarrow> rsc_type r = MLX5_RSC_TYPE_QP"
    using f o by (simp add: fits_def is_request_def Let_def)
  have s: "srq_cached ver (ps_env ps) (ps_srq ps)" using t by (simp add: ps_typed_def)
  show ?thesis
    unfolding parse_req_err_def Let_def entry_fields(8) [OF at]
    by (rule returns_bind [OF req_context_typed [OF t q]]) (use s in \<open>auto simp: types_kept_def set_wr_id_def split: option.split\<close>)
qed

lemma srq_take_typed:
  assumes "i < srq_max (tm_base (hp_srq env k))"
  shows "returns (\<lambda>(w, env1). same_types env env1) (srq_take k i m env)"
  using assms same_types_srq by (simp add: srq_take_def Let_def)

lemma resp_take_typed:
  assumes n: "op_own_at p m AND 8 = 0"
    and t: "found t (CQ_OK, r, s, is_srq)" and k: "\<And>k. t = Some (To_Srq k) \<Longrightarrow> unat (ld_be16 (p + 60) m) < srq_max (tm_base (hp_srq env k))"
    and w: "\<And>k. t = Some (To_Rwq k) \<Longrightarrow> op_own_at p m AND 4 = 0"
  shows "returns (\<lambda>(err, w, cs, env1). same_types env env1) (resp_take p m r (if is_srq then s else None) env)"
proof -
  define sc where "sc = (if op_own_at p m AND 4 = 0 then None else Some p)"
  have sc: "scatter_at p m = Inr sc" "op_own_at p m AND 4 = 0 \<Longrightarrow> sc = None" using n by (simp_all add: scatter_at_def sc_def)
  obtain g where g: "t = Some g" using t by (auto simp: found_def split: option.splits)
  show ?thesis
  proof (cases g)
    case (To_Qp q)
    with t g show ?thesis by (auto simp: found_def resp_take_def sc(1) Let_def split: prod.split option.split)
  next
    case (To_Rwq q)
    with t g w sc(2) show ?thesis by (auto simp: found_def resp_take_def sc(1) Let_def split: prod.split)
  next
    case (To_Srq j)
    have b: "(if is_srq then s else None) = Some j" using t g To_Srq by (simp add: found_def)
    have st: "returns (\<lambda>(w, env1). same_types env env1) (srq_take j (unat (ld_be16 (p + 60) m)) m env)"
      using k g To_Srq by (intro srq_take_typed) simp
    show ?thesis
      unfolding resp_take_def Let_def sc(1) b bind_res_Inr option.case
      by (rule returns_bind [OF st]) (auto split: option.split prod.split elim!: same_types_trans)
  qed
qed

text \<open>What an entry that fits says of its target, read from memory.\<close>

lemma fits_target:
  assumes at: "entry_at p m e" and f: "fits ver env e" and r: "is_receive e"
  defines "t \<equiv> target_of ver env (cqe_qpn p m) (cqe_uidx p m)"
  shows "\<And>k. t = Some (To_Srq k) \<Longrightarrow> unat (ld_be16 (p + 60) m) < srq_max (tm_base (hp_srq env k))"
    and "\<And>k. t = Some (To_Rwq k) \<Longrightarrow> op_own_at p m AND 4 = 0" and "op_own_at p m AND 8 = 0"
proof -
  have t: "t = target_of ver env (e_be32 56 e AND 0xffffff) (e_be32 32 e AND 0xffffff)" by (simp only: t_def entry_fields(1,2) [OF at])
  show "unat (ld_be16 (p + 60) m) < srq_max (tm_base (hp_srq env k))" if "t = Some (To_Srq k)" for k
    using f r that unfolding fits_def Let_def t [symmetric] entry_fields(3) [OF at] by (simp add: slot_fits_def)
  show "op_own_at p m AND 4 = 0" if "t = Some (To_Rwq k)" for k
  proof -
    have "last e AND 12 = 0" using f r that unfolding fits_def Let_def t [symmetric] by simp
    then show ?thesis using no_inline [of "op_own_at p m" "last e"] at by (simp add: entry_at_def)
  qed
  show "op_own_at p m AND 8 = 0" using entry_no64 [OF at] f by (simp add: fits_def Let_def)
qed

lemma parse_resp_typed:
  assumes at: "entry_at p (cq_buf (ps_cq ps)) e" and t: "ps_typed ver ps" and f: "fits ver (ps_env ps) e" and o: "is_receive e"
  shows "returns (\<lambda>(err, ps'). types_kept ver ps ps') (parse_resp False ver p ps)"
proof -
  let ?m = "cq_buf (ps_cq ps)" and ?env = "ps_env ps"
  let ?t = "target_of ver ?env (cqe_qpn p ?m) (cqe_uidx p ?m)"
  note ft = fits_target [OF at f o]
  show ?thesis
    unfolding parse_resp_def Let_def
  proof (rule returns_bind [OF cur_rsc_typed [OF t]], clarify)
    fix err r s is_srq
    assume a: "found ?t (err, r, s, is_srq)" "rsc_cached ver ?env (fst (snd (err, r, s, is_srq)))" "srq_cached ver ?env (fst (snd (snd (err, r, s, is_srq))))"
    show "returns (\<lambda>(err, ps'). types_kept ver ps ps')
      (if err \<noteq> CQ_OK then Inr (CQ_POLL_ERR, ps\<lparr>ps_rsc := r, ps_srq := s\<rparr>)
       else if False
       then if ?m (p + 40) \<noteq> MLX5_CQE_APP_TAG_MATCHING
            then bind_res (handle_responder_lazy p r (if is_srq then s else None) (ps_cq ps, ?env))
                  (\<lambda>(st, cq1, env1). Inr (CQ_OK, ps\<lparr>ps_rsc := r, ps_srq := s, ps_cq := cq1\<lparr>lz := (lz cq1)\<lparr>cq_status := st\<rparr>\<rparr>, ps_env := env1\<rparr>))
            else (case if is_srq then s else None of None \<Rightarrow> Inr (CQ_POLL_ERR, ps\<lparr>ps_rsc := r, ps_srq := s\<rparr>) | Some k \<Rightarrow> parse_tm p k (ps\<lparr>ps_rsc := r, ps_srq := s\<rparr>))
       else bind_res (handle_responder p ?m r (if is_srq then s else None) (ps_wc ps, ?env))
             (\<lambda>(st, wc1, env1). Inr (CQ_OK, ps\<lparr>ps_rsc := r, ps_srq := s, ps_wc := wc1\<lparr>wc_status := st\<rparr>, ps_env := env1\<rparr>)))"
    proof (cases "err = CQ_OK")
      case True
      have "returns (\<lambda>(st, wc1, env1). same_types ?env env1) (handle_responder p ?m r (if is_srq then s else None) (ps_wc ps, ?env))"
        unfolding handle_responder_def prod.case
        by (rule returns_bind [OF resp_take_typed [OF ft(3) a(1) [unfolded True] ft(1,2)]]) (auto simp: Let_def)
      then show ?thesis
        unfolding True if_False using a(2,3) by (auto simp: types_kept_def elim!: returns_bind)
    next
      case False
      with a show ?thesis by (simp add: types_kept_def)
    qed
  qed
qed

lemma parse_resp_err_typed:
  assumes at: "entry_at p (cq_buf (ps_cq ps)) e" and t: "ps_typed ver ps" and f: "fits ver (ps_env ps) e" and o: "e_opcode e = MLX5_CQE_RESP_ERR"
  shows "returns (\<lambda>(again, err, ps'). \<not> again \<and> types_kept ver ps ps') (parse_resp_err False ver p ps)"
proof -
  let ?m = "cq_buf (ps_cq ps)" and ?env = "ps_env ps"
  let ?t = "target_of ver ?env (cqe_qpn p ?m) (cqe_uidx p ?m)"
  have "is_receive e" using o by (simp add: is_receive_def)
  note ft = fits_target [OF at f this]
  have od: "\<not> is_odp_pfault_err p ?m" using f o entry_fields(5,6) [OF at] by (simp add: fits_def is_odp_pfault_err_def Let_def)
  show ?thesis
    unfolding parse_resp_err_def Let_def
  proof (rule returns_bind [OF cur_rsc_typed [OF t]], clarify)
    fix err r s is_srq
    assume a: "found ?t (err, r, s, is_srq)" "rsc_cached ver ?env (fst (snd (err, r, s, is_srq)))" "srq_cached ver ?env (fst (snd (snd (err, r, s, is_srq))))"
    let ?goal = "\<lambda>x. returns (\<lambda>(again, err, ps'). \<not> again \<and> types_kept ver ps ps') x"
    consider (err) "err \<noteq> CQ_OK" | (qp) q where "err = CQ_OK" "?t = Some (To_Qp q)" | (rwq) q where "err = CQ_OK" "?t = Some (To_Rwq q)"
      | (srq) k where "err = CQ_OK" "?t = Some (To_Srq k)"
      using a(1) by (auto simp: found_def split: option.splits target.splits)
    then show "?goal (if err \<noteq> CQ_OK then Inr (False, CQ_POLL_ERR, ps\<lparr>ps_rsc := r, ps_srq := s\<rparr>)
       else if is_srq then
         (case s of None \<Rightarrow> Inl Segfault
          | Some k \<Rightarrow>
              if is_odp_pfault_err p ?m
              then bind_res (mlx5_complete_odp_fault (unat (ld_be16 (p + 60) ?m)) (tm_base (hp_srq ?env k))) (\<lambda>b.
                     Inr (True, CQ_OK, ps\<lparr>ps_rsc := r, ps_srq := s, ps_env := ?env\<lparr>hp_srq := (hp_srq ?env)(k := (hp_srq ?env k)\<lparr>tm_base := b\<rparr>)\<rparr>\<rparr>))
              else bind_res (srq_take k (unat (ld_be16 (p + 60) ?m)) ?m ?env) (\<lambda>(w, env1). Inr (False, CQ_OK, (set_wr_id False w (ps\<lparr>ps_rsc := r, ps_srq := s\<rparr>))\<lparr>ps_env := env1\<rparr>)))
       else
         (case r of None \<Rightarrow> Inl Segfault
          | Some x \<Rightarrow>
              if rsc_type x = MLX5_RSC_TYPE_RWQ
              then (case rq_take (hp_rwq ?env (rsc_obj x)) of (w, wq1) \<Rightarrow>
                      Inr (False, CQ_OK, (set_wr_id False w (ps\<lparr>ps_rsc := r, ps_srq := s\<rparr>))\<lparr>ps_env := ?env\<lparr>hp_rwq := (hp_rwq ?env)(rsc_obj x := wq1)\<rparr>\<rparr>))
              else if rsc_type x = MLX5_RSC_TYPE_QP
              then (case rq_take (rq (hp_qp ?env (rsc_obj x))) of (w, wq1) \<Rightarrow>
                      Inr (False, CQ_OK, (set_wr_id False w (ps\<lparr>ps_rsc := r, ps_srq := s\<rparr>))
                        \<lparr>ps_env := ?env\<lparr>hp_qp := (hp_qp ?env)(rsc_obj x := (hp_qp ?env (rsc_obj x))\<lparr>rq := wq1\<rparr>)\<rparr>\<rparr>))
              else Inl Undefined))"
    proof cases
      case err
      with a show ?thesis by (simp add: types_kept_def)
    next
      case qp
      with a show ?thesis by (auto simp: found_def types_kept_def set_wr_id_def split: prod.split)
    next
      case rwq
      with a show ?thesis by (auto simp: found_def types_kept_def set_wr_id_def split: prod.split)
    next
      case (srq k)
      then have b: "is_srq" "s = Some k" using a(1) by (simp_all add: found_def)
      have "returns (\<lambda>(w, env1). same_types ?env env1) (srq_take k (unat (ld_be16 (p + 60) ?m)) ?m ?env)" by (rule srq_take_typed [OF ft(1) [OF srq(2)]])
      with srq(1) b od a(2,3) show ?thesis by (auto simp: types_kept_def set_wr_id_def elim!: returns_bind)
    qed
  qed
qed

lemma parse_sig_err_typed:
  assumes at: "entry_at p (cq_buf (ps_cq ps)) e" and t: "ps_typed ver ps" and f: "fits ver (ps_env ps) e" and o: "e_opcode e = MLX5_CQE_SIG_ERR"
  shows "returns (\<lambda>r. case r of None \<Rightarrow> True | Some ps' \<Rightarrow> types_kept ver ps ps') (parse_sig_err p ps)"
proof -
  let ?env = "ps_env ps"
  have k: "ld_be32 (p + 36) (cq_buf (ps_cq ps)) = e_be32 36 e" using at by (simp add: entry_at_def)
  have m: "mlx5_find_mkey (mkey_table ?env) n = Inr (tab_map (mkey_table ?env) n)" for n
    using t find_qp_map [of "mkey_table ?env" n] by (simp add: ps_typed_def env_typed_def mkey_as_qp)
  show ?thesis
    using f o t unfolding parse_sig_err_def Let_def k m
    by (auto simp: fits_def types_kept_def ps_typed_def same_types_def Let_def split: option.split)
qed

subsection \<open>Polling\<close>

lemma types_kept_start: "types_kept ver (parse_start False p ps) ps' = types_kept ver ps ps'" "types_kept ver (err_status False p ps) ps' = types_kept ver ps ps'"
  by (simp_all add: types_kept_def parse_start_def err_status_def Let_def)

lemma start_fields:
  "cq_buf (ps_cq (parse_start False p ps)) = cq_buf (ps_cq ps)" "ps_env (parse_start False p ps) = ps_env ps" "ps_typed ver (parse_start False p ps) = ps_typed ver ps"
  "cq_buf (ps_cq (err_status False p ps)) = cq_buf (ps_cq ps)" "ps_env (err_status False p ps) = ps_env ps" "ps_typed ver (err_status False p ps) = ps_typed ver ps"
  by (simp_all add: parse_start_def err_status_def ps_typed_def Let_def)

lemma types_kept_refl: "ps_typed ver ps \<Longrightarrow> types_kept ver ps ps"
  by (simp add: types_kept_def ps_typed_def)

lemma types_kept_typed: "ps_typed ver ps \<Longrightarrow> types_kept ver ps ps' \<Longrightarrow> ps_typed ver ps'"
  using typed_step by (simp add: types_kept_def)

lemma types_kept_upd: "types_kept ver (ps\<lparr>ps_cq := c\<rparr>) ps' = types_kept ver ps ps'" "types_kept ver (ps\<lparr>ps_wc := w\<rparr>) ps' = types_kept ver ps ps'"
  by (simp_all add: types_kept_def)

lemma types_kept_trans: "types_kept ver a b \<Longrightarrow> types_kept ver b c \<Longrightarrow> types_kept ver a c"
  using same_types_keep(2,3) by (auto simp: types_kept_def intro: same_types_trans)

lemma parse_one_typed:
  assumes at: "entry_at p (cq_buf (ps_cq ps)) e" and t: "ps_typed ver ps" and f: "fits ver (ps_env ps) e"
  shows "returns (\<lambda>(again, err, ps'). types_kept ver ps ps') (parse_one False False ver p cqe ps)"
proof -
  let ?s = "parse_start False p ps" and ?m = "cq_buf (ps_cq ps)"
  have h: "entry_at p (cq_buf (ps_cq ?s)) e" "ps_typed ver ?s" "fits ver (ps_env ?s) e" using assms by (simp_all add: start_fields)
  have g: "entry_at p (cq_buf (ps_cq (err_status False p ?s))) e" "ps_typed ver (err_status False p ?s)" "fits ver (ps_env (err_status False p ?s)) e"
    using assms by (simp_all add: start_fields)
  have o: "mlx5dv_get_cqe_opcode p ?m = e_opcode e" using at by (simp add: entry_at_def)
  have fin: "returns (\<lambda>(again, err, ps'). types_kept ver ps ps') (bind_res x (\<lambda>(err, ps'). Inr (False, err, ps')))"
    if "returns (\<lambda>(err, ps'). types_kept ver ps ps') x" for x
    by (rule returns_bind [OF that]) auto
  consider (req) "e_opcode e = MLX5_CQE_REQ" | (reqe) "e_opcode e = MLX5_CQE_REQ_ERR" | (resp) "is_receive e" "e_opcode e \<noteq> MLX5_CQE_RESP_ERR"
    | (respe) "e_opcode e = MLX5_CQE_RESP_ERR" | (no) "e_opcode e = MLX5_CQE_NO_PACKET" | (sig) "e_opcode e = MLX5_CQE_SIG_ERR"
    | (any) "e_opcode e \<notin> {MLX5_CQE_REQ, MLX5_CQE_REQ_ERR, MLX5_CQE_RESP_ERR, MLX5_CQE_NO_PACKET, MLX5_CQE_SIG_ERR}" "\<not> is_receive e"
    by blast
  then show ?thesis
  proof cases
    case req
    with fin [OF parse_req_typed [OF h req, unfolded types_kept_start]] show ?thesis by (simp add: parse_one_def o Let_def)
  next
    case reqe
    with fin [OF parse_req_err_typed [OF g reqe, unfolded types_kept_start]] show ?thesis by (simp add: parse_one_def o freezes_def Let_def)
  next
    case resp
    with fin [OF parse_resp_typed [OF h resp(1), unfolded types_kept_start]] show ?thesis by (auto simp: parse_one_def o is_receive_def Let_def)
  next
    case respe
    have "returns (\<lambda>(again, err, ps'). types_kept ver ps ps') (parse_resp_err False ver p (err_status False p ?s))"
      by (rule returns_weaken [OF parse_resp_err_typed [OF g respe, unfolded types_kept_start]]) auto
    with respe show ?thesis by (simp add: parse_one_def o freezes_def Let_def)
  next
    case no
    then have "?m (p + 40) \<noteq> MLX5_CQE_APP_TAG_MATCHING" using f entry_fields(4) [OF at] by (simp add: fits_def Let_def)
    then have "parse_no_packet ver p ?s = Inr (CQ_POLL_ERR, ?s)" by (simp add: parse_no_packet_def start_fields)
    with no types_kept_refl [OF h(2)] show ?thesis by (simp add: parse_one_def o types_kept_start Let_def)
  next
    case sig
    have "returns (\<lambda>(again, err, ps'). types_kept ver ps ps')
        (bind_res (parse_sig_err p ?s) (\<lambda>r. case r of None \<Rightarrow> Inr (False, CQ_POLL_ERR, ?s) | Some ps1 \<Rightarrow> Inr (True, CQ_OK, ps1)))"
      by (rule returns_bind [OF parse_sig_err_typed [OF h sig, unfolded types_kept_start]]) (use types_kept_refl [OF h(2), unfolded types_kept_start] in \<open>auto split: option.split\<close>)
    with sig show ?thesis by (simp add: parse_one_def o Let_def)
  next
    case any
    with types_kept_refl [OF h(2)] show ?thesis by (auto simp: parse_one_def o is_receive_def types_kept_start Let_def)
  qed
qed

lemma returns_settles: "returns P r \<Longrightarrow> settles Q r \<Longrightarrow> returns (\<lambda>x. P x \<and> Q x) r"
  by (cases r) auto

lemma parse_loop_typed:
  assumes "entry_at p (cq_buf (ps_cq ps)) e" "cq_view b (ps_cq ps) es" "ps_typed ver ps" "list_all (fits ver (ps_env ps)) (e # es)" "length es < n"
  shows "returns (\<lambda>(err, ps'). types_kept ver ps ps') (parse_loop n False False ver p cqe ps)"
  using assms
proof (induction n arbitrary: p e cqe ps es)
  case (Suc n)
  have f: "fits ver (ps_env ps) e" using Suc.prems(4) by simp
  show ?case
    unfolding parse_loop.simps
  proof (rule returns_bind [OF returns_settles [OF parse_one_typed [OF Suc.prems(1,3) f] parse_one_ring [OF refl]]], clarify)
    fix again err and ps1 :: poll_st assume k: "types_kept ver ps ps1" and r: "ring (ps_cq ps1) = ring (ps_cq ps)"
    have v: "cq_view b (ps_cq ps1) es" using ring_view [OF r] Suc.prems(2) by simp
    have t: "ps_typed ver ps1" by (rule types_kept_typed [OF Suc.prems(3) k])
    have ft: "fits ver (ps_env ps1) = fits ver (ps_env ps)" using same_types_keep(4) k by (auto simp: types_kept_def)
    show "returns (\<lambda>(err, ps'). types_kept ver ps ps')
       (if \<not> again then Inr (err, ps1) else case mlx5_get_next_cqe (ps_cq ps1) of None \<Rightarrow> Inr (CQ_POLL_NODATA, ps1)
        | Some (e', cqe', cq') \<Rightarrow> parse_loop n False False ver e' cqe' (ps1\<lparr>ps_cq := cq'\<rparr>))"
    proof (cases es)
      case Nil
      then have "mlx5_get_next_cqe (ps_cq ps1) = None" using next_empty v by simp
      with k show ?thesis by simp
    next
      case (Cons x es')
      obtain p' cqe' where nx: "mlx5_get_next_cqe (ps_cq ps1) = Some (p', cqe', taken 1 (ps_cq ps1))" "entry_at p' (cq_buf (ps_cq ps1)) x"
          "cq_view b (taken 1 (ps_cq ps1)) es'"
        using next_entry_at [OF v [unfolded Cons]] by blast
      have "returns (\<lambda>(err, ps'). types_kept ver (ps1\<lparr>ps_cq := taken 1 (ps_cq ps1)\<rparr>) ps') (parse_loop n False False ver p' cqe' (ps1\<lparr>ps_cq := taken 1 (ps_cq ps1)\<rparr>))"
        by (rule Suc.IH [where e = x and es = es'])
          (use nx(2,3) t Suc.prems(4,5) Cons ft in \<open>simp_all add: ps_typed_def taken_def\<close>)
      then have "returns (\<lambda>(err, ps'). types_kept ver ps ps') (parse_loop n False False ver p' cqe' (ps1\<lparr>ps_cq := taken 1 (ps_cq ps1)\<rparr>))"
        by (rule returns_weaken) (auto simp: types_kept_upd intro: types_kept_trans [OF k])
      with k nx(1) show ?thesis by simp
    qed
  qed
qed simp

lemma poll_one_typed:
  assumes v: "cq_view b (ps_cq ps) es" and t: "ps_typed ver ps" and f: "list_all (fits ver (ps_env ps)) es"
  shows "returns (\<lambda>(err, ps'). types_kept ver ps ps') (mlx5_poll_one False ver ps)"
proof (cases es)
  case Nil
  then show ?thesis using next_empty [of b "ps_cq ps"] v types_kept_refl [OF t] by (simp add: mlx5_poll_one_def)
next
  case (Cons x es')
  obtain p cqe where nx: "mlx5_get_next_cqe (ps_cq ps) = Some (p, cqe, taken 1 (ps_cq ps))" "entry_at p (cq_buf (ps_cq ps)) x"
      "cq_view b (taken 1 (ps_cq ps)) es'"
    using next_entry_at [OF v [unfolded Cons]] by blast
  have "returns (\<lambda>(err, ps'). types_kept ver (ps\<lparr>ps_cq := taken 1 (ps_cq ps)\<rparr>) ps')
      (parse_loop (unat (cq_cqe (ps_cq ps)) + 2) False False ver p cqe (ps\<lparr>ps_cq := taken 1 (ps_cq ps)\<rparr>))"
    by (rule parse_loop_typed [where e = x and es = es' and b = b])
      (use nx(2,3) t f Cons view_bound [OF nx(3)] in \<open>simp_all add: ps_typed_def taken_def\<close>)
  then show ?thesis by (simp add: mlx5_poll_one_def mlx5_parse_cqe_def nx(1) types_kept_upd taken_def del: parse_loop.simps)
qed

lemma poll_loop_typed:
  assumes "cq_view b (ps_cq ps) es" "ps_typed ver ps" "list_all (fits ver (ps_env ps)) es" "n \<le> length wcs"
  shows "returns (\<lambda>(err, j, wcs', ps'). types_kept ver ps ps') (poll_loop n False ver wcs ps)"
  using assms
proof (induction n arbitrary: ps es wcs)
  case 0
  then show ?case by (simp add: types_kept_refl)
next
  case (Suc n)
  then obtain wc ws where w: "wcs = wc # ws" "n \<le> length ws" by (cases wcs) auto
  let ?ps = "ps\<lparr>ps_wc := wc\<rparr>"
  have p: "cq_view b (ps_cq ?ps) es" "ps_typed ver ?ps" "list_all (fits ver (ps_env ?ps)) es" using Suc.prems by (simp_all add: ps_typed_def)
  show ?case
    unfolding w(1) poll_loop.simps
  proof (rule returns_bind [OF returns_settles [OF poll_one_typed [OF p] poll_one_settles [OF p(1)]]], clarify)
    fix err k and ps1 :: poll_st assume kt: "types_kept ver ?ps ps1" and k: "k \<le> length es" and r: "ring (ps_cq ps1) = ring (taken k (ps_cq ?ps))"
    have kt': "types_kept ver ps ps1" using kt by (simp add: types_kept_upd)
    have v: "cq_view b (ps_cq ps1) (drop k es)" using taken_view [OF p(1) k] ring_view [OF r] by simp
    have ft: "fits ver (ps_env ps1) = fits ver (ps_env ps)" using same_types_keep(4) kt' by (auto simp: types_kept_def)
    have "list_all (fits ver (ps_env ps1)) (drop k es)" using Suc.prems(3) ft by (auto simp: list_all_iff dest: in_set_dropD)
    note IH = Suc.IH [OF v types_kept_typed [OF p(2) kt] this w(2)]
    show "returns (\<lambda>(err, j, wcs', ps'). types_kept ver ps ps')
        (if err \<noteq> CQ_OK then Inr (err, 0, ps_wc ps1 # ws, ps1)
         else bind_res (poll_loop n False ver ws ps1) (\<lambda>(err', k, wcs', ps2). Inr (err', Suc k, ps_wc ps1 # wcs', ps2)))"
    proof (cases "err = CQ_OK")
      case True
      have "returns (\<lambda>(err, j, wcs', ps'). types_kept ver ps ps')
          (bind_res (poll_loop n False ver ws ps1) (\<lambda>(err', k, wcs', ps2). Inr (err', Suc k, ps_wc ps1 # wcs', ps2)))"
        by (rule returns_bind [OF IH]) (auto intro: types_kept_trans [OF kt'])
      with True show ?thesis by simp
    next
      case False
      with kt' show ?thesis by simp
    qed
  qed
qed

text \<open>
  C9. Polling is type safe.  If the tables are well typed, the entries of the ring fit the objects they name and the
  array has room, a poll for completions returns: it follows no null pointer, takes no object for one of another
  kind, and stays inside the queues and the array.  The tables are well typed afterwards, no object has changed
  its type, and the entries that are left in the ring still fit.
\<close>
theorem poll_cq_typed:
  assumes "cq_view b cq es" "env_typed env" "list_all (fits ver env) es" "nat ne \<le> length wcs"
  shows "case poll_cq cfg False ver ne wcs (cq, env) of
           Inl f \<Rightarrow> False
         | Inr (r, wcs', cq', env') \<Rightarrow> env_typed env' \<and> same_types env env' \<and> (\<exists>k. took b cq es k cq' \<and> list_all (fits ver env') (drop k es))"
proof -
  let ?ps = "\<lparr>ps_cq = stall_before cq, ps_env = env, ps_wc = zero_wc, ps_rsc = None, ps_srq = None\<rparr>"
  let ?Q = "\<lambda>(r, wcs', cq', env'). env_typed env' \<and> same_types env env' \<and> (\<exists>k. took b cq es k cq' \<and> list_all (fits ver env') (drop k es))"
  have p: "cq_view b (ps_cq ?ps) es" "ps_typed ver ?ps" "list_all (fits ver (ps_env ?ps)) es"
    using assms ring_view [OF stall_before_ring [of cq]] by (simp_all add: ps_typed_def rsc_cached_def srq_cached_def)
  have "returns ?Q (poll_cq cfg False ver ne wcs (cq, env))"
    unfolding poll_cq_def prod.case
  proof (rule returns_bind [OF returns_settles [OF poll_loop_typed [OF p assms(4)] poll_loop_settles [OF p(1)]]], clarify)
    fix err j k and wcs' :: "ibv_wc list" and ps' :: poll_st assume kt: "types_kept ver ?ps ps'" and k: "k \<le> length es" and r: "ring (ps_cq ps') = ring (taken k (ps_cq ?ps))"
    have s: "same_types env (ps_env ps')" using kt by (simp add: types_kept_def)
    have "ring (ps_cq ps') = ring (taken k cq)" using r ring_taken_cong [OF stall_before_ring, of k cq] by simp
    from took_after [OF assms(1) k this] have "took b cq es k (stall_after cfg ne err (int j) (update_cons_index (ps_cq ps')))" .
    moreover have "list_all (fits ver (ps_env ps')) (drop k es)" using assms(3) same_types_keep(4) [OF s] by (auto simp: list_all_iff dest: in_set_dropD)
    ultimately show "returns ?Q (Inr (if err = CQ_POLL_ERR then err else int j, wcs', stall_after cfg ne err (int j) (update_cons_index (ps_cq ps')), ps_env ps'))"
      using s same_types_keep(1) [OF s] assms(2) by auto
  qed
  then show ?thesis by (cases "poll_cq cfg False ver ne wcs (cq, env)") auto
qed

lemma empty_tab_typed: "tab_map empty_tab n = None" "tab_ok empty_tab"
  by (simp_all add: tab_map_def empty_tab_def tab_ok_def row_ok_def)

lemma demo_typed: "env_typed demo_env"
proof -
  have m: "rsn r = n \<and> rsc_type r = MLX5_RSC_TYPE_QP" if "tab_map (qp_table demo_env) n = Some r" for n r
  proof -
    have "tind 7 = 0" "tind 8 = 0" "slot 7 = 7" "slot 8 = 8" by (simp_all add: tind_def slot_def)
    then show ?thesis
      using that tind_slot_inject [of n 7] tind_slot_inject [of n 8] by (auto simp: tab_map_def demo_env_def demo_rsc_def split: if_splits)
  qed
  have "tab_ok (qp_table demo_env)" using demo_env_ok by (simp add: env_ok_def rsc_table_def)
  moreover have "uidx_table demo_env = empty_tab" "srq_table demo_env = empty_tab" "mkey_table demo_env = empty_tab" by (simp_all add: demo_env_def)
  ultimately show ?thesis unfolding env_typed_def using m by (simp only: empty_tab_typed) simp
qed

lemma demo_fits: "list_all (fits False demo_env) [demo_cqe 0 7, demo_cqe 0 8]"
  using demo_typed by (auto simp: fits_def env_typed_def rsc_table_def demo_fields is_receive_def Let_def)

theorem poll_cq_typed_witness:
  "case poll_cq demo_stall False False 2 [zero_wc, zero_wc] (demo_full, demo_env) of
     Inl f \<Rightarrow> False
   | Inr (r, wcs', cq', env') \<Rightarrow> env_typed env' \<and> same_types demo_env env' \<and>
       (\<exists>k. took 2 demo_full [demo_cqe 0 7, demo_cqe 0 8] k cq' \<and> list_all (fits False env') (drop k [demo_cqe 0 7, demo_cqe 0 8]))"
  using poll_cq_typed [OF demo_entries [folded demo_full_def] demo_typed demo_fits, where ne = 2 and wcs = "[zero_wc, zero_wc]" and cfg = demo_stall]
  by simp

end
